(* ===== verification/Prelude.thy ===== *)
theory Prelude
  imports Main "HOL-Library.Word"
begin

text \<open>
  Shared vocabulary of the development: the machine types of the firmware, the
  big-endian packing of 32-bit addresses that every frame uses, the two C library
  functions the code calls on text (\<open>atol\<close> and \<open>rt_sprintf\<close> with \<open>%d\<close>), and the
  generic facts on words, lists and folds that several components need.
\<close>

unbundle bit_operations_syntax

type_synonym byte = "8 word"
type_synonym u16 = "16 word"
type_synonym u32 = "32 word"

text \<open>Memory seen from a pointer: the byte at every offset.\<close>

type_synonym mem = "nat \<Rightarrow> byte"

named_theorems frame \<open>what an operation leaves alone\<close>
named_theorems keep \<open>an operation keeps an invariant\<close>

section \<open>Big-endian 32-bit words\<close>

text \<open>\<open>(a << 24) | (b << 16) | (c << 8) | d\<close>, as every parser of the firmware writes it.\<close>

definition be32 :: "byte \<Rightarrow> byte \<Rightarrow> byte \<Rightarrow> byte \<Rightarrow> u32" where
  "be32 a b c d =
     push_bit 24 (ucast a) OR push_bit 16 (ucast b) OR push_bit 8 (ucast c) OR ucast d"

text \<open>\<open>(w >> 24) & 0xFF\<close>, \<open>(w >> 16) & 0xFF\<close>, \<open>(w >> 8) & 0xFF\<close>, \<open>w & 0xFF\<close>.\<close>

definition split32 :: "u32 \<Rightarrow> byte list" where
  "split32 w =
     [ucast (drop_bit 24 w AND 0xFF), ucast (drop_bit 16 w AND 0xFF),
      ucast (drop_bit 8 w AND 0xFF), ucast (w AND 0xFF)]"

lemma length_split32 [simp]: "length (split32 w) = 4"
  by (simp add: split32_def)

lemma ucast_and_ff: "(ucast (w AND 0xFF :: u32) :: byte) = ucast w"
proof (rule bit_word_eqI)
  fix n assume n: "n < LENGTH(8)"
  have "w AND 0xFF = w AND mask 8" by (simp add: mask_eq_exp_minus_1)
  then have "bit (w AND 0xFF) n = bit (w AND mask 8) n" by (rule arg_cong)
  with n show "bit (ucast (w AND 0xFF :: u32) :: byte) n = bit (ucast w :: byte) n"
    by (simp add: bit_simps)
qed

lemma be32_bytes:
  "be32 (ucast (drop_bit 24 w)) (ucast (drop_bit 16 w)) (ucast (drop_bit 8 w)) (ucast w) = w"
proof (rule bit_word_eqI)
  fix n assume n: "n < LENGTH(32)"
  have [simp]: "24 \<le> n \<Longrightarrow> 24 + (n - 24) = n" "16 \<le> n \<Longrightarrow> 16 + (n - 16) = n"
    "8 \<le> n \<Longrightarrow> 8 + (n - 8) = n" by auto
  consider "n < 8" | "8 \<le> n \<and> n < 16" | "16 \<le> n \<and> n < 24" | "24 \<le> n" by linarith
  then show "bit (be32 (ucast (drop_bit 24 w)) (ucast (drop_bit 16 w))
      (ucast (drop_bit 8 w)) (ucast w)) n = bit w n"
    by cases (use n in \<open>auto simp: be32_def bit_simps\<close>)
qed

lemma be32_split32:
  "be32 (split32 w ! 0) (split32 w ! 1) (split32 w ! 2) (split32 w ! 3) = w"
  by (simp add: split32_def ucast_and_ff be32_bytes numeral_3_eq_3)

lemma split32_inj: "split32 v = split32 w \<longleftrightarrow> v = w"
  by (metis be32_split32)

section \<open>Decimal text\<close>

text \<open>\<open>isspace\<close> and \<open>isdigit\<close> of the C locale.\<close>

definition isspace :: "char \<Rightarrow> bool" where
  "isspace c \<longleftrightarrow> (of_char c :: nat) = 32 \<or> (9 \<le> (of_char c :: nat) \<and> (of_char c :: nat) \<le> 13)"

definition isdigit :: "char \<Rightarrow> bool" where
  "isdigit c \<longleftrightarrow> 48 \<le> (of_char c :: nat) \<and> (of_char c :: nat) \<le> 57"

definition digit_value :: "char \<Rightarrow> int" where
  "digit_value c = int (of_char c) - 48"

definition digits_value :: "string \<Rightarrow> int" where
  "digits_value cs = foldl (\<lambda>a c. a * 10 + digit_value c) 0 cs"

text \<open>
  \<open>atol\<close>: leading white space, an optional sign, then digits up to the first
  character that is not one.
\<close>

definition atol :: "string \<Rightarrow> int" where
  "atol s =
     (let t = dropWhile isspace s in
      case t of
        [] \<Rightarrow> 0
      | c # u \<Rightarrow>
          if c = CHR ''-'' then - digits_value (takeWhile isdigit u)
          else if c = CHR ''+'' then digits_value (takeWhile isdigit u)
          else digits_value (takeWhile isdigit t))"

text \<open>The decimal digits \<open>%d\<close> prints, most significant first.\<close>

fun show_nat :: "nat \<Rightarrow> string" where
  "show_nat n =
     (if n < 10 then [char_of (48 + n)]
      else show_nat (n div 10) @ [char_of (48 + n mod 10)])"

declare show_nat.simps [simp del]

definition sprintf_d :: "int \<Rightarrow> string" where
  "sprintf_d i = (if i < 0 then CHR ''-'' # show_nat (nat (- i)) else show_nat (nat i))"

lemma of_char_digit: "d < 10 \<Longrightarrow> (of_char (char_of (48 + d :: nat)) :: nat) = 48 + d"
  by (simp add: of_char_of)

lemma isdigit_char: "d < 10 \<Longrightarrow> isdigit (char_of (48 + d :: nat))"
  by (simp add: isdigit_def of_char_digit)

lemma digit_value_char: "d < 10 \<Longrightarrow> digit_value (char_of (48 + d :: nat)) = int d"
  by (simp add: digit_value_def of_char_digit)

lemma digits_value_snoc: "digits_value (cs @ [c]) = digits_value cs * 10 + digit_value c"
  by (simp add: digits_value_def)

lemma show_nat_digits: "\<forall>c \<in> set (show_nat n). isdigit c"
proof (induction n rule: show_nat.induct)
  case (1 n)
  then show ?case
    by (cases "n < 10") (auto simp: show_nat.simps [of n] isdigit_char)
qed

lemma show_nat_value: "digits_value (show_nat n) = int n"
proof (induction n rule: show_nat.induct)
  case (1 n)
  show ?case
  proof (cases "n < 10")
    case True
    then show ?thesis
      by (simp add: show_nat.simps [of n] digits_value_def digit_value_char)
  next
    case False
    then have "digits_value (show_nat n) = int (n div 10) * 10 + int (n mod 10)"
      using 1 by (simp add: show_nat.simps [of n] digits_value_snoc digit_value_char)
    also have "\<dots> = int n"
      by (metis div_mult_mod_eq of_nat_add of_nat_mult of_nat_numeral)
    finally show ?thesis .
  qed
qed

lemma show_nat_nonempty: "show_nat n \<noteq> []"
  by (subst show_nat.simps) simp

lemma isdigit_not_space: "isdigit c \<Longrightarrow> \<not> isspace c"
  by (auto simp: isdigit_def isspace_def)

lemma isdigit_not_sign: "isdigit c \<Longrightarrow> c \<noteq> CHR ''-'' \<and> c \<noteq> CHR ''+''"
  by (auto simp: isdigit_def)

lemma takeWhile_digits:
  "\<forall>c \<in> set ds. isdigit c \<Longrightarrow> takeWhile isdigit ds = ds"
  by (simp add: takeWhile_eq_all_conv)

text \<open>Reading back what \<open>%d\<close> printed gives the number, negative or not.\<close>

lemma atol_sprintf_d: "atol (sprintf_d i) = i"
proof (cases "i < 0")
  case True
  have "\<not> isspace (CHR ''-'')" by (simp add: isspace_def)
  with True show ?thesis
    by (simp add: sprintf_d_def atol_def takeWhile_digits show_nat_digits show_nat_value)
next
  case False
  obtain c ds where cd: "show_nat (nat i) = c # ds"
    using show_nat_nonempty by (cases "show_nat (nat i)") auto
  have "isdigit c" using show_nat_digits [of "nat i"] cd by simp
  then have "atol (show_nat (nat i)) = digits_value (takeWhile isdigit (show_nat (nat i)))"
    using isdigit_not_space isdigit_not_sign by (auto simp: atol_def cd)
  with False show ?thesis
    by (simp add: sprintf_d_def takeWhile_digits show_nat_digits show_nat_value)
qed

lemma show_nat_inj: "show_nat m = show_nat n \<longleftrightarrow> m = n"
  by (metis of_nat_eq_iff show_nat_value)

section \<open>Lists\<close>

text \<open>Rewriting the first element that satisfies a test, the effect of a write through
  the pointer a search loop returned.\<close>

fun upd_first :: "('a \<Rightarrow> bool) \<Rightarrow> ('a \<Rightarrow> 'a) \<Rightarrow> 'a list \<Rightarrow> 'a list" where
  "upd_first p f [] = []"
| "upd_first p f (x # xs) = (if p x then f x # xs else x # upd_first p f xs)"

text \<open>Dropping the first element that satisfies a test.\<close>

fun del_first :: "('a \<Rightarrow> bool) \<Rightarrow> 'a list \<Rightarrow> 'a list" where
  "del_first p [] = []"
| "del_first p (x # xs) = (if p x then xs else x # del_first p xs)"

lemma length_upd_first [simp]: "length (upd_first p f xs) = length xs"
  by (induction xs) auto

lemma map_upd_first:
  "(\<And>x. g (f x) = g x) \<Longrightarrow> map g (upd_first p f xs) = map g xs"
  by (induction xs) auto

lemma upd_first_none: "\<forall>x \<in> set xs. \<not> p x \<Longrightarrow> upd_first p f xs = xs"
  by (induction xs) auto

lemma set_del_first_subset: "set (del_first p xs) \<subseteq> set xs"
  by (induction xs) auto

lemma length_del_first_le: "length (del_first p xs) \<le> length xs"
  by (induction xs) auto

lemma del_first_key:
  "distinct (map k xs) \<Longrightarrow> del_first (\<lambda>x. k x = a) xs = filter (\<lambda>x. k x \<noteq> a) xs"
proof (induction xs)
  case (Cons x xs)
  then have "k x = a \<Longrightarrow> filter (\<lambda>y. k y \<noteq> a) xs = xs"
    by (metis (mono_tags, lifting) distinct.simps(2) filter_True image_eqI list.simps(9) set_map)
  with Cons show ?case by auto
qed simp

lemma distinct_map_filter_key: "distinct (map k xs) \<Longrightarrow> distinct (map k (filter p xs))"
  by (simp add: distinct_map_filter)

lemma find_Some_in: "List.find p xs = Some x \<Longrightarrow> x \<in> set xs \<and> p x"
  by (auto simp: find_Some_iff in_set_conv_nth)

lemma find_None_all: "List.find p xs = None \<longleftrightarrow> (\<forall>x \<in> set xs. \<not> p x)"
  by (auto simp: find_None_iff)

text \<open>A loop keeps what its body keeps.\<close>

lemma fold_keep: "\<lbrakk>P s; \<And>x s. P s \<Longrightarrow> P (f x s)\<rbrakk> \<Longrightarrow> P (fold f xs s)"
  by (induction xs arbitrary: s) auto

lemma fold_same: "(\<And>x s. g (f x s) = g s) \<Longrightarrow> g (fold f xs s) = g s"
  by (induction xs arbitrary: s) auto

end
