(* ===== verification/Ws2812b.thy ===== *)
theory Ws2812b
  imports Prelude
begin

text \<open>
  The pixel buffer of the RGB lamps (\<open>applications/ws2812b.c\<close>): one row of 24 timer
  compare values per lamp, eight for green, eight for red, eight for blue, most
  significant bit first; a 1 bit is the compare value \<open>CODE_1\<close>, a 0 bit \<open>CODE_0\<close>.
  The DMA transfer of the buffer is hardware and not modelled.
\<close>

definition CODE_1 :: nat where "CODE_1 = 39"
definition CODE_0 :: nat where "CODE_0 = 18"

type_synonym pixel_row = "nat \<Rightarrow> nat"
type_synonym pixel_buf = "nat \<Rightarrow> pixel_row"

record rgb_color =
  R :: byte
  G :: byte
  B :: byte

definition BLACK :: rgb_color where
  "BLACK = \<lparr>R = 0, G = 0, B = 0\<rparr>"

definition set_pixel :: "nat \<Rightarrow> nat \<Rightarrow> nat \<Rightarrow> pixel_buf \<Rightarrow> pixel_buf" where
  "set_pixel n i v pb = pb(n := (pb n)(i := v))"

definition ws2812b_green :: "nat \<Rightarrow> byte \<Rightarrow> pixel_buf \<Rightarrow> pixel_buf" where
  "ws2812b_green n v pb =
     (if v \<noteq> 0
      then fold (\<lambda>i. set_pixel n i
             (if (25 :: byte) AND push_bit (7 - i) 1 \<noteq> 0 then CODE_1 else CODE_0)) [0..<8] pb
      else fold (\<lambda>i. set_pixel n i
             (if (0 :: byte) AND push_bit (7 - i) 1 \<noteq> 0 then CODE_1 else CODE_0)) [0..<8] pb)"

definition ws2812b_red :: "nat \<Rightarrow> byte \<Rightarrow> pixel_buf \<Rightarrow> pixel_buf" where
  "ws2812b_red n v pb =
     (if v \<noteq> 0
      then fold (\<lambda>i. set_pixel n i
             (if (25 :: byte) AND push_bit (15 - i) 1 \<noteq> 0 then CODE_1 else CODE_0)) [8..<16] pb
      else fold (\<lambda>i. set_pixel n i
             (if (0 :: byte) AND push_bit (15 - i) 1 \<noteq> 0 then CODE_1 else CODE_0)) [8..<16] pb)"

definition ws2812b_blue :: "nat \<Rightarrow> byte \<Rightarrow> pixel_buf \<Rightarrow> pixel_buf" where
  "ws2812b_blue n v pb =
     (if v \<noteq> 0
      then fold (\<lambda>i. set_pixel n i
             (if (25 :: byte) AND push_bit (23 - i) 1 \<noteq> 0 then CODE_1 else CODE_0)) [16..<24] pb
      else fold (\<lambda>i. set_pixel n i
             (if (0 :: byte) AND push_bit (23 - i) 1 \<noteq> 0 then CODE_1 else CODE_0)) [16..<24] pb)"

definition RGB_SetColor :: "nat \<Rightarrow> rgb_color \<Rightarrow> pixel_buf \<Rightarrow> pixel_buf" where
  "RGB_SetColor n c pb =
     (let p1 = fold (\<lambda>i. set_pixel n i
            (if G c AND push_bit (7 - i) 1 \<noteq> 0 then CODE_1 else CODE_0)) [0..<8] pb;
          p2 = fold (\<lambda>i. set_pixel n i
            (if R c AND push_bit (15 - i) 1 \<noteq> 0 then CODE_1 else CODE_0)) [8..<16] p1
      in fold (\<lambda>i. set_pixel n i
            (if B c AND push_bit (23 - i) 1 \<noteq> 0 then CODE_1 else CODE_0)) [16..<24] p2)"

section \<open>What a loop over a stretch of a row writes\<close>

lemma fold_set_pixel:
  "distinct is \<Longrightarrow> fold (\<lambda>i. set_pixel n i (f i)) is pb m j =
     (if m = n \<and> j \<in> set is then f j else pb m j)"
  by (induction "is" arbitrary: pb) (auto simp: set_pixel_def)

lemmas and_single_bit = bit_iff_and_push_bit_not_eq_0 [symmetric]

lemma ws2812b_green_at:
  "ws2812b_green n v pb m j =
     (if m = n \<and> j < 8 then (if v \<noteq> 0 \<and> bit (25 :: byte) (7 - j) then CODE_1 else CODE_0)
      else pb m j)"
  unfolding ws2812b_green_def and_single_bit fold_set_pixel [OF distinct_upt] set_upt
  by auto

lemma ws2812b_red_at:
  "ws2812b_red n v pb m j =
     (if m = n \<and> 8 \<le> j \<and> j < 16
      then (if v \<noteq> 0 \<and> bit (25 :: byte) (15 - j) then CODE_1 else CODE_0) else pb m j)"
  unfolding ws2812b_red_def and_single_bit fold_set_pixel [OF distinct_upt] set_upt
  by auto

lemma ws2812b_blue_at:
  "ws2812b_blue n v pb m j =
     (if m = n \<and> 16 \<le> j \<and> j < 24
      then (if v \<noteq> 0 \<and> bit (25 :: byte) (23 - j) then CODE_1 else CODE_0) else pb m j)"
  unfolding ws2812b_blue_def and_single_bit fold_set_pixel [OF distinct_upt] set_upt
  by auto

lemma RGB_SetColor_at:
  "RGB_SetColor n c pb m j =
     (if m = n \<and> j < 8 then (if bit (G c) (7 - j) then CODE_1 else CODE_0)
      else if m = n \<and> j < 16 then (if bit (R c) (15 - j) then CODE_1 else CODE_0)
      else if m = n \<and> j < 24 then (if bit (B c) (23 - j) then CODE_1 else CODE_0)
      else pb m j)"
  unfolding RGB_SetColor_def and_single_bit Let_def fold_set_pixel [OF distinct_upt] set_upt
  by auto

text \<open>
  The bit \<open>k\<close> of the colour byte that starts at column \<open>lo\<close> of a row, as the lamp decodes it.
\<close>

definition pixel_bit :: "pixel_row \<Rightarrow> nat \<Rightarrow> nat \<Rightarrow> bool" where
  "pixel_bit row lo k \<longleftrightarrow> row (lo + 7 - k) = CODE_1"

lemma CODE_distinct [simp]: "CODE_1 \<noteq> CODE_0" "CODE_0 \<noteq> CODE_1"
  by (simp_all add: CODE_1_def CODE_0_def)

text \<open>
  The row a colour is loaded into decodes to exactly that colour, and no other lamp
  changes.
\<close>

lemma RGB_SetColor_decodes:
  assumes "k < 8"
  shows "pixel_bit (RGB_SetColor n c pb n) 0 k = bit (G c) k"
    and "pixel_bit (RGB_SetColor n c pb n) 8 k = bit (R c) k"
    and "pixel_bit (RGB_SetColor n c pb n) 16 k = bit (B c) k"
  using assms by (auto simp: pixel_bit_def RGB_SetColor_at)

lemma RGB_SetColor_other: "m \<noteq> n \<Longrightarrow> RGB_SetColor n c pb m = pb m"
  by (rule ext) (simp add: RGB_SetColor_at)

text \<open>A lamp colour is lit when the byte that starts at its column is not zero.\<close>

definition lit_at :: "pixel_row \<Rightarrow> nat \<Rightarrow> bool" where
  "lit_at row lo \<longleftrightarrow> (\<exists>k \<in> {0..<8}. pixel_bit row lo k)"

lemma lit_green: "lit_at (ws2812b_green n v pb n) 0 \<longleftrightarrow> v \<noteq> 0"
  by (cases "v = 0")
    (auto simp: lit_at_def pixel_bit_def ws2812b_green_at intro!: bexI [of _ 0])

lemma lit_red: "lit_at (ws2812b_red n v pb n) 8 \<longleftrightarrow> v \<noteq> 0"
  by (cases "v = 0")
    (auto simp: lit_at_def pixel_bit_def ws2812b_red_at intro!: bexI [of _ 0])

lemma lit_blue: "lit_at (ws2812b_blue n v pb n) 16 \<longleftrightarrow> v \<noteq> 0"
  by (cases "v = 0")
    (auto simp: lit_at_def pixel_bit_def ws2812b_blue_at intro!: bexI [of _ 0])

text \<open>
  The row a colour is loaded into decodes, most significant bit first, to exactly the green, red and
  blue bytes of that colour, and no other lamp's row changes.
\<close>

theorem colour_roundtrip:
  "(\<forall>k < 8. pixel_bit (RGB_SetColor n c pb n) 0 k = bit (G c) k \<and>
            pixel_bit (RGB_SetColor n c pb n) 8 k = bit (R c) k \<and>
            pixel_bit (RGB_SetColor n c pb n) 16 k = bit (B c) k) \<and>
   (\<forall>m. m \<noteq> n \<longrightarrow> RGB_SetColor n c pb m = pb m)"
  by (simp add: RGB_SetColor_decodes RGB_SetColor_other)

lemma colour_roundtrip_witness:
  "pixel_bit (RGB_SetColor 3 \<lparr>R = 0, G = 25, B = 255\<rparr> (\<lambda>_ _. 0) 3) 0 4 = True"
  using colour_roundtrip [of 3 "\<lparr>R = 0, G = 25, B = 255\<rparr>" "\<lambda>_ _. 0"]
  by (auto simp: bit_numeral_rec)

end
