(* ===== verification/Signal_Led.thy ===== *)
theory Signal_Led
  imports Ws2812b
begin

text \<open>
  The signal-lamp library (\<open>packages/SignalLed-v1.3.0/src/signal_led.c\<close>) with the
  output functions the application registers for its lamps (the static functions of
  \<open>applications/led.c\<close>). A lamp plays a pattern of on and off times, counted in ticks
  of 50 ms, a given number of times or for ever; \<open>led_ticks\<close> advances every started lamp.

  The counters \<open>handle_cnt\<close> (16 bit), \<open>mode_pointer\<close> (8 bit) and \<open>blink_point\<close>
  (32 bit) are natural numbers here: every operation keeps the invariant \<open>bank_ok\<close> below, and with it they stay
  inside the C fields for the patterns of the application (\<open>Background.led_counters_fit\<close>, for every reachable state).
\<close>

section \<open>Lamps and their outputs\<close>

datatype led_id =
    led_obj_off_red | led_obj_loss_red | led_obj_off_red_once | led_obj_off_red_three
  | led_obj_on_green
  | beep_obj | beep_obj_loss | beep_obj_once | beep_obj_learn | beep_obj_three
  | led_obj_wifi_green_led | led_obj_wifi_red_led | led_obj_wifi_blue_led

text \<open>\<open>led_internal_t\<close>: \<open>led_loop\<close> and \<open>led_state\<close> are its fields \<open>loop\<close> and \<open>state\<close>.\<close>

record led_internal =
  led_state :: bool
  mode_pointer :: nat
  mode_cnt :: nat
  handle_cnt :: nat
  led_loop :: nat
  loop_temp :: nat
  blink_point :: nat
  blink_arr :: "nat list"
  blink_mode :: string

record led_bank =
  lamp :: "led_id \<Rightarrow> led_internal"
  first_handle :: "led_id list"
  Pixel_Buf :: pixel_buf
  beep_level :: bool
  led_valve_on_pause_flag :: bool

definition LED_TICK_TIME :: nat where "LED_TICK_TIME = 50"
definition LOOP_PERMANENT :: nat where "LOOP_PERMANENT = 255"
definition HANDLE_EXIST :: byte where "HANDLE_EXIST = 1"

definition gw_green_on :: "led_bank \<Rightarrow> led_bank" where
  "gw_green_on b = b\<lparr>Pixel_Buf := ws2812b_green 0 1 (Pixel_Buf b)\<rparr>"
definition gw_green_off :: "led_bank \<Rightarrow> led_bank" where
  "gw_green_off b = b\<lparr>Pixel_Buf := ws2812b_green 0 0 (Pixel_Buf b)\<rparr>"
definition gw_red_on :: "led_bank \<Rightarrow> led_bank" where
  "gw_red_on b = b\<lparr>Pixel_Buf := ws2812b_red 0 1 (Pixel_Buf b)\<rparr>"
definition gw_red_off :: "led_bank \<Rightarrow> led_bank" where
  "gw_red_off b = b\<lparr>Pixel_Buf := ws2812b_red 0 0 (Pixel_Buf b)\<rparr>"
definition gw_blue_on :: "led_bank \<Rightarrow> led_bank" where
  "gw_blue_on b = b\<lparr>Pixel_Buf := ws2812b_blue 0 1 (Pixel_Buf b)\<rparr>"
definition gw_blue_off :: "led_bank \<Rightarrow> led_bank" where
  "gw_blue_off b = b\<lparr>Pixel_Buf := ws2812b_blue 0 0 (Pixel_Buf b)\<rparr>"
definition off_red_on :: "led_bank \<Rightarrow> led_bank" where
  "off_red_on b = b\<lparr>Pixel_Buf := ws2812b_red 1 1 (Pixel_Buf b)\<rparr>"
definition off_red_off :: "led_bank \<Rightarrow> led_bank" where
  "off_red_off b = b\<lparr>Pixel_Buf := ws2812b_red 1 0 (Pixel_Buf b)\<rparr>"
definition on_green_on :: "led_bank \<Rightarrow> led_bank" where
  "on_green_on b =
     (if \<not> led_valve_on_pause_flag b then b\<lparr>Pixel_Buf := ws2812b_green 1 1 (Pixel_Buf b)\<rparr> else b)"
definition on_green_off :: "led_bank \<Rightarrow> led_bank" where
  "on_green_off b = b\<lparr>Pixel_Buf := ws2812b_green 1 0 (Pixel_Buf b)\<rparr>"
definition beep_on :: "led_bank \<Rightarrow> led_bank" where
  "beep_on b = b\<lparr>beep_level := True\<rparr>"
definition beep_close :: "led_bank \<Rightarrow> led_bank" where
  "beep_close b = b\<lparr>beep_level := False\<rparr>"

text \<open>The pair of functions \<open>led_init\<close> gives to \<open>led_create\<close> for each lamp.\<close>

fun switch_on :: "led_id \<Rightarrow> led_bank \<Rightarrow> led_bank" where
  "switch_on led_obj_off_red = off_red_on"
| "switch_on led_obj_loss_red = off_red_on"
| "switch_on led_obj_off_red_once = off_red_on"
| "switch_on led_obj_off_red_three = off_red_on"
| "switch_on led_obj_on_green = on_green_on"
| "switch_on beep_obj = beep_on"
| "switch_on beep_obj_loss = beep_on"
| "switch_on beep_obj_once = beep_on"
| "switch_on beep_obj_learn = beep_on"
| "switch_on beep_obj_three = beep_on"
| "switch_on led_obj_wifi_green_led = gw_green_on"
| "switch_on led_obj_wifi_red_led = gw_red_on"
| "switch_on led_obj_wifi_blue_led = gw_blue_on"

fun switch_off :: "led_id \<Rightarrow> led_bank \<Rightarrow> led_bank" where
  "switch_off led_obj_off_red = off_red_off"
| "switch_off led_obj_loss_red = off_red_off"
| "switch_off led_obj_off_red_once = off_red_off"
| "switch_off led_obj_off_red_three = off_red_off"
| "switch_off led_obj_on_green = on_green_off"
| "switch_off beep_obj = beep_close"
| "switch_off beep_obj_loss = beep_close"
| "switch_off beep_obj_once = beep_close"
| "switch_off beep_obj_learn = beep_close"
| "switch_off beep_obj_three = beep_close"
| "switch_off led_obj_wifi_green_led = gw_green_off"
| "switch_off led_obj_wifi_red_led = gw_red_off"
| "switch_off led_obj_wifi_blue_led = gw_blue_off"

lemmas output_defs =
  gw_green_on_def gw_green_off_def gw_red_on_def gw_red_off_def gw_blue_on_def gw_blue_off_def
  off_red_on_def off_red_off_def on_green_on_def on_green_off_def beep_on_def beep_close_def

section \<open>The library\<close>

definition set_lamp :: "led_id \<Rightarrow> led_internal \<Rightarrow> led_bank \<Rightarrow> led_bank" where
  "set_lamp x l b = b\<lparr>lamp := (lamp b)(x := l)\<rparr>"

definition led_internal_zero :: led_internal where
  "led_internal_zero =
     \<lparr>led_state = False, mode_pointer = 0, mode_cnt = 0, handle_cnt = 0, led_loop = 0,
      loop_temp = 0, blink_point = 0, blink_arr = [], blink_mode = []\<rparr>"

definition led_create :: "led_id \<Rightarrow> led_bank \<Rightarrow> led_bank" where
  "led_create x b = set_lamp x led_internal_zero (switch_off x b)"

text \<open>
  The time a pattern entry stands for: \<open>atol\<close> of the text from its first character on,
  in \<open>uint32_t\<close>, rounded up to whole ticks.
\<close>

definition blink_ticks :: "string \<Rightarrow> nat" where
  "blink_ticks p =
     (let v = unat (word_of_int (atol p) :: u32) in
      if v mod LED_TICK_TIME \<noteq> 0 then v div LED_TICK_TIME + 1 else v div LED_TICK_TIME)"

lemma token_shorter [termination_simp]:
  "length (dropWhile p xs) - Suc 0 < Suc (length xs)"
  using length_dropWhile_le [of p xs] by simp

fun blink_scan :: "string \<Rightarrow> nat list" where
  "blink_scan [] = []"
| "blink_scan (c # cs) =
     blink_ticks (c # cs) # blink_scan (drop 1 (dropWhile (\<lambda>d. d \<noteq> CHR '','') (c # cs)))"

definition led_get_blink_arr :: "led_internal \<Rightarrow> led_internal" where
  "led_get_blink_arr l =
     (let commas = length (filter (\<lambda>d. d = CHR '','') (blink_mode l));
          cnt = mode_cnt l + commas
            + (if blink_mode l \<noteq> [] \<and> last (blink_mode l) \<noteq> CHR '','' then 1 else 0)
      in l\<lparr>mode_cnt := cnt, blink_arr := blink_scan (blink_mode l)\<rparr>)"

definition led_set_mode :: "led_id \<Rightarrow> nat \<Rightarrow> string \<Rightarrow> led_bank \<Rightarrow> led_bank" where
  "led_set_mode x k p b =
     set_lamp x (led_get_blink_arr ((lamp b x)
       \<lparr>led_loop := k, loop_temp := k, blink_mode := p, handle_cnt := 0, blink_point := 0,
        mode_pointer := 0, mode_cnt := 0\<rparr>)) b"

definition led_switch :: "led_id \<Rightarrow> led_bank \<Rightarrow> led_bank" where
  "led_switch x b =
     (if mode_pointer (lamp b x) mod 2 \<noteq> 0
      then (let b1 = switch_off x b in set_lamp x ((lamp b1 x)\<lparr>led_state := False\<rparr>) b1)
      else (let b1 = switch_on x b in set_lamp x ((lamp b1 x)\<lparr>led_state := True\<rparr>) b1))"

definition led_toggle :: "led_id \<Rightarrow> led_bank \<Rightarrow> led_bank" where
  "led_toggle x b =
     (if \<not> led_state (lamp b x)
      then (let b1 = switch_on x b in set_lamp x ((lamp b1 x)\<lparr>led_state := True\<rparr>) b1)
      else (let b1 = switch_off x b in set_lamp x ((lamp b1 x)\<lparr>led_state := False\<rparr>) b1))"

definition led_start :: "led_id \<Rightarrow> led_bank \<Rightarrow> byte \<times> led_bank" where
  "led_start x b =
     (let b1 = set_lamp x ((lamp b x)\<lparr>loop_temp := led_loop (lamp b x)\<rparr>) b in
      if x \<in> set (first_handle b1) then (HANDLE_EXIST, b1)
      else (0, b1\<lparr>first_handle := x # first_handle b1\<rparr>))"

definition led_stop :: "led_id \<Rightarrow> led_bank \<Rightarrow> led_bank" where
  "led_stop x b =
     (let b1 = switch_off x b in b1\<lparr>first_handle := filter (\<lambda>y. y \<noteq> x) (first_handle b1)\<rparr>)"

text \<open>
  The part of \<open>led_handle\<close> from the label \<open>__repeat\<close> on: entries of length zero are
  skipped, the next entry switches the lamp, and after the last entry the counters start
  again and a finite loop count goes down by one.
\<close>

function led_repeat :: "led_id \<Rightarrow> led_bank \<Rightarrow> led_bank" where
  "led_repeat x b =
     (let l = lamp b x in
      if handle_cnt l - 1 = blink_point l then
        if mode_pointer l < mode_cnt l then
          let d = blink_arr l ! mode_pointer l;
              b1 = set_lamp x (l\<lparr>blink_point := blink_point l + d\<rparr>) b
          in if d = 0
             then led_repeat x (set_lamp x ((lamp b1 x)\<lparr>mode_pointer := mode_pointer l + 1\<rparr>) b1)
             else let b2 = led_switch x b1
                  in set_lamp x ((lamp b2 x)\<lparr>mode_pointer := mode_pointer (lamp b2 x) + 1\<rparr>) b2
        else set_lamp x (l\<lparr>mode_pointer := 0, blink_point := 0, handle_cnt := 0,
               loop_temp := (if loop_temp l \<noteq> LOOP_PERMANENT then loop_temp l - 1
                             else loop_temp l)\<rparr>) b
      else b)"
  by pat_completeness auto
termination
  by (relation "measure (\<lambda>(x, b). mode_cnt (lamp b x) - mode_pointer (lamp b x))")
    (auto simp: set_lamp_def Let_def)

declare led_repeat.simps [simp del]

definition led_handle :: "led_id \<Rightarrow> led_bank \<Rightarrow> led_bank" where
  "led_handle x b =
     (if loop_temp (lamp b x) \<noteq> 0
      then led_repeat x (set_lamp x ((lamp b x)\<lparr>handle_cnt := handle_cnt (lamp b x) + 1\<rparr>) b)
      else led_stop x b)"

text \<open>
  \<open>led_ticks\<close> walks the chain of started lamps. A lamp that is stopped on the way is
  unlinked but its \<open>next\<close> pointer stays, so the walk visits the chain as it was.
\<close>

definition led_ticks :: "led_bank \<Rightarrow> led_bank" where
  "led_ticks b = fold led_handle (first_handle b) b"

section \<open>What the operations leave alone\<close>

lemma switch_frame [simp]:
  "lamp (switch_on x b) = lamp b" "lamp (switch_off x b) = lamp b"
  "first_handle (switch_on x b) = first_handle b" "first_handle (switch_off x b) = first_handle b"
  "led_valve_on_pause_flag (switch_on x b) = led_valve_on_pause_flag b"
  "led_valve_on_pause_flag (switch_off x b) = led_valve_on_pause_flag b"
  by (cases x; simp add: output_defs)+

lemma set_lamp_simps [simp]:
  "lamp (set_lamp x l b) y = (if y = x then l else lamp b y)"
  "first_handle (set_lamp x l b) = first_handle b"
  "led_valve_on_pause_flag (set_lamp x l b) = led_valve_on_pause_flag b"
  "Pixel_Buf (set_lamp x l b) = Pixel_Buf b"
  "beep_level (set_lamp x l b) = beep_level b"
  by (simp_all add: set_lamp_def)

lemma led_switch_simps [simp]:
  "lamp (led_switch x b) y =
     (if y = x then (lamp b x)\<lparr>led_state := even (mode_pointer (lamp b x))\<rparr> else lamp b y)"
  "first_handle (led_switch x b) = first_handle b"
  by (auto simp: led_switch_def Let_def even_iff_mod_2_eq_zero)

lemma led_repeat_other: "y \<noteq> x \<Longrightarrow> lamp (led_repeat x b) y = lamp b y"
proof (induction x b rule: led_repeat.induct)
  case (1 x b)
  then show ?case
    by (subst led_repeat.simps) (simp add: Let_def)
qed

lemma led_repeat_first_handle: "first_handle (led_repeat x b) = first_handle b"
proof (induction x b rule: led_repeat.induct)
  case (1 x b)
  then show ?case
    by (subst led_repeat.simps) (simp add: Let_def)
qed

lemma led_stop_simps [simp]:
  "lamp (led_stop x b) = lamp b"
  "first_handle (led_stop x b) = filter (\<lambda>y. y \<noteq> x) (first_handle b)"
  by (simp_all add: led_stop_def Let_def)

lemma led_handle_other: "y \<noteq> x \<Longrightarrow> lamp (led_handle x b) y = lamp b y"
  by (simp add: led_handle_def led_repeat_other)

lemma led_handle_first_handle:
  "first_handle (led_handle x b) =
     (if loop_temp (lamp b x) \<noteq> 0 then first_handle b else filter (\<lambda>y. y \<noteq> x) (first_handle b))"
  by (simp add: led_handle_def led_repeat_first_handle)

lemma led_start_simps [simp]:
  "lamp (snd (led_start x b)) y =
     (if y = x then (lamp b x)\<lparr>loop_temp := led_loop (lamp b x)\<rparr> else lamp b y)"
  "first_handle (snd (led_start x b)) =
     (if x \<in> set (first_handle b) then first_handle b else x # first_handle b)"
  by (auto simp: led_start_def Let_def)

lemma distinct_started [keep]:
  "distinct (first_handle b) \<Longrightarrow> distinct (first_handle (snd (led_start x b)))"
  "distinct (first_handle b) \<Longrightarrow> distinct (first_handle (led_stop x b))"
  "distinct (first_handle b) \<Longrightarrow> distinct (first_handle (led_handle x b))"
  by (simp_all add: led_handle_first_handle)

section \<open>The pattern a lamp plays\<close>

text \<open>
  Specification: a pattern is a list of times, on first; at tick \<open>m\<close> of a round
  (counted from 1) the lamp is lit exactly in the stretches at even positions.
\<close>

fun lit :: "nat list \<Rightarrow> bool \<Rightarrow> nat \<Rightarrow> bool" where
  "lit [] on m = (\<not> on)"
| "lit (d # ds) on m = (if m \<le> d then on else lit ds (\<not> on) (m - d))"

text \<open>The counters of a lamp at tick \<open>m\<close> of a round, after \<open>i\<close> entries of the pattern.\<close>

definition at_pos :: "nat list \<Rightarrow> nat \<Rightarrow> nat \<Rightarrow> led_internal \<Rightarrow> bool" where
  "at_pos ds m i l \<longleftrightarrow>
     blink_arr l = ds \<and> mode_cnt l = length ds \<and> handle_cnt l = m \<and> mode_pointer l = i \<and>
     i \<le> length ds \<and> blink_point l = sum_list (take i ds) \<and>
     (if i = 0 then m = 0
      else sum_list (take (i - 1) ds) < m \<and> m \<le> sum_list (take i ds) \<and> led_state l = odd i)"

lemma lit_segment:
  "\<lbrakk>0 < i; i \<le> length ds; sum_list (take (i - 1) ds) < m; m \<le> sum_list (take i ds)\<rbrakk>
   \<Longrightarrow> lit ds on m = (on = odd i)"
proof (induction ds arbitrary: i m on)
  case (Cons d ds)
  show ?case
  proof (cases "i = 1")
    case True
    with Cons.prems show ?thesis by simp
  next
    case False
    then obtain j where i: "i = Suc j" and j: "0 < j" using Cons.prems(1) by (cases i) auto
    then have "take (i - 1) (d # ds) = d # take (j - 1) ds" by (cases j) auto
    with Cons.prems i have m: "d + sum_list (take (j - 1) ds) < m" "m \<le> d + sum_list (take j ds)"
      by auto
    then have "lit ds (\<not> on) (m - d) = ((\<not> on) = odd j)"
      using Cons.prems i j by (intro Cons.IH) auto
    with m i show ?thesis by auto
  qed
qed simp

lemma take_sum_Suc: "i < length ds \<Longrightarrow> sum_list (take (Suc i) ds) = sum_list (take i ds) + ds ! i"
  by (simp add: take_Suc_conv_app_nth)

text \<open>One tick of a lamp that is not finished: one step further in the round, or, at its
  end, back to the start with one round less to play.\<close>

definition next_loop :: "nat \<Rightarrow> nat" where
  "next_loop k = (if k \<noteq> LOOP_PERMANENT then k - 1 else k)"

text \<open>At the end of an entry: the next entry that is not empty starts, or the round is over.\<close>

lemma led_repeat_boundary:
  assumes "handle_cnt (lamp b x) = blink_point (lamp b x) + 1"
    and "blink_arr (lamp b x) = ds" "mode_cnt (lamp b x) = length ds"
    and "mode_pointer (lamp b x) = i" "i \<le> length ds"
  shows "(\<exists>j. i \<le> j \<and> j < length ds \<and> 0 < ds ! j \<and> (\<forall>q. i \<le> q \<and> q < j \<longrightarrow> ds ! q = 0) \<and>
            lamp (led_repeat x b) x = (lamp b x)\<lparr>blink_point := blink_point (lamp b x) + ds ! j,
              led_state := even j, mode_pointer := Suc j\<rparr>)
       \<or> (\<forall>q. i \<le> q \<and> q < length ds \<longrightarrow> ds ! q = 0) \<and>
            lamp (led_repeat x b) x = (lamp b x)\<lparr>mode_pointer := 0, blink_point := 0,
              handle_cnt := 0, loop_temp := next_loop (loop_temp (lamp b x))\<rparr>"
    (is "(\<exists>j. ?next j b i) \<or> ?over b i")
  using assms
proof (induction "length ds - i" arbitrary: i b)
  case 0
  then show ?case
    by (subst led_repeat.simps) (simp add: Let_def next_loop_def)
next
  case (Suc c)
  then have lt: "i < length ds" by simp
  show ?case
  proof (cases "ds ! i = 0")
    case False
    then have "?next i b i"
      using Suc.prems lt by (subst led_repeat.simps) (simp add: Let_def)
    then show ?thesis by blast
  next
    case True
    define b1 where "b1 = set_lamp x ((lamp b x)\<lparr>mode_pointer := Suc i\<rparr>) b"
    have rep: "led_repeat x b = led_repeat x b1"
      unfolding b1_def using Suc.prems lt True
      by (subst led_repeat.simps) (simp add: Let_def set_lamp_def)
    have "(\<exists>j. ?next j b1 (Suc i)) \<or> ?over b1 (Suc i)"
      using Suc.hyps(2) Suc.prems lt by (intro Suc.hyps(1)) (simp_all add: b1_def)
    then show ?thesis
    proof
      assume "\<exists>j. ?next j b1 (Suc i)"
      then obtain j where j: "?next j b1 (Suc i)" by blast
      have "\<forall>q. i \<le> q \<and> q < j \<longrightarrow> ds ! q = 0" using j True by (metis Suc_leI le_neq_implies_less)
      then have "?next j b i" using j by (simp add: rep) (simp add: b1_def)
      then show ?thesis by blast
    next
      assume o: "?over b1 (Suc i)"
      have "\<forall>q. i \<le> q \<and> q < length ds \<longrightarrow> ds ! q = 0"
        using o True by (metis Suc_leI le_neq_implies_less)
      then have "?over b i" using o by (simp add: rep) (simp add: b1_def)
      then show ?thesis by blast
    qed
  qed
qed

lemma sum_take_zeros:
  "\<lbrakk>i \<le> j; j \<le> length ds; \<forall>q. i \<le> q \<and> q < j \<longrightarrow> ds ! q = 0\<rbrakk>
   \<Longrightarrow> sum_list (take j ds) = sum_list (take i (ds :: nat list))"
proof (induction j)
  case (Suc j)
  then show ?case by (cases "i = Suc j") (auto simp: take_sum_Suc)
qed simp

lemma sum_take_le: "sum_list (take i ds) \<le> sum_list (ds :: nat list)"
  by (metis append_take_drop_id le_add1 sum_list_append)

lemma led_handle_pos:
  assumes pos: "at_pos ds m i (lamp b x)" and lp: "loop_temp (lamp b x) \<noteq> 0"
  shows "(m < sum_list ds \<longrightarrow> (\<exists>j. at_pos ds (m + 1) j (lamp (led_handle x b) x)) \<and>
            loop_temp (lamp (led_handle x b) x) = loop_temp (lamp b x))
       \<and> (m = sum_list ds \<longrightarrow> at_pos ds 0 0 (lamp (led_handle x b) x) \<and>
            loop_temp (lamp (led_handle x b) x) = next_loop (loop_temp (lamp b x)))"
proof -
  let ?l = "lamp b x" and ?b1 = "set_lamp x ((lamp b x)\<lparr>handle_cnt := m + 1\<rparr>) b"
  have h: "handle_cnt ?l = m" "mode_pointer ?l = i" "blink_arr ?l = ds" "mode_cnt ?l = length ds"
      "i \<le> length ds" "blink_point ?l = sum_list (take i ds)" "m \<le> sum_list (take i ds)"
    using pos by (auto simp: at_pos_def split: if_splits)
  have step: "led_handle x b = led_repeat x ?b1"
    using lp h by (simp add: led_handle_def)
  show ?thesis
  proof (cases "m = sum_list (take i ds)")
    case False
    then have wait: "m < sum_list (take i ds)" "i \<noteq> 0" using h(7) by (cases i; auto)+
    have same: "led_handle x b = ?b1"
      unfolding step using wait h by (subst led_repeat.simps) (simp add: Let_def)
    have "at_pos ds (m + 1) i (lamp (led_handle x b) x)"
      using pos wait by (auto simp: same at_pos_def)
    then show ?thesis using same wait sum_take_le [of i ds] by auto
  next
    case True
    have b1: "handle_cnt (lamp ?b1 x) = blink_point (lamp ?b1 x) + 1" "blink_arr (lamp ?b1 x) = ds"
        "mode_cnt (lamp ?b1 x) = length ds" "mode_pointer (lamp ?b1 x) = i"
      using h True by simp_all
    from led_repeat_boundary [OF b1 h(5)] show ?thesis unfolding step [symmetric]
    proof (elim disjE exE conjE)
      fix j
      assume j: "i \<le> j" "j < length ds" "0 < ds ! j" "\<forall>q. i \<le> q \<and> q < j \<longrightarrow> ds ! q = 0"
        and l': "lamp (led_handle x b) x = (lamp ?b1 x)\<lparr>blink_point := blink_point (lamp ?b1 x)
          + ds ! j, led_state := even j, mode_pointer := Suc j\<rparr>"
      have m: "m = sum_list (take j ds)" using True sum_take_zeros [of i j ds] j by simp
      then have "at_pos ds (m + 1) (Suc j) (lamp (led_handle x b) x)"
        unfolding l' using h j True by (simp add: at_pos_def take_sum_Suc)
      moreover have "m < sum_list ds"
        using sum_take_le [of "Suc j" ds] j m by (simp add: take_sum_Suc)
      ultimately show ?thesis using l' by auto
    next
      assume z: "\<forall>q. i \<le> q \<and> q < length ds \<longrightarrow> ds ! q = 0"
        and l': "lamp (led_handle x b) x = (lamp ?b1 x)\<lparr>mode_pointer := 0, blink_point := 0,
          handle_cnt := 0, loop_temp := next_loop (loop_temp (lamp ?b1 x))\<rparr>"
      have "m = sum_list ds" using True sum_take_zeros [of i "length ds" ds] h(5) z by simp
      moreover have "at_pos ds 0 0 (lamp (led_handle x b) x)"
        unfolding l' using h by (simp add: at_pos_def)
      ultimately show ?thesis using l' by simp
    qed
  qed
qed

text \<open>One call of \<open>led_ticks\<close> gives every started lamp exactly one tick.\<close>

lemma fold_led_handle_other: "x \<notin> set xs \<Longrightarrow> lamp (fold led_handle xs b) x = lamp b x"
  by (induction xs arbitrary: b) (auto simp: led_handle_other)

lemma fold_led_handle_lamp:
  "\<lbrakk>distinct xs; x \<in> set xs\<rbrakk> \<Longrightarrow>
   \<exists>b'. lamp b' x = lamp b x \<and> lamp (fold led_handle xs b) x = lamp (led_handle x b') x"
proof (induction xs arbitrary: b)
  case (Cons y ys)
  show ?case
  proof (cases "x = y")
    case True
    with Cons.prems have "x \<notin> set ys" by simp
    with True show ?thesis by (auto simp: fold_led_handle_other)
  next
    case False
    with Cons show ?thesis by (metis distinct.simps(2) fold_simps(2) led_handle_other set_ConsD)
  qed
qed simp

lemma fold_led_handle_started:
  "distinct xs \<Longrightarrow> set (first_handle (fold led_handle xs b)) =
     {y \<in> set (first_handle b). y \<in> set xs \<longrightarrow> loop_temp (lamp b y) \<noteq> 0}"
proof (induction xs arbitrary: b)
  case (Cons a xs)
  then have "y \<in> set xs \<Longrightarrow> lamp (led_handle a b) y = lamp b y" for y
    by (metis distinct.simps(2) led_handle_other)
  with Cons show ?case by (auto simp: led_handle_first_handle)
qed simp

lemma fold_led_handle_distinct:
  "distinct (first_handle b) \<Longrightarrow> distinct (first_handle (fold led_handle xs b))"
  by (induction xs arbitrary: b) (auto simp: keep)

lemma led_ticks_started:
  "distinct (first_handle b) \<Longrightarrow>
   set (first_handle (led_ticks b)) = {y \<in> set (first_handle b). loop_temp (lamp b y) \<noteq> 0}"
  by (auto simp: led_ticks_def fold_led_handle_started)

lemma led_ticks_distinct [keep]:
  "distinct (first_handle b) \<Longrightarrow> distinct (first_handle (led_ticks b))"
  by (simp add: led_ticks_def fold_led_handle_distinct)

lemma led_ticks_pos:
  assumes pos: "at_pos ds m i (lamp b x)" and lp: "loop_temp (lamp b x) \<noteq> 0"
    and st: "distinct (first_handle b)" "x \<in> set (first_handle b)"
  shows "m < sum_list ds \<Longrightarrow> (\<exists>j. at_pos ds (m + 1) j (lamp (led_ticks b) x)) \<and>
            loop_temp (lamp (led_ticks b) x) = loop_temp (lamp b x)"
    and "m = sum_list ds \<Longrightarrow> at_pos ds 0 0 (lamp (led_ticks b) x) \<and>
            loop_temp (lamp (led_ticks b) x) = next_loop (loop_temp (lamp b x))"
proof -
  obtain b' where b': "lamp b' x = lamp b x" "lamp (led_ticks b) x = lamp (led_handle x b') x"
    using fold_led_handle_lamp [OF st] by (auto simp: led_ticks_def)
  show "m < sum_list ds \<Longrightarrow> (\<exists>j. at_pos ds (m + 1) j (lamp (led_ticks b) x)) \<and>
            loop_temp (lamp (led_ticks b) x) = loop_temp (lamp b x)"
    and "m = sum_list ds \<Longrightarrow> at_pos ds 0 0 (lamp (led_ticks b) x) \<and>
            loop_temp (lamp (led_ticks b) x) = next_loop (loop_temp (lamp b x))"
    using led_handle_pos [of ds m i b' x] pos lp b' by auto
qed

text \<open>Rounds still to play after \<open>n\<close> ticks: one round takes \<open>sum_list ds + 1\<close> ticks.\<close>

definition rounds_left :: "nat \<Rightarrow> nat \<Rightarrow> nat list \<Rightarrow> nat" where
  "rounds_left k n ds = (if k = LOOP_PERMANENT then k else k - n div (sum_list ds + 1))"

lemma led_ticks_run:
  assumes pos: "at_pos ds 0 0 (lamp b x)"
    and k: "loop_temp (lamp b x) = k" "k \<le> LOOP_PERMANENT"
    and st: "distinct (first_handle b)" "x \<in> set (first_handle b)"
    and n: "k = LOOP_PERMANENT \<or> n \<le> k * (sum_list ds + 1)"
  shows "distinct (first_handle ((led_ticks ^^ n) b)) \<and> x \<in> set (first_handle ((led_ticks ^^ n) b))
    \<and> (\<exists>i. at_pos ds (n mod (sum_list ds + 1)) i (lamp ((led_ticks ^^ n) b) x))
    \<and> loop_temp (lamp ((led_ticks ^^ n) b) x) = rounds_left k n ds"
  using n
proof (induction n)
  case 0
  then show ?case using pos k st by (auto simp: rounds_left_def)
next
  case (Suc n)
  let ?S = "sum_list ds" and ?b = "(led_ticks ^^ n) b"
  from Suc obtain i where IH: "distinct (first_handle ?b)" "x \<in> set (first_handle ?b)"
      "at_pos ds (n mod (?S + 1)) i (lamp ?b x)" "loop_temp (lamp ?b x) = rounds_left k n ds"
    by auto
  have left: "rounds_left k n ds \<noteq> 0"
  proof (cases "k = LOOP_PERMANENT")
    case True
    then show ?thesis by (simp add: rounds_left_def LOOP_PERMANENT_def)
  next
    case False
    with Suc.prems have "n < k * (?S + 1)" by simp
    then have "n div (?S + 1) < k" by (simp add: less_mult_imp_div_less)
    with False show ?thesis by (simp add: rounds_left_def)
  qed
  have nz: "loop_temp (lamp ?b x) \<noteq> 0" using IH(4) left by simp
  note tick = led_ticks_pos [OF IH(3) nz IH(1,2)]
  have started: "distinct (first_handle (led_ticks ?b))" "x \<in> set (first_handle (led_ticks ?b))"
    using IH(1,2) nz by (auto simp: led_ticks_started keep)
  show ?case
  proof (cases "n mod (?S + 1) = ?S")
    case True
    then have eq: "Suc n mod (?S + 1) = 0" "Suc n div (?S + 1) = Suc (n div (?S + 1))"
      by (simp_all add: mod_Suc div_Suc)
    have "next_loop (rounds_left k n ds) = rounds_left k (Suc n) ds"
      unfolding rounds_left_def next_loop_def eq using k by (auto simp: LOOP_PERMANENT_def)
    with tick(2) [OF True] started eq IH(4) show ?thesis by auto
  next
    case False
    then have lt: "n mod (?S + 1) < ?S"
      using mod_less_divisor [of "?S + 1" n] by linarith
    then have "Suc n mod (?S + 1) = n mod (?S + 1) + 1" "Suc n div (?S + 1) = n div (?S + 1)"
      by (simp_all add: mod_Suc div_Suc)
    with tick(1) [OF lt] started IH(4) show ?thesis by (auto simp: rounds_left_def)
  qed
qed

text \<open>The array has as many entries as \<open>led_get_blink_arr\<close> counted.\<close>

definition pattern_entries :: "string \<Rightarrow> nat" where
  "pattern_entries p = length (filter (\<lambda>d. d = CHR '','') p)
     + (if p \<noteq> [] \<and> last p \<noteq> CHR '','' then 1 else 0)"

lemma pattern_entries_token:
  assumes "CHR '','' \<notin> set u"
  shows "pattern_entries (u @ CHR '','' # r) = Suc (pattern_entries r)"
proof -
  have "filter (\<lambda>d. d = CHR '','') u = []" using assms by (auto simp: filter_empty_conv)
  then show ?thesis by (simp add: pattern_entries_def)
qed

lemma pattern_entries_last:
  assumes "CHR '','' \<notin> set u" "u \<noteq> []"
  shows "pattern_entries u = 1"
proof -
  have "filter (\<lambda>d. d = CHR '','') u = []" using assms by (auto simp: filter_empty_conv)
  moreover have "last u \<noteq> CHR '',''" using assms last_in_set by force
  ultimately show ?thesis using assms by (simp add: pattern_entries_def)
qed

lemma length_blink_scan: "length (blink_scan p) = pattern_entries p"
proof (induction p rule: blink_scan.induct)
  case 1
  then show ?case by (simp add: pattern_entries_def)
next
  case (2 c cs)
  define u where "u = takeWhile (\<lambda>d. d \<noteq> CHR '','') (c # cs)"
  define w where "w = dropWhile (\<lambda>d. d \<noteq> CHR '','') (c # cs)"
  have split: "c # cs = u @ w" by (simp only: u_def w_def takeWhile_dropWhile_id)
  have u: "CHR '','' \<notin> set u" unfolding u_def by (metis (mono_tags, lifting) set_takeWhileD)
  have IH: "length (blink_scan (drop 1 w)) = pattern_entries (drop 1 w)"
    unfolding w_def by (rule 2)
  have scan: "length (blink_scan (c # cs)) = Suc (length (blink_scan (drop 1 w)))"
    by (simp only: blink_scan.simps w_def list.size add_Suc_right add_0_right)
  show ?case
  proof (cases w)
    case Nil
    have "pattern_entries (c # cs) = 1"
      using pattern_entries_last [OF u] split Nil by (metis append_Nil2 list.distinct(1))
    then show ?thesis unfolding scan by (simp add: Nil)
  next
    case (Cons d r)
    then have "d = CHR '',''" using hd_dropWhile [of "\<lambda>d. d \<noteq> CHR '',''" "c # cs"] w_def by auto
    then show ?thesis unfolding scan
      using IH Cons pattern_entries_token [OF u, of r] split by simp
  qed
qed

lemma at_pos_started:
  assumes "p \<noteq> []"
  shows "at_pos (blink_scan p) 0 0 (lamp (snd (led_start x (led_set_mode x k p b))) x)
    \<and> loop_temp (lamp (snd (led_start x (led_set_mode x k p b))) x) = k"
  using assms length_blink_scan [of p]
  by (simp add: at_pos_def led_set_mode_def led_get_blink_arr_def Let_def pattern_entries_def)

abbreviation round_ticks :: "string \<Rightarrow> nat" where
  "round_ticks p \<equiv> sum_list (blink_scan p) + 1"

abbreviation restart_lamp :: "led_id \<Rightarrow> nat \<Rightarrow> string \<Rightarrow> led_bank \<Rightarrow> led_bank" where
  "restart_lamp x k p b \<equiv> snd (led_start x (led_set_mode x k p b))"

lemma restart_lamp_started:
  "x \<in> set (first_handle (restart_lamp x k p b))"
  "distinct (first_handle b) \<Longrightarrow> distinct (first_handle (restart_lamp x k p b))"
  by (auto simp: led_set_mode_def)

lemma led_pattern_run:
  assumes "distinct (first_handle b)" "p \<noteq> []"
    and "k \<le> LOOP_PERMANENT" "k = LOOP_PERMANENT \<or> n \<le> k * round_ticks p"
  shows "distinct (first_handle ((led_ticks ^^ n) (restart_lamp x k p b)))
    \<and> x \<in> set (first_handle ((led_ticks ^^ n) (restart_lamp x k p b)))
    \<and> (\<exists>i. at_pos (blink_scan p) (n mod round_ticks p) i
              (lamp ((led_ticks ^^ n) (restart_lamp x k p b)) x))
    \<and> loop_temp (lamp ((led_ticks ^^ n) (restart_lamp x k p b)) x)
        = rounds_left k n (blink_scan p)"
  using at_pos_started [OF assms(2), of x k b] restart_lamp_started(1) [of x k p b]
    restart_lamp_started(2) [OF assms(1), of x k p] assms
  by (intro led_ticks_run) auto

text \<open>
  A lamp that is given a pattern and started plays it: at every later tick that is not
  the last one of a round its state is the one the pattern prescribes, round after round,
  for ever with \<open>LOOP_PERMANENT\<close> and for the given number of rounds otherwise. A round takes
  one tick more than the times of the pattern add up to.
\<close>

theorem led_plays_pattern:
  assumes "distinct (first_handle b)" "p \<noteq> []"
    and "k \<le> LOOP_PERMANENT" "k = LOOP_PERMANENT \<or> n \<le> k * round_ticks p"
    and "0 < n mod round_ticks p"
  shows "led_state (lamp ((led_ticks ^^ n) (restart_lamp x k p b)) x)
    = lit (blink_scan p) True (n mod round_ticks p)"
proof -
  obtain i where "at_pos (blink_scan p) (n mod round_ticks p) i
      (lamp ((led_ticks ^^ n) (restart_lamp x k p b)) x)"
    using led_pattern_run [OF assms(1-4)] by blast
  with assms(5) show ?thesis by (auto simp: at_pos_def lit_segment split: if_splits)
qed

text \<open>A bank of dark lamps, as after a reset.\<close>

definition dark_bank :: led_bank where
  "dark_bank = \<lparr>lamp = \<lambda>_. led_internal_zero, first_handle = [], Pixel_Buf = \<lambda>_ _. 0,
     beep_level = False, led_valve_on_pause_flag = False\<rparr>"

lemma led_plays_pattern_witness:
  "led_state (lamp ((led_ticks ^^ 9) (restart_lamp beep_obj 2 ''100,200,'' dark_bank)) beep_obj) =
     lit (blink_scan ''100,200,'') True 2 \<and> round_ticks ''100,200,'' = 7"
proof -
  have "blink_scan ''100,200,'' = [2, 4]" by code_simp
  then show ?thesis
    using led_plays_pattern [of dark_bank "''100,200,''" 2 9 beep_obj]
    by (simp add: dark_bank_def LOOP_PERMANENT_def)
qed

text \<open>
  A lamp with a finite number of rounds is taken off the chain by the tick after its last
  round, so no beep or blink of the firmware that is meant to end goes on.
\<close>

theorem led_finite_pattern_ends:
  assumes "distinct (first_handle b)" "p \<noteq> []"
    and "k < LOOP_PERMANENT"
  shows "x \<notin> set (first_handle ((led_ticks ^^ (k * round_ticks p + 1)) (restart_lamp x k p b)))"
proof -
  let ?b = "(led_ticks ^^ (k * round_ticks p)) (restart_lamp x k p b)"
  have "distinct (first_handle ?b)" "loop_temp (lamp ?b x) = 0"
    using led_pattern_run [OF assms(1,2), of k "k * round_ticks p" x] assms(3)
    unfolding rounds_left_def by (auto simp del: add_Suc_right mult_Suc_right)
  then show ?thesis by (simp add: led_ticks_started)
qed

lemma led_finite_pattern_ends_witness:
  "beep_obj \<notin> set (first_handle ((led_ticks ^^ 15) (restart_lamp beep_obj 2 ''100,200,'' dark_bank)))"
proof -
  have "blink_scan ''100,200,'' = [2, 4]" by code_simp
  then show ?thesis
    using led_finite_pattern_ends [of dark_bank "''100,200,''" 2 beep_obj]
    by (simp add: dark_bank_def LOOP_PERMANENT_def)
qed

section \<open>The counters stay in their fields\<close>

text \<open>
  The invariant of a lamp whose pattern is one of the lists of times \<open>D\<close>, in whatever moment it is started, stopped
  or given another pattern: the counters are where the pattern allows them to be.
\<close>

definition lamp_ok :: "nat list set \<Rightarrow> led_internal \<Rightarrow> bool" where
  "lamp_ok D l \<longleftrightarrow> blink_arr l \<in> D \<and> mode_cnt l = length (blink_arr l) \<and> mode_pointer l \<le> mode_cnt l \<and>
     blink_point l = sum_list (take (mode_pointer l) (blink_arr l)) \<and> handle_cnt l \<le> blink_point l \<and>
     led_loop l \<le> LOOP_PERMANENT \<and> loop_temp l \<le> LOOP_PERMANENT"

definition bank_ok :: "nat list set \<Rightarrow> led_bank \<Rightarrow> bool" where
  "bank_ok D b \<longleftrightarrow> (\<forall>x. lamp_ok D (lamp b x))"

lemma lamp_ok_zero: "[] \<in> D \<Longrightarrow> lamp_ok D led_internal_zero"
  by (simp add: lamp_ok_def led_internal_zero_def)

lemma lamp_ok_bounds:
  assumes "lamp_ok D l" "\<forall>ds \<in> D. length ds < m \<and> sum_list ds < n"
  shows "handle_cnt l < n" "mode_pointer l < m" "mode_cnt l < m" "blink_point l < n"
    "led_loop l \<le> LOOP_PERMANENT" "loop_temp l \<le> LOOP_PERMANENT"
  using assms sum_take_le [of "mode_pointer l" "blink_arr l"]
  by (auto simp: lamp_ok_def intro: le_less_trans)

lemma led_tick_ok:
  assumes ok: "lamp_ok D (lamp b x)"
  shows "lamp_ok D (lamp (led_handle x b) x)"
proof (cases "loop_temp (lamp b x) = 0")
  case True
  with ok show ?thesis by (simp add: led_handle_def)
next
  case False
  let ?l = "lamp b x" and ?b1 = "set_lamp x ((lamp b x)\<lparr>handle_cnt := handle_cnt (lamp b x) + 1\<rparr>) b"
  have run: "led_handle x b = led_repeat x ?b1" using False by (simp add: led_handle_def)
  show ?thesis
  proof (cases "handle_cnt ?l = blink_point ?l")
    case False
    then have "led_repeat x ?b1 = ?b1" by (subst led_repeat.simps) (simp add: Let_def)
    with ok False show ?thesis by (simp add: run lamp_ok_def)
  next
    case True
    then have "handle_cnt (lamp ?b1 x) = blink_point (lamp ?b1 x) + 1" "blink_arr (lamp ?b1 x) = blink_arr ?l"
      "mode_cnt (lamp ?b1 x) = length (blink_arr ?l)" "mode_pointer (lamp ?b1 x) = mode_pointer ?l"
      "mode_pointer ?l \<le> length (blink_arr ?l)"
      using ok by (simp_all add: lamp_ok_def)
    from led_repeat_boundary [OF this] show ?thesis unfolding run [symmetric]
    proof (elim disjE exE conjE)
      fix j
      assume j: "mode_pointer ?l \<le> j" "j < length (blink_arr ?l)" "0 < blink_arr ?l ! j"
          "\<forall>q. mode_pointer ?l \<le> q \<and> q < j \<longrightarrow> blink_arr ?l ! q = 0"
        and l': "lamp (led_handle x b) x = (lamp ?b1 x)\<lparr>blink_point := blink_point (lamp ?b1 x)
          + blink_arr ?l ! j, led_state := even j, mode_pointer := Suc j\<rparr>"
      have "sum_list (take (mode_pointer ?l) (blink_arr ?l)) = sum_list (take j (blink_arr ?l))"
        using sum_take_zeros [of "mode_pointer ?l" j "blink_arr ?l"] j by simp
      with ok True j show ?thesis unfolding l' by (simp add: lamp_ok_def take_sum_Suc)
    next
      assume "lamp (led_handle x b) x = (lamp ?b1 x)\<lparr>mode_pointer := 0, blink_point := 0, handle_cnt := 0,
          loop_temp := next_loop (loop_temp (lamp ?b1 x))\<rparr>"
      with ok show ?thesis by (auto simp: lamp_ok_def next_loop_def)
    qed
  qed
qed

lemma bank_ok_ticks [keep]: "bank_ok D b \<Longrightarrow> bank_ok D (led_ticks b)"
  unfolding led_ticks_def
proof (rule fold_keep)
  fix x b assume "bank_ok D b"
  then show "bank_ok D (led_handle x b)"
    unfolding bank_ok_def by (metis led_handle_other led_tick_ok)
qed

lemma lamp_ok_ops:
  "lamp_ok D l \<Longrightarrow> lamp_ok D (l\<lparr>loop_temp := led_loop l\<rparr>)"
  "\<lbrakk>k \<le> LOOP_PERMANENT; blink_scan p \<in> D\<rbrakk> \<Longrightarrow> lamp_ok D (led_get_blink_arr (l
     \<lparr>led_loop := k, loop_temp := k, blink_mode := p, handle_cnt := 0, blink_point := 0, mode_pointer := 0, mode_cnt := 0\<rparr>))"
  using length_blink_scan [of p]
  by (simp_all add: lamp_ok_def led_get_blink_arr_def Let_def pattern_entries_def)

lemma bank_ok_ops [keep]:
  "\<lbrakk>bank_ok D b; [] \<in> D\<rbrakk> \<Longrightarrow> bank_ok D (led_create x b)"
  "\<lbrakk>bank_ok D b; k \<le> LOOP_PERMANENT; blink_scan p \<in> D\<rbrakk> \<Longrightarrow> bank_ok D (led_set_mode x k p b)"
  "bank_ok D b \<Longrightarrow> bank_ok D (snd (led_start x b))"
  "bank_ok D b \<Longrightarrow> bank_ok D (led_stop x b)"
  by (simp_all add: bank_ok_def led_create_def led_set_mode_def lamp_ok_zero lamp_ok_ops)

lemma bank_ok_cong: "lamp b' = lamp b \<Longrightarrow> bank_ok D b' = bank_ok D b"
  by (simp add: bank_ok_def)

end
