(* ===== verification/Led.thy ===== *)
theory Led
  imports Signal_Led
begin

text \<open>
  The indications of the main unit (\<open>applications/led.c\<close>): which lamps and beeper
  patterns each status starts and stops. The functions work on the lamp bank of
  \<open>Signal_Led\<close>; the only state of their own is \<open>led_valve_on_pause_flag\<close>, which keeps
  the green lamp dark while a warning is shown. The thread that calls \<open>led_ticks\<close> every
  50 ms is \<open>led_run_tick\<close>.
\<close>

text \<open>Starting a lamp without looking at the result, as every caller does.\<close>

definition start_lamp :: "led_id \<Rightarrow> led_bank \<Rightarrow> led_bank" where
  "start_lamp x b = snd (led_start x b)"

lemma start_lamp_simps [simp]:
  "lamp (start_lamp x b) y =
     (if y = x then (lamp b x)\<lparr>loop_temp := led_loop (lamp b x)\<rparr> else lamp b y)"
  "first_handle (start_lamp x b) =
     (if x \<in> set (first_handle b) then first_handle b else x # first_handle b)"
  by (simp_all add: start_lamp_def)

definition led_run_tick :: "led_bank \<Rightarrow> led_bank" where
  "led_run_tick b = led_ticks b"

definition beep_three_times :: "led_bank \<Rightarrow> led_bank" where
  "beep_three_times b = start_lamp led_obj_off_red_three (start_lamp beep_obj_three b)"

definition wifi_communication_blink :: "led_bank \<Rightarrow> led_bank" where
  "wifi_communication_blink b = start_lamp led_obj_wifi_blue_led b"

definition wifi_led :: "byte \<Rightarrow> led_bank \<Rightarrow> led_bank" where
  "wifi_led num b =
     (if num = 0 then
        start_lamp led_obj_wifi_green_led
          (led_set_mode led_obj_wifi_green_led LOOP_PERMANENT ''500,500,''
            (led_stop led_obj_wifi_red_led b))
      else if num = 1 then
        start_lamp led_obj_wifi_green_led
          (led_set_mode led_obj_wifi_green_led LOOP_PERMANENT ''200,0,''
            (led_stop led_obj_wifi_red_led b))
      else if num = 2 then
        start_lamp led_obj_wifi_red_led
          (led_set_mode led_obj_wifi_red_led LOOP_PERMANENT ''200,0,''
            (led_stop led_obj_wifi_green_led b))
      else b)"

definition led_dry_contact_set :: "nat \<Rightarrow> byte \<Rightarrow> led_bank \<Rightarrow> led_bank" where
  "led_dry_contact_set n level b = b\<lparr>Pixel_Buf := ws2812b_green n level (Pixel_Buf b)\<rparr>"

text \<open>Most indications give the beeper and the red lamp the same pattern.\<close>

definition beep_and_red :: "nat \<Rightarrow> string \<Rightarrow> led_bank \<Rightarrow> led_bank" where
  "beep_and_red k p b =
     start_lamp led_obj_off_red (led_set_mode led_obj_off_red k p
       (start_lamp beep_obj (led_set_mode beep_obj k p b)))"

definition led_valve_fail :: "led_bank \<Rightarrow> led_bank" where
  "led_valve_fail b = beep_and_red 3 ''200,200,'' b"

definition led_notice_once :: "led_bank \<Rightarrow> led_bank" where
  "led_notice_once b = beep_and_red 1 ''200,0,'' b"

definition led_factory_start :: "led_bank \<Rightarrow> led_bank" where
  "led_factory_start b = beep_and_red 5 ''200,200,'' (led_stop led_obj_on_green b)"

definition led_learn_start :: "led_bank \<Rightarrow> led_bank" where
  "led_learn_start b =
     start_lamp led_obj_off_red (led_set_mode led_obj_off_red 75 ''200,200,''
       (start_lamp beep_obj (led_set_mode beep_obj 5 ''200,200,'' b)))"

definition led_slave_low_start :: "led_bank \<Rightarrow> led_bank" where
  "led_slave_low_start b = beep_and_red LOOP_PERMANENT ''200,5000,'' b"

definition led_moto_fail_start :: "led_bank \<Rightarrow> led_bank" where
  "led_moto_fail_start b =
     beep_and_red LOOP_PERMANENT ''200,200,200,200,200,200,200,200,200,200,200,10000,'' b"

definition led_offline_start :: "led_bank \<Rightarrow> led_bank" where
  "led_offline_start b =
     beep_and_red LOOP_PERMANENT ''200,200,200,200,200,200,200,5000,'' b"

definition led_master_lost_start :: "led_bank \<Rightarrow> led_bank" where
  "led_master_lost_start b =
     start_lamp led_obj_loss_red (led_set_mode led_obj_loss_red LOOP_PERMANENT ''200,200,200,5000,''
       (start_lamp beep_obj_loss (led_set_mode beep_obj_loss LOOP_PERMANENT ''200,200,200,5000,'' b)))"

definition led_water_alarm_start :: "led_bank \<Rightarrow> led_bank" where
  "led_water_alarm_start b =
     beep_and_red LOOP_PERMANENT ''200,200,200,200,200,5000,'' b"

definition beep_stop :: "led_bank \<Rightarrow> led_bank" where
  "beep_stop b = led_stop beep_obj (led_stop beep_obj_loss b)"

definition beep_key_down :: "led_bank \<Rightarrow> led_bank" where
  "beep_key_down b = start_lamp led_obj_off_red_once (start_lamp beep_obj_once b)"

definition beep_once :: "led_bank \<Rightarrow> led_bank" where
  "beep_once b = start_lamp beep_obj_once b"

definition learn_fail_ring :: "led_bank \<Rightarrow> led_bank" where
  "learn_fail_ring b = start_lamp beep_obj_learn b"

definition led_relearn :: "led_bank \<Rightarrow> led_bank" where
  "led_relearn b = start_lamp led_obj_off_red (led_set_mode led_obj_off_red 75 ''200,200,'' b)"

definition led_valve_on_pause :: "led_bank \<Rightarrow> led_bank" where
  "led_valve_on_pause b = (led_stop led_obj_on_green b)\<lparr>led_valve_on_pause_flag := True\<rparr>"

text \<open>\<open>open\<close> is \<open>get_valve_status()\<close>.\<close>

definition led_valve_on_resume :: "bool \<Rightarrow> led_bank \<Rightarrow> led_bank" where
  "led_valve_on_resume open b =
     (let b1 = b\<lparr>led_valve_on_pause_flag := False\<rparr> in
      if open then start_lamp led_obj_on_green b1 else b1)"

text \<open>The literal of \<open>led_ntc_alarm\<close>, line continuation and all.\<close>

definition ntc_pattern :: string where
  "ntc_pattern = concat (replicate 19 ''50,'') @ ''50'' @ replicate 28 (CHR '' '')
     @ '','' @ concat (replicate 19 ''50,'') @ ''2000,''"

definition led_ntc_alarm :: "led_bank \<Rightarrow> led_bank" where
  "led_ntc_alarm b =
     (let b1 = led_set_mode beep_obj LOOP_PERMANENT ntc_pattern b;
          b2 = led_set_mode led_obj_off_red LOOP_PERMANENT ntc_pattern b1;
          b3 = led_set_mode led_obj_on_green LOOP_PERMANENT ntc_pattern b2
      in start_lamp beep_obj (start_lamp led_obj_on_green (start_lamp led_obj_off_red b3)))"

definition led_valve_on :: "led_bank \<Rightarrow> led_bank" where
  "led_valve_on b =
     start_lamp led_obj_on_green (led_set_mode led_obj_on_green LOOP_PERMANENT ''200,0,''
       (led_stop led_obj_off_red b))"

definition led_valve_off :: "led_bank \<Rightarrow> led_bank" where
  "led_valve_off b = led_stop led_obj_on_green b"

definition led_warn_off :: "led_bank \<Rightarrow> led_bank" where
  "led_warn_off b = led_stop led_obj_off_red b"

definition led_loss_off :: "led_bank \<Rightarrow> led_bank" where
  "led_loss_off b = led_stop led_obj_loss_red b"

definition led_factory_gw_blink :: "led_bank \<Rightarrow> led_bank" where
  "led_factory_gw_blink b =
     (let b1 = led_set_mode led_obj_wifi_green_led LOOP_PERMANENT ''500,500,'' b;
          b2 = led_set_mode led_obj_wifi_red_led LOOP_PERMANENT ''0,500,500,'' b1
      in start_lamp led_obj_wifi_red_led (start_lamp led_obj_wifi_green_led b2))"

text \<open>\<open>led_create\<close> and \<open>led_set_mode\<close> for one lamp, as \<open>led_init\<close> does for each.\<close>

definition make_lamp :: "led_id \<Rightarrow> nat \<Rightarrow> string \<Rightarrow> led_bank \<Rightarrow> led_bank" where
  "make_lamp x k p b = led_set_mode x k p (led_create x b)"

definition led_init :: "led_bank \<Rightarrow> led_bank" where
  "led_init b0 =
     (let b1 = make_lamp led_obj_off_red LOOP_PERMANENT ''200,1,'' b0;
          b2 = make_lamp led_obj_loss_red LOOP_PERMANENT ''200,200,'' b1;
          b3 = make_lamp led_obj_off_red_once 1 ''200,1,'' b2;
          b4 = make_lamp led_obj_off_red_three 3 ''200,200,'' b3;
          b5 = make_lamp led_obj_on_green 3 ''200,200,'' b4;
          b6 = make_lamp beep_obj LOOP_PERMANENT ''200,200,'' b5;
          b7 = make_lamp beep_obj_loss LOOP_PERMANENT ''200,200,'' b6;
          b8 = make_lamp beep_obj_once 1 ''200,1,'' b7;
          b9 = make_lamp beep_obj_three 3 ''200,200,'' b8;
          b10 = make_lamp beep_obj_learn 3 ''50,50,200,200,'' b9;
          b11 = make_lamp led_obj_wifi_green_led LOOP_PERMANENT ''200,200,'' b10;
          b12 = make_lamp led_obj_wifi_red_led LOOP_PERMANENT ''200,200,'' b11
      in make_lamp led_obj_wifi_blue_led 1 ''50,50,'' b12)"

section \<open>The chain of started lamps\<close>

lemma led_set_mode_first_handle [simp]: "first_handle (led_set_mode x k p b) = first_handle b"
  by (simp add: led_set_mode_def)

lemma make_lamp_first_handle [simp]: "first_handle (make_lamp x k p b) = first_handle b"
  by (simp add: make_lamp_def led_create_def)

lemmas indication_defs =
  beep_three_times_def wifi_communication_blink_def wifi_led_def led_dry_contact_set_def
  beep_and_red_def led_valve_fail_def led_notice_once_def led_factory_start_def
  led_learn_start_def led_slave_low_start_def led_moto_fail_start_def led_offline_start_def
  led_master_lost_start_def led_water_alarm_start_def beep_stop_def beep_key_down_def
  beep_once_def learn_fail_ring_def led_relearn_def led_valve_on_pause_def
  led_valve_on_resume_def led_ntc_alarm_def led_valve_on_def led_valve_off_def led_warn_off_def
  led_loss_off_def led_factory_gw_blink_def Let_def

section \<open>The patterns of the application\<close>

definition app_patterns :: "string list" where
  "app_patterns =
     [''500,500,'', ''200,0,'', ''200,200,'', ''200,5000,'',
      ''200,200,200,200,200,200,200,200,200,200,200,10000,'',
      ''200,200,200,200,200,200,200,5000,'', ''200,200,200,5000,'',
      ''200,200,200,200,200,5000,'', ''200,1,'', ''50,50,200,200,'', ''50,50,'',
      ''0,500,500,'', ntc_pattern]"

lemmas blink_eval =
  blink_ticks_def atol_def isspace_def isdigit_def digits_value_def digit_value_def
  LED_TICK_TIME_def Let_def

lemma blink_scan_fifties:
  "blink_scan (concat (replicate n ''50,'') @ r) = replicate n 1 @ blink_scan r"
  by (induction n) (simp_all add: blink_eval)

lemma blink_scan_padded:
  "blink_scan (''50'' @ replicate n (CHR '' '') @ '','' @ r) = 1 # blink_scan r"
proof -
  have "takeWhile isdigit (replicate n (CHR '' '') @ CHR '','' # r) = []"
    by (cases n) (simp_all add: isdigit_def)
  moreover have "dropWhile (\<lambda>d. d \<noteq> CHR '','') (replicate n (CHR '' '') @ CHR '','' # r) = CHR '','' # r"
    by (induction n) simp_all
  ultimately show ?thesis by (simp add: blink_eval)
qed

lemma blink_scan_ntc: "blink_scan ntc_pattern = replicate 39 1 @ [40]"
proof -
  have "blink_scan ntc_pattern = replicate 19 1 @ 1 # replicate 19 1 @ [40]"
    unfolding ntc_pattern_def blink_scan_fifties blink_scan_padded by (simp add: blink_eval)
  also have "\<dots> = (replicate 19 1 @ replicate (Suc 19) 1) @ [40]"
    by (simp only: replicate_Suc append_assoc append_Cons)
  also have "\<dots> = replicate (19 + Suc 19) 1 @ [40]" by (simp only: replicate_add)
  finally show ?thesis by simp
qed

lemma app_pattern_times:
  "blink_scan ''500,500,'' = [10, 10]"
  "blink_scan ''200,0,'' = [4, 0]"
  "blink_scan ''200,200,'' = [4, 4]"
  "blink_scan ''200,5000,'' = [4, 100]"
  "blink_scan ''200,200,200,200,200,200,200,200,200,200,200,10000,'' =
     [4, 4, 4, 4, 4, 4, 4, 4, 4, 4, 4, 200]"
  "blink_scan ''200,200,200,200,200,200,200,5000,'' = [4, 4, 4, 4, 4, 4, 4, 100]"
  "blink_scan ''200,200,200,5000,'' = [4, 4, 4, 100]"
  "blink_scan ''200,200,200,200,200,5000,'' = [4, 4, 4, 4, 4, 100]"
  "blink_scan ''200,1,'' = [4, 1]"
  "blink_scan ''50,50,200,200,'' = [1, 1, 4, 4]"
  "blink_scan ''50,50,'' = [1, 1]"
  "blink_scan ''0,500,500,'' = [0, 10, 10]"
  by (simp_all add: blink_eval)

lemma app_patterns_fit:
  "\<forall>p \<in> set app_patterns. p \<noteq> [] \<and> length (blink_scan p) < 2 ^ 8 \<and>
     sum_list (blink_scan p) + 1 < 2 ^ 16"
  unfolding app_patterns_def
  by (simp only: list.set ball_simps app_pattern_times blink_scan_ntc)
    (simp add: sum_list_replicate ntc_pattern_def)

section \<open>Every function keeps the counters in their fields\<close>

definition app_times :: "nat list set" where
  "app_times = insert [] (blink_scan ` set app_patterns)"

lemma app_times_fit: "\<forall>ds \<in> app_times. length ds < 2 ^ 8 \<and> sum_list ds + 1 < 2 ^ 16"
  using app_patterns_fit by (auto simp: app_times_def)

text \<open>The functions of \<open>led.c\<close> that change a lamp, as the other components and the lamp thread call them.\<close>

inductive led_call :: "(led_bank \<Rightarrow> led_bank) \<Rightarrow> bool" where
  "led_call led_init" | "led_call led_run_tick"
| "led_call beep_three_times" | "led_call wifi_communication_blink" | "led_call (wifi_led n)"
| "led_call (led_dry_contact_set i level)" | "led_call led_valve_fail" | "led_call led_notice_once"
| "led_call led_factory_start" | "led_call led_learn_start" | "led_call led_slave_low_start"
| "led_call led_moto_fail_start" | "led_call led_offline_start" | "led_call led_master_lost_start"
| "led_call led_water_alarm_start" | "led_call beep_stop" | "led_call beep_key_down" | "led_call beep_once"
| "led_call learn_fail_ring" | "led_call led_relearn" | "led_call led_valve_on_pause"
| "led_call (led_valve_on_resume b)" | "led_call led_ntc_alarm" | "led_call led_valve_on"
| "led_call led_valve_off" | "led_call led_warn_off" | "led_call led_loss_off" | "led_call led_factory_gw_blink"

lemma app_patterns_member:
  "''500,500,'' \<in> set app_patterns" "''200,0,'' \<in> set app_patterns" "''200,200,'' \<in> set app_patterns"
  "''200,5000,'' \<in> set app_patterns" "''200,200,200,200,200,200,200,200,200,200,200,10000,'' \<in> set app_patterns"
  "''200,200,200,200,200,200,200,5000,'' \<in> set app_patterns" "''200,200,200,5000,'' \<in> set app_patterns"
  "''200,200,200,200,200,5000,'' \<in> set app_patterns" "''200,1,'' \<in> set app_patterns"
  "''50,50,200,200,'' \<in> set app_patterns" "''50,50,'' \<in> set app_patterns"
  "''0,500,500,'' \<in> set app_patterns" "ntc_pattern \<in> set app_patterns"
  unfolding app_patterns_def list.set insert_iff by simp_all

lemma led_call_ok [keep]:
  assumes "led_call f" "bank_ok app_times b"
  shows "bank_ok app_times (f b)"
proof -
  have set: "bank_ok app_times (led_set_mode x k p b)"
    if "bank_ok app_times b" "k \<le> LOOP_PERMANENT" "p \<in> set app_patterns" for x k p b
    using that by (intro keep) (auto simp: app_times_def)
  have make: "bank_ok app_times (make_lamp x k p b)"
    if "bank_ok app_times b" "k \<le> LOOP_PERMANENT" "p \<in> set app_patterns" for x k p b
    using that by (auto simp: make_lamp_def app_times_def intro!: set keep)
  have start: "bank_ok app_times (start_lamp x b)" if "bank_ok app_times b" for x b
    using that by (simp add: start_lamp_def keep)
  have fields: "bank_ok app_times (b\<lparr>Pixel_Buf := px\<rparr>) = bank_ok app_times b"
    "bank_ok app_times (b\<lparr>led_valve_on_pause_flag := v\<rparr>) = bank_ok app_times b" for b px v
    by (rule bank_ok_cong, simp)+
  have few: "1 \<le> LOOP_PERMANENT" "3 \<le> LOOP_PERMANENT" "5 \<le> LOOP_PERMANENT" "75 \<le> LOOP_PERMANENT"
    by (simp_all add: LOOP_PERMANENT_def)
  have branch: "\<lbrakk>bank_ok app_times a; bank_ok app_times b\<rbrakk> \<Longrightarrow> bank_ok app_times (if c then a else b)" for a b c
    by simp
  note ops = set make start branch fields [THEN iffD2] few order_refl app_patterns_member bank_ok_ticks bank_ok_ops(4)
  from assms(1) show ?thesis
    by cases (simp_all only: indication_defs led_init_def led_run_tick_def fields, (intro ops assms(2))+)
qed

end
