(* ===== verification/Kv_Store.thy ===== *)
theory Kv_Store
  imports Prelude
begin

text \<open>
  The persistent key-value store (EasyFlash, used through \<open>ef_set_env_blob\<close>,
  \<open>ef_get_env_blob\<close> and \<open>ef_env_set_default\<close>) by its contract: what was stored last under
  a key is read back, other keys are untouched, and a key never stored reads as nothing.
  A stored value is either text (\<open>flash_set_key\<close>) or the bytes of a device structure,
  kept as a value of the parameter type.
  The laws are the locale \<open>kv_store\<close>; \<open>number_store\<close> adds the text codec of
  \<open>flash_set_key\<close> and \<open>flash_get_key\<close>.
\<close>

datatype 'd blob = BText string | BDev 'd

type_synonym 'd env = "string \<rightharpoonup> 'd blob"

definition ef_set_env_blob :: "string \<Rightarrow> 'd blob \<Rightarrow> 'd env \<Rightarrow> 'd env" where
  "ef_set_env_blob key v e = e(key \<mapsto> v)"

definition ef_get_env_blob :: "'d env \<Rightarrow> string \<Rightarrow> 'd blob option" where
  "ef_get_env_blob e key = e key"

text \<open>The default set of the port file is the single entry \<open>boot_times = 0\<close>.\<close>

definition ef_env_set_default :: "'d env" where
  "ef_env_set_default = [''boot_times'' \<mapsto> BText ''0'']"

locale kv_store =
  fixes get :: "'m \<Rightarrow> 'k \<Rightarrow> 'v option"
    and set_value :: "'k \<Rightarrow> 'v \<Rightarrow> 'm \<Rightarrow> 'm"
  assumes get_set: "get (set_value k v m) k' = (if k' = k then Some v else get m k')"
begin

lemma get_fold_set:
  "get (fold (\<lambda>x. set_value (key x) (val x)) xs m) k =
     (case List.find (\<lambda>x. key x = k) (rev xs) of Some x \<Rightarrow> Some (val x) | None \<Rightarrow> get m k)"
  by (induction xs rule: rev_induct) (auto simp: get_set)

lemma last_write_wins: "get (set_value k v (set_value k w m)) = get (set_value k v m)"
  by (rule ext) (simp add: get_set)

end

text \<open>A store of numbers on top of it: a codec that reads back what it wrote.\<close>

locale number_store = kv_store get set_value
  for get :: "'m \<Rightarrow> 'k \<Rightarrow> 'v option" and set_value :: "'k \<Rightarrow> 'v \<Rightarrow> 'm \<Rightarrow> 'm" +
  fixes encode :: "'n \<Rightarrow> 'v" and decode :: "'v option \<Rightarrow> 'n"
  assumes decode_encode: "decode (Some (encode n)) = n"
begin

lemma read_back: "decode (get (set_value k (encode n) m) k) = n"
  by (simp add: get_set decode_encode)

lemma read_other: "k' \<noteq> k \<Longrightarrow> decode (get (set_value k v m) k') = decode (get m k')"
  by (simp add: get_set)

end

interpretation ef: kv_store ef_get_env_blob ef_set_env_blob
  by unfold_locales (simp add: ef_get_env_blob_def ef_set_env_blob_def)

section \<open>Numbers stored as text\<close>

text \<open>
  \<open>flash_set_key\<close> prints the \<open>uint32_t\<close> with \<open>%d\<close>, that is as a signed number;
  \<open>flash_get_key\<close> reads it with \<open>atol\<close> and converts back, and gives 0 for a key that
  is not there.
\<close>

definition encode_number :: "u32 \<Rightarrow> 'd blob" where
  "encode_number v = BText (sprintf_d (sint v))"

definition decode_number :: "'d blob option \<Rightarrow> u32" where
  "decode_number b = (case b of Some (BText t) \<Rightarrow> word_of_int (atol t) | _ \<Rightarrow> 0)"

definition flash_set_key :: "string \<Rightarrow> u32 \<Rightarrow> 'd env \<Rightarrow> 'd env" where
  "flash_set_key key v e = ef_set_env_blob key (encode_number v) e"

definition flash_get_key :: "string \<Rightarrow> 'd env \<Rightarrow> u32" where
  "flash_get_key key e = decode_number (ef_get_env_blob e key)"

interpretation ef_num: number_store ef_get_env_blob ef_set_env_blob encode_number decode_number
  by unfold_locales (simp add: encode_number_def decode_number_def atol_sprintf_d)

lemma flash_get_set: "flash_get_key key (flash_set_key key v e) = v"
  unfolding flash_get_key_def flash_set_key_def by (rule ef_num.read_back)

lemma flash_get_other:
  "key' \<noteq> key \<Longrightarrow> flash_get_key key' (flash_set_key key v e) = flash_get_key key' e"
  unfolding flash_get_key_def flash_set_key_def by (rule ef_num.read_other)

lemma flash_get_blob_other:
  "key' \<noteq> key \<Longrightarrow> flash_get_key key' (ef_set_env_blob key v e) = flash_get_key key' e"
  unfolding flash_get_key_def by (rule ef_num.read_other)

lemma blob_flash_set_other:
  "key' \<noteq> key \<Longrightarrow> ef_get_env_blob (flash_set_key key v e) key' = ef_get_env_blob e key'"
  by (simp add: flash_set_key_def ef.get_set)

text \<open>
  Every 32-bit number stored under a key is read back, also those from 2 to the 31 on, which
  are printed as negative numbers; the other keys keep their values, and a key never written reads
  as 0.
\<close>

theorem flash_number_roundtrip:
  "flash_get_key key (flash_set_key key v e) = v \<and>
   (key' \<noteq> key \<longrightarrow> flash_get_key key' (flash_set_key key v e) = flash_get_key key' e) \<and>
   flash_get_key key Map.empty = 0"
  using flash_get_other [of key' key v e]
  by (simp add: flash_get_set) (simp add: flash_get_key_def ef_get_env_blob_def decode_number_def)

lemma flash_number_roundtrip_witness:
  "flash_get_key ''slot'' (flash_set_key ''valve_lock'' 1
     (flash_set_key ''slot'' 0xFFFFFFFE (Map.empty :: nat env))) = 0xFFFFFFFE"
proof -
  let ?e = "flash_set_key ''slot'' 0xFFFFFFFE (Map.empty :: nat env)"
  have "''slot'' \<noteq> ''valve_lock''" by simp
  then show ?thesis
    using flash_number_roundtrip [where key = "''valve_lock''" and v = 1 and e = ?e and key' = "''slot''"]
      flash_number_roundtrip [where key = "''slot''" and v = "0xFFFFFFFE" and e = "Map.empty :: nat env"]
    by metis
qed

end
