(* ===== verification/Device_Table.thy ===== *)
theory Device_Table
  imports Kv_Store
begin

text \<open>
  The table of learned devices (\<open>storage/flashwork.c\<close>): the linked list
  \<open>_device_list\<close> as a HOL list in chain order, the slot bitmap \<open>total_slot\<close> and the
  copy of both in the key-value store. The operations that also drive the beeper, the
  gateway uplink or the warnings are composed from these in the theories above this one.

  \<open>heap_ok\<close> is what the next \<open>rt_malloc\<close> whose result the code checks will do. The
  mutex is not modelled: the operations run one after the other. Pointers returned by
  \<open>aq_device_find\<close> become the identifier of the device; a write through such a pointer
  is \<open>write_device\<close>, which changes the first node with that identifier.
\<close>

record device =
  dev_snr :: int
  dev_rssi :: int
  slot :: byte
  rssi_level :: byte
  dev_type :: byte
  battery :: byte
  waterleak :: byte
  wirelost :: byte
  online :: byte
  ack :: byte
  recv :: byte
  rsvd :: byte
  device_id :: u32

type_synonym dev_env = "device env"

record storage =
  total_slot :: u32
  device_list :: "device list"
  ef_env :: dev_env
  heap_ok :: bool

definition MAX_SLAVER_DEVICE :: nat where "MAX_SLAVER_DEVICE = 12"

definition DEVICE_TYPE_ENDUNIT :: byte where "DEVICE_TYPE_ENDUNIT = 0x00"
definition DEVICE_TYPE_MAINUNIT :: byte where "DEVICE_TYPE_MAINUNIT = 0x01"
definition DEVICE_TYPE_GATEWAY :: byte where "DEVICE_TYPE_GATEWAY = 0x02"
definition DEVICE_TYPE_ALLINONE :: byte where "DEVICE_TYPE_ALLINONE = 0x03"
definition DEVICE_TYPE_DOORUNIT :: byte where "DEVICE_TYPE_DOORUNIT = 0x04"
definition DEVICE_TYPE_MOTION_SENSOR :: byte where "DEVICE_TYPE_MOTION_SENSOR = 0x06"
definition DEVICE_TYPE_FACTORY_TOOL :: byte where "DEVICE_TYPE_FACTORY_TOOL = 0x0E"

lemmas device_type_defs =
  DEVICE_TYPE_ENDUNIT_def DEVICE_TYPE_MAINUNIT_def DEVICE_TYPE_GATEWAY_def
  DEVICE_TYPE_ALLINONE_def DEVICE_TYPE_DOORUNIT_def DEVICE_TYPE_MOTION_SENSOR_def
  DEVICE_TYPE_FACTORY_TOOL_def

text \<open>The key \<open>rt_sprintf(key, "index:%d", slot)\<close>.\<close>

definition index_key :: "int \<Rightarrow> string" where
  "index_key i = ''index:'' @ sprintf_d i"

section \<open>Slots\<close>

definition slot_used :: "u32 \<Rightarrow> nat \<Rightarrow> bool" where
  "slot_used ts i \<longleftrightarrow> ts AND push_bit i 1 \<noteq> 0"

definition get_free_device_slot :: "storage \<Rightarrow> int \<times> storage" where
  "get_free_device_slot st =
     (case List.find (\<lambda>i. \<not> slot_used (total_slot st) i) [0..<MAX_SLAVER_DEVICE] of
        Some i \<Rightarrow> (int i, st\<lparr>total_slot := total_slot st OR push_bit i 1\<rparr>)
      | None \<Rightarrow> (-1, st))"

definition delete_select_device_slot :: "byte \<Rightarrow> storage \<Rightarrow> storage" where
  "delete_select_device_slot i st =
     st\<lparr>total_slot := total_slot st AND NOT (push_bit (unat i) 1)\<rparr>"

section \<open>Loading and saving\<close>

definition aq_device_save :: "device \<Rightarrow> dev_env \<Rightarrow> dev_env" where
  "aq_device_save d e = ef_set_env_blob (index_key (uint (slot d))) (BDev d) e"

text \<open>
  One turn of the loading loop: a slot whose blob is missing is skipped, its bit stays
  set. (The key holds device structures only, so a text value cannot be read there.)
\<close>

definition load_slot :: "nat \<Rightarrow> storage \<Rightarrow> storage" where
  "load_slot i st =
     (if slot_used (total_slot st) i
      then case ef_get_env_blob (ef_env st) (index_key (int i)) of
             Some (BDev d) \<Rightarrow> st\<lparr>device_list := device_list st @ [d]\<rparr>
           | _ \<Rightarrow> st
      else st)"

definition read_device_from_flash :: "storage \<Rightarrow> storage" where
  "read_device_from_flash st =
     (let st1 = st\<lparr>total_slot := flash_get_key ''slot'' (ef_env st)\<rparr>
      in fold load_slot [0..<32] st1)"

section \<open>Searching\<close>

definition aq_device_find :: "u32 \<Rightarrow> storage \<Rightarrow> device option" where
  "aq_device_find did st = List.find (\<lambda>d. device_id d = did) (device_list st)"

definition aq_gateway_find :: "storage \<Rightarrow> u32" where
  "aq_gateway_find st =
     (case List.find (\<lambda>d. dev_type d = DEVICE_TYPE_GATEWAY) (device_list st) of
        Some d \<Rightarrow> device_id d | None \<Rightarrow> 0)"

definition write_device :: "u32 \<Rightarrow> (device \<Rightarrow> device) \<Rightarrow> storage \<Rightarrow> storage" where
  "write_device did f st =
     st\<lparr>device_list := upd_first (\<lambda>d. device_id d = did) f (device_list st)\<rparr>"

section \<open>Creating and deleting\<close>

definition new_device :: "int \<Rightarrow> byte \<Rightarrow> byte \<Rightarrow> u32 \<Rightarrow> device" where
  "new_device sl rl ty did =
     \<lparr>dev_snr = 0, dev_rssi = 0, slot = word_of_int sl, rssi_level = rl, dev_type = ty,
      battery = 0, waterleak = 0, wirelost = 0, online = 1, ack = 0, recv = 0, rsvd = 0,
      device_id = did\<rparr>"

text \<open>
  The first component is the returned pointer (the device, or \<open>None\<close> for \<open>RT_NULL\<close>), the
  second says whether the code came to the \<open>beep_once()\<close> at its end.
\<close>

definition device_create :: "byte \<Rightarrow> byte \<Rightarrow> u32 \<Rightarrow> storage \<Rightarrow> (device option \<times> bool) \<times> storage" where
  "device_create rl ty did st =
     (case aq_device_find did st of
        Some d \<Rightarrow> ((Some d, False), st)
      | None \<Rightarrow>
          if 4095 < total_slot st then ((None, False), st)
          else let (sl, st1) = get_free_device_slot st in
            if sl < 0 then ((None, False), st1)
            else if \<not> heap_ok st1 then ((None, False), st1)
            else let d = new_device sl rl ty did;
                     st2 = st1\<lparr>device_list := device_list st1 @ [d]\<rparr>;
                     st3 = st2\<lparr>ef_env := flash_set_key ''slot'' (total_slot st2) (ef_env st2)\<rparr>
                 in ((Some d, True), st3\<lparr>ef_env := aq_device_save d (ef_env st3)\<rparr>))"

text \<open>The result is \<open>True\<close> for \<open>RT_EOK\<close>, \<open>False\<close> for \<open>RT_ERROR\<close>.\<close>

definition aq_device_delete :: "u32 \<Rightarrow> storage \<Rightarrow> bool \<times> storage" where
  "aq_device_delete did st =
     (case aq_device_find did st of
        Some d \<Rightarrow>
          let st1 = delete_select_device_slot (slot d) st;
              st2 = st1\<lparr>ef_env := flash_set_key ''slot'' (total_slot st1) (ef_env st1)\<rparr>
          in (True, st2\<lparr>device_list := del_first (\<lambda>d. device_id d = did) (device_list st2)\<rparr>)
      | None \<Rightarrow> (False, st))"

text \<open>
  The loop goes on from the node it has just freed; the model follows the chain as it was
  before the loop, which is what the program does as long as the freed memory is not reused.
\<close>

definition aq_gateway_delete :: "storage \<Rightarrow> storage" where
  "aq_gateway_delete st =
     fold (\<lambda>d st. if dev_type d = DEVICE_TYPE_GATEWAY
                  then snd (aq_device_delete (device_id d) st) else st) (device_list st) st"

section \<open>Loops over all devices\<close>

text \<open>A loop that rewrites the nodes in order and may save each to the store.\<close>

fun walk :: "(device \<Rightarrow> dev_env \<Rightarrow> device \<times> dev_env) \<Rightarrow> device list \<Rightarrow> dev_env
    \<Rightarrow> device list \<times> dev_env" where
  "walk f [] e = ([], e)"
| "walk f (d # ds) e =
     (let (d', e1) = f d e; (ds', e2) = walk f ds e1 in (d' # ds', e2))"

definition for_each_device ::
  "(device \<Rightarrow> dev_env \<Rightarrow> device \<times> dev_env) \<Rightarrow> storage \<Rightarrow> storage" where
  "for_each_device f st =
     (let (ds, e) = walk f (device_list st) (ef_env st) in st\<lparr>device_list := ds, ef_env := e\<rparr>)"

definition aq_device_recv_set :: "u32 \<Rightarrow> byte \<Rightarrow> storage \<Rightarrow> storage" where
  "aq_device_recv_set did v st =
     for_each_device (\<lambda>d e. (if device_id d = did then d\<lparr>recv := v\<rparr> else d, e)) st"

definition aq_device_recv_find :: "u32 \<Rightarrow> storage \<Rightarrow> byte" where
  "aq_device_recv_find did st = (case aq_device_find did st of Some d \<Rightarrow> recv d | None \<Rightarrow> 0)"

text \<open>The body the five saving setters share: change the field, save, both only on a change.\<close>

definition save_node :: "(device \<Rightarrow> byte) \<Rightarrow> (byte \<Rightarrow> device \<Rightarrow> device) \<Rightarrow> u32 \<Rightarrow> byte
    \<Rightarrow> device \<Rightarrow> dev_env \<Rightarrow> device \<times> dev_env" where
  "save_node get put did v d e =
     (if device_id d = did then
        if get d \<noteq> v then (put v d, aq_device_save (put v d) e) else (d, e)
      else (d, e))"

definition set_and_save ::
  "(device \<Rightarrow> byte) \<Rightarrow> (byte \<Rightarrow> device \<Rightarrow> device) \<Rightarrow> u32 \<Rightarrow> byte \<Rightarrow> storage \<Rightarrow> storage" where
  "set_and_save get put did v st = for_each_device (save_node get put did v) st"

definition aq_device_waterleak_set :: "u32 \<Rightarrow> byte \<Rightarrow> storage \<Rightarrow> storage" where
  "aq_device_waterleak_set = set_and_save waterleak (\<lambda>v d. d\<lparr>waterleak := v\<rparr>)"

definition aq_device_waterleak_find :: "storage \<Rightarrow> bool" where
  "aq_device_waterleak_find st \<longleftrightarrow> (\<exists>d \<in> set (device_list st). waterleak d \<noteq> 0)"

definition aq_device_wirelost_set :: "u32 \<Rightarrow> byte \<Rightarrow> storage \<Rightarrow> storage" where
  "aq_device_wirelost_set = set_and_save wirelost (\<lambda>v d. d\<lparr>wirelost := v\<rparr>)"

definition aq_device_wirelost_find :: "storage \<Rightarrow> bool" where
  "aq_device_wirelost_find st \<longleftrightarrow> (\<exists>d \<in> set (device_list st). wirelost d \<noteq> 0)"

definition aq_device_battery_set :: "u32 \<Rightarrow> byte \<Rightarrow> storage \<Rightarrow> storage" where
  "aq_device_battery_set = set_and_save battery (\<lambda>v d. d\<lparr>battery := v\<rparr>)"

definition aq_device_online_set :: "u32 \<Rightarrow> byte \<Rightarrow> storage \<Rightarrow> storage" where
  "aq_device_online_set = set_and_save online (\<lambda>v d. d\<lparr>online := v\<rparr>)"

definition aq_device_rssi_level_set :: "u32 \<Rightarrow> byte \<Rightarrow> storage \<Rightarrow> storage" where
  "aq_device_rssi_level_set = set_and_save rssi_level (\<lambda>v d. d\<lparr>rssi_level := v\<rparr>)"

definition aq_device_endunit_offline_find :: "storage \<Rightarrow> bool" where
  "aq_device_endunit_offline_find st \<longleftrightarrow>
     (\<exists>d \<in> set (device_list st). online d = 0 \<and> dev_type d = DEVICE_TYPE_ENDUNIT)"

definition aq_device_door_offline_find :: "storage \<Rightarrow> bool" where
  "aq_device_door_offline_find st \<longleftrightarrow>
     (\<exists>d \<in> set (device_list st). online d = 0 \<and> dev_type d = DEVICE_TYPE_DOORUNIT)"

text \<open>The bytes written to the buffer, in order, and the number of devices.\<close>

definition aq_device_offline_upload :: "storage \<Rightarrow> byte list \<times> byte" where
  "aq_device_offline_upload st =
     (let ds = filter (\<lambda>d. online d = 0 \<and> dev_type d \<noteq> DEVICE_TYPE_GATEWAY) (device_list st)
      in (concat (map (\<lambda>d. split32 (device_id d)) ds), of_nat (length ds)))"

definition aq_device_clone_upload :: "storage \<Rightarrow> byte list \<times> byte" where
  "aq_device_clone_upload st =
     (let ds = filter (\<lambda>d. dev_type d \<noteq> DEVICE_TYPE_GATEWAY) (device_list st)
      in (concat (map (\<lambda>d. split32 (device_id d)
            @ [dev_type d, online d, rssi_level d, battery d]) ds), of_nat (length ds)))"

definition aq_device_slaver_count :: "storage \<Rightarrow> byte" where
  "aq_device_slaver_count st =
     of_nat (length (filter (\<lambda>d. dev_type d \<noteq> DEVICE_TYPE_GATEWAY) (device_list st)))"

definition aq_device_heart_recv_clear :: "storage \<Rightarrow> storage" where
  "aq_device_heart_recv_clear st =
     for_each_device (\<lambda>d e.
       (if dev_type d \<noteq> DEVICE_TYPE_GATEWAY then d\<lparr>recv := 0\<rparr> else d, e)) st"

definition aq_device_heart_recv :: "u32 \<Rightarrow> byte \<Rightarrow> storage \<Rightarrow> bool \<times> storage" where
  "aq_device_heart_recv src rl st =
     (case aq_device_find src st of
        Some d \<Rightarrow>
          (True, aq_device_rssi_level_set src rl
             (aq_device_online_set src 1 (write_device src (\<lambda>d. d\<lparr>recv := 1\<rparr>) st)))
      | None \<Rightarrow> (False, st))"

text \<open>
  The loop of \<open>aq_device_heart_check\<close>: by position, because \<open>aq_device_online_set\<close> walks
  the whole chain again from inside the loop.
\<close>

definition heart_check_node :: "nat \<Rightarrow> storage \<Rightarrow> storage" where
  "heart_check_node i st =
     (let d = device_list st ! i in
      if dev_type d \<noteq> DEVICE_TYPE_GATEWAY then
        if recv d \<noteq> 0
        then st\<lparr>device_list := (device_list st)[i := d\<lparr>recv := 0\<rparr>]\<rparr>
        else aq_device_online_set (device_id d) 0 st
      else st)"

definition heart_check_loop :: "storage \<Rightarrow> storage" where
  "heart_check_loop st = fold heart_check_node [0..<length (device_list st)] st"

section \<open>The invariant of the table\<close>

text \<open>What of a device survives a restart: the fields that are saved whenever they change.\<close>

definition persist :: "device \<Rightarrow> u32 \<times> byte \<times> byte \<times> byte \<times> byte \<times> byte \<times> byte" where
  "persist d = (device_id d, slot d, dev_type d, battery d, waterleak d, wirelost d, online d)"

text \<open>
  The devices have different identifiers and different slots below 12, and the bitmap
  holds exactly their slots.
\<close>

definition slots_ok :: "storage \<Rightarrow> bool" where
  "slots_ok st \<longleftrightarrow>
     distinct (map device_id (device_list st)) \<and> distinct (map slot (device_list st)) \<and>
     (\<forall>d \<in> set (device_list st). unat (slot d) < MAX_SLAVER_DEVICE) \<and>
     (\<forall>i. slot_used (total_slot st) i \<longleftrightarrow> (\<exists>d \<in> set (device_list st). unat (slot d) = i))"

text \<open>The store holds the bitmap and, for every device, its persistent fields.\<close>

definition entry_ok :: "dev_env \<Rightarrow> device \<Rightarrow> bool" where
  "entry_ok e d \<longleftrightarrow>
     (\<exists>d'. ef_get_env_blob e (index_key (uint (slot d))) = Some (BDev d') \<and> persist d' = persist d)"

definition saved :: "storage \<Rightarrow> bool" where
  "saved st \<longleftrightarrow> flash_get_key ''slot'' (ef_env st) = total_slot st \<and>
     (\<forall>d \<in> set (device_list st). entry_ok (ef_env st) d)"

definition table_ok :: "storage \<Rightarrow> bool" where
  "table_ok st \<longleftrightarrow> slots_ok st \<and> saved st"

section \<open>Keys and bits\<close>

lemma sprintf_d_inj: "sprintf_d i = sprintf_d j \<longleftrightarrow> i = j"
  by (metis atol_sprintf_d)

lemma index_key_inj [simp]: "index_key i = index_key j \<longleftrightarrow> i = j"
  by (simp add: index_key_def sprintf_d_inj)

lemma index_key_other [simp]:
  "index_key i \<noteq> ''slot''" "''slot'' \<noteq> index_key i"
  "index_key i \<noteq> ''valve_lock''" "''valve_lock'' \<noteq> index_key i"
  by (simp_all add: index_key_def)

lemma slot_used_bit: "slot_used ts i = bit ts i"
  by (simp add: slot_used_def bit_iff_and_push_bit_not_eq_0)

lemma slot_used_set: "i < 32 \<Longrightarrow> slot_used (ts OR push_bit i 1) j \<longleftrightarrow> slot_used ts j \<or> j = i"
  by (auto simp: slot_used_bit bit_simps)

lemma slot_used_clear:
  "slot_used (ts AND NOT (push_bit i 1)) j \<longleftrightarrow> slot_used ts j \<and> j \<noteq> i"
  by (auto simp: slot_used_bit bit_simps dest: bit_imp_le_length)

lemma slot_used_lt: "slot_used ts i \<Longrightarrow> i < 32"
  using bit_imp_le_length [of ts i] by (simp add: slot_used_bit)

text \<open>A bitmap without a bit from 12 on is at most 4095, the limit \<open>aq_device_create\<close> tests.\<close>

lemma small_bitmap:
  assumes "\<And>i. slot_used ts i \<Longrightarrow> i < 12"
  shows "ts \<le> 4095"
proof -
  have "take_bit 12 ts = ts"
    by (rule bit_word_eqI) (use assms in \<open>auto simp: bit_simps slot_used_bit\<close>)
  then have "ts = ts AND mask 12" by (simp add: take_bit_eq_mask)
  then have "ts \<le> mask 12" by (metis word_and_le1)
  also have "mask 12 = (4095 :: u32)" by (simp add: mask_eq_exp_minus_1)
  finally show ?thesis .
qed

lemma save_get:
  "ef_get_env_blob (aq_device_save d e) k =
     (if k = index_key (uint (slot d)) then Some (BDev d) else ef_get_env_blob e k)"
  by (simp add: aq_device_save_def ef.get_set)

lemma save_slot_key [simp]:
  "flash_get_key ''slot'' (aq_device_save d e) = flash_get_key ''slot'' e"
  "flash_get_key ''valve_lock'' (aq_device_save d e) = flash_get_key ''valve_lock'' e"
  by (simp_all add: aq_device_save_def flash_get_blob_other)

lemma entry_ok_save_same: "entry_ok (aq_device_save d e) d"
  by (auto simp: entry_ok_def save_get)

lemma entry_ok_save_other:
  "slot d' \<noteq> slot d \<Longrightarrow> entry_ok (aq_device_save d' e) d = entry_ok e d"
  by (auto simp: entry_ok_def save_get word_uint_eq_iff)

lemma entry_ok_slot_key: "entry_ok (flash_set_key ''slot'' v e) d = entry_ok e d"
  by (simp add: entry_ok_def blob_flash_set_other)

section \<open>Loops that rewrite the devices\<close>

text \<open>
  The contract the loops over all devices share: a node keeps its identity, and it either
  keeps its persistent fields and leaves the store alone or is saved.
\<close>

locale node_update =
  fixes f :: "device \<Rightarrow> dev_env \<Rightarrow> device \<times> dev_env"
  assumes same_key: "f d e = (d', e') \<Longrightarrow>
      slot d' = slot d \<and> device_id d' = device_id d \<and> dev_type d' = dev_type d"
    and same_or_saved: "f d e = (d', e') \<Longrightarrow>
      e' = e \<and> persist d' = persist d \<or> e' = aq_device_save d' e"
begin

lemma walk_keys:
  "walk f ds e = (ds', e') \<Longrightarrow>
   map device_id ds' = map device_id ds \<and> map slot ds' = map slot ds \<and>
   map dev_type ds' = map dev_type ds"
proof (induction ds arbitrary: e ds' e')
  case (Cons d ds)
  obtain d1 e1 ds1 e2 where "f d e = (d1, e1)" "walk f ds e1 = (ds1, e2)"
    by (metis surj_pair)
  with Cons same_key show ?case by auto
qed auto

lemma walk_store:
  "walk f ds e = (ds', e') \<Longrightarrow>
     flash_get_key ''slot'' e' = flash_get_key ''slot'' e \<and>
     flash_get_key ''valve_lock'' e' = flash_get_key ''valve_lock'' e \<and>
     (\<forall>x. slot x \<notin> slot ` set ds \<longrightarrow> entry_ok e' x = entry_ok e x)"
proof (induction ds arbitrary: e ds' e')
  case (Cons d ds)
  obtain d1 e1 ds1 e2 where f: "f d e = (d1, e1)" and w: "walk f ds e1 = (ds1, e2)"
    by (metis surj_pair)
  have "e' = e2" using Cons.prems f w by simp
  with Cons.IH [OF w] same_or_saved [OF f] same_key [OF f] show ?case
    by (auto simp: entry_ok_save_other)
qed auto

lemma walk_entries:
  "\<lbrakk>walk f ds e = (ds', e'); distinct (map slot ds); \<forall>d \<in> set ds. entry_ok e d\<rbrakk>
   \<Longrightarrow> \<forall>d \<in> set ds'. entry_ok e' d"
proof (induction ds arbitrary: e ds' e')
  case (Cons d ds)
  obtain d1 e1 ds1 e2 where f: "f d e = (d1, e1)" and w: "walk f ds e1 = (ds1, e2)"
    by (metis surj_pair)
  have r: "ds' = d1 # ds1" "e' = e2" using Cons.prems f w by auto
  have new: "slot d1 \<notin> slot ` set ds" using Cons.prems(2) same_key [OF f] by auto
  have "entry_ok e1 d1"
    using same_or_saved [OF f] same_key [OF f] Cons.prems(3)
    by (auto simp: entry_ok_save_same) (simp add: entry_ok_def)
  then have d1: "entry_ok e2 d1" using walk_store [OF w] new by blast
  have "\<forall>x \<in> set ds. entry_ok e1 x"
    using same_or_saved [OF f] new Cons.prems(3) by (auto simp: entry_ok_save_other image_iff)
  then have "\<forall>x \<in> set ds1. entry_ok e2 x" using Cons.IH [OF w] Cons.prems(2) by simp
  with d1 r show ?case by simp
qed auto

lemma keys_kept:
  "map device_id (device_list (for_each_device f st)) = map device_id (device_list st)"
  "map slot (device_list (for_each_device f st)) = map slot (device_list st)"
  "map dev_type (device_list (for_each_device f st)) = map dev_type (device_list st)"
  "total_slot (for_each_device f st) = total_slot st"
  "heap_ok (for_each_device f st) = heap_ok st"
  "flash_get_key ''valve_lock'' (ef_env (for_each_device f st)) = flash_get_key ''valve_lock'' (ef_env st)"
  using walk_keys [of "device_list st" "ef_env st"] walk_store [of "device_list st" "ef_env st"]
  by (auto simp: for_each_device_def split: prod.split)

lemma slots_kept: "slots_ok st \<Longrightarrow> slots_ok (for_each_device f st)"
proof -
  have "set (map slot (device_list (for_each_device f st))) = set (map slot (device_list st))"
    by (simp only: keys_kept)
  then have s: "slot ` set (device_list (for_each_device f st)) = slot ` set (device_list st)"
    by simp
  have eq: "(\<exists>d \<in> set ds. P (slot d)) \<longleftrightarrow> (\<exists>x \<in> slot ` set ds. P x)"
    "(\<forall>d \<in> set ds. P (slot d)) \<longleftrightarrow> (\<forall>x \<in> slot ` set ds. P x)" for ds :: "device list" and P
    by auto
  show "slots_ok st \<Longrightarrow> slots_ok (for_each_device f st)"
    unfolding slots_ok_def keys_kept eq(1) [of _ "\<lambda>x. unat x = _"]
      eq(2) [of _ "\<lambda>x. unat x < MAX_SLAVER_DEVICE"] s by simp
qed

lemma table_kept: "table_ok st \<Longrightarrow> table_ok (for_each_device f st)"
proof -
  assume ok: "table_ok st"
  obtain ds e where w: "walk f (device_list st) (ef_env st) = (ds, e)" by fastforce
  then have st': "device_list (for_each_device f st) = ds" "ef_env (for_each_device f st) = e"
    by (simp_all add: for_each_device_def)
  have "\<forall>d \<in> set ds. entry_ok e d"
    using walk_entries [OF w] ok by (simp add: table_ok_def slots_ok_def saved_def)
  then have "saved (for_each_device f st)"
    using ok walk_store [OF w] by (simp add: saved_def st' keys_kept table_ok_def)
  with slots_kept ok show ?thesis by (simp add: table_ok_def)
qed

end

text \<open>The loops that do not touch the store.\<close>

interpretation recv_node:
  node_update "\<lambda>d e. (if device_id d = did then d\<lparr>recv := v\<rparr> else d, e)" for did v
  by unfold_locales (auto simp: persist_def split: if_splits)

interpretation recv_clear_node:
  node_update "\<lambda>d e. (if dev_type d \<noteq> DEVICE_TYPE_GATEWAY then d\<lparr>recv := 0\<rparr> else d, e)"
  by unfold_locales (auto simp: persist_def split: if_splits)

text \<open>A field with a saving setter.\<close>

locale saved_field =
  fixes get :: "device \<Rightarrow> byte" and put :: "byte \<Rightarrow> device \<Rightarrow> device"
  assumes put_key: "slot (put v d) = slot d" "device_id (put v d) = device_id d"
      "dev_type (put v d) = dev_type d"
    and put_same: "put (get d) d = d"
    and get_put: "get (put v d) = v"
begin

lemma save_node_update: "node_update (save_node get put did v)"
  by unfold_locales (auto simp: save_node_def put_key split: if_splits)

lemma walk_save_node:
  "fst (walk (save_node get put did v) ds e) = map (\<lambda>d. if device_id d = did then put v d else d) ds"
  by (induction ds arbitrary: e) (auto simp: save_node_def put_same case_prod_beta Let_def)

text \<open>Exactly the devices with the identifier get the value, whatever they had before.\<close>

lemma set_list:
  "device_list (set_and_save get put did v st) =
     map (\<lambda>d. if device_id d = did then put v d else d) (device_list st)"
  using walk_save_node [of did v "device_list st" "ef_env st"]
  by (auto simp: set_and_save_def for_each_device_def split: prod.split)

lemma set_reads:
  "aq_device_find x (set_and_save get put did v st) =
     map_option (\<lambda>d. if x = did then put v d else d) (aq_device_find x st)"
proof -
  have "List.find (\<lambda>d. device_id d = x) (map (\<lambda>d. if device_id d = did then put v d else d) ds) =
      map_option (\<lambda>d. if x = did then put v d else d) (List.find (\<lambda>d. device_id d = x) ds)" for ds
    by (induction ds) (auto simp: put_key)
  then show ?thesis by (simp add: aq_device_find_def set_list)
qed

lemma set_simps:
  "total_slot (set_and_save get put did v st) = total_slot st"
  "heap_ok (set_and_save get put did v st) = heap_ok st"
  "flash_get_key ''valve_lock'' (ef_env (set_and_save get put did v st)) =
     flash_get_key ''valve_lock'' (ef_env st)"
  unfolding set_and_save_def by (rule node_update.keys_kept [OF save_node_update])+

lemma set_table_ok: "table_ok st \<Longrightarrow> table_ok (set_and_save get put did v st)"
  unfolding set_and_save_def by (rule node_update.table_kept [OF save_node_update])

end

sublocale saved_field \<subseteq> node: node_update "save_node get put did v" for did v
  by (rule save_node_update)

interpretation waterleak_field: saved_field waterleak "\<lambda>v d. d\<lparr>waterleak := v\<rparr>"
  by unfold_locales simp_all
interpretation wirelost_field: saved_field wirelost "\<lambda>v d. d\<lparr>wirelost := v\<rparr>"
  by unfold_locales simp_all
interpretation battery_field: saved_field battery "\<lambda>v d. d\<lparr>battery := v\<rparr>"
  by unfold_locales simp_all
interpretation online_field: saved_field online "\<lambda>v d. d\<lparr>online := v\<rparr>"
  by unfold_locales simp_all
interpretation rssi_level_field: saved_field rssi_level "\<lambda>v d. d\<lparr>rssi_level := v\<rparr>"
  by unfold_locales simp_all

lemmas setter_defs =
  aq_device_waterleak_set_def aq_device_wirelost_set_def aq_device_battery_set_def
  aq_device_online_set_def aq_device_rssi_level_set_def

lemmas setter_lists =
  waterleak_field.set_list wirelost_field.set_list battery_field.set_list
  online_field.set_list rssi_level_field.set_list

section \<open>Creating a device\<close>

lemma find_free_slot:
  "List.find (\<lambda>i. \<not> slot_used ts i) [0..<MAX_SLAVER_DEVICE] = Some i \<longleftrightarrow>
     i < MAX_SLAVER_DEVICE \<and> \<not> slot_used ts i \<and> (\<forall>j < i. slot_used ts j)"
  by (auto simp: find_Some_iff MAX_SLAVER_DEVICE_def)

lemma find_no_slot:
  "List.find (\<lambda>i. \<not> slot_used ts i) [0..<MAX_SLAVER_DEVICE] = None \<longleftrightarrow>
     (\<forall>i < MAX_SLAVER_DEVICE. slot_used ts i)"
  by (auto simp: find_None_iff MAX_SLAVER_DEVICE_def)

lemma slot_byte: "i < MAX_SLAVER_DEVICE \<Longrightarrow> unat (word_of_int (int i) :: byte) = i"
  by (simp add: MAX_SLAVER_DEVICE_def unat_of_nat)

lemma unat_inj: "unat (x :: 'a::len word) = unat y \<longleftrightarrow> x = y"
  by (simp add: word_unat_eq_iff)

lemma slots_ok_small: "slots_ok st \<Longrightarrow> total_slot st \<le> 4095"
  by (rule small_bitmap) (auto simp: slots_ok_def MAX_SLAVER_DEVICE_def)

lemma slots_ok_capacity:
  assumes "slots_ok st"
  shows "length (device_list st) \<le> MAX_SLAVER_DEVICE"
proof -
  have "distinct (map (unat \<circ> slot) (device_list st))"
    using assms by (auto simp: slots_ok_def distinct_map inj_on_def unat_inj)
  then have "length (device_list st) = card (set (map (unat \<circ> slot) (device_list st)))"
    by (metis distinct_card length_map)
  also have "\<dots> \<le> card {..<MAX_SLAVER_DEVICE}"
    using assms by (intro card_mono) (auto simp: slots_ok_def)
  finally show ?thesis by simp
qed

text \<open>The table after a device has been put in slot \<open>i\<close>.\<close>

definition with_device :: "nat \<Rightarrow> byte \<Rightarrow> byte \<Rightarrow> u32 \<Rightarrow> storage \<Rightarrow> storage" where
  "with_device i rl ty did st =
     (let d = new_device (int i) rl ty did; ts = total_slot st OR push_bit i 1
      in st\<lparr>total_slot := ts, device_list := device_list st @ [d],
           ef_env := aq_device_save d (flash_set_key ''slot'' ts (ef_env st))\<rparr>)"

lemma device_create_new:
  assumes "aq_device_find did st = None" "total_slot st \<le> 4095" "heap_ok st"
    and "i < MAX_SLAVER_DEVICE" "\<not> slot_used (total_slot st) i" "\<forall>j < i. slot_used (total_slot st) j"
  shows "device_create rl ty did st =
     ((Some (new_device (int i) rl ty did), True), with_device i rl ty did st)"
proof -
  have "get_free_device_slot st = (int i, st\<lparr>total_slot := total_slot st OR push_bit i 1\<rparr>)"
    using find_free_slot [of "total_slot st" i] assms by (simp add: get_free_device_slot_def)
  then show ?thesis
    using assms by (simp add: device_create_def with_device_def Let_def not_less)
qed

lemma with_device_ok:
  assumes ok: "table_ok st" and new: "aq_device_find did st = None"
    and i: "i < MAX_SLAVER_DEVICE" "\<not> slot_used (total_slot st) i"
  shows "table_ok (with_device i rl ty did st)"
proof -
  let ?d = "new_device (int i) rl ty did"
  have d: "unat (slot ?d) = i" "device_id ?d = did"
    using i slot_byte by (simp_all add: new_device_def)
  have free: "\<forall>x \<in> set (device_list st). slot x \<noteq> slot ?d"
    using ok i d by (auto simp: table_ok_def slots_ok_def)
  have ids: "\<forall>x \<in> set (device_list st). device_id x \<noteq> did"
    using new by (auto simp: aq_device_find_def find_None_iff)
  have bits: "slot_used (total_slot st OR push_bit i 1) j \<longleftrightarrow> slot_used (total_slot st) j \<or> j = i" for j
    using i by (simp only: slot_used_set MAX_SLAVER_DEVICE_def)
  then have "slots_ok (with_device i rl ty did st)"
    using ok free ids d i
    by (auto simp: table_ok_def slots_ok_def with_device_def Let_def image_iff
        simp del: push_bit_of_1 push_bit_eq_mult)
  moreover have "saved (with_device i rl ty did st)"
    using ok free
    by (auto simp: table_ok_def saved_def with_device_def Let_def flash_get_set entry_ok_save_same
        entry_ok_save_other entry_ok_slot_key)
  ultimately show ?thesis by (simp add: table_ok_def)
qed

lemma device_create_table_ok [keep]:
  assumes ok: "table_ok st" and heap: "heap_ok st"
  shows "table_ok (snd (device_create rl ty did st))"
proof (cases "aq_device_find did st")
  case (Some d)
  with ok show ?thesis by (simp add: device_create_def)
next
  case None
  have small: "total_slot st \<le> 4095" using ok by (simp add: table_ok_def slots_ok_small)
  show ?thesis
  proof (cases "List.find (\<lambda>i. \<not> slot_used (total_slot st) i) [0..<MAX_SLAVER_DEVICE]")
    case None
    with ok \<open>aq_device_find did st = None\<close> show ?thesis
      by (simp add: device_create_def get_free_device_slot_def)
  next
    case (Some i)
    then have "i < MAX_SLAVER_DEVICE" "\<not> slot_used (total_slot st) i"
        "\<forall>j < i. slot_used (total_slot st) j"
      by (simp_all add: find_free_slot)
    with device_create_new [OF None small heap, of i rl ty] with_device_ok [OF ok None, of i rl ty]
    show ?thesis by simp
  qed
qed

lemma device_create_heap [simp]: "heap_ok (snd (device_create rl ty did st)) = heap_ok st"
  by (auto simp: device_create_def get_free_device_slot_def Let_def split: option.split)

text \<open>When the allocation fails the slot stays taken in the bitmap: a slot is lost.\<close>

lemma device_create_no_heap:
  assumes "aq_device_find did st = None" "total_slot st \<le> 4095" "\<not> heap_ok st"
    and "i < MAX_SLAVER_DEVICE" "\<not> slot_used (total_slot st) i" "\<forall>j < i. slot_used (total_slot st) j"
  shows "device_create rl ty did st =
     ((None, False), st\<lparr>total_slot := total_slot st OR push_bit i 1\<rparr>)"
proof -
  have "get_free_device_slot st = (int i, st\<lparr>total_slot := total_slot st OR push_bit i 1\<rparr>)"
    using find_free_slot [of "total_slot st" i] assms by (simp add: get_free_device_slot_def)
  then show ?thesis using assms by (simp add: device_create_def Let_def not_less)
qed

section \<open>Deleting a device\<close>

lemma aq_device_delete_list:
  "distinct (map device_id (device_list st)) \<Longrightarrow>
   device_list (snd (aq_device_delete did st)) = filter (\<lambda>d. device_id d \<noteq> did) (device_list st)"
  by (auto simp: aq_device_delete_def aq_device_find_def Let_def delete_select_device_slot_def
      del_first_key find_None_iff intro!: filter_True [symmetric] split: option.split)

lemma aq_device_delete_table_ok [keep]:
  assumes ok: "table_ok st"
  shows "table_ok (snd (aq_device_delete did st))"
proof (cases "aq_device_find did st")
  case None
  with ok show ?thesis by (simp add: aq_device_delete_def)
next
  case (Some d)
  then have d: "d \<in> set (device_list st)" "device_id d = did"
    by (auto simp: aq_device_find_def dest: find_Some_in)
  let ?ts = "total_slot st AND NOT (push_bit (unat (slot d)) 1)"
  let ?L = "filter (\<lambda>x. device_id x \<noteq> did) (device_list st)"
  have dist: "distinct (map device_id (device_list st))" "distinct (map slot (device_list st))"
    using ok by (auto simp: table_ok_def slots_ok_def)
  have st': "snd (aq_device_delete did st) =
      st\<lparr>total_slot := ?ts, device_list := ?L, ef_env := flash_set_key ''slot'' ?ts (ef_env st)\<rparr>"
    using Some by (simp add: aq_device_delete_def Let_def delete_select_device_slot_def
        del_first_key [OF dist(1)])
  have other: "x \<in> set (device_list st) \<and> unat (slot x) = unat (slot d) \<longleftrightarrow> x = d" for x
    using dist(2) d by (auto simp: distinct_map inj_on_def unat_inj)
  have same: "x \<in> set (device_list st) \<Longrightarrow> device_id x = did \<longleftrightarrow> x = d" for x
    using dist(1) d by (auto simp: distinct_map inj_on_def)
  have "slot_used ?ts i \<longleftrightarrow> (\<exists>x \<in> set ?L. unat (slot x) = i)" for i
  proof -
    have "slot_used (total_slot st) i \<longleftrightarrow> (\<exists>x \<in> set (device_list st). unat (slot x) = i)"
      using ok by (simp add: table_ok_def slots_ok_def)
    then show ?thesis unfolding slot_used_clear using other same by auto
  qed
  then have "slots_ok (snd (aq_device_delete did st))"
    using ok dist by (auto simp: st' table_ok_def slots_ok_def distinct_map_filter_key)
  moreover have "saved (snd (aq_device_delete did st))"
    using ok by (auto simp: st' table_ok_def saved_def flash_get_set entry_ok_slot_key)
  ultimately show ?thesis by (simp add: table_ok_def)
qed

lemma aq_device_delete_simps [simp]:
  "heap_ok (snd (aq_device_delete did st)) = heap_ok st"
  "flash_get_key ''valve_lock'' (ef_env (snd (aq_device_delete did st))) =
     flash_get_key ''valve_lock'' (ef_env st)"
  by (auto simp: aq_device_delete_def Let_def delete_select_device_slot_def flash_get_other
      split: option.split)

text \<open>Deleting while walking the chain, for one kind of device.\<close>

lemma delete_kind_fold:
  assumes "table_ok st"
  shows "table_ok (fold (\<lambda>d st. if P d then snd (aq_device_delete (device_id d) st) else st) xs st) \<and>
    device_list (fold (\<lambda>d st. if P d then snd (aq_device_delete (device_id d) st) else st) xs st)
      = filter (\<lambda>d. \<forall>x \<in> set xs. P x \<longrightarrow> device_id x \<noteq> device_id d) (device_list st)"
  using assms
proof (induction xs arbitrary: st)
  case (Cons x xs)
  show ?case
  proof (cases "P x")
    case True
    have "table_ok (snd (aq_device_delete (device_id x) st))" using Cons.prems by (rule keep)
    moreover have "device_list (snd (aq_device_delete (device_id x) st)) =
        filter (\<lambda>d. device_id d \<noteq> device_id x) (device_list st)"
      using Cons.prems by (intro aq_device_delete_list) (simp add: table_ok_def slots_ok_def)
    ultimately show ?thesis using Cons.IH True by (auto intro!: filter_cong)
  next
    case False
    with Cons show ?thesis by simp
  qed
qed simp

lemma delete_kind:
  assumes "table_ok st"
  shows "device_list (fold (\<lambda>d st. if P d then snd (aq_device_delete (device_id d) st) else st)
      (device_list st) st) = filter (\<lambda>d. \<not> P d) (device_list st)"
proof -
  have "distinct (map device_id (device_list st))"
    using assms by (simp add: table_ok_def slots_ok_def)
  then have "(\<forall>x \<in> set (device_list st). P x \<longrightarrow> device_id x \<noteq> device_id d) = (\<not> P d)"
    if "d \<in> set (device_list st)" for d
    using that by (auto simp: distinct_map inj_on_def)
  then have "filter (\<lambda>d. \<forall>x \<in> set (device_list st). P x \<longrightarrow> device_id x \<noteq> device_id d) (device_list st)
      = filter (\<lambda>d. \<not> P d) (device_list st)"
    by (rule filter_cong [OF refl])
  with delete_kind_fold [OF assms, of P "device_list st"] show ?thesis by (simp only:)
qed

lemma aq_gateway_delete_table_ok [keep]: "table_ok st \<Longrightarrow> table_ok (aq_gateway_delete st)"
  unfolding aq_gateway_delete_def
  by (rule delete_kind_fold [of st "\<lambda>d. dev_type d = DEVICE_TYPE_GATEWAY", THEN conjunct1])

lemma aq_gateway_delete_list:
  "table_ok st \<Longrightarrow> device_list (aq_gateway_delete st) =
     filter (\<lambda>d. dev_type d \<noteq> DEVICE_TYPE_GATEWAY) (device_list st)"
  unfolding aq_gateway_delete_def
  by (rule delete_kind [of st "\<lambda>d. dev_type d = DEVICE_TYPE_GATEWAY"])

section \<open>Restarting\<close>

text \<open>What \<open>storage_init\<close> finds after a reset: the variables of the C file are zero.\<close>

definition reset_storage :: "storage \<Rightarrow> storage" where
  "reset_storage st = read_device_from_flash (st\<lparr>total_slot := 0, device_list := []\<rparr>)"

definition slot_blob :: "u32 \<Rightarrow> dev_env \<Rightarrow> nat \<Rightarrow> device list" where
  "slot_blob ts e i =
     (if slot_used ts i
      then case ef_get_env_blob e (index_key (int i)) of Some (BDev d) \<Rightarrow> [d] | _ \<Rightarrow> []
      else [])"

lemma fold_load_slot:
  "fold load_slot is st =
     st\<lparr>device_list := device_list st @ concat (map (slot_blob (total_slot st) (ef_env st)) is)\<rparr>"
  by (induction "is" arbitrary: st)
    (auto simp: load_slot_def slot_blob_def split: option.split blob.split)

lemma reset_storage_list:
  assumes "saved st"
  shows "reset_storage st =
    st\<lparr>device_list := concat (map (slot_blob (total_slot st) (ef_env st)) [0..<32])\<rparr>"
  using assms
  by (simp add: reset_storage_def read_device_from_flash_def fold_load_slot saved_def)

lemma slot_blob_device:
  assumes ok: "table_ok st" and d: "d \<in> set (device_list st)"
  shows "\<exists>d'. slot_blob (total_slot st) (ef_env st) (unat (slot d)) = [d'] \<and> persist d' = persist d"
proof -
  have "slot_used (total_slot st) (unat (slot d))"
    using ok d by (auto simp: table_ok_def slots_ok_def)
  moreover have "entry_ok (ef_env st) d" using ok d by (auto simp: table_ok_def saved_def)
  moreover have "int (unat (slot d)) = uint (slot d)" by simp
  ultimately show ?thesis unfolding entry_ok_def slot_blob_def by auto
qed

lemma slot_blob_unused:
  "\<lbrakk>table_ok st; \<forall>d \<in> set (device_list st). unat (slot d) \<noteq> i\<rbrakk>
   \<Longrightarrow> slot_blob (total_slot st) (ef_env st) i = []"
  by (auto simp: slot_blob_def table_ok_def slots_ok_def)

lemma slot_blob_slots:
  assumes ok: "table_ok st"
  shows "map (\<lambda>d. unat (slot d)) (concat (map (slot_blob (total_slot st) (ef_env st)) is)) =
    filter (slot_used (total_slot st)) is"
proof (induction "is")
  case (Cons i "is")
  have "map (\<lambda>d. unat (slot d)) (slot_blob (total_slot st) (ef_env st) i) =
      (if slot_used (total_slot st) i then [i] else [])"
  proof (cases "slot_used (total_slot st) i")
    case True
    then obtain d where d: "d \<in> set (device_list st)" "unat (slot d) = i"
      using ok by (auto simp: table_ok_def slots_ok_def)
    then show ?thesis
      using slot_blob_device [OF ok d(1)] True by (auto simp: persist_def)
  qed (simp add: slot_blob_def)
  with Cons show ?case by (simp split: if_splits)
qed simp

lemma reset_storage_devices:
  assumes ok: "table_ok st"
  shows "persist ` set (device_list (reset_storage st)) = persist ` set (device_list st)"
proof -
  have sv: "saved st" using ok by (simp add: table_ok_def)
  let ?b = "slot_blob (total_slot st) (ef_env st)"
  have "\<exists>d \<in> set (device_list st). persist d' = persist d" if "d' \<in> set (?b i)" for d' i
  proof -
    have "\<not> (\<forall>d \<in> set (device_list st). unat (slot d) \<noteq> i)"
      using slot_blob_unused [OF ok] that by fastforce
    then obtain d where "d \<in> set (device_list st)" "unat (slot d) = i" by auto
    then show ?thesis using slot_blob_device [OF ok, of d] that by auto
  qed
  moreover have "\<exists>i < 32. \<exists>d' \<in> set (?b i). persist d' = persist d"
    if "d \<in> set (device_list st)" for d
  proof -
    have "unat (slot d) < 32"
      using ok that by (fastforce simp: table_ok_def slots_ok_def MAX_SLAVER_DEVICE_def)
    then show ?thesis using slot_blob_device [OF ok that] by fastforce
  qed
  moreover have "set (device_list (reset_storage st)) = (\<Union>i<32. set (?b i))"
    by (auto simp: reset_storage_list [OF sv])
  ultimately have "persist ` set (device_list (reset_storage st)) \<subseteq> persist ` set (device_list st)"
    "persist ` set (device_list st) \<subseteq> persist ` set (device_list (reset_storage st))"
    by (fastforce simp: image_iff)+
  then show ?thesis by (rule equalityI)
qed

lemma persist_same:
  "\<lbrakk>persist ` A = persist ` B; d \<in> A\<rbrakk> \<Longrightarrow> \<exists>x \<in> B. persist d = persist x"
  by (drule imageI [of d A persist]) (simp add: image_iff)

lemma persist_exists:
  assumes "persist ` A = persist ` B" "\<And>d d'. persist d = persist d' \<Longrightarrow> P d = P d'"
  shows "(\<exists>d \<in> A. P d) = (\<exists>d \<in> B. P d)"
  using persist_same [OF assms(1)] persist_same [OF assms(1) [symmetric]] assms(2) by blast

lemma reset_storage_table_ok [keep]:
  assumes ok: "table_ok st"
  shows "table_ok (reset_storage st)"
proof -
  let ?r = "reset_storage st"
  have sv: "saved st" using ok by (simp add: table_ok_def)
  have r: "total_slot ?r = total_slot st" "ef_env ?r = ef_env st"
    by (simp_all add: reset_storage_list [OF sv])
  have img: "persist ` set (device_list ?r) = persist ` set (device_list st)"
    by (rule reset_storage_devices [OF ok])
  then have same: "\<And>d. d \<in> set (device_list ?r) \<Longrightarrow> \<exists>x \<in> set (device_list st). persist d = persist x"
    "\<And>x. x \<in> set (device_list st) \<Longrightarrow> \<exists>d \<in> set (device_list ?r). persist x = persist d"
    by (auto dest: persist_same persist_same [OF sym])
  have "distinct (map (\<lambda>d. unat (slot d)) (device_list ?r))"
    by (simp add: reset_storage_list [OF sv] slot_blob_slots [OF ok])
  then have slots: "distinct (map slot (device_list ?r))"
    and dist: "distinct (device_list ?r)"
    by (auto simp: distinct_map inj_on_def)
  have "inj_on device_id (set (device_list ?r))"
  proof (rule inj_onI)
    fix x y assume xy: "x \<in> set (device_list ?r)" "y \<in> set (device_list ?r)" "device_id x = device_id y"
    obtain a b where ab: "a \<in> set (device_list st)" "b \<in> set (device_list st)"
      "persist x = persist a" "persist y = persist b" using same(1) xy(1,2) by metis
    then have "device_id a = device_id b" using xy(3) by (simp add: persist_def)
    then have "a = b" using ab(1,2) ok by (auto simp: table_ok_def slots_ok_def distinct_map inj_on_def)
    then have "slot x = slot y" using ab(3,4) by (simp add: persist_def)
    then show "x = y" using slots xy(1,2) by (auto simp: distinct_map inj_on_def)
  qed
  then have ids: "distinct (map device_id (device_list ?r))" using dist(1) by (simp add: distinct_map)
  have sl: "(\<exists>d \<in> set (device_list ?r). unat (slot d) = i) \<longleftrightarrow>
      (\<exists>d \<in> set (device_list st). unat (slot d) = i)" for i
    by (rule persist_exists [OF img]) (simp add: persist_def)
  have "slots_ok ?r"
    using ok ids slots sl unfolding table_ok_def slots_ok_def r by metis
  moreover have "entry_ok (ef_env st) d" if d: "d \<in> set (device_list ?r)" for d
  proof -
    obtain x where x: "x \<in> set (device_list st)" "persist d = persist x"
      using same(1) [OF d] by blast
    then have "entry_ok (ef_env st) x" using sv by (simp add: saved_def)
    with x(2) show ?thesis by (simp add: entry_ok_def persist_def)
  qed
  ultimately show ?thesis using sv by (simp add: table_ok_def saved_def r)
qed

text \<open>The answers the alarm logic asks the table for are the same after a reset.\<close>

lemma reset_storage_answers:
  assumes "table_ok st"
  shows "aq_device_waterleak_find (reset_storage st) = aq_device_waterleak_find st"
    and "aq_device_wirelost_find (reset_storage st) = aq_device_wirelost_find st"
    and "aq_device_endunit_offline_find (reset_storage st) = aq_device_endunit_offline_find st"
    and "aq_device_door_offline_find (reset_storage st) = aq_device_door_offline_find st"
  unfolding aq_device_waterleak_find_def aq_device_wirelost_find_def
    aq_device_endunit_offline_find_def aq_device_door_offline_find_def
  by (rule persist_exists [OF reset_storage_devices [OF assms]]; simp add: persist_def)+

section \<open>Heartbeats\<close>

lemma saving_setters_table_ok [keep]:
  assumes "table_ok st"
  shows "table_ok (aq_device_waterleak_set did v st)" "table_ok (aq_device_wirelost_set did v st)"
    "table_ok (aq_device_battery_set did v st)" "table_ok (aq_device_online_set did v st)"
    "table_ok (aq_device_rssi_level_set did v st)"
  unfolding setter_defs
  by (rule waterleak_field.set_table_ok wirelost_field.set_table_ok battery_field.set_table_ok
      online_field.set_table_ok rssi_level_field.set_table_ok, rule assms)+

lemma recv_set_table_ok [keep]: "table_ok st \<Longrightarrow> table_ok (aq_device_recv_set did v st)"
  unfolding aq_device_recv_set_def by (rule recv_node.table_kept)

lemma recv_clear_table_ok [keep]: "table_ok st \<Longrightarrow> table_ok (aq_device_heart_recv_clear st)"
  unfolding aq_device_heart_recv_clear_def by (rule recv_clear_node.table_kept)

text \<open>Rewriting the list in a way that keeps the persistent part of every device.\<close>

lemma table_ok_persist:
  assumes ok: "table_ok st" and same: "map persist ds = map persist (device_list st)"
  shows "table_ok (st\<lparr>device_list := ds\<rparr>)"
proof -
  have keys: "map device_id ds = map device_id (device_list st)"
    "map slot ds = map slot (device_list st)"
    using arg_cong [OF same, of "map fst"] arg_cong [OF same, of "map (\<lambda>p. fst (snd p))"]
    by (simp_all add: persist_def comp_def)
  have img: "persist ` set ds = persist ` set (device_list st)"
    using arg_cong [OF same, of set] by simp
  have slots: "slot ` set ds = slot ` set (device_list st)"
    using arg_cong [OF keys(2), of set] by simp
  have "slots_ok (st\<lparr>device_list := ds\<rparr>)"
  proof -
    have "(\<exists>d \<in> set ds. unat (slot d) = i) = (\<exists>d \<in> set (device_list st). unat (slot d) = i)" for i
      by (rule persist_exists [OF img]) (simp add: persist_def)
    moreover have "\<forall>d \<in> set ds. unat (slot d) < MAX_SLAVER_DEVICE"
      using ok persist_same [OF img] by (fastforce simp: persist_def slots_ok_def table_ok_def)
    ultimately show ?thesis using ok by (simp add: slots_ok_def table_ok_def keys)
  qed
  moreover have "entry_ok (ef_env st) d" if d: "d \<in> set ds" for d
  proof -
    obtain x where "x \<in> set (device_list st)" "persist d = persist x"
      using persist_same [OF img d] by blast
    then show ?thesis using ok by (auto simp: table_ok_def saved_def entry_ok_def persist_def)
  qed
  ultimately show ?thesis using ok by (simp add: table_ok_def saved_def)
qed

lemma map_upd_first_persist:
  "(\<And>d. persist (f d) = persist d) \<Longrightarrow> map persist (upd_first p f ds) = map persist ds"
  by (rule map_upd_first)

lemma write_device_table_ok [keep]:
  "\<lbrakk>table_ok st; \<And>d. persist (f d) = persist d\<rbrakk> \<Longrightarrow> table_ok (write_device did f st)"
  unfolding write_device_def by (intro table_ok_persist map_upd_first_persist) auto

lemma heart_recv_table_ok [keep]: "table_ok st \<Longrightarrow> table_ok (snd (aq_device_heart_recv src rl st))"
  by (auto simp: aq_device_heart_recv_def persist_def split: option.split intro!: keep)

lemma heart_check_node_table_ok: "table_ok st \<Longrightarrow> table_ok (heart_check_node i st)"
proof (cases "i < length (device_list st)")
  case True
  assume ok: "table_ok st"
  have "map persist ((device_list st)[i := (device_list st ! i)\<lparr>recv := 0\<rparr>]) = map persist (device_list st)"
    using True by (simp add: map_update persist_def list_update_same_conv)
  with ok show ?thesis
    by (auto simp: heart_check_node_def Let_def intro!: keep table_ok_persist)
next
  case False
  assume ok: "table_ok st"
  have "(device_list st)[i := d] = device_list st" for d
    by (rule list_update_beyond) (use False in simp)
  with ok show ?thesis
    by (auto simp: heart_check_node_def Let_def intro!: keep)
qed

lemma heart_check_loop_table_ok [keep]: "table_ok st \<Longrightarrow> table_ok (heart_check_loop st)"
proof -
  have "table_ok st \<Longrightarrow> table_ok (fold heart_check_node is st)" for "is"
    by (induction "is" arbitrary: st) (simp_all add: heart_check_node_table_ok)
  then show "table_ok st \<Longrightarrow> table_ok (heart_check_loop st)" by (simp add: heart_check_loop_def)
qed

text \<open>What one heartbeat period does to a device.\<close>

definition heart_checked :: "device \<Rightarrow> device" where
  "heart_checked d =
     (if dev_type d = DEVICE_TYPE_GATEWAY then d
      else if recv d \<noteq> 0 then d\<lparr>recv := 0\<rparr> else d\<lparr>online := 0\<rparr>)"

lemma heart_check_node_list:
  assumes ids: "distinct (map device_id (device_list st))" and i: "i < length (device_list st)"
  shows "device_list (heart_check_node i st) =
    (device_list st)[i := heart_checked (device_list st ! i)]"
proof -
  have "map (\<lambda>d. if device_id d = device_id (device_list st ! i) then d\<lparr>online := 0\<rparr> else d) (device_list st)
      = (device_list st)[i := (device_list st ! i)\<lparr>online := 0\<rparr>]"
  proof (rule nth_equalityI)
    fix j assume "j < length (map (\<lambda>d. if device_id d = device_id (device_list st ! i)
        then d\<lparr>online := 0\<rparr> else d) (device_list st))"
    then have j: "j < length (device_list st)" by simp
    have "device_id (device_list st ! j) = device_id (device_list st ! i) \<longleftrightarrow> j = i"
      using ids i j by (metis length_map nth_eq_iff_index_eq nth_map)
    then show "map (\<lambda>d. if device_id d = device_id (device_list st ! i) then d\<lparr>online := 0\<rparr> else d)
        (device_list st) ! j = (device_list st)[i := (device_list st ! i)\<lparr>online := 0\<rparr>] ! j"
      using i j by (simp add: nth_list_update)
  qed simp
  then show ?thesis
    using i by (auto simp: heart_check_node_def heart_checked_def Let_def setter_defs setter_lists)
qed

lemma heart_checked_id [simp]: "device_id (heart_checked d) = device_id d"
  by (simp add: heart_checked_def)

lemma heart_check_prefix:
  assumes "distinct (map device_id (device_list st))" "k \<le> length (device_list st)"
  shows "device_list (fold heart_check_node [0..<k] st) =
    map heart_checked (take k (device_list st)) @ drop k (device_list st)"
  using assms(2)
proof (induction k)
  case (Suc k)
  let ?s = "fold heart_check_node [0..<k] st"
  have l: "device_list ?s = map heart_checked (take k (device_list st)) @ drop k (device_list st)"
    using Suc by simp
  then have "map device_id (device_list ?s) = map device_id (take k (device_list st) @ drop k (device_list st))"
    by (simp only: map_append) simp
  then have "distinct (map device_id (device_list ?s))" using assms(1) by simp
  moreover have "k < length (device_list ?s)" using Suc.prems by (simp add: l)
  ultimately have "device_list (heart_check_node k ?s) =
      (device_list ?s)[k := heart_checked (device_list ?s ! k)]"
    by (rule heart_check_node_list)
  also have "\<dots> = map heart_checked (take (Suc k) (device_list st)) @ drop (Suc k) (device_list st)"
    using Suc.prems
    by (simp add: l nth_append list_update_append take_Suc_conv_app_nth Cons_nth_drop_Suc [symmetric])
  finally show ?case by simp
qed simp

lemma heart_check_loop_list:
  "distinct (map device_id (device_list st)) \<Longrightarrow>
   device_list (heart_check_loop st) = map heart_checked (device_list st)"
  using heart_check_prefix [of st "length (device_list st)"] by (simp add: heart_check_loop_def)

section \<open>Finding\<close>

lemma aq_device_find_member:
  "distinct (map device_id (device_list st)) \<Longrightarrow>
   aq_device_find did st = Some d \<longleftrightarrow> d \<in> set (device_list st) \<and> device_id d = did"
proof -
  have "distinct (map device_id ds) \<Longrightarrow>
      List.find (\<lambda>d. device_id d = did) ds = Some d \<longleftrightarrow> d \<in> set ds \<and> device_id d = did" for ds
    by (induction ds) auto
  then show "distinct (map device_id (device_list st)) \<Longrightarrow> ?thesis"
    by (simp add: aq_device_find_def)
qed

lemma aq_device_find_none:
  "aq_device_find did st = None \<longleftrightarrow> (\<forall>d \<in> set (device_list st). device_id d \<noteq> did)"
  by (auto simp: aq_device_find_def find_None_iff)

lemma device_create_find:
  assumes "heap_ok st" "fst (fst (device_create rl ty did st)) = Some d"
  shows "device_id d = did \<and> aq_device_find did (snd (device_create rl ty did st)) = Some d"
proof -
  have app: "List.find p (xs @ ys) = (case List.find p xs of None \<Rightarrow> List.find p ys | r \<Rightarrow> r)"
    for p :: "device \<Rightarrow> bool" and xs ys by (induction xs) auto
  show ?thesis
    using assms
    by (auto simp: device_create_def aq_device_find_def app Let_def new_device_def
        get_free_device_slot_def dest: find_Some_in split: option.splits if_splits)
qed

section \<open>What the table promises\<close>

lemma slots_full:
  assumes ok: "slots_ok st"
  shows "length (device_list st) = MAX_SLAVER_DEVICE \<longleftrightarrow> (\<forall>i < MAX_SLAVER_DEVICE. slot_used (total_slot st) i)"
proof -
  let ?S = "(unat \<circ> slot) ` set (device_list st)"
  have "distinct (map (unat \<circ> slot) (device_list st))"
    using ok by (auto simp: slots_ok_def distinct_map inj_on_def unat_inj)
  then have card: "card ?S = length (device_list st)" by (metis distinct_card length_map set_map)
  have sub: "?S \<subseteq> {..<MAX_SLAVER_DEVICE}" using ok by (auto simp: slots_ok_def)
  have used: "slot_used (total_slot st) i \<longleftrightarrow> i \<in> ?S" for i using ok by (auto simp: slots_ok_def)
  have "length (device_list st) = MAX_SLAVER_DEVICE \<longleftrightarrow> ?S = {..<MAX_SLAVER_DEVICE}"
    using card_subset_eq [OF finite_lessThan sub] card by auto
  also have "\<dots> \<longleftrightarrow> (\<forall>i < MAX_SLAVER_DEVICE. i \<in> ?S)" using sub by auto
  finally show ?thesis by (simp only: used)
qed

lemma create_fresh:
  assumes ok: "table_ok st" "heap_ok st" and new: "aq_device_find did st = None"
    and room: "length (device_list st) < MAX_SLAVER_DEVICE"
  obtains i where "i < MAX_SLAVER_DEVICE"
    "device_create rl ty did st = ((Some (new_device (int i) rl ty did), True), with_device i rl ty did st)"
proof -
  have so: "slots_ok st" using ok(1) by (simp add: table_ok_def)
  then obtain i where i: "List.find (\<lambda>i. \<not> slot_used (total_slot st) i) [0..<MAX_SLAVER_DEVICE] = Some i"
    using slots_full [OF so] room find_no_slot [of "total_slot st"] by (metis less_irrefl option.exhaust)
  then show ?thesis
    using that device_create_new [OF new slots_ok_small [OF so] ok(2)] by (auto simp: find_free_slot)
qed

text \<open>
  C13. Creating a device in a consistent table: a known identifier gives the existing device and
  changes nothing; a full table (twelve devices) refuses and changes nothing; otherwise the new device is
  appended, found under its identifier, in a slot no other device has, and the table with its copy in
  flash is consistent again.
\<close>

theorem create_outcome:
  assumes "table_ok st" "heap_ok st"
  shows "case aq_device_find did st of
      Some d \<Rightarrow> device_create rl ty did st = ((Some d, False), st)
    | None \<Rightarrow>
        if length (device_list st) = MAX_SLAVER_DEVICE then device_create rl ty did st = ((None, False), st)
        else \<exists>d st'. device_create rl ty did st = ((Some d, True), st') \<and>
          device_list st' = device_list st @ [d] \<and> aq_device_find did st' = Some d \<and>
          device_id d = did \<and> dev_type d = ty \<and> online d = 1 \<and> waterleak d = 0 \<and>
          unat (slot d) < MAX_SLAVER_DEVICE \<and> slot d \<notin> slot ` set (device_list st) \<and> table_ok st'"
proof (cases "aq_device_find did st")
  case (Some d)
  then show ?thesis by (simp add: device_create_def)
next
  case None
  have so: "slots_ok st" using assms by (simp add: table_ok_def)
  show ?thesis
  proof (cases "length (device_list st) = MAX_SLAVER_DEVICE")
    case True
    then have "List.find (\<lambda>i. \<not> slot_used (total_slot st) i) [0..<MAX_SLAVER_DEVICE] = None"
      using slots_full [OF so] find_no_slot by blast
    with None True show ?thesis by (simp add: device_create_def get_free_device_slot_def)
  next
    case False
    then have "length (device_list st) < MAX_SLAVER_DEVICE" using slots_ok_capacity [OF so] by simp
    then obtain i where i: "i < MAX_SLAVER_DEVICE"
      "device_create rl ty did st = ((Some (new_device (int i) rl ty did), True), with_device i rl ty did st)"
      by (rule create_fresh [OF assms None])
    let ?d = "new_device (int i) rl ty did" and ?st' = "with_device i rl ty did st"
    have d: "unat (slot ?d) = i" "device_id ?d = did" "dev_type ?d = ty" "online ?d = 1" "waterleak ?d = 0"
      using i slot_byte by (simp_all add: new_device_def)
    have l: "device_list ?st' = device_list st @ [?d]" by (simp add: with_device_def Let_def)
    have tok: "table_ok ?st'"
      using device_create_table_ok [OF assms, of rl ty did] i by simp
    have "slot ?d \<notin> slot ` set (device_list st)"
      using tok by (auto simp: table_ok_def slots_ok_def l)
    moreover have "aq_device_find did ?st' = Some ?d"
      using tok d(2) aq_device_find_member [of ?st' did ?d] by (simp add: table_ok_def slots_ok_def l)
    ultimately show ?thesis using None False i d l tok by (auto intro!: exI [of _ ?d] exI [of _ ?st'])
  qed
qed

text \<open>A table with no device and nothing in flash.\<close>

definition blank_table :: storage where
  "blank_table = \<lparr>total_slot = 0, device_list = [], ef_env = Map.empty, heap_ok = True\<rparr>"

lemma blank_table_ok: "table_ok blank_table"
  by (simp add: blank_table_def table_ok_def slots_ok_def saved_def slot_used_def flash_get_key_def
      ef_get_env_blob_def decode_number_def)

lemma blank_table_simps [simp]:
  "device_list blank_table = []" "heap_ok blank_table = True" "total_slot blank_table = 0"
  "aq_device_find did blank_table = None"
  by (simp_all add: blank_table_def aq_device_find_def)

lemma create_outcome_witness:
  "\<exists>d st'. device_create 2 DEVICE_TYPE_ENDUNIT 77 blank_table = ((Some d, True), st') \<and>
     aq_device_find 77 st' = Some d \<and> table_ok st'"
  using create_outcome [OF blank_table_ok, of 2 DEVICE_TYPE_ENDUNIT 77]
  by (auto simp: MAX_SLAVER_DEVICE_def)

text \<open>
  When the memory for a new device is not available the creation fails, but the slot it had
  taken stays marked in the bitmap although no device has it.
\<close>

theorem create_without_memory:
  assumes "table_ok st" "\<not> heap_ok st" "aq_device_find did st = None"
    and "length (device_list st) < MAX_SLAVER_DEVICE"
  shows "\<exists>i < MAX_SLAVER_DEVICE. \<not> slot_used (total_slot st) i \<and>
    device_create rl ty did st = ((None, False), st\<lparr>total_slot := total_slot st OR push_bit i 1\<rparr>) \<and>
    slot_used (total_slot (snd (device_create rl ty did st))) i \<and>
    \<not> table_ok (snd (device_create rl ty did st))"
proof -
  have so: "slots_ok st" using assms(1) by (simp add: table_ok_def)
  obtain i where i: "i < MAX_SLAVER_DEVICE" "\<not> slot_used (total_slot st) i"
      "\<forall>j < i. slot_used (total_slot st) j"
    using slots_full [OF so] assms(4) find_no_slot [of "total_slot st"] find_free_slot [of "total_slot st"]
    by (metis less_irrefl option.exhaust)
  note c = device_create_no_heap [OF assms(3) slots_ok_small [OF so] assms(2) i, of rl ty]
  have lt: "i < 32" using i(1) by (simp add: MAX_SLAVER_DEVICE_def)
  have used: "slot_used (total_slot (snd (device_create rl ty did st))) i"
    unfolding c using slot_used_set [OF lt, of "total_slot st" i] by (simp del: push_bit_of_1 push_bit_eq_mult)
  moreover have "device_list (snd (device_create rl ty did st)) = device_list st" by (simp add: c)
  moreover have "\<forall>d \<in> set (device_list st). unat (slot d) \<noteq> i" using so i(2) by (auto simp: slots_ok_def)
  ultimately have "\<not> table_ok (snd (device_create rl ty did st))"
    by (auto simp: table_ok_def slots_ok_def)
  with i c used show ?thesis by blast
qed

lemma create_without_memory_witness:
  "\<not> table_ok (snd (device_create 2 DEVICE_TYPE_ENDUNIT 77 (blank_table\<lparr>heap_ok := False\<rparr>)))"
proof -
  have "table_ok (blank_table\<lparr>heap_ok := False\<rparr>)"
    using blank_table_ok by (simp add: table_ok_def slots_ok_def saved_def)
  moreover have "aq_device_find 77 (blank_table\<lparr>heap_ok := False\<rparr>) = None"
    by (simp add: aq_device_find_def)
  ultimately show ?thesis
    using create_without_memory [of "blank_table\<lparr>heap_ok := False\<rparr>" 77 2 DEVICE_TYPE_ENDUNIT]
    by (auto simp: MAX_SLAVER_DEVICE_def)
qed

text \<open>
  C14. Deleting a device removes exactly that device, frees its slot for the next one, keeps the
  table consistent, and creating and deleting a new device gives back the list of before.
\<close>

theorem delete_outcome:
  assumes "table_ok st"
  shows "device_list (snd (aq_device_delete did st)) = filter (\<lambda>d. device_id d \<noteq> did) (device_list st) \<and>
    aq_device_find did (snd (aq_device_delete did st)) = None \<and> table_ok (snd (aq_device_delete did st)) \<and>
    (fst (aq_device_delete did st) \<longleftrightarrow> aq_device_find did st \<noteq> None) \<and>
    (heap_ok st \<and> aq_device_find did st = None \<longrightarrow>
       device_list (snd (aq_device_delete did (snd (device_create rl ty did st)))) = device_list st)"
proof -
  have dist: "distinct (map device_id (device_list st))" using assms by (simp add: table_ok_def slots_ok_def)
  have "device_list (snd (aq_device_delete did (snd (device_create rl ty did st)))) = device_list st"
    if heap: "heap_ok st" and new: "aq_device_find did st = None"
  proof -
    have "table_ok (snd (device_create rl ty did st))" using assms heap by (rule keep)
    then have "device_list (snd (aq_device_delete did (snd (device_create rl ty did st)))) =
        filter (\<lambda>d. device_id d \<noteq> did) (device_list (snd (device_create rl ty did st)))"
      by (intro aq_device_delete_list) (simp add: table_ok_def slots_ok_def)
    also have "\<dots> = device_list st"
      using new by (auto simp: device_create_def get_free_device_slot_def Let_def aq_device_find_none
          new_device_def intro!: filter_True split: option.split)
    finally show ?thesis .
  qed
  moreover have "aq_device_find did (snd (aq_device_delete did st)) = None"
    by (simp add: aq_device_find_none aq_device_delete_list [OF dist])
  moreover have "fst (aq_device_delete did st) \<longleftrightarrow> aq_device_find did st \<noteq> None"
    by (simp add: aq_device_delete_def Let_def split: option.split)
  ultimately show ?thesis
    using aq_device_delete_list [OF dist, of did] aq_device_delete_table_ok [OF assms, of did] by blast
qed

lemma delete_outcome_witness:
  "device_list (snd (aq_device_delete 77 (snd (device_create 2 DEVICE_TYPE_ENDUNIT 77 blank_table)))) = []"
  using delete_outcome [OF blank_table_ok, of 77 2 DEVICE_TYPE_ENDUNIT] by simp

text \<open>
  C15. A restart loses no device: what is loaded from flash are exactly the devices of the table, each with
  its identifier, slot, type, battery, leak, lost and online fields, and the table is consistent.
\<close>

theorem devices_survive_restart:
  assumes "table_ok st"
  shows "persist ` set (device_list (reset_storage st)) = persist ` set (device_list st) \<and>
    length (device_list (reset_storage st)) = length (device_list st) \<and>
    total_slot (reset_storage st) = total_slot st \<and> table_ok (reset_storage st) \<and>
    aq_device_waterleak_find (reset_storage st) = aq_device_waterleak_find st"
proof -
  have tok: "table_ok (reset_storage st)" using assms by (rule keep)
  have n: "length (device_list x) = card (persist ` set (device_list x))" if "table_ok x" for x
  proof -
    have "distinct (map device_id (device_list x))" using that by (simp add: table_ok_def slots_ok_def)
    then have "distinct (map persist (device_list x))"
      by (auto simp: distinct_map inj_on_def persist_def)
    then show ?thesis by (metis distinct_card length_map set_map)
  qed
  have sv: "saved st" using assms by (simp add: table_ok_def)
  show ?thesis
    using reset_storage_devices [OF assms] n [OF assms] n [OF tok] tok reset_storage_answers(1) [OF assms]
    by (simp add: reset_storage_list [OF sv])
qed

lemma devices_survive_restart_witness:
  "persist ` set (device_list (reset_storage (snd (device_create 2 DEVICE_TYPE_ENDUNIT 77 blank_table)))) =
   persist ` set (device_list (snd (device_create 2 DEVICE_TYPE_ENDUNIT 77 blank_table)))"
  using devices_survive_restart [OF device_create_table_ok [OF blank_table_ok]] by simp

end
