(* ===== verification/Rt_Service.thy ===== *)
theory Rt_Service
  imports Prelude
begin

text \<open>
  The RT-Thread services the application is written against, represented by their
  documented effect: software timers (\<open>rt_timer_create\<close>, \<open>rt_timer_start\<close>,
  \<open>rt_timer_stop\<close> and expiry in the timer thread) and bounded message queues
  (\<open>rt_mq_send\<close>, \<open>rt_mq_recv\<close>). The laws the application relies on are stated as the
  locales \<open>timer_service\<close> and \<open>bounded_queue\<close>; both are interpreted on the definitions.
\<close>

section \<open>Software timers\<close>

text \<open>One constructor per \<open>rt_timer_t\<close> variable of the application.\<close>

datatype timer_id =
    radio_learn_timer
  | valve_delay_close_timer
  | valve_detect_once_timer
  | valve_left_turn_back_timer
  | valve_right_turn_back_timer
  | valve_left_turn_check_timer
  | valve_right_turn_check_timer
  | dry_contact_valve_input_timer
  | heart_connect_timer
  | csma_pause_timer

text \<open>\<open>remaining = None\<close>: not activated; \<open>Some n\<close>: expires in \<open>n\<close> milliseconds.\<close>

record rt_timer =
  init_tick :: nat
  periodic :: bool
  remaining :: "nat option"

type_synonym timers = "timer_id \<Rightarrow> rt_timer"

definition no_timer :: rt_timer where
  "no_timer = \<lparr>init_tick = 0, periodic = False, remaining = None\<rparr>"

definition rt_timer_create :: "timer_id \<Rightarrow> nat \<Rightarrow> bool \<Rightarrow> timers \<Rightarrow> timers" where
  "rt_timer_create t ms per tm =
     tm(t := \<lparr>init_tick = ms, periodic = per, remaining = None\<rparr>)"

definition rt_timer_start :: "timer_id \<Rightarrow> timers \<Rightarrow> timers" where
  "rt_timer_start t tm = tm(t := (tm t)\<lparr>remaining := Some (init_tick (tm t))\<rparr>)"

definition rt_timer_stop :: "timer_id \<Rightarrow> timers \<Rightarrow> timers" where
  "rt_timer_stop t tm = tm(t := (tm t)\<lparr>remaining := None\<rparr>)"

definition running :: "timers \<Rightarrow> timer_id \<Rightarrow> bool" where
  "running tm t \<longleftrightarrow> remaining (tm t) \<noteq> None"

text \<open>
  What \<open>rt_soft_timer_check\<close> does to the timer before it calls the timeout function: a
  one-shot timer is deactivated, a periodic one starts its next period.
\<close>

definition rt_timer_expire :: "timer_id \<Rightarrow> timers \<Rightarrow> timers" where
  "rt_timer_expire t tm =
     (if periodic (tm t) then rt_timer_start t tm else rt_timer_stop t tm)"

text \<open>\<open>n\<close> milliseconds pass; the caller makes sure no timer expires on the way.\<close>

definition elapse :: "nat \<Rightarrow> timers \<Rightarrow> timers" where
  "elapse n tm = (\<lambda>t. (tm t)\<lparr>remaining := map_option (\<lambda>r. r - n) (remaining (tm t))\<rparr>)"

definition can_elapse :: "nat \<Rightarrow> timers \<Rightarrow> bool" where
  "can_elapse n tm \<longleftrightarrow> (\<forall>t. case remaining (tm t) of None \<Rightarrow> True | Some r \<Rightarrow> n \<le> r)"

lemma init_tick_start [simp]: "init_tick (rt_timer_start t tm u) = init_tick (tm u)"
  by (simp add: rt_timer_start_def)

lemma init_tick_stop [simp]: "init_tick (rt_timer_stop t tm u) = init_tick (tm u)"
  by (simp add: rt_timer_stop_def)

lemma periodic_start [simp]: "periodic (rt_timer_start t tm u) = periodic (tm u)"
  by (simp add: rt_timer_start_def)

lemma periodic_stop [simp]: "periodic (rt_timer_stop t tm u) = periodic (tm u)"
  by (simp add: rt_timer_stop_def)

lemma remaining_start:
  "remaining (rt_timer_start t tm u) = (if u = t then Some (init_tick (tm t)) else remaining (tm u))"
  by (simp add: rt_timer_start_def)

lemma remaining_stop:
  "remaining (rt_timer_stop t tm u) = (if u = t then None else remaining (tm u))"
  by (simp add: rt_timer_stop_def)

text \<open>What the application relies on.\<close>

locale timer_service =
  fixes start stop expire :: "'t \<Rightarrow> 'm \<Rightarrow> 'm"
    and active :: "'m \<Rightarrow> 't \<Rightarrow> bool"
    and oneshot :: "'m \<Rightarrow> 't \<Rightarrow> bool"
  assumes active_start: "active (start t m) u \<longleftrightarrow> u = t \<or> active m u"
    and active_stop: "active (stop t m) u \<longleftrightarrow> u \<noteq> t \<and> active m u"
    and active_expire: "oneshot m t \<Longrightarrow> active (expire t m) u \<longleftrightarrow> u \<noteq> t \<and> active m u"
begin

text \<open>Stopping a list of timers leaves exactly the others that were active.\<close>

lemma active_stop_all:
  "active (fold stop ts m) u \<longleftrightarrow> u \<notin> set ts \<and> active m u"
  by (induction ts arbitrary: m) (auto simp: active_stop)

text \<open>A one-shot timer that expires does not fire again unless it is started again.\<close>

lemma expire_once: "oneshot m t \<Longrightarrow> \<not> active (expire t m) t"
  by (simp add: active_expire)

lemma restart_active: "active (start t (stop t m)) t"
  by (simp add: active_start)

end

interpretation soft_timer: timer_service rt_timer_start rt_timer_stop rt_timer_expire running
  "\<lambda>tm t. \<not> periodic (tm t)"
  by unfold_locales
    (auto simp: running_def rt_timer_expire_def remaining_start remaining_stop)

lemmas running_simps [simp] = soft_timer.active_start soft_timer.active_stop

lemma running_create [simp]:
  "running (rt_timer_create t ms p tm) u \<longleftrightarrow> u \<noteq> t \<and> running tm u"
  by (simp add: running_def rt_timer_create_def)

lemma init_tick_create:
  "init_tick (rt_timer_create t ms p tm u) = (if u = t then ms else init_tick (tm u))"
  by (simp add: rt_timer_create_def)

lemma periodic_create:
  "periodic (rt_timer_create t ms p tm u) = (if u = t then p else periodic (tm u))"
  by (simp add: rt_timer_create_def)

lemma running_elapse [simp]: "running (elapse n tm) t = running tm t"
  by (simp add: running_def elapse_def)

section \<open>Message queues\<close>

text \<open>\<open>rt_mq_send\<close> on a full queue returns \<open>-RT_EFULL\<close> and leaves the queue as it was.\<close>

definition rt_mq_send :: "nat \<Rightarrow> 'a \<Rightarrow> 'a list \<Rightarrow> bool \<times> 'a list" where
  "rt_mq_send cap m q = (if length q < cap then (True, q @ [m]) else (False, q))"

fun rt_mq_recv :: "'a list \<Rightarrow> ('a \<times> 'a list) option" where
  "rt_mq_recv [] = None"
| "rt_mq_recv (m # q) = Some (m, q)"

locale bounded_queue =
  fixes send :: "'a \<Rightarrow> 'q \<Rightarrow> bool \<times> 'q"
    and recv :: "'q \<Rightarrow> ('a \<times> 'q) option"
    and contents :: "'q \<Rightarrow> 'a list"
    and capacity :: nat
  assumes send_ok: "length (contents q) < capacity \<Longrightarrow>
      fst (send m q) \<and> contents (snd (send m q)) = contents q @ [m]"
    and send_full: "capacity \<le> length (contents q) \<Longrightarrow>
      \<not> fst (send m q) \<and> contents (snd (send m q)) = contents q"
    and recv_empty: "contents q = [] \<Longrightarrow> recv q = None"
    and recv_some: "contents q = m # ms \<Longrightarrow> \<exists>q'. recv q = Some (m, q') \<and> contents q' = ms"
begin

lemma send_bounded:
  "length (contents q) \<le> capacity \<Longrightarrow> length (contents (snd (send m q))) \<le> capacity"
  using send_ok [of q m] send_full [of q m] by (cases "length (contents q) < capacity") auto

text \<open>Messages are only ever added at the end, so those already queued keep their order.\<close>

lemma send_prefix: "\<exists>ms. contents (snd (send m q)) = contents q @ ms \<and> length ms \<le> 1"
  using send_ok [of q m] send_full [of q m] by (cases "length (contents q) < capacity") auto

lemma send_all_bounded:
  "length (contents q) \<le> capacity \<Longrightarrow>
   length (contents (fold (\<lambda>m q. snd (send m q)) ms q)) \<le> capacity"
  by (induction ms arbitrary: q) (auto simp: send_bounded)

end

interpretation mq: bounded_queue "rt_mq_send cap" rt_mq_recv "\<lambda>q. q" cap for cap
  by unfold_locales (auto simp: rt_mq_send_def)

end
