(* ===== verification/Radio_Frame.thy ===== *)
theory Radio_Frame
  imports Prelude
begin

text \<open>
  The radio frame (\<open>radio_protocol/radio_protocol_utils.c\<close>, the command senders and the
  first half of \<open>radio_protocol_parse\<close>): the writers into \<open>lora_tx_buf\<close>, the check sum,
  the layout every sender writes and the checks and field extraction on reception.

  Offsets and lengths are \<open>unsigned short\<close> in the code: natural numbers here, reduced
  modulo 65536 where the code stores them. The check sum unit is set up by
  \<open>radio_crc_init\<close> for the 8-bit polynomial 0x07, initial value 0, no inversion; \<open>crc8\<close>
  is that computation.
\<close>

definition FRAME_START :: byte where "FRAME_START = 0xEF"
definition NETWORK_VERSION :: byte where "NETWORK_VERSION = 0x01"
definition NET_REGION_SELECT :: byte where "NET_REGION_SELECT = 0x03"
definition DEVICE_TYPE_SELECT :: byte where "DEVICE_TYPE_SELECT = 0x01"

definition MSG_UNCONFIRMED_UPLINK :: byte where "MSG_UNCONFIRMED_UPLINK = 0x00"
definition MSG_CONFIRMED_UPLINK :: byte where "MSG_CONFIRMED_UPLINK = 0x01"
definition MSG_UNCONFIRMED_DOWNLINK :: byte where "MSG_UNCONFIRMED_DOWNLINK = 0x02"

definition HEART_UPLOAD_CMD :: byte where "HEART_UPLOAD_CMD = 0x01"
definition LEARN_DEVICE_CMD :: byte where "LEARN_DEVICE_CMD = 0x02"
definition CONTROL_VALVE_CMD :: byte where "CONTROL_VALVE_CMD = 0x03"
definition WARNING_UPLOAD_CMD :: byte where "WARNING_UPLOAD_CMD = 0x04"
definition DEVICE_SYNC_CMD :: byte where "DEVICE_SYNC_CMD = 0x05"
definition CONFIRM_ACK_CMD :: byte where "CONFIRM_ACK_CMD = 0x06"
definition FIRMWARE_UPDATE_CMD :: byte where "FIRMWARE_UPDATE_CMD = 0x07"
definition FACTORY_RF_TEST_CMD :: byte where "FACTORY_RF_TEST_CMD = 0x01"

lemmas frame_consts =
  FRAME_START_def NETWORK_VERSION_def NET_REGION_SELECT_def DEVICE_TYPE_SELECT_def
  MSG_UNCONFIRMED_UPLINK_def MSG_CONFIRMED_UPLINK_def MSG_UNCONFIRMED_DOWNLINK_def

lemmas command_consts =
  HEART_UPLOAD_CMD_def LEARN_DEVICE_CMD_def CONTROL_VALVE_CMD_def WARNING_UPLOAD_CMD_def
  DEVICE_SYNC_CMD_def CONFIRM_ACK_CMD_def FIRMWARE_UPDATE_CMD_def FACTORY_RF_TEST_CMD_def

text \<open>\<open>rx_format\<close>; \<open>rx_data\<close> is the memory from \<open>&data[11]\<close> on.\<close>

record rx_format =
  rx_rssi :: int
  rx_snr :: int
  rx_rssi_level :: byte
  rx_msg_type :: byte
  calc_crc :: byte
  src_crc :: byte
  rx_device_type :: byte
  rx_dest_addr :: u32
  rx_source_addr :: u32
  rx_data :: mem
  rx_len :: nat

text \<open>\<open>tx_format\<close>; \<open>tx_data\<close> is the buffer the pointer points to, \<open>[]\<close> for \<open>RT_NULL\<close>.\<close>

record tx_format =
  msg_ack :: byte
  tx_msg_type :: byte
  dest_addr :: u32
  source_addr :: u32
  tx_command :: byte
  tx_data :: "byte list"
  tx_len :: nat

text \<open>\<open>tx_format tx_frame = {0}\<close>.\<close>

definition tx_zero :: tx_format where
  "tx_zero = \<lparr>msg_ack = 0, tx_msg_type = 0, dest_addr = 0, source_addr = 0, tx_command = 0,
     tx_data = [], tx_len = 0\<rparr>"

section \<open>The check sum\<close>

definition crc_shift :: "byte \<Rightarrow> byte" where
  "crc_shift c = (if bit c 7 then push_bit 1 c XOR 0x07 else push_bit 1 c)"

definition crc_byte :: "byte \<Rightarrow> byte \<Rightarrow> byte" where
  "crc_byte c b = (crc_shift ^^ 8) (c XOR b)"

definition crc8 :: "byte list \<Rightarrow> byte" where
  "crc8 bs = foldl crc_byte 0 bs"

definition get_check_crc :: "mem \<Rightarrow> nat \<Rightarrow> byte" where
  "get_check_crc pack pack_len = crc8 (map pack [0..<pack_len])"

section \<open>Writing into the transmit buffer\<close>

definition set_lora_tx_byte :: "nat \<Rightarrow> byte \<Rightarrow> mem \<Rightarrow> nat \<times> mem" where
  "set_lora_tx_byte dest b buf = ((dest + 1) mod 65536, buf(dest := b))"

definition set_lora_tx_buffer :: "nat \<Rightarrow> byte list \<Rightarrow> nat \<Rightarrow> mem \<Rightarrow> nat \<times> mem" where
  "set_lora_tx_buffer dest src len buf =
     ((dest + len) mod 65536,
      \<lambda>i. if dest \<le> i \<and> i < dest + len then src ! (i - dest) else buf i)"

definition set_lora_tx_word :: "nat \<Rightarrow> u32 \<Rightarrow> mem \<Rightarrow> nat \<times> mem" where
  "set_lora_tx_word dest w buf =
     ((dest + 4) mod 65536,
      buf(dest := ucast (drop_bit 24 w AND 0xFF), dest + 1 := ucast (drop_bit 16 w AND 0xFF),
          dest + 2 := ucast (drop_bit 8 w AND 0xFF), dest + 3 := ucast (w AND 0xFF)))"

definition set_lora_tx_crc :: "nat \<Rightarrow> mem \<Rightarrow> nat \<times> mem" where
  "set_lora_tx_crc dest buf = ((dest + 1) mod 65536, buf(dest := crc8 (map buf [0..<dest])))"

text \<open>The ten writes, the same in each of the five command senders.\<close>

definition command_frame :: "tx_format \<Rightarrow> mem \<Rightarrow> nat \<times> mem" where
  "command_frame tx buf0 =
     (let (n1, b1) = set_lora_tx_byte 0 0xEF buf0;
          (n2, b2) = set_lora_tx_byte n1 (push_bit 4 NET_REGION_SELECT OR NETWORK_VERSION) b1;
          (n3, b3) = set_lora_tx_byte n2
             (push_bit 7 (msg_ack tx) OR push_bit 3 DEVICE_TYPE_SELECT OR tx_msg_type tx) b2;
          (n4, b4) = set_lora_tx_word n3 (dest_addr tx) b3;
          (n5, b5) = set_lora_tx_word n4 (source_addr tx) b4;
          (n6, b6) = set_lora_tx_byte n5 (tx_command tx) b5;
          (n7, b7) = set_lora_tx_byte n6 (of_nat (tx_len tx)) b6;
          (n8, b8) = set_lora_tx_buffer n7 (tx_data tx) (tx_len tx mod 65536) b7
      in set_lora_tx_crc n8 b8)"

section \<open>Checks on reception\<close>

definition rssi_level_of :: "int \<Rightarrow> byte" where
  "rssi_level_of rssi =
     (if rssi < -89 then 0 else if rssi \<ge> -89 \<and> rssi < -78 then 1 else 2)"

text \<open>
  The part of \<open>radio_protocol_parse\<close> before its \<open>switch\<close>. The version test reads
  \<open>data[1] & 0x0F < NETWORK_VERSION\<close>, that is \<open>data[1] & (0x0F < NETWORK_VERSION)\<close>. The
  field \<open>snr\<close> of the local \<open>rx_frame\<close> is never written: \<open>stack_snr\<close> is what the stack held.
\<close>

definition frame_accept :: "int \<Rightarrow> int \<Rightarrow> mem \<Rightarrow> nat \<Rightarrow> rx_format option" where
  "frame_accept rssi stack_snr data len =
     (if len < 14 then None
      else if data 0 \<noteq> FRAME_START then None
      else if drop_bit 4 (data 1) \<noteq> NET_REGION_SELECT then None
      else if data 1 AND (if 0x0F < NETWORK_VERSION then 1 else 0) \<noteq> 0 then None
      else
        let src = data (len - 1); calc = get_check_crc data (len - 1) in
        if src \<noteq> calc then None
        else Some
          \<lparr>rx_rssi = rssi, rx_snr = stack_snr, rx_rssi_level = rssi_level_of rssi,
           rx_msg_type = data 2 AND 0x07, calc_crc = calc, src_crc = src,
           rx_device_type = drop_bit 3 (data 2 AND 0x78),
           rx_dest_addr = be32 (data 3) (data 4) (data 5) (data 6),
           rx_source_addr = be32 (data 7) (data 8) (data 9) (data 10),
           rx_data = (\<lambda>i. data (11 + i)), rx_len = len - 11\<rparr>)"

section \<open>What the check sum detects\<close>

lemma bit_push_1:
  "\<not> bit (push_bit 1 (c :: byte)) 0" "n < 7 \<Longrightarrow> bit (push_bit 1 (c :: byte)) (Suc n) = bit c n"
  by (simp_all only: bit_push_bit_iff) auto

lemma bit_7: "bit (7 :: byte) n \<longleftrightarrow> n < 3"
proof -
  have "(7 :: byte) = mask 3" by (simp add: mask_eq_exp_minus_1)
  then show ?thesis by (simp only: bit_mask_iff) auto
qed

lemma bit_crc_shift_0: "bit (crc_shift c) 0 = bit c 7"
  by (auto simp only: crc_shift_def bit_xor_iff bit_push_1 bit_7 zero_less_numeral split: if_splits)

lemma bit_crc_shift_Suc:
  "n < 7 \<Longrightarrow> bit (crc_shift c) (Suc n) = (bit c n \<noteq> (bit c 7 \<and> n < 2))"
  by (auto simp only: crc_shift_def bit_xor_iff bit_push_1 bit_7 split: if_splits)

lemma crc_shift_inj: "crc_shift a = crc_shift b \<longleftrightarrow> a = b"
proof
  assume eq: "crc_shift a = crc_shift b"
  have "bit a 7 = bit b 7" using eq bit_crc_shift_0 by metis
  moreover have "bit a n = bit b n" if "n < 7" for n
    using bit_crc_shift_Suc [OF that, of a] bit_crc_shift_Suc [OF that, of b] eq
      \<open>bit a 7 = bit b 7\<close> by auto
  ultimately have "bit a n = bit b n" if "n < 8" for n
    using that by (cases "n = 7") auto
  then show "a = b" by (intro bit_word_eqI) simp
qed simp

lemma crc_shift_funpow_inj: "(crc_shift ^^ k) a = (crc_shift ^^ k) b \<longleftrightarrow> a = b"
  by (induction k) (simp_all add: crc_shift_inj)

lemma word_xor_cancel:
  fixes a b c :: "'a::len word"
  shows "a XOR b = a XOR c \<longleftrightarrow> b = c" "b XOR a = c XOR a \<longleftrightarrow> b = c"
  by (metis xor.assoc xor_self_eq xor.left_neutral)+

lemma crc_byte_inj:
  "crc_byte c b = crc_byte c b' \<longleftrightarrow> b = b'" "crc_byte c b = crc_byte c' b \<longleftrightarrow> c = c'"
  by (simp_all add: crc_byte_def crc_shift_funpow_inj word_xor_cancel)

lemma crc_fold_inj: "foldl crc_byte a bs = foldl crc_byte b bs \<longleftrightarrow> a = b"
  by (induction bs arbitrary: a b) (simp_all add: crc_byte_inj)

lemma crc8_one_byte: "crc8 (xs @ b # ys) = crc8 (xs @ b' # ys) \<longleftrightarrow> b = b'"
  by (simp add: crc8_def crc_fold_inj crc_byte_inj)

lemma get_check_crc_flip:
  assumes "i < n"
  shows "get_check_crc (data(i := b)) n = get_check_crc data n \<longleftrightarrow> b = data i"
proof -
  have "[0..<n] = [0..<i] @ i # [Suc i..<n]"
    using assms upt_add_eq_append [of 0 i "n - i"] by (simp add: upt_conv_Cons)
  then have "map (data(i := b)) [0..<n] = map data [0..<i] @ b # map data [Suc i..<n]"
    "map data [0..<n] = map data [0..<i] @ data i # map data [Suc i..<n]"
    by simp_all
  then show ?thesis by (simp only: get_check_crc_def crc8_one_byte)
qed

section \<open>What the senders write\<close>

text \<open>The frame as a list of bytes.\<close>

definition frame_head :: "tx_format \<Rightarrow> byte list" where
  "frame_head tx =
     [0xEF, push_bit 4 NET_REGION_SELECT OR NETWORK_VERSION,
      push_bit 7 (msg_ack tx) OR push_bit 3 DEVICE_TYPE_SELECT OR tx_msg_type tx]
     @ split32 (dest_addr tx) @ split32 (source_addr tx)
     @ [tx_command tx, of_nat (tx_len tx)] @ take (tx_len tx) (tx_data tx)"

definition frame_bytes :: "tx_format \<Rightarrow> byte list" where
  "frame_bytes tx = frame_head tx @ [crc8 (frame_head tx)]"

text \<open>The data is there and the frame fits the 255 bytes of \<open>lora_tx_buf\<close>.\<close>

definition tx_fits :: "tx_format \<Rightarrow> bool" where
  "tx_fits tx \<longleftrightarrow> tx_len tx \<le> length (tx_data tx) \<and> tx_len tx \<le> 241"

lemma length_frame_head: "tx_fits tx \<Longrightarrow> length (frame_head tx) = tx_len tx + 13"
  by (simp add: frame_head_def tx_fits_def)

lemma length_frame_bytes: "tx_fits tx \<Longrightarrow> length (frame_bytes tx) = tx_len tx + 14"
  by (simp add: frame_bytes_def length_frame_head)

lemma map_nth_take: "k \<le> length xs \<Longrightarrow> map (nth xs) [0..<k] = take k xs"
  by (rule nth_equalityI) auto

text \<open>The bytes \<open>xs\<close> stand at the front of the buffer and nothing behind them has changed.\<close>

definition wrote :: "mem \<Rightarrow> byte list \<Rightarrow> nat \<times> mem \<Rightarrow> bool" where
  "wrote buf xs r \<longleftrightarrow> fst r = length xs \<and> (\<forall>i. snd r i = (if i < length xs then xs ! i else buf i))"

lemma wrote_map: "wrote buf xs r \<Longrightarrow> map (snd r) [0..<length xs] = xs"
  by (auto simp: wrote_def intro: nth_equalityI)

lemma wrote_more:
  assumes "wrote buf xs r" "n = length xs + length ys"
    and "\<And>i. g i = (if length xs \<le> i \<and> i < length xs + length ys then ys ! (i - length xs) else snd r i)"
  shows "wrote buf (xs @ ys) (n, g)"
  using assms by (auto simp: wrote_def nth_append)

lemma wrote_byte:
  "\<lbrakk>wrote buf xs r; length xs < 65535\<rbrakk> \<Longrightarrow> wrote buf (xs @ [v]) (set_lora_tx_byte (fst r) v (snd r))"
  unfolding set_lora_tx_byte_def by (rule wrote_more) (auto simp: wrote_def)

lemma four_bytes:
  "(f(n := a, n + 1 := b, n + 2 := c, n + 3 := d)) i =
     (if n \<le> i \<and> i < n + 4 then [a, b, c, d] ! (i - n) else f i)" for n :: nat
proof -
  consider "i < n" | "i = n" | "i = n + 1" | "i = n + 2" | "i = n + 3" | "n + 4 \<le> i" by linarith
  then show ?thesis by cases (simp_all add: numeral_2_eq_2 numeral_3_eq_3)
qed

lemma wrote_word:
  assumes "wrote buf xs r" "length xs < 65532"
  shows "wrote buf (xs @ split32 w) (set_lora_tx_word (fst r) w (snd r))"
  unfolding set_lora_tx_word_def four_bytes split32_def [symmetric]
  using assms by (intro wrote_more) (auto simp: wrote_def four_bytes split32_def)

lemma wrote_buffer:
  "\<lbrakk>wrote buf xs r; length xs + k < 65536; k \<le> length ys\<rbrakk>
   \<Longrightarrow> wrote buf (xs @ take k ys) (set_lora_tx_buffer (fst r) ys k (snd r))"
  unfolding set_lora_tx_buffer_def by (rule wrote_more) (auto simp: wrote_def)

lemma wrote_crc:
  assumes "wrote buf xs r" "length xs < 65535"
  shows "wrote buf (xs @ [crc8 xs]) (set_lora_tx_crc (fst r) (snd r))"
proof -
  have "set_lora_tx_crc (fst r) (snd r) = set_lora_tx_byte (fst r) (crc8 xs) (snd r)"
    using assms(1) wrote_map [OF assms(1)]
    by (simp add: set_lora_tx_crc_def set_lora_tx_byte_def) (simp add: wrote_def)
  with wrote_byte [OF assms] show ?thesis by simp
qed

lemma command_frame_wrote:
  assumes fits: "tx_fits tx"
  shows "wrote buf (frame_bytes tx) (command_frame tx buf)"
proof -
  let ?h1 = "[0xEF]" and ?h2 = "[push_bit 4 NET_REGION_SELECT OR NETWORK_VERSION]"
    and ?h3 = "[push_bit 7 (msg_ack tx) OR push_bit 3 DEVICE_TYPE_SELECT OR tx_msg_type tx]"
  let ?xs = "((((((([] @ ?h1) @ ?h2) @ ?h3) @ split32 (dest_addr tx)) @ split32 (source_addr tx))
      @ [tx_command tx]) @ [of_nat (tx_len tx)]) @ take (tx_len tx) (tx_data tx)"
  have n: "tx_len tx \<le> length (tx_data tx)" "tx_len tx < 65500" "tx_len tx mod 65536 = tx_len tx"
    using fits by (simp_all add: tx_fits_def)
  have start: "wrote buf [0xEF] (set_lora_tx_byte 0 0xEF buf)"
    by (simp add: wrote_def set_lora_tx_byte_def)
  have "wrote buf (?xs @ [crc8 ?xs]) (command_frame tx buf)"
    unfolding command_frame_def Let_def case_prod_beta n(3)
    by ((rule wrote_crc wrote_buffer wrote_byte wrote_word)+, use n in \<open>auto simp: start\<close>)
  then show ?thesis by (simp add: frame_bytes_def frame_head_def)
qed

lemma command_frame_len: "tx_fits tx \<Longrightarrow> fst (command_frame tx buf) = tx_len tx + 14"
  using command_frame_wrote [of tx buf] by (simp add: wrote_def length_frame_bytes)

lemma command_frame_bytes:
  "tx_fits tx \<Longrightarrow> map (snd (command_frame tx buf)) [0..<tx_len tx + 14] = frame_bytes tx"
  using wrote_map [OF command_frame_wrote, of tx buf] by (simp add: length_frame_bytes)

section \<open>Sending and receiving\<close>

lemma frame_head_at:
  "frame_head tx ! 0 = 0xEF" "frame_head tx ! 1 = push_bit 4 NET_REGION_SELECT OR NETWORK_VERSION"
  "frame_head tx ! 2 = push_bit 7 (msg_ack tx) OR push_bit 3 DEVICE_TYPE_SELECT OR tx_msg_type tx"
  "i < 4 \<Longrightarrow> frame_head tx ! (3 + i) = split32 (dest_addr tx) ! i"
  "i < 4 \<Longrightarrow> frame_head tx ! (7 + i) = split32 (source_addr tx) ! i"
  "frame_head tx ! 11 = tx_command tx" "frame_head tx ! 12 = of_nat (tx_len tx)"
  "frame_head tx ! (13 + i) = take (tx_len tx) (tx_data tx) ! i"
  by (simp_all add: frame_head_def nth_append)

lemma frame_head_addresses:
  "be32 (frame_head tx ! 3) (frame_head tx ! 4) (frame_head tx ! 5) (frame_head tx ! 6) = dest_addr tx"
  "be32 (frame_head tx ! 7) (frame_head tx ! 8) (frame_head tx ! 9) (frame_head tx ! 10) = source_addr tx"
  using frame_head_at(4) [of 0 tx] frame_head_at(4) [of 1 tx] frame_head_at(4) [of 2 tx]
    frame_head_at(4) [of 3 tx] frame_head_at(5) [of 0 tx] frame_head_at(5) [of 1 tx]
    frame_head_at(5) [of 2 tx] frame_head_at(5) [of 3 tx]
  by (simp_all add: be32_split32 [unfolded One_nat_def])

lemma region_byte: "drop_bit 4 (push_bit 4 NET_REGION_SELECT OR NETWORK_VERSION) = NET_REGION_SELECT"
  by (simp add: frame_consts)

lemma control_byte:
  assumes "a \<in> {0, 1}" "t \<in> {0, 1, 2, 3}"
  shows "(push_bit 7 a OR push_bit 3 DEVICE_TYPE_SELECT OR t) AND 7 = t"
    and "drop_bit 3 ((push_bit 7 a OR push_bit 3 DEVICE_TYPE_SELECT OR t) AND 0x78) = DEVICE_TYPE_SELECT"
  using assms by (auto simp: frame_consts)

text \<open>The memory at \<open>data\<close> begins with the frame.\<close>

lemma frame_accept_frame:
  assumes fits: "tx_fits tx" and mem: "map data [0..<tx_len tx + 14] = frame_bytes tx"
    and a: "msg_ack tx \<in> {0, 1}" and t: "tx_msg_type tx \<in> {0, 1, 2, 3}"
  shows "frame_accept rssi g data (tx_len tx + 14) = Some
    \<lparr>rx_rssi = rssi, rx_snr = g, rx_rssi_level = rssi_level_of rssi,
     rx_msg_type = tx_msg_type tx, calc_crc = crc8 (frame_head tx), src_crc = crc8 (frame_head tx),
     rx_device_type = DEVICE_TYPE_SELECT, rx_dest_addr = dest_addr tx,
     rx_source_addr = source_addr tx, rx_data = (\<lambda>i. data (11 + i)), rx_len = tx_len tx + 3\<rparr>"
proof -
  have at: "data i = frame_bytes tx ! i" if "i < tx_len tx + 14" for i
    using that arg_cong [OF mem, of "\<lambda>l. l ! i"] by simp
  have head: "data i = frame_head tx ! i" if "i < tx_len tx + 13" for i
    using at [of i] that by (simp add: frame_bytes_def nth_append length_frame_head [OF fits])
  have crc: "data (tx_len tx + 13) = crc8 (frame_head tx)"
    using at [of "tx_len tx + 13"]
    by (simp add: frame_bytes_def nth_append length_frame_head [OF fits])
  have "map data [0..<tx_len tx + 13] = frame_head tx"
    by (rule nth_equalityI) (simp_all add: length_frame_head [OF fits] head)
  then have calc: "get_check_crc data (tx_len tx + 13) = crc8 (frame_head tx)"
    by (simp add: get_check_crc_def)
  have pos: "data 0 = frame_head tx ! 0" "data 1 = frame_head tx ! 1" "data 2 = frame_head tx ! 2"
    "data 3 = frame_head tx ! 3" "data 4 = frame_head tx ! 4" "data 5 = frame_head tx ! 5"
    "data 6 = frame_head tx ! 6" "data 7 = frame_head tx ! 7" "data 8 = frame_head tx ! 8"
    "data 9 = frame_head tx ! 9" "data 10 = frame_head tx ! 10"
    by (rule head; simp)+
  have version: "\<not> (0x0F :: byte) < NETWORK_VERSION" by (simp add: frame_consts)
  show ?thesis
    unfolding frame_accept_def pos frame_head_at(1-3) frame_head_addresses region_byte
      control_byte [OF a t]
    using crc calc by (simp add: version FRAME_START_def Let_def add.commute)
qed

lemma frame_data_at:
  assumes fits: "tx_fits tx" and mem: "map data [0..<tx_len tx + 14] = frame_bytes tx"
  shows "data 11 = tx_command tx" "data 12 = of_nat (tx_len tx)"
    "i < tx_len tx \<Longrightarrow> data (13 + i) = tx_data tx ! i"
proof -
  have at: "data i = frame_bytes tx ! i" if "i < tx_len tx + 14" for i
    using that arg_cong [OF mem, of "\<lambda>l. l ! i"] by simp
  have head: "data i = frame_head tx ! i" if "i < tx_len tx + 13" for i
    using at [of i] that by (simp add: frame_bytes_def nth_append length_frame_head [OF fits])
  show "data 11 = tx_command tx" "data 12 = of_nat (tx_len tx)"
    using head [of 11] head [of 12] frame_head_at(6,7) [of tx] by simp_all
  show "i < tx_len tx \<Longrightarrow> data (13 + i) = tx_data tx ! i"
    using head [of "13 + i"] frame_head_at(8) [of tx i] by (simp add: add.commute)
qed

text \<open>
  C19. A frame that was accepted is refused after any single one of its bytes has been replaced by a
  different one, whatever the bits: the check sum detects every error inside one byte.
\<close>

theorem one_byte_error_refused:
  assumes ok: "frame_accept rssi g data len = Some rx" and i: "i < len" and b: "b \<noteq> data i"
  shows "frame_accept rssi' g' (data(i := b)) len = None"
proof -
  have crc: "data (len - 1) = get_check_crc data (len - 1)" and len: "\<not> len < 14"
    using ok by (auto simp: frame_accept_def Let_def split: if_splits)
  have "(data(i := b)) (len - 1) \<noteq> get_check_crc (data(i := b)) (len - 1)"
  proof (cases "i = len - 1")
    case True
    then have "get_check_crc (data(i := b)) (len - 1) = get_check_crc data (len - 1)"
      by (simp add: get_check_crc_def)
    with True b crc show ?thesis by simp
  next
    case False
    then have "i < len - 1" using i by simp
    with get_check_crc_flip [OF this, of data b] b crc False show ?thesis by auto
  qed
  then show ?thesis by (simp add: frame_accept_def Let_def del: fun_upd_apply)
qed

text \<open>A concrete frame: 15 bytes, a leak warning without its addressee.\<close>

definition sample_tx :: tx_format where
  "sample_tx = tx_zero\<lparr>msg_ack := 1, tx_msg_type := MSG_CONFIRMED_UPLINK, dest_addr := 0x12345678,
     source_addr := 10000000, tx_command := WARNING_UPLOAD_CMD, tx_data := [1, 2, 3], tx_len := 3\<rparr>"

lemma sample_tx_simps [simp]:
  "tx_fits sample_tx" "tx_len sample_tx = 3" "msg_ack sample_tx = 1" "tx_msg_type sample_tx = 1"
  "dest_addr sample_tx = 0x12345678" "tx_data sample_tx = [1, 2, 3]"
  by (simp_all add: sample_tx_def tx_fits_def frame_consts)

text \<open>
  C18. Sending and receiving fit together: whatever fits the buffer, the bytes a command sender
  leaves in the transmit buffer pass all checks on reception, and the receiver finds the two
  addresses, the message type, the command, the length and every data byte the sender put in.
\<close>

theorem frame_roundtrip:
  assumes "tx_fits tx" "msg_ack tx \<in> {0, 1}" "tx_msg_type tx \<in> {0, 1, 2, 3}"
  shows "case command_frame tx buf of (n, mem) \<Rightarrow>
    n = tx_len tx + 14 \<and>
    (\<exists>rx. frame_accept rssi g mem n = Some rx \<and> rx_dest_addr rx = dest_addr tx \<and>
      rx_source_addr rx = source_addr tx \<and> rx_msg_type rx = tx_msg_type tx \<and>
      rx_device_type rx = DEVICE_TYPE_SELECT \<and> rx_data rx 0 = tx_command tx \<and>
      rx_data rx 1 = of_nat (tx_len tx) \<and> rx_len rx = tx_len tx + 3 \<and>
      (\<forall>i < tx_len tx. rx_data rx (2 + i) = tx_data tx ! i))"
proof -
  obtain n mem where c: "command_frame tx buf = (n, mem)" by fastforce
  have n: "n = tx_len tx + 14" using command_frame_len [OF assms(1), of buf] c by simp
  have m: "map mem [0..<tx_len tx + 14] = frame_bytes tx"
    using command_frame_bytes [OF assms(1), of buf] c by simp
  note acc = frame_accept_frame [OF assms(1) m assms(2,3), of rssi g]
  note at = frame_data_at [OF assms(1) m]
  have "mem (11 + (2 + i)) = tx_data tx ! i" if "i < tx_len tx" for i
    using at(3) [OF that] by (simp add: add.assoc [symmetric])
  with acc at(1,2) n show ?thesis by (simp add: c)
qed

lemma frame_roundtrip_witness:
  "\<exists>rx. frame_accept (-60) 0 (snd (command_frame sample_tx (\<lambda>_. 0xAA))) 17 = Some rx \<and>
     rx_dest_addr rx = 0x12345678 \<and> rx_data rx 3 = 2"
proof -
  obtain n mem where c: "command_frame sample_tx (\<lambda>_. 0xAA) = (n, mem)" by fastforce
  have "\<forall>i < 3. rx_data rx (2 + i) = [1, 2, 3] ! i \<Longrightarrow> rx_data rx 3 = 2" for rx
    by (drule spec [of _ 1]) (simp add: numeral_3_eq_3 numeral_2_eq_2)
  then show ?thesis
    using frame_roundtrip [where tx = sample_tx and buf = "\<lambda>_. 0xAA" and rssi = "-60" and g = 0] unfolding c by auto
qed

lemma one_byte_error_refused_witness:
  "frame_accept (-60) 0 ((snd (command_frame sample_tx (\<lambda>_. 0)))(9 := 0x55)) 17 = None"
proof -
  let ?m = "snd (command_frame sample_tx (\<lambda>_. 0))"
  have b: "map ?m [0..<17] = frame_bytes sample_tx" using command_frame_bytes [of sample_tx "\<lambda>_. 0"] by simp
  have "frame_accept (-60) 0 ?m 17 \<noteq> None"
    using frame_accept_frame [of sample_tx ?m "-60" 0] b by simp
  moreover have "?m 9 \<noteq> 0x55"
  proof -
    have "?m 9 = frame_bytes sample_tx ! 9" using arg_cong [OF b, of "\<lambda>l. l ! 9"] by simp
    also have "\<dots> = 0x96"
      by (simp add: frame_bytes_def nth_append length_frame_head)
        (simp add: frame_head_def sample_tx_def split32_def)
    finally show ?thesis by simp
  qed
  ultimately show ?thesis using one_byte_error_refused [of "-60" 0 ?m 17 _ 9 "0x55" "-60" 0] by auto
qed

end
