(* ===== verification/Radio_Encoder.thy ===== *)
theory Radio_Encoder
  imports Rt_Service Radio_Frame
begin

text \<open>
  The transmitter: the outgoing queue (\<open>lora_tx_enqueue\<close>), the channel check
  (\<open>radio/radio_csma.c\<close>) and the sending thread with its two retry loops
  (\<open>radio/radio_encoder.c\<close>, \<open>radio/radio_app.c\<close>).

  What the radio reports back is an input: attempt \<open>n\<close> to get the channel sees the answers
  \<open>env n\<close> (carrier detected, noise level, transmission finished in time, acknowledgement in
  time). \<open>air\<close> is the log of frames handed to \<open>Radio.Send\<close>, with the frequency; the
  delays between retries have no other effect and do not appear.
\<close>

record send_msg =
  data_ptr :: "byte list"
  data_size :: byte
  need_ack :: byte
  parameter :: byte

record radio_st =
  lora_tx_buf :: mem
  rf_en_mq :: "send_msg list"
  local_address :: u32
  rf_ack_sem :: bool
  rf_txdone_sem :: bool
  csma_pause :: byte
  cad_detected :: byte
  channel :: nat
  listening :: bool
  air :: "(nat \<times> byte list) list"

record rf_answer =
  ans_cad :: byte
  ans_noise :: int
  ans_txdone :: bool
  ans_ack :: bool

definition RF_RX_FREQUENCY :: nat where "RF_RX_FREQUENCY = 924000000"
definition RF_GATEWAY_TX_FREQUENCY :: nat where "RF_GATEWAY_TX_FREQUENCY = 923500000"
definition RF_SLAVER_TX_FREQUENCY :: nat where "RF_SLAVER_TX_FREQUENCY = 924500000"
definition RF_FACTORY_TX_FREQUENCY :: nat where "RF_FACTORY_TX_FREQUENCY = 925500000"

definition MAX_LBT_RETRY_TIMES :: nat where "MAX_LBT_RETRY_TIMES = 2"
definition MAX_ACK_RETRY_TIMES :: nat where "MAX_ACK_RETRY_TIMES = 2"
definition RF_MQ_SIZE :: nat where "RF_MQ_SIZE = 5"

definition CSMA_NOISE_THRESHOLD_IN_DBM :: int where "CSMA_NOISE_THRESHOLD_IN_DBM = -75"
definition CSMA_NOISE_THRESHOLD_IN_DBM_VALVE :: int where "CSMA_NOISE_THRESHOLD_IN_DBM_VALVE = -20"

section \<open>Queueing\<close>

text \<open>\<open>length\<close> is an \<open>uint8_t\<close> parameter; \<open>msg_ptr = {0}\<close> before at most 253 bytes are copied.\<close>

definition lora_tx_enqueue :: "mem \<Rightarrow> byte \<Rightarrow> byte \<Rightarrow> byte \<Rightarrow> radio_st \<Rightarrow> radio_st" where
  "lora_tx_enqueue buf len ack param r =
     (let n = (if unat len < 253 then unat len else 253);
          msg = \<lparr>data_ptr = map buf [0..<n] @ replicate (253 - n) 0, data_size = len,
                 need_ack = ack, parameter = param\<rparr>
      in r\<lparr>rf_en_mq := snd (rt_mq_send RF_MQ_SIZE msg (rf_en_mq r))\<rparr>)"

text \<open>
  The body of the command senders: write the frame, queue it for the frequency
  \<open>param\<close>, with acknowledgement for confirmed uplinks only.
\<close>

definition command_send :: "byte \<Rightarrow> tx_format \<Rightarrow> radio_st \<Rightarrow> radio_st" where
  "command_send param tx r =
     (let (send_len, buf) = command_frame tx (lora_tx_buf r)
      in lora_tx_enqueue buf (of_nat send_len)
           (if tx_msg_type tx = MSG_CONFIRMED_UPLINK then 1 else 0) param (r\<lparr>lora_tx_buf := buf\<rparr>))"

definition radio_endunit_command_send :: "tx_format \<Rightarrow> radio_st \<Rightarrow> radio_st" where
  "radio_endunit_command_send tx r = command_send 1 tx r"

definition radio_doorunit_command_send :: "tx_format \<Rightarrow> radio_st \<Rightarrow> radio_st" where
  "radio_doorunit_command_send tx r = command_send 1 tx r"

definition radio_motion_command_send :: "tx_format \<Rightarrow> radio_st \<Rightarrow> radio_st" where
  "radio_motion_command_send tx r = command_send 1 tx r"

definition radio_factory_command_send :: "tx_format \<Rightarrow> radio_st \<Rightarrow> radio_st" where
  "radio_factory_command_send tx r = command_send 2 tx r"

definition radio_factory_test_packet_send :: "radio_st \<Rightarrow> radio_st" where
  "radio_factory_test_packet_send r =
     radio_factory_command_send
       (tx_zero\<lparr>msg_ack := 0, tx_msg_type := MSG_UNCONFIRMED_UPLINK, dest_addr := 99999999,
                source_addr := local_address r, tx_command := FACTORY_RF_TEST_CMD\<rparr>) r"

section \<open>The radio\<close>

definition rf_ack_callback :: "radio_st \<Rightarrow> radio_st" where
  "rf_ack_callback r = r\<lparr>rf_ack_sem := True\<rparr>"

definition rf_txdone_callback :: "radio_st \<Rightarrow> radio_st" where
  "rf_txdone_callback r = r\<lparr>rf_txdone_sem := True\<rparr>"

definition radio_recv_start :: "radio_st \<Rightarrow> radio_st" where
  "radio_recv_start r = r\<lparr>channel := RF_RX_FREQUENCY, listening := True\<rparr>"

definition RF_Send :: "byte list \<Rightarrow> radio_st \<Rightarrow> radio_st" where
  "RF_Send payload r = r\<lparr>listening := False, air := air r @ [(channel r, payload)]\<rparr>"

definition OnTxDone :: "radio_st \<Rightarrow> radio_st" where
  "OnTxDone r = rf_txdone_callback (radio_recv_start r)"

definition OnTxTimeout :: "radio_st \<Rightarrow> radio_st" where
  "OnTxTimeout r = radio_recv_start r"

definition OnRxError :: "radio_st \<Rightarrow> radio_st" where
  "OnRxError r = radio_recv_start r"

definition OnRxTimeout :: "radio_st \<Rightarrow> radio_st" where
  "OnRxTimeout r = radio_recv_start r"

definition radio_cad_detected :: "byte \<Rightarrow> radio_st \<Rightarrow> radio_st" where
  "radio_cad_detected v r = r\<lparr>cad_detected := v\<rparr>"

definition OnCadDone :: "byte \<Rightarrow> radio_st \<Rightarrow> radio_st" where
  "OnCadDone v r = radio_cad_detected v r"

section \<open>Listen before talk\<close>

definition csma_pause_timer_callback :: "radio_st \<Rightarrow> radio_st" where
  "csma_pause_timer_callback r = r\<lparr>csma_pause := 0\<rparr>"

definition csma_threshold :: "radio_st \<Rightarrow> int" where
  "csma_threshold r =
     (if csma_pause r > 0 then CSMA_NOISE_THRESHOLD_IN_DBM_VALVE else CSMA_NOISE_THRESHOLD_IN_DBM)"

text \<open>
  \<open>Radio.Standby\<close>, \<open>SetChannel\<close>, \<open>StartCad\<close>; the activity the radio reports within the
  10 ms comes through \<open>OnCadDone\<close>. \<open>Radio.IsChannelFree\<close> says no when the level exceeds
  the threshold.
\<close>

definition csma_check_start :: "rf_answer \<Rightarrow> nat \<Rightarrow> radio_st \<Rightarrow> bool \<times> radio_st" where
  "csma_check_start ans send_freq r =
     (let r1 = r\<lparr>cad_detected := 0, listening := False, channel := send_freq\<rparr>;
          r2 = OnCadDone (ans_cad ans) r1
      in if cad_detected r2 \<noteq> 0 then (False, r2)
         else if ans_noise ans > csma_threshold r2 then (False, r2)
         else (True, r2))"

definition rf_rx_frequency_switch :: "byte \<Rightarrow> nat" where
  "rf_rx_frequency_switch freq_type =
     (if freq_type = 0 then RF_GATEWAY_TX_FREQUENCY
      else if freq_type = 1 then RF_SLAVER_TX_FREQUENCY
      else if freq_type = 2 then RF_FACTORY_TX_FREQUENCY
      else RF_SLAVER_TX_FREQUENCY)"

text \<open>The first loop of \<open>rf_send_with_lbt\<close>, with \<open>k\<close> tries left.\<close>

fun lbt_loop :: "(nat \<Rightarrow> rf_answer) \<Rightarrow> nat \<Rightarrow> nat \<Rightarrow> nat \<Rightarrow> radio_st \<Rightarrow> bool \<times> nat \<times> radio_st" where
  "lbt_loop env send_freq 0 n r = (False, n, r)"
| "lbt_loop env send_freq (Suc k) n r =
     (let (free, r1) = csma_check_start (env n) send_freq r
      in if free then (True, n, r1) else lbt_loop env send_freq k (Suc n) r1)"

text \<open>
  The result is \<open>True\<close> for \<open>RT_EOK\<close>; \<open>n\<close> counts the attempts made so far. For a size above the 253 bytes
  of the buffer the C code goes on reading behind it; what lies there is not part of the model, whose frame ends
  with the buffer.
\<close>

definition rf_send_with_lbt ::
  "(nat \<Rightarrow> rf_answer) \<Rightarrow> byte \<Rightarrow> byte list \<Rightarrow> byte \<Rightarrow> nat \<Rightarrow> radio_st \<Rightarrow> bool \<times> nat \<times> radio_st" where
  "rf_send_with_lbt env freq_type data sz n r =
     (let (free, n1, r1) = lbt_loop env (rf_rx_frequency_switch freq_type) MAX_LBT_RETRY_TIMES n r
      in if \<not> free then (False, n1, radio_recv_start r1)
         else let r2 = RF_Send (take (unat sz) data) (r1\<lparr>rf_txdone_sem := False\<rparr>)
              in if ans_txdone (env n1)
                 then (True, Suc n1, (OnTxDone r2)\<lparr>rf_txdone_sem := False\<rparr>)
                 else (False, Suc n1, r2))"

text \<open>The loop over acknowledgements; the wait consumes the completion.\<close>

fun ack_loop :: "(nat \<Rightarrow> rf_answer) \<Rightarrow> send_msg \<Rightarrow> nat \<Rightarrow> nat \<Rightarrow> radio_st \<Rightarrow> nat \<times> radio_st" where
  "ack_loop env m 0 n r = (n, r)"
| "ack_loop env m (Suc k) n r =
     (let (sent, n1, r1) = rf_send_with_lbt env (parameter m) (data_ptr m) (data_size m) n
                             (r\<lparr>rf_ack_sem := False\<rparr>)
      in if sent \<and> ans_ack (env (n1 - 1))
         then (n1, (rf_ack_callback r1)\<lparr>rf_ack_sem := False\<rparr>)
         else ack_loop env m k n1 r1)"

text \<open>One turn of \<open>rf_encode_entry\<close>; with an empty queue the thread sleeps.\<close>

definition rf_encode_entry :: "(nat \<Rightarrow> rf_answer) \<Rightarrow> nat \<Rightarrow> radio_st \<Rightarrow> nat \<times> radio_st" where
  "rf_encode_entry env n r =
     (case rt_mq_recv (rf_en_mq r) of
        None \<Rightarrow> (n, r)
      | Some (m, q) \<Rightarrow>
          let r1 = r\<lparr>rf_en_mq := q\<rparr> in
          if need_ack m \<noteq> 0 then ack_loop env m MAX_ACK_RETRY_TIMES n r1
          else snd (rf_send_with_lbt env (parameter m) (data_ptr m) (data_size m) n r1))"

text \<open>\<open>word\<close> is what the flash holds at the address of the identifier.\<close>

definition radio_encode_queue_init :: "u32 \<Rightarrow> radio_st \<Rightarrow> radio_st" where
  "radio_encode_queue_init word r =
     r\<lparr>local_address := (if word = 0xFFFFFFFF \<or> word = 0 then 10000000 else word), rf_en_mq := []\<rparr>"

section \<open>The queue\<close>

text \<open>What is in the queue fits the message structure.\<close>

definition radio_ok :: "radio_st \<Rightarrow> bool" where
  "radio_ok r \<longleftrightarrow> length (rf_en_mq r) \<le> RF_MQ_SIZE \<and>
     (\<forall>m \<in> set (rf_en_mq r). length (data_ptr m) = 253) \<and> local_address r \<noteq> 0"

lemma enqueue_simps [simp]:
  "local_address (lora_tx_enqueue b l a p r) = local_address r"
  "lora_tx_buf (lora_tx_enqueue b l a p r) = lora_tx_buf r"
  "air (lora_tx_enqueue b l a p r) = air r"
  "csma_pause (lora_tx_enqueue b l a p r) = csma_pause r"
  by (simp_all add: lora_tx_enqueue_def Let_def)

lemma rt_mq_send_set: "set (snd (rt_mq_send c m q)) \<subseteq> insert m (set q)"
  by (auto simp: rt_mq_send_def)

lemma enqueue_radio_ok [keep]: "radio_ok r \<Longrightarrow> radio_ok (lora_tx_enqueue b l a p r)"
proof -
  assume ok: "radio_ok r"
  define n where "n = (if unat l < 253 then unat l else 253)"
  define m where "m = \<lparr>data_ptr = map b [0..<n] @ replicate (253 - n) 0, data_size = l,
     need_ack = a, parameter = p\<rparr>"
  have q: "rf_en_mq (lora_tx_enqueue b l a p r) = snd (rt_mq_send RF_MQ_SIZE m (rf_en_mq r))"
    by (simp add: lora_tx_enqueue_def Let_def m_def n_def)
  have "length (data_ptr m) = 253" by (simp add: m_def n_def)
  moreover have "length (snd (rt_mq_send RF_MQ_SIZE m (rf_en_mq r))) \<le> RF_MQ_SIZE"
    using ok by (intro mq.send_bounded) (simp add: radio_ok_def)
  ultimately show ?thesis
    using ok rt_mq_send_set [of RF_MQ_SIZE m "rf_en_mq r"] by (auto simp: radio_ok_def q)
qed

lemma command_send_simps [simp]:
  "local_address (command_send p tx r) = local_address r"
  "air (command_send p tx r) = air r"
  "csma_pause (command_send p tx r) = csma_pause r"
  by (simp_all add: command_send_def case_prod_beta)

lemma command_send_radio_ok [keep]: "radio_ok r \<Longrightarrow> radio_ok (command_send p tx r)"
  unfolding command_send_def case_prod_beta Let_def
  by (rule enqueue_radio_ok) (simp add: radio_ok_def)

text \<open>The message a command becomes.\<close>

definition queued :: "byte \<Rightarrow> tx_format \<Rightarrow> send_msg" where
  "queued param tx =
     \<lparr>data_ptr = frame_bytes tx @ replicate (239 - tx_len tx) 0, data_size = of_nat (tx_len tx + 14),
      need_ack = (if tx_msg_type tx = MSG_CONFIRMED_UPLINK then 1 else 0), parameter = param\<rparr>"

lemma command_send_queued:
  assumes fits: "tx_fits tx" and small: "tx_len tx \<le> 239"
  shows "rf_en_mq (command_send p tx r) = snd (rt_mq_send RF_MQ_SIZE (queued p tx) (rf_en_mq r))"
proof -
  have u: "unat (of_nat (tx_len tx + 14) :: byte) = tx_len tx + 14"
    using small by (simp add: unat_of_nat del: of_nat_add)
  have eq: "(if tx_len tx + 14 < 253 then tx_len tx + 14 else 253) = tx_len tx + 14"
    "253 - (tx_len tx + 14) = 239 - tx_len tx"
    using small by auto
  show ?thesis
    unfolding command_send_def case_prod_beta Let_def lora_tx_enqueue_def
    by (simp only: command_frame_len [OF fits] u eq command_frame_bytes [OF fits] queued_def)
      simp
qed

section \<open>Bounded retries\<close>

lemma csma_check_start_simps:
  "csma_check_start ans f r = (ok, r1) \<Longrightarrow>
     air r1 = air r \<and> rf_en_mq r1 = rf_en_mq r \<and> local_address r1 = local_address r \<and>
     csma_pause r1 = csma_pause r \<and> channel r1 = f \<and>
     (ok \<longleftrightarrow> ans_cad ans = 0 \<and> ans_noise ans \<le> csma_threshold r)"
  by (auto simp: csma_check_start_def Let_def OnCadDone_def radio_cad_detected_def csma_threshold_def
      split: if_splits)

lemma lbt_loop_simps:
  "lbt_loop env f k n r = (ok, n1, r1) \<Longrightarrow>
     air r1 = air r \<and> rf_en_mq r1 = rf_en_mq r \<and> local_address r1 = local_address r \<and>
     csma_pause r1 = csma_pause r \<and> n1 \<le> n + k \<and>
     (ok \<longrightarrow> n1 < n + k \<and> channel r1 = f \<and> ans_cad (env n1) = 0 \<and>
        ans_noise (env n1) \<le> csma_threshold r)"
proof (induction k arbitrary: n r)
  case (Suc k)
  obtain free r2 where c: "csma_check_start (env n) f r = (free, r2)" by fastforce
  have s: "air r2 = air r" "rf_en_mq r2 = rf_en_mq r" "local_address r2 = local_address r"
    "csma_pause r2 = csma_pause r" "channel r2 = f" "csma_threshold r2 = csma_threshold r"
    "free \<longleftrightarrow> ans_cad (env n) = 0 \<and> ans_noise (env n) \<le> csma_threshold r"
    using csma_check_start_simps [OF c] by (simp_all add: csma_threshold_def)
  show ?case
  proof (cases free)
    case True
    with Suc.prems c s show ?thesis by auto
  next
    case False
    then have "lbt_loop env f k (Suc n) r2 = (ok, n1, r1)" using Suc.prems c by simp
    from Suc.IH [OF this] s show ?thesis by simp
  qed
qed simp

text \<open>What attempt \<open>i\<close> hears: nobody.\<close>

definition channel_free :: "(nat \<Rightarrow> rf_answer) \<Rightarrow> radio_st \<Rightarrow> nat \<Rightarrow> bool" where
  "channel_free env r i \<longleftrightarrow> ans_cad (env i) = 0 \<and> ans_noise (env i) \<le> csma_threshold r"

lemma lbt_loop_mono: "lbt_loop env f k n r = (ok, n1, r1) \<Longrightarrow> n \<le> n1"
  by (induction k arbitrary: n r) (force split: prod.splits if_splits)+

lemma rf_send_cases:
  assumes a: "rf_send_with_lbt env p d sz n r = (ok, n1, r1)"
  obtains (busy) "\<not> ok" "air r1 = air r" "n \<le> n1" "n1 \<le> n + 2" "rf_en_mq r1 = rf_en_mq r"
      "csma_pause r1 = csma_pause r" "local_address r1 = local_address r"
  | (sent) m where "n \<le> m" "n1 = Suc m" "n1 \<le> n + 2" "channel_free env r m"
      "air r1 = air r @ [(rf_rx_frequency_switch p, take (unat sz) d)]" "ok = ans_txdone (env m)"
      "rf_en_mq r1 = rf_en_mq r" "csma_pause r1 = csma_pause r" "local_address r1 = local_address r"
proof -
  obtain free m r2 where l: "lbt_loop env (rf_rx_frequency_switch p) 2 n r = (free, m, r2)"
    by (metis surj_pair)
  note l2 = lbt_loop_simps [OF l]
  show thesis
  proof (cases free)
    case False
    then have r: "ok = False" "n1 = m" "r1 = radio_recv_start r2"
      using a l by (simp_all add: rf_send_with_lbt_def MAX_LBT_RETRY_TIMES_def)
    show thesis
      by (rule busy) (use r l2 lbt_loop_mono [OF l] in \<open>simp_all add: radio_recv_start_def\<close>)
  next
    case True
    let ?r2 = "RF_Send (take (unat sz) d) (r2\<lparr>rf_txdone_sem := False\<rparr>)"
    have r: "ok = ans_txdone (env m)" "n1 = Suc m"
      "r1 = (if ok then (OnTxDone ?r2)\<lparr>rf_txdone_sem := False\<rparr> else ?r2)"
      using a l True
      by (auto simp: rf_send_with_lbt_def MAX_LBT_RETRY_TIMES_def Let_def split: if_splits)
    show thesis
      by (rule sent [of m])
        (use r l2 lbt_loop_mono [OF l] True in \<open>auto simp: channel_free_def OnTxDone_def
          rf_txdone_callback_def radio_recv_start_def RF_Send_def\<close>)
  qed
qed

text \<open>How often attempts \<open>n\<close> to \<open>n' - 1\<close> found the channel free.\<close>

definition free_count :: "(nat \<Rightarrow> rf_answer) \<Rightarrow> radio_st \<Rightarrow> nat \<Rightarrow> nat \<Rightarrow> nat" where
  "free_count env r n n' = length (filter (channel_free env r) [n..<n'])"

lemma free_count_split:
  "\<lbrakk>n \<le> m; m \<le> k\<rbrakk> \<Longrightarrow> free_count env r n k = free_count env r n m + free_count env r m k"
  using upt_add_eq_append [of n m "k - m"] by (simp add: free_count_def)

lemma free_count_pause: "csma_pause r = csma_pause r' \<Longrightarrow> free_count env r = free_count env r'"
  by (simp add: free_count_def [abs_def] channel_free_def [abs_def] csma_threshold_def)

lemma free_count_one: "\<lbrakk>n \<le> m; channel_free env r m\<rbrakk> \<Longrightarrow> 1 \<le> free_count env r n (Suc m)"
  by (simp add: free_count_def)

lemma rf_send_air:
  assumes a: "rf_send_with_lbt env p d sz n r = (ok, n1, r1)"
  shows "\<exists>j \<le> 1. air r1 = air r @ replicate j (rf_rx_frequency_switch p, take (unat sz) d) \<and>
    j \<le> free_count env r n n1 \<and> n \<le> n1 \<and> n1 \<le> n + 2 \<and>
    rf_en_mq r1 = rf_en_mq r \<and> csma_pause r1 = csma_pause r \<and> local_address r1 = local_address r"
  using a
proof (cases rule: rf_send_cases)
  case busy
  then show ?thesis by (intro exI [of _ 0]) simp
next
  case (sent m)
  then show ?thesis
    using free_count_one [of n m env r] by (intro exI [of _ 1]) simp
qed

lemma ack_loop_air:
  "ack_loop env m k n r = (n1, r1) \<Longrightarrow>
   \<exists>j \<le> k. air r1 = air r @ replicate j (rf_rx_frequency_switch (parameter m),
        take (unat (data_size m)) (data_ptr m)) \<and>
     j \<le> free_count env r n n1 \<and> n \<le> n1 \<and> n1 \<le> n + 2 * k \<and>
     rf_en_mq r1 = rf_en_mq r \<and> csma_pause r1 = csma_pause r \<and> local_address r1 = local_address r"
proof (induction k arbitrary: n r)
  case (Suc k)
  obtain sent n2 r2 where s: "rf_send_with_lbt env (parameter m) (data_ptr m) (data_size m) n
      (r\<lparr>rf_ack_sem := False\<rparr>) = (sent, n2, r2)" by (metis surj_pair)
  have fc: "free_count env (r\<lparr>rf_ack_sem := False\<rparr>) = free_count env r"
    by (rule free_count_pause) simp
  obtain i where i: "i \<le> 1" "air r2 = air r @ replicate i (rf_rx_frequency_switch (parameter m),
      take (unat (data_size m)) (data_ptr m))" "i \<le> free_count env r n n2" "n \<le> n2" "n2 \<le> n + 2"
      "rf_en_mq r2 = rf_en_mq r" "csma_pause r2 = csma_pause r" "local_address r2 = local_address r"
    using rf_send_air [OF s] unfolding fc by auto
  show ?case
  proof (cases "sent \<and> ans_ack (env (n2 - 1))")
    case True
    then have "n1 = n2" "r1 = (rf_ack_callback r2)\<lparr>rf_ack_sem := False\<rparr>" using Suc.prems s by auto
    with i show ?thesis by (intro exI [of _ i]) (simp add: rf_ack_callback_def)
  next
    case False
    then have "ack_loop env m k n2 r2 = (n1, r1)" using Suc.prems s by (auto split: if_splits)
    from Suc.IH [OF this] obtain j where j: "j \<le> k"
      "air r1 = air r2 @ replicate j (rf_rx_frequency_switch (parameter m),
        take (unat (data_size m)) (data_ptr m))" "j \<le> free_count env r2 n2 n1" "n2 \<le> n1"
      "n1 \<le> n2 + 2 * k" "rf_en_mq r1 = rf_en_mq r2" "csma_pause r1 = csma_pause r2"
      "local_address r1 = local_address r2" by auto
    have "free_count env r2 = free_count env r" by (rule free_count_pause) (rule i(7))
    then have "i + j \<le> free_count env r n n1"
      using i j free_count_split [of n n2 n1 env r] by simp
    with i j show ?thesis by (intro exI [of _ "i + j"]) (simp add: replicate_add)
  qed
qed simp

lemma rf_encode_entry_radio_ok [keep]:
  assumes ok: "radio_ok r"
  shows "radio_ok (snd (rf_encode_entry env n r))"
proof (cases "rf_en_mq r")
  case Nil
  with ok show ?thesis by (simp add: rf_encode_entry_def)
next
  case (Cons m q)
  obtain n1 r1 where a: "ack_loop env m MAX_ACK_RETRY_TIMES n (r\<lparr>rf_en_mq := q\<rparr>) = (n1, r1)"
    by fastforce
  obtain b n2 r2 where s: "rf_send_with_lbt env (parameter m) (data_ptr m) (data_size m) n
      (r\<lparr>rf_en_mq := q\<rparr>) = (b, n2, r2)" by (metis surj_pair)
  have "snd (rf_encode_entry env n r) = (if need_ack m \<noteq> 0 then r1 else r2)"
    by (simp add: rf_encode_entry_def Cons a s Let_def)
  moreover have "rf_en_mq r1 = q" "local_address r1 = local_address r"
    "rf_en_mq r2 = q" "local_address r2 = local_address r"
    using ack_loop_air [OF a] rf_send_air [OF s] by auto
  ultimately show ?thesis using ok by (simp add: radio_ok_def Cons)
qed

text \<open>
  C16. The sending thread takes the oldest message off the queue and puts it on the air
  unchanged, on the frequency its sender chose: at most twice when it asked for an
  acknowledgement, at most once otherwise, and never more often than the channel was
  found free. It makes at most four attempts to get the channel, so it always comes back.
\<close>

theorem encoder_retries:
  assumes "rf_en_mq r = m # q" and "rf_encode_entry env n r = (n', r')"
  shows "rf_en_mq r' = q \<and> n' \<le> n + 4 \<and>
    (\<exists>j \<le> (if need_ack m \<noteq> 0 then 2 else 1).
       air r' = air r @ replicate j
         (rf_rx_frequency_switch (parameter m), take (unat (data_size m)) (data_ptr m)) \<and>
       j \<le> free_count env r n n')"
proof (cases "need_ack m \<noteq> 0")
  case True
  have fc: "free_count env (r\<lparr>rf_en_mq := q\<rparr>) = free_count env r" by (rule free_count_pause) simp
  have "ack_loop env m 2 n (r\<lparr>rf_en_mq := q\<rparr>) = (n', r')"
    using assms True by (simp add: rf_encode_entry_def MAX_ACK_RETRY_TIMES_def)
  from ack_loop_air [OF this] show ?thesis using True unfolding fc by auto
next
  case False
  have fc: "free_count env (r\<lparr>rf_en_mq := q\<rparr>) = free_count env r" by (rule free_count_pause) simp
  obtain b where "rf_send_with_lbt env (parameter m) (data_ptr m) (data_size m) n
      (r\<lparr>rf_en_mq := q\<rparr>) = (b, n', r')"
    using assms False by (simp add: rf_encode_entry_def) (metis prod.collapse)
  from rf_send_air [OF this] show ?thesis using False unfolding fc by auto
qed

lemma encoder_retries_witness:
  "\<exists>j \<le> 2. air (snd (rf_encode_entry (\<lambda>n. \<lparr>ans_cad = 0, ans_noise = -100, ans_txdone = True, ans_ack = n > 0\<rparr>) 0
        \<lparr>lora_tx_buf = \<lambda>_. 0,
         rf_en_mq = [\<lparr>data_ptr = replicate 253 7, data_size = 20, need_ack = 1, parameter = 1\<rparr>],
         local_address = 1, rf_ack_sem = False, rf_txdone_sem = False, csma_pause = 0, cad_detected = 0,
         channel = 0, listening = True, air = []\<rparr>))
     = replicate j (rf_rx_frequency_switch 1, replicate 20 7)"
proof -
  define env :: "nat \<Rightarrow> rf_answer" where
    "env n = \<lparr>ans_cad = 0, ans_noise = -100, ans_txdone = True, ans_ack = n > 0\<rparr>" for n
  define m :: send_msg where
    "m = \<lparr>data_ptr = replicate 253 7, data_size = 20, need_ack = 1, parameter = 1\<rparr>"
  define r where "r = \<lparr>lora_tx_buf = \<lambda>_. 0, rf_en_mq = [m], local_address = 1, rf_ack_sem = False,
     rf_txdone_sem = False, csma_pause = 0, cad_detected = 0, channel = 0, listening = True, air = []\<rparr>"
  obtain n' r' where e: "rf_encode_entry env 0 r = (n', r')" by fastforce
  have q: "rf_en_mq r = m # []" by (simp add: r_def)
  show ?thesis
    using encoder_retries [OF q e] e
    unfolding r_def m_def env_def [abs_def] by auto
qed

section \<open>From a command to the air\<close>

lemma rf_send_free:
  assumes free: "ans_cad (env n) = 0" "ans_noise (env n) \<le> csma_threshold r" and ok: "ans_txdone (env n)"
  obtains r2 where "rf_send_with_lbt env p d sz n r = (True, Suc n, r2)"
    "air r2 = air r @ [(rf_rx_frequency_switch p, take (unat sz) d)]" "rf_en_mq r2 = rf_en_mq r"
    "csma_pause r2 = csma_pause r"
proof -
  obtain ok1 r1 where c: "csma_check_start (env n) (rf_rx_frequency_switch p) r = (ok1, r1)" by fastforce
  note c2 = csma_check_start_simps [OF c]
  have ok1: ok1 using c2 free by simp
  then have l: "lbt_loop env (rf_rx_frequency_switch p) MAX_LBT_RETRY_TIMES n r = (True, n, r1)"
    using c by (simp add: MAX_LBT_RETRY_TIMES_def numeral_2_eq_2)
  show thesis
    by (rule that [of "(OnTxDone (RF_Send (take (unat sz) d) (r1\<lparr>rf_txdone_sem := False\<rparr>)))\<lparr>rf_txdone_sem := False\<rparr>"],
        unfold rf_send_with_lbt_def l)
      (use ok c2 in \<open>simp_all add: OnTxDone_def rf_txdone_callback_def radio_recv_start_def RF_Send_def\<close>)
qed

text \<open>
  C17. With an empty queue a command whose data fits a frame (at most 239 bytes) comes out unchanged, provided the
  channel is free at each attempt and the radio reports each transmission as done: the sending thread puts exactly the
  bytes of the frame on the air, on the frequency of the command, and the queue is empty again. A command that asks for
  an acknowledgement and gets none within the wait goes out a second time and, acknowledged or not, no more; every
  other one goes out once.
\<close>

theorem command_reaches_air:
  assumes "tx_fits tx" "tx_len tx \<le> 239" "rf_en_mq r = []"
    and again: "again = (tx_msg_type tx = MSG_CONFIRMED_UPLINK \<and> \<not> ans_ack (env n))"
    and free: "\<And>k. k = n \<or> again \<and> k = n + 1 \<Longrightarrow>
      ans_cad (env k) = 0 \<and> ans_noise (env k) \<le> csma_threshold r \<and> ans_txdone (env k)"
  shows "case rf_encode_entry env n (command_send p tx r) of (n', r') \<Rightarrow>
    n' = n + (if again then 2 else 1) \<and> rf_en_mq r' = [] \<and>
    air r' = air r @ replicate (if again then 2 else 1) (rf_rx_frequency_switch p, frame_bytes tx)"
proof -
  define c where "c = command_send p tx r"
  let ?m = "queued p tx" and ?f = "(rf_rx_frequency_switch p, frame_bytes tx)"
  have q: "rf_en_mq c = [?m]"
    using command_send_queued [OF assms(1,2), of p r] assms(3)
    by (simp add: c_def rt_mq_send_def RF_MQ_SIZE_def)
  have c: "air c = air r" "csma_pause c = csma_pause r"
    by (simp_all add: c_def command_send_def case_prod_beta Let_def)
  have sz: "unat (of_nat (tx_len tx + 14) :: byte) = tx_len tx + 14"
    using assms(2) by (simp add: unat_of_nat del: of_nat_add)
  have msg: "take (unat (data_size ?m)) (data_ptr ?m) = frame_bytes tx"
    unfolding queued_def using sz length_frame_bytes [OF assms(1)] by simp
  have m: "parameter ?m = p" "need_ack ?m \<noteq> 0 \<longleftrightarrow> tx_msg_type tx = MSG_CONFIRMED_UPLINK" by (simp_all add: queued_def)
  have send: "\<exists>t'. rf_send_with_lbt env p (data_ptr ?m) (data_size ?m) k t = (True, Suc k, t') \<and>
      air t' = air t @ [?f] \<and> rf_en_mq t' = [] \<and> csma_pause t' = csma_pause r"
    if k: "k = n \<or> again \<and> k = n + 1" and t: "csma_pause t = csma_pause r" "rf_en_mq t = []" for k t
  proof -
    have "csma_threshold t = csma_threshold r" using t by (simp add: csma_threshold_def)
    with free [OF k] have f: "ans_cad (env k) = 0" "ans_noise (env k) \<le> csma_threshold t" "ans_txdone (env k)" by simp_all
    show ?thesis
      by (rule rf_send_free [where env = env and n = k and r = t and p = p and d = "data_ptr ?m" and sz = "data_size ?m"])
        (use f t msg in auto)
  qed
  show ?thesis
  proof (cases "tx_msg_type tx = MSG_CONFIRMED_UPLINK")
    case False
    then obtain t where "rf_send_with_lbt env p (data_ptr ?m) (data_size ?m) n (c\<lparr>rf_en_mq := []\<rparr>) = (True, Suc n, t)"
      "air t = air r @ [?f]" "rf_en_mq t = []"
      using send [of n "c\<lparr>rf_en_mq := []\<rparr>"] c by auto
    with False show ?thesis unfolding c_def [symmetric] rf_encode_entry_def q by (simp add: m again)
  next
    case True
    obtain t where t: "rf_send_with_lbt env p (data_ptr ?m) (data_size ?m) n (c\<lparr>rf_en_mq := [], rf_ack_sem := False\<rparr>) = (True, Suc n, t)"
      "air t = air r @ [?f]" "rf_en_mq t = []" "csma_pause t = csma_pause r"
      using send [of n "c\<lparr>rf_en_mq := [], rf_ack_sem := False\<rparr>"] c by auto
    have run: "rf_encode_entry env n c = ack_loop env ?m 2 n (c\<lparr>rf_en_mq := []\<rparr>)"
      using True by (simp add: rf_encode_entry_def q m MAX_ACK_RETRY_TIMES_def)
    show ?thesis
    proof (cases "ans_ack (env n)")
      case True
      then show ?thesis
        unfolding c_def [symmetric] run using t by (simp add: numeral_2_eq_2 m rf_ack_callback_def again)
    next
      case False
      then have a: again using True again by simp
      obtain u where "rf_send_with_lbt env p (data_ptr ?m) (data_size ?m) (Suc n) (t\<lparr>rf_ack_sem := False\<rparr>) = (True, Suc (Suc n), u)"
        "air u = air t @ [?f]" "rf_en_mq u = []"
        using send [of "n + 1" "t\<lparr>rf_ack_sem := False\<rparr>"] a t by auto
      then show ?thesis
        unfolding c_def [symmetric] run using t False a
        by (auto simp: numeral_2_eq_2 m rf_ack_callback_def)
    qed
  qed
qed

lemma command_reaches_air_witness:
  "let r = \<lparr>lora_tx_buf = \<lambda>_. 0, rf_en_mq = [], local_address = 10000000, rf_ack_sem = False, rf_txdone_sem = False,
         csma_pause = 0, cad_detected = 0, channel = 0, listening = True, air = []\<rparr>;
       env = \<lambda>acked _. \<lparr>ans_cad = 0, ans_noise = -100, ans_txdone = True, ans_ack = acked\<rparr>;
       out = \<lambda>acked. air (snd (rf_encode_entry (env acked) 0 (command_send 0 sample_tx r)))
   in out True = [(923500000, frame_bytes sample_tx)] \<and>
      out False = [(923500000, frame_bytes sample_tx), (923500000, frame_bytes sample_tx)]"
proof -
  define r where "r = \<lparr>lora_tx_buf = \<lambda>_. 0, rf_en_mq = [], local_address = 10000000, rf_ack_sem = False,
         rf_txdone_sem = False, csma_pause = 0, cad_detected = 0, channel = 0, listening = True, air = []\<rparr>"
  define env :: "bool \<Rightarrow> nat \<Rightarrow> rf_answer" where
    "env = (\<lambda>acked _. \<lparr>ans_cad = 0, ans_noise = -100, ans_txdone = True, ans_ack = acked\<rparr>)"
  have "csma_threshold r = -75" by (simp add: r_def csma_threshold_def CSMA_NOISE_THRESHOLD_IN_DBM_def)
  then have "ans_cad (env a k) = 0 \<and> ans_noise (env a k) \<le> csma_threshold r \<and> ans_txdone (env a k)" for a k
    by (simp add: env_def)
  moreover have "rf_en_mq r = []" "air r = []" "ans_ack (env a 0) = a" for a by (simp_all add: r_def env_def)
  moreover have "rf_rx_frequency_switch 0 = 923500000"
    by (simp add: rf_rx_frequency_switch_def RF_GATEWAY_TX_FREQUENCY_def)
  moreover have "tx_fits sample_tx" "tx_len sample_tx \<le> 239" "tx_msg_type sample_tx = MSG_CONFIRMED_UPLINK"
    by (simp_all add: MSG_CONFIRMED_UPLINK_def)
  ultimately show ?thesis
    using command_reaches_air [of sample_tx r False "env True" 0 0] command_reaches_air [of sample_tx r True "env False" 0 0]
    unfolding Let_def r_def [symmetric] env_def [symmetric]
    by (auto simp: case_prod_beta numeral_2_eq_2)
qed

end
