(* ===== verification/Button.thy ===== *)
theory Button
  imports Prelude
begin

text \<open>
  The button package (\<open>packages/agile_button-v1.1.1/src/agile_button.c\<close>): debouncing and the
  recognition of presses, holds and releases, one button at a time. A scan sees the tick count
  and the level of the pin; it yields the events for which the callback is called, in order, and the
  button afterwards. The walk over all buttons, with their callbacks, is in \<open>Keys\<close>.
\<close>

datatype agile_btn_event =
    BTN_PRESS_DOWN_EVENT | BTN_HOLD_EVENT | BTN_HOLD_FREE_EVENT | BTN_PRESS_UP_EVENT
  | BTN_CLICK_EVENT | BTN_EVENT_SUM

datatype agile_btn_state =
    BTN_STATE_NONE_PRESS | BTN_STATE_CHECK_PRESS | BTN_STATE_PRESS_DOWN | BTN_STATE_PRESS_HOLD
  | BTN_STATE_HOLD_FREE | BTN_STATE_PRESS_UP

text \<open>\<open>event_cb\<close> says for which events a callback is set; pin levels are Booleans (high is \<open>True\<close>).\<close>

record agile_btn =
  btn_active :: bool
  repeat_cnt :: byte
  hold_flag :: bool
  elimination_time :: byte
  btn_event :: agile_btn_event
  btn_state :: agile_btn_state
  hold_time :: u32
  prev_hold_time :: u32
  hold_cycle_time :: u32
  active_logic :: bool
  tick_timeout :: u32
  event_cb :: "agile_btn_event \<Rightarrow> bool"

definition AGILE_BUTTON_ELIMINATION_TIME_DEFAULT :: byte where
  "AGILE_BUTTON_ELIMINATION_TIME_DEFAULT = 15"
definition AGILE_BUTTON_TWO_INTERVAL_TIME_DEFAULT :: nat where
  "AGILE_BUTTON_TWO_INTERVAL_TIME_DEFAULT = 500"
definition AGILE_BUTTON_HOLD_CYCLE_TIME_DEFAULT :: u32 where
  "AGILE_BUTTON_HOLD_CYCLE_TIME_DEFAULT = 1000"

text \<open>\<open>rt_tick_from_millisecond\<close> for 1000 ticks per second.\<close>

definition rt_tick_from_millisecond :: "nat \<Rightarrow> u32" where
  "rt_tick_from_millisecond ms =
     of_nat (1000 * (ms div 1000)) + of_nat ((1000 * (ms mod 1000) + 999) div 1000)"

lemma rt_tick_ms [simp]: "rt_tick_from_millisecond ms = of_nat ms"
proof -
  have "(1000 * (ms mod 1000) + 999) div 1000 = ms mod 1000" by simp
  then show ?thesis unfolding rt_tick_from_millisecond_def of_nat_add [symmetric] by simp
qed

text \<open>\<open>(rt_tick_get() - btn->tick_timeout) < (RT_TICK_MAX / 2)\<close>\<close>

definition time_up :: "u32 \<Rightarrow> u32 \<Rightarrow> bool" where
  "time_up now t \<longleftrightarrow> now - t < 0xFFFFFFFF div 2"

section \<open>Operations\<close>

text \<open>\<open>inited\<close> and \<open>heap\<close>: the environment is initialised and \<open>rt_malloc\<close> succeeds.\<close>

definition agile_btn_create :: "bool \<Rightarrow> bool \<Rightarrow> bool \<Rightarrow> u32 \<Rightarrow> agile_btn option" where
  "agile_btn_create inited heap logic now =
     (if \<not> inited then None
      else if \<not> heap then None
      else Some
        \<lparr>btn_active = False, repeat_cnt = 0, hold_flag = False,
         elimination_time = AGILE_BUTTON_ELIMINATION_TIME_DEFAULT, btn_event = BTN_EVENT_SUM,
         btn_state = BTN_STATE_NONE_PRESS, hold_time = 0, prev_hold_time = 0,
         hold_cycle_time = AGILE_BUTTON_HOLD_CYCLE_TIME_DEFAULT, active_logic = logic,
         tick_timeout = now, event_cb = (\<lambda>_. False)\<rparr>)"

definition agile_btn_start :: "u32 \<Rightarrow> agile_btn \<Rightarrow> bool \<times> agile_btn" where
  "agile_btn_start now b =
     (if btn_active b then (False, b)
      else (True, b\<lparr>repeat_cnt := 0, btn_event := BTN_EVENT_SUM, btn_state := BTN_STATE_NONE_PRESS,
              hold_time := 0, prev_hold_time := 0, tick_timeout := now, btn_active := True\<rparr>))"

definition agile_btn_stop :: "agile_btn \<Rightarrow> agile_btn" where
  "agile_btn_stop b = (if \<not> btn_active b then b else b\<lparr>btn_active := False\<rparr>)"

definition agile_btn_set_elimination_time :: "byte \<Rightarrow> agile_btn \<Rightarrow> agile_btn" where
  "agile_btn_set_elimination_time v b = b\<lparr>elimination_time := v\<rparr>"

definition agile_btn_set_hold_cycle_time :: "u32 \<Rightarrow> agile_btn \<Rightarrow> agile_btn" where
  "agile_btn_set_hold_cycle_time v b = b\<lparr>hold_cycle_time := v\<rparr>"

definition agile_btn_set_event_cb :: "agile_btn_event \<Rightarrow> agile_btn \<Rightarrow> bool \<times> agile_btn" where
  "agile_btn_set_event_cb e b =
     (if e = BTN_EVENT_SUM then (False, b) else (True, b\<lparr>event_cb := (event_cb b)(e := True)\<rparr>))"

definition agile_btn_cal_hold_time :: "u32 \<Rightarrow> agile_btn \<Rightarrow> agile_btn" where
  "agile_btn_cal_hold_time now b =
     b\<lparr>hold_time := (if now < tick_timeout b then 0xFFFFFFFF - tick_timeout b + now
                      else now - tick_timeout b) * (1000 div 1000)\<rparr>"

text \<open>
  The body of the loop of \<open>agile_btn_process\<close>; \<open>level\<close> is what \<open>rt_pin_read\<close> gives. The events are
  those for which \<open>AGILE_BUTTON_EVENT_CB\<close> is reached. Ticks that pass during a callback are not counted.
\<close>

definition agile_btn_scan :: "u32 \<Rightarrow> bool \<Rightarrow> agile_btn \<Rightarrow> agile_btn_event list \<times> agile_btn" where
  "agile_btn_scan now level b =
     (case btn_state b of
        BTN_STATE_NONE_PRESS \<Rightarrow>
          ([], if level = active_logic b
               then b\<lparr>tick_timeout := now + rt_tick_from_millisecond (unat (elimination_time b)),
                      btn_state := BTN_STATE_CHECK_PRESS\<rparr>
               else if repeat_cnt b \<noteq> 0 \<and> time_up now (tick_timeout b) then b\<lparr>repeat_cnt := 0\<rparr>
               else b)
      | BTN_STATE_CHECK_PRESS \<Rightarrow>
          ([], if level = active_logic b
               then if time_up now (tick_timeout b) then b\<lparr>btn_state := BTN_STATE_PRESS_DOWN\<rparr> else b
               else b\<lparr>btn_state := BTN_STATE_NONE_PRESS\<rparr>)
      | BTN_STATE_PRESS_DOWN \<Rightarrow>
          ([BTN_PRESS_DOWN_EVENT],
           b\<lparr>hold_time := 0, prev_hold_time := 0, repeat_cnt := repeat_cnt b + 1,
             btn_event := BTN_PRESS_DOWN_EVENT, tick_timeout := now, btn_state := BTN_STATE_PRESS_HOLD\<rparr>)
      | BTN_STATE_PRESS_HOLD \<Rightarrow>
          if level = active_logic b
          then let b1 = agile_btn_cal_hold_time now b in
            if hold_time b1 - prev_hold_time b1 \<ge> hold_cycle_time b1
            then let b2 = b1\<lparr>prev_hold_time := hold_time b1\<rparr> in
              if event_cb b2 BTN_HOLD_EVENT
              then ([BTN_HOLD_EVENT], b2\<lparr>hold_flag := True, btn_event := BTN_HOLD_EVENT\<rparr>)
              else ([], b2)
            else ([], b1)
          else ([], b\<lparr>btn_state := (if hold_flag b then BTN_STATE_HOLD_FREE else BTN_STATE_PRESS_UP),
                     hold_flag := False\<rparr>)
      | BTN_STATE_HOLD_FREE \<Rightarrow>
          ([BTN_HOLD_FREE_EVENT],
           b\<lparr>btn_event := BTN_HOLD_FREE_EVENT,
             tick_timeout := now + rt_tick_from_millisecond AGILE_BUTTON_TWO_INTERVAL_TIME_DEFAULT,
             btn_state := BTN_STATE_NONE_PRESS\<rparr>)
      | BTN_STATE_PRESS_UP \<Rightarrow>
          ([BTN_PRESS_UP_EVENT, BTN_CLICK_EVENT],
           b\<lparr>btn_event := BTN_CLICK_EVENT,
             tick_timeout := now + rt_tick_from_millisecond AGILE_BUTTON_TWO_INTERVAL_TIME_DEFAULT,
             btn_state := BTN_STATE_NONE_PRESS\<rparr>))"

text \<open>A sequence of scans.\<close>

fun btn_scans :: "(u32 \<times> bool) list \<Rightarrow> agile_btn \<Rightarrow> agile_btn_event list \<times> agile_btn" where
  "btn_scans [] b = ([], b)"
| "btn_scans ((now, level) # xs) b =
     (let (es, b1) = agile_btn_scan now level b; (fs, b2) = btn_scans xs b1 in (es @ fs, b2))"

section \<open>Gestures\<close>

text \<open>
  What the application may rely on: the events of a button form gestures. Pressing comes first; then either
  holds, ended by a hold release, or a release followed by a click.
\<close>

datatype gesture = Free | Pressed | Held | Released

fun gesture_step :: "gesture \<Rightarrow> agile_btn_event \<Rightarrow> gesture option" where
  "gesture_step Free BTN_PRESS_DOWN_EVENT = Some Pressed"
| "gesture_step Pressed BTN_HOLD_EVENT = Some Held"
| "gesture_step Held BTN_HOLD_EVENT = Some Held"
| "gesture_step Held BTN_HOLD_FREE_EVENT = Some Free"
| "gesture_step Pressed BTN_PRESS_UP_EVENT = Some Released"
| "gesture_step Released BTN_CLICK_EVENT = Some Free"
| "gesture_step _ _ = None"

fun gestures :: "gesture \<Rightarrow> agile_btn_event list \<Rightarrow> gesture option" where
  "gestures g [] = Some g"
| "gestures g (e # es) = (case gesture_step g e of None \<Rightarrow> None | Some g1 \<Rightarrow> gestures g1 es)"

definition gesture_of :: "agile_btn \<Rightarrow> gesture" where
  "gesture_of b =
     (case btn_state b of
        BTN_STATE_PRESS_HOLD \<Rightarrow> if hold_flag b then Held else Pressed
      | BTN_STATE_HOLD_FREE \<Rightarrow> Held
      | BTN_STATE_PRESS_UP \<Rightarrow> Pressed
      | _ \<Rightarrow> Free)"

definition btn_ok :: "agile_btn \<Rightarrow> bool" where
  "btn_ok b \<longleftrightarrow> (hold_flag b \<longrightarrow> btn_state b = BTN_STATE_PRESS_HOLD)"

lemma gestures_append:
  "gestures g es = Some h \<Longrightarrow> gestures g (es @ fs) = gestures h fs"
  by (induction es arbitrary: g) (auto split: option.splits)

lemma scan_refines:
  assumes "btn_ok b"
  shows "gestures (gesture_of b) (fst (agile_btn_scan now level b)) =
      Some (gesture_of (snd (agile_btn_scan now level b))) \<and>
    btn_ok (snd (agile_btn_scan now level b))"
  using assms
  by (cases "btn_state b")
    (auto simp: agile_btn_scan_def gesture_of_def btn_ok_def agile_btn_cal_hold_time_def Let_def)

text \<open>
  C25. Every sequence of scans, at any times and levels, refines the gestures: in particular a click is
  only reported for a press that was not held, a held key ends with one hold release, and no event is
  repeated or lost.
\<close>

theorem buttons_refine_gestures:
  assumes "btn_ok b"
  shows "gestures (gesture_of b) (fst (btn_scans xs b)) = Some (gesture_of (snd (btn_scans xs b))) \<and>
    btn_ok (snd (btn_scans xs b))"
  using assms
proof (induction xs arbitrary: b)
  case (Cons x xs)
  obtain now level where x: "x = (now, level)" by fastforce
  note s = scan_refines [OF Cons.prems, of now level]
  note ih = Cons.IH [of "snd (agile_btn_scan now level b)"]
  show ?case using s ih by (simp add: x case_prod_beta Let_def gestures_append)
qed simp

text \<open>A button as \<open>button_init\<close> sets it up, with callbacks for holds.\<close>

definition sample_btn :: agile_btn where
  "sample_btn = snd (agile_btn_start 0 (snd (agile_btn_set_event_cb BTN_HOLD_EVENT
     (the (agile_btn_create True True False 0)))))"

lemma buttons_refine_gestures_witness:
  "gestures Free (fst (btn_scans [(0, False), (15, False), (20, False), (25, True), (30, True)] sample_btn)) = Some Free"
proof -
  have "btn_ok sample_btn" "gesture_of sample_btn = Free"
    by (simp_all add: sample_btn_def agile_btn_create_def agile_btn_start_def agile_btn_set_event_cb_def
        btn_ok_def gesture_of_def)
  moreover have "gesture_of (snd (btn_scans [(0, False), (15, False), (20, False), (25, True), (30, True)] sample_btn)) = Free"
    by (simp add: sample_btn_def agile_btn_create_def agile_btn_start_def agile_btn_set_event_cb_def
        agile_btn_scan_def time_up_def AGILE_BUTTON_ELIMINATION_TIME_DEFAULT_def
        AGILE_BUTTON_HOLD_CYCLE_TIME_DEFAULT_def agile_btn_cal_hold_time_def gesture_of_def Let_def)
  ultimately show ?thesis
    using buttons_refine_gestures [of sample_btn "[(0, False), (15, False), (20, False), (25, True), (30, True)]"]
    by simp
qed

section \<open>Time\<close>

lemma not_time_up:
  assumes "d < e" "e \<le> 255"
  shows "\<not> time_up (t + of_nat d) (t + of_nat e)"
proof -
  have "(t + of_nat d) - (t + of_nat e) = - (of_nat (e - d) :: u32)" using assms by (simp add: of_nat_diff)
  moreover have "unat (- (of_nat (e - d) :: u32)) = 2 ^ 32 - (e - d)"
  proof -
    define k where "k = e - d"
    have k: "0 < k" "k \<le> 255" using assms by (simp_all add: k_def)
    then have "- (of_nat k :: u32) = of_nat (2 ^ 32 - k)" by (simp add: of_nat_diff)
    moreover have "unat (of_nat (2 ^ 32 - k) :: u32) = 2 ^ 32 - k" using k by (simp only: unat_of_nat) simp
    ultimately show ?thesis unfolding k_def [symmetric] by (simp only:)
  qed
  ultimately show ?thesis using assms by (simp add: time_up_def word_less_nat_alt)
qed

text \<open>
  Debouncing: a press that is released before the debounce time (15 ms) is over raises no event, and
  the button is waiting for a press as before, however often it was scanned meanwhile.
\<close>

theorem short_press_ignored:
  assumes "btn_state b = BTN_STATE_NONE_PRESS" "\<forall>d \<in> set ds. d < unat (elimination_time b)"
  shows "let r = btn_scans ((t, active_logic b) # map (\<lambda>d. (t + of_nat d, active_logic b)) ds
           @ [(t', \<not> active_logic b)]) b
    in fst r = [] \<and> btn_state (snd r) = BTN_STATE_NONE_PRESS \<and> repeat_cnt (snd r) = repeat_cnt b \<and>
       hold_flag (snd r) = hold_flag b"
proof -
  define b1 where "b1 = b\<lparr>tick_timeout := t + of_nat (unat (elimination_time b)),
      btn_state := BTN_STATE_CHECK_PRESS\<rparr>"
  have first: "agile_btn_scan t (active_logic b) b = ([], b1)"
    using assms(1) by (simp add: agile_btn_scan_def b1_def)
  have small: "unat (elimination_time b) \<le> 255" 
  proof -
    have "unat (elimination_time b) < 2 ^ LENGTH(8)" by (rule unsigned_less)
    then show ?thesis by simp
  qed
  have check: "btn_scans (map (\<lambda>d. (t + of_nat d, active_logic b)) ds @ [(t', \<not> active_logic b)]) b1 =
      ([], b1\<lparr>btn_state := BTN_STATE_NONE_PRESS\<rparr>)"
    using assms(2)
  proof (induction ds)
    case (Cons d ds)
    then have "\<not> time_up (t + of_nat d) (t + of_nat (unat (elimination_time b)))"
      using small by (intro not_time_up) simp_all
    then have "agile_btn_scan (t + of_nat d) (active_logic b) b1 = ([], b1)"
      by (simp add: agile_btn_scan_def b1_def)
    with Cons show ?case by simp
  qed (simp add: agile_btn_scan_def b1_def)
  show ?thesis using check by (simp add: first Let_def) (simp add: b1_def)
qed

lemma short_press_ignored_witness:
  "fst (btn_scans [(100, False), (105, False), (110, False), (115, True)] sample_btn) = []"
proof -
  have "btn_state sample_btn = BTN_STATE_NONE_PRESS" "elimination_time sample_btn = 15"
    "active_logic sample_btn = False"
    by (simp_all add: sample_btn_def agile_btn_create_def agile_btn_start_def agile_btn_set_event_cb_def
        AGILE_BUTTON_ELIMINATION_TIME_DEFAULT_def)
  then show ?thesis
    using short_press_ignored [of sample_btn "[5, 10]" 100 115] by (simp add: Let_def)
qed

lemma hold_scans:
  assumes "btn_state b = BTN_STATE_PRESS_HOLD" "prev_hold_time b = of_nat p"
    and "sorted (p # ds)" "\<forall>d \<in> set (p # ds). unat (tick_timeout b) + d < 2 ^ 32"
  shows "list_all (\<lambda>e. e = BTN_HOLD_EVENT) (fst (btn_scans (map (\<lambda>d. (tick_timeout b + of_nat d, active_logic b)) ds) b)) \<and>
    p + length (fst (btn_scans (map (\<lambda>d. (tick_timeout b + of_nat d, active_logic b)) ds) b)) *
      unat (hold_cycle_time b) \<le> last (p # ds)"
  using assms
proof (induction ds arbitrary: b p)
  case (Cons d ds)
  let ?b1 = "agile_btn_cal_hold_time (tick_timeout b + of_nat d) b"
  have d: "p \<le> d" "unat (tick_timeout b) + d < 2 ^ 32" using Cons.prems by auto
  have u: "unat (tick_timeout b + of_nat d) = unat (tick_timeout b) + d"
    using d(2) by (simp add: unat_word_ariths unat_of_nat)
  have "\<not> tick_timeout b + of_nat d < tick_timeout b" by (simp only: word_less_nat_alt u)
  then have hold: "hold_time ?b1 = of_nat d" by (simp add: agile_btn_cal_hold_time_def)
  have diff: "unat (of_nat d - of_nat p :: u32) = d - p"
  proof -
    have "of_nat d - of_nat p = (of_nat (d - p) :: u32)" using d(1) by (simp add: of_nat_diff)
    moreover have "unat (of_nat (d - p) :: u32) = d - p" using d(2) by (simp add: unat_of_nat)
    ultimately show ?thesis by (simp only:)
  qed
  let ?fires = "unat (hold_cycle_time b) \<le> d - p"
  define b2 where "b2 = snd (agile_btn_scan (tick_timeout b + of_nat d) (active_logic b) b)"
  have scan: "agile_btn_scan (tick_timeout b + of_nat d) (active_logic b) b =
      (if ?fires \<and> event_cb b BTN_HOLD_EVENT then [BTN_HOLD_EVENT] else [], b2)"
    unfolding b2_def using Cons.prems(1,2) hold diff
    by (auto simp: agile_btn_scan_def Let_def word_le_nat_alt agile_btn_cal_hold_time_def)
  have b2: "btn_state b2 = BTN_STATE_PRESS_HOLD" "tick_timeout b2 = tick_timeout b"
    "active_logic b2 = active_logic b" "hold_cycle_time b2 = hold_cycle_time b"
    "prev_hold_time b2 = of_nat (if ?fires then d else p)"
    unfolding b2_def using Cons.prems(1,2) hold diff
    by (auto simp: agile_btn_scan_def Let_def word_le_nat_alt agile_btn_cal_hold_time_def)
  have ih: "list_all (\<lambda>e. e = BTN_HOLD_EVENT) (fst (btn_scans (map (\<lambda>d. (tick_timeout b + of_nat d, active_logic b)) ds) b2)) \<and>
    (if ?fires then d else p) + length (fst (btn_scans (map (\<lambda>d. (tick_timeout b + of_nat d, active_logic b)) ds) b2)) *
      unat (hold_cycle_time b) \<le> last ((if ?fires then d else p) # ds)"
    using Cons.IH [OF b2(1,5)] Cons.prems(3,4) b2(2-4) by auto
  have "last ((if ?fires then d else p) # ds) \<le> last (d # ds)" using d(1) by auto
  then show ?case using ih scan d(1) by (auto simp: case_prod_beta Let_def split: if_splits)
qed simp

text \<open>
  A held key reports at most one hold event per hold cycle: \<open>n\<close> events mean the key was down for at
  least \<open>n\<close> cycles (of one second for the keys of the unit).
\<close>

theorem holds_take_time:
  assumes "btn_state b = BTN_STATE_PRESS_DOWN" "sorted ds" "\<forall>d \<in> set ds. unat t + d < 2 ^ 32" "ds \<noteq> []"
  shows "let es = fst (btn_scans ((t, active_logic b) # map (\<lambda>d. (t + of_nat d, active_logic b)) ds) b) in
    hd es = BTN_PRESS_DOWN_EVENT \<and> set (tl es) \<subseteq> {BTN_HOLD_EVENT} \<and>
    length (tl es) * unat (hold_cycle_time b) \<le> last ds"
proof -
  define b1 where "b1 = snd (agile_btn_scan t (active_logic b) b)"
  have scan: "agile_btn_scan t (active_logic b) b = ([BTN_PRESS_DOWN_EVENT], b1)"
    unfolding b1_def using assms(1) by (simp add: agile_btn_scan_def)
  have b1: "btn_state b1 = BTN_STATE_PRESS_HOLD" "prev_hold_time b1 = of_nat 0" "tick_timeout b1 = t"
    "active_logic b1 = active_logic b" "hold_cycle_time b1 = hold_cycle_time b"
    unfolding b1_def using assms(1) by (simp_all add: agile_btn_scan_def)
  have "unat t < 2 ^ LENGTH(32)" by (rule unsigned_less)
  then have "list_all (\<lambda>e. e = BTN_HOLD_EVENT) (fst (btn_scans (map (\<lambda>d. (t + of_nat d, active_logic b)) ds) b1)) \<and>
    0 + length (fst (btn_scans (map (\<lambda>d. (t + of_nat d, active_logic b)) ds) b1)) *
      unat (hold_cycle_time b) \<le> last (0 # ds)"
    using hold_scans [OF b1(1,2), of ds] assms(2,3) unfolding b1(3-5) by simp
  then show ?thesis using assms(4) by (auto simp: scan case_prod_beta Let_def list_all_iff)
qed

lemma holds_take_time_witness:
  "length (tl (fst (btn_scans [(0, False), (999, False), (1000, False), (1500, False)]
     (sample_btn\<lparr>btn_state := BTN_STATE_PRESS_DOWN\<rparr>)))) * 1000 \<le> 1500"
proof -
  have "active_logic (sample_btn\<lparr>btn_state := BTN_STATE_PRESS_DOWN\<rparr>) = False"
    "hold_cycle_time (sample_btn\<lparr>btn_state := BTN_STATE_PRESS_DOWN\<rparr>) = 1000"
    by (simp_all add: sample_btn_def agile_btn_create_def agile_btn_start_def agile_btn_set_event_cb_def
        AGILE_BUTTON_HOLD_CYCLE_TIME_DEFAULT_def)
  then show ?thesis
    using holds_take_time [of "sample_btn\<lparr>btn_state := BTN_STATE_PRESS_DOWN\<rparr>" "[999, 1000, 1500]" 0]
    by (simp add: Let_def)
qed

end
