(* ===== verification/Crc.thy ===== *)
theory Crc
  imports Prelude
begin

text \<open>
  Reflected cyclic check sums of any width, bit by bit and by table: the Modbus check sum (16 bits) and the one
  of the key-value store (32 bits) are instances. A table is right when its entry \<open>i\<close> is what eight
  shifts make of \<open>i\<close>; because shifting is linear the eight entries at the powers of two determine all
  others, so a table of 256 entries is checked by doubling a list eight times.
\<close>

definition rcrc_shift :: "'a::len word \<Rightarrow> 'a word \<Rightarrow> 'a word" where
  "rcrc_shift p c = (if bit c 0 then drop_bit 1 c XOR p else drop_bit 1 c)"

definition rcrc_byte :: "'a::len word \<Rightarrow> 'a word \<Rightarrow> byte \<Rightarrow> 'a word" where
  "rcrc_byte p c b = (rcrc_shift p ^^ 8) (c XOR ucast b)"

definition rcrc_bytes :: "'a::len word \<Rightarrow> 'a word \<Rightarrow> byte list \<Rightarrow> 'a word" where
  "rcrc_bytes p c bs = foldl (rcrc_byte p) c bs"

lemma rcrc_bytes_append: "rcrc_bytes p c (xs @ ys) = rcrc_bytes p (rcrc_bytes p c xs) ys"
  by (simp add: rcrc_bytes_def)

lemma funpow_8: "(f ^^ 8) x = f (f (f (f (f (f (f (f x)))))))"
  by (simp add: numeral_eq_Suc)

lemma rcrc_shift_xor: "rcrc_shift p (a XOR b) = rcrc_shift p a XOR rcrc_shift p b"
  by (rule bit_word_eqI) (auto simp: rcrc_shift_def bit_xor_iff bit_drop_bit_eq simp del: drop_bit_xor)

lemma rcrc_funpow_xor: "(rcrc_shift p ^^ k) (a XOR b) = (rcrc_shift p ^^ k) a XOR (rcrc_shift p ^^ k) b"
  by (induction k) (simp_all add: rcrc_shift_xor)

lemma rcrc_shift_0 [simp]: "(rcrc_shift p ^^ k) 0 = 0"
  by (induction k) (simp_all add: rcrc_shift_def)

text \<open>The list for \<open>k + 1\<close> index bits from that for \<open>k\<close>.\<close>

definition xor_double :: "'a::len word \<Rightarrow> 'a word list \<Rightarrow> 'a word list" where
  "xor_double c l = l @ map (\<lambda>x. x XOR c) l"

definition holds_crcs :: "'a::len word \<Rightarrow> nat \<Rightarrow> 'a word list \<Rightarrow> bool" where
  "holds_crcs p k l \<longleftrightarrow> length l = 2 ^ k \<and> (\<forall>i < 2 ^ k. l ! i = (rcrc_shift p ^^ 8) (of_nat i))"

lemma nat_add_power: "j < 2 ^ k \<Longrightarrow> (2 :: nat) ^ k + j = j XOR 2 ^ k"
proof -
  assume "j < 2 ^ k"
  then have "j AND 2 ^ k = 0" by (simp add: and_exp_eq_0_iff_not_bit bit_iff_odd)
  then show "2 ^ k + j = j XOR 2 ^ k" by (simp add: disjunctive_add_eq_xor add.commute)
qed

lemma holds_double:
  assumes "holds_crcs p k l" "c = (rcrc_shift p ^^ 8) (2 ^ k)"
  shows "holds_crcs p (Suc k) (xor_double c l)"
proof -
  have "xor_double c l ! i = (rcrc_shift p ^^ 8) (of_nat i)" if i: "i < 2 ^ Suc k" for i
  proof (cases "i < 2 ^ k")
    case True
    with assms show ?thesis by (simp add: holds_crcs_def xor_double_def nth_append)
  next
    case False
    define j where "j = i - 2 ^ k"
    have j: "j < 2 ^ k" "i = 2 ^ k + j" using False i by (simp_all add: j_def)
    then have "of_nat i = (of_nat j XOR 2 ^ k :: 'a word)"
      by (simp only: nat_add_power) (simp add: of_nat_xor_eq)
    with assms j show ?thesis by (simp add: holds_crcs_def xor_double_def nth_append rcrc_funpow_xor)
  qed
  with assms show ?thesis by (simp add: holds_crcs_def xor_double_def)
qed

lemma holds_fold:
  "\<lbrakk>holds_crcs p k l; \<forall>i < length cs. cs ! i = (rcrc_shift p ^^ 8) (2 ^ (k + i))\<rbrakk>
   \<Longrightarrow> holds_crcs p (k + length cs) (fold xor_double cs l)"
proof (induction cs arbitrary: k l)
  case (Cons c cs)
  have "c = (rcrc_shift p ^^ 8) (2 ^ k)" using Cons.prems(2) by (auto dest: spec [of _ 0])
  from holds_double [OF Cons.prems(1) this] have h: "holds_crcs p (Suc k) (xor_double c l)" .
  have "\<forall>i < length cs. cs ! i = (rcrc_shift p ^^ 8) (2 ^ (Suc k + i))"
    using Cons.prems(2) by (auto dest: spec [of _ "Suc _"])
  from Cons.IH [OF h this] show ?case by simp
qed simp

text \<open>A table is right when it is the eight-fold doubling of the entries at the powers of two.\<close>

lemma table_right:
  assumes "map (\<lambda>i. (rcrc_shift p ^^ 8) (2 ^ i)) [0..<8] = cs"
  shows "holds_crcs p 8 (fold xor_double cs [0])"
proof -
  have len: "length cs = 8" using arg_cong [where f = length, OF assms] by simp
  have "cs ! i = (rcrc_shift p ^^ 8) (2 ^ (0 + i))" if "i < length cs" for i
    using that len by (simp add: assms [symmetric] del: upt_rec_numeral)
  moreover have "holds_crcs p 0 [0]" by (simp add: holds_crcs_def)
  ultimately have "holds_crcs p (0 + length cs) (fold xor_double cs [0])" by (intro holds_fold) blast+
  then show ?thesis by (simp add: len)
qed

lemma table_entry:
  assumes "holds_crcs p 8 t"
  shows "t ! unat (i :: byte) = (rcrc_shift p ^^ 8) (ucast i)"
proof -
  have "unat i < 2 ^ LENGTH(8)" by (rule unsigned_less)
  with assms have "t ! unat i = (rcrc_shift p ^^ 8) (of_nat (unat i))" by (simp add: holds_crcs_def)
  then show ?thesis by simp
qed

text \<open>The bits above the last byte only move down.\<close>

lemma shift_high:
  assumes "8 \<le> LENGTH('a)"
  shows "(rcrc_shift p ^^ 8) (push_bit 8 (drop_bit 8 c)) = drop_bit 8 (c :: 'a::len word)"
proof -
  have s: "rcrc_shift p (push_bit (Suc k) (drop_bit 8 c)) = push_bit k (drop_bit 8 c)" if "k < 8" for k
  proof (rule bit_word_eqI)
    fix n assume "n < LENGTH('a)"
    then show "bit (rcrc_shift p (push_bit (Suc k) (drop_bit 8 c))) n = bit (push_bit k (drop_bit 8 c)) n"
      using that by (auto simp: rcrc_shift_def bit_simps Suc_diff_le dest: bit_imp_le_length
          simp del: push_bit_of_1 push_bit_eq_mult push_bit_Suc)
  qed
  have "(rcrc_shift p ^^ k) (push_bit k (drop_bit 8 c)) = drop_bit 8 c" if "k \<le> 8" for k
    using that
  proof (induction k)
    case (Suc k)
    then show ?case by (simp add: funpow_Suc_right s del: funpow.simps push_bit_Suc)
  qed simp
  then show ?thesis by blast
qed

text \<open>One byte by table.\<close>

lemma rcrc_byte_by_table:
  fixes c :: "'a::len word"
  assumes "holds_crcs p 8 t" "8 \<le> LENGTH('a)"
  shows "rcrc_byte p c b = t ! unat (ucast (c XOR ucast b) :: byte) XOR drop_bit 8 c"
proof -
  let ?i = "ucast (c XOR ucast b) :: byte"
  have "rcrc_byte p c b = (rcrc_shift p ^^ 8) (c XOR ucast b)" by (simp only: rcrc_byte_def)
  also have "c XOR ucast b = ucast ?i XOR push_bit 8 (drop_bit 8 c)"
    by (rule bit_word_eqI) (auto simp: bit_simps dest: bit_imp_le_length simp del: push_bit_of_1 push_bit_eq_mult)
  finally show ?thesis
    by (simp only: rcrc_funpow_xor shift_high [OF assms(2)] table_entry [OF assms(1)])
qed

end
