(* ===== verification/Modbus_Rtu.thy ===== *)
theory Modbus_Rtu
  imports Crc
begin

text \<open>
  The Modbus RTU frames (\<open>modbus/rtu/mbcrc.c\<close>, \<open>modbus/rtu/mbrtu.c\<close> of the package): the check sum
  with its two tables, the receiver's state machine, the check of a received frame and the building of a
  reply. Lengths are \<open>USHORT\<close> in the code and at most 256 here: natural numbers.

  The code asserts, with \<open>RT_ASSERT\<close>, in which states its functions are entered (\<open>mbrtu.c\<close>, lines 154, 227,
  286 and 343). A failed assertion stops the unit; the definitions below have no such stop and go on. In the runs
  of \<open>System\<close> a byte arrives only while nothing is sent, which is the assertion of line 227.
\<close>

section \<open>The check sum\<close>

definition aucCRCHi :: "byte list" where
  "aucCRCHi = [
     0x00, 0xC1, 0x81, 0x40, 0x01, 0xC0, 0x80, 0x41, 0x01, 0xC0, 0x80, 0x41,
     0x00, 0xC1, 0x81, 0x40, 0x01, 0xC0, 0x80, 0x41, 0x00, 0xC1, 0x81, 0x40,
     0x00, 0xC1, 0x81, 0x40, 0x01, 0xC0, 0x80, 0x41, 0x01, 0xC0, 0x80, 0x41,
     0x00, 0xC1, 0x81, 0x40, 0x00, 0xC1, 0x81, 0x40, 0x01, 0xC0, 0x80, 0x41,
     0x00, 0xC1, 0x81, 0x40, 0x01, 0xC0, 0x80, 0x41, 0x01, 0xC0, 0x80, 0x41,
     0x00, 0xC1, 0x81, 0x40, 0x01, 0xC0, 0x80, 0x41, 0x00, 0xC1, 0x81, 0x40,
     0x00, 0xC1, 0x81, 0x40, 0x01, 0xC0, 0x80, 0x41, 0x00, 0xC1, 0x81, 0x40,
     0x01, 0xC0, 0x80, 0x41, 0x01, 0xC0, 0x80, 0x41, 0x00, 0xC1, 0x81, 0x40,
     0x00, 0xC1, 0x81, 0x40, 0x01, 0xC0, 0x80, 0x41, 0x01, 0xC0, 0x80, 0x41,
     0x00, 0xC1, 0x81, 0x40, 0x01, 0xC0, 0x80, 0x41, 0x00, 0xC1, 0x81, 0x40,
     0x00, 0xC1, 0x81, 0x40, 0x01, 0xC0, 0x80, 0x41, 0x01, 0xC0, 0x80, 0x41,
     0x00, 0xC1, 0x81, 0x40, 0x00, 0xC1, 0x81, 0x40, 0x01, 0xC0, 0x80, 0x41,
     0x00, 0xC1, 0x81, 0x40, 0x01, 0xC0, 0x80, 0x41, 0x01, 0xC0, 0x80, 0x41,
     0x00, 0xC1, 0x81, 0x40, 0x00, 0xC1, 0x81, 0x40, 0x01, 0xC0, 0x80, 0x41,
     0x01, 0xC0, 0x80, 0x41, 0x00, 0xC1, 0x81, 0x40, 0x01, 0xC0, 0x80, 0x41,
     0x00, 0xC1, 0x81, 0x40, 0x00, 0xC1, 0x81, 0x40, 0x01, 0xC0, 0x80, 0x41,
     0x00, 0xC1, 0x81, 0x40, 0x01, 0xC0, 0x80, 0x41, 0x01, 0xC0, 0x80, 0x41,
     0x00, 0xC1, 0x81, 0x40, 0x01, 0xC0, 0x80, 0x41, 0x00, 0xC1, 0x81, 0x40,
     0x00, 0xC1, 0x81, 0x40, 0x01, 0xC0, 0x80, 0x41, 0x01, 0xC0, 0x80, 0x41,
     0x00, 0xC1, 0x81, 0x40, 0x00, 0xC1, 0x81, 0x40, 0x01, 0xC0, 0x80, 0x41,
     0x00, 0xC1, 0x81, 0x40, 0x01, 0xC0, 0x80, 0x41, 0x01, 0xC0, 0x80, 0x41,
     0x00, 0xC1, 0x81, 0x40]"

definition aucCRCLo :: "byte list" where
  "aucCRCLo = [
     0x00, 0xC0, 0xC1, 0x01, 0xC3, 0x03, 0x02, 0xC2, 0xC6, 0x06, 0x07, 0xC7,
     0x05, 0xC5, 0xC4, 0x04, 0xCC, 0x0C, 0x0D, 0xCD, 0x0F, 0xCF, 0xCE, 0x0E,
     0x0A, 0xCA, 0xCB, 0x0B, 0xC9, 0x09, 0x08, 0xC8, 0xD8, 0x18, 0x19, 0xD9,
     0x1B, 0xDB, 0xDA, 0x1A, 0x1E, 0xDE, 0xDF, 0x1F, 0xDD, 0x1D, 0x1C, 0xDC,
     0x14, 0xD4, 0xD5, 0x15, 0xD7, 0x17, 0x16, 0xD6, 0xD2, 0x12, 0x13, 0xD3,
     0x11, 0xD1, 0xD0, 0x10, 0xF0, 0x30, 0x31, 0xF1, 0x33, 0xF3, 0xF2, 0x32,
     0x36, 0xF6, 0xF7, 0x37, 0xF5, 0x35, 0x34, 0xF4, 0x3C, 0xFC, 0xFD, 0x3D,
     0xFF, 0x3F, 0x3E, 0xFE, 0xFA, 0x3A, 0x3B, 0xFB, 0x39, 0xF9, 0xF8, 0x38,
     0x28, 0xE8, 0xE9, 0x29, 0xEB, 0x2B, 0x2A, 0xEA, 0xEE, 0x2E, 0x2F, 0xEF,
     0x2D, 0xED, 0xEC, 0x2C, 0xE4, 0x24, 0x25, 0xE5, 0x27, 0xE7, 0xE6, 0x26,
     0x22, 0xE2, 0xE3, 0x23, 0xE1, 0x21, 0x20, 0xE0, 0xA0, 0x60, 0x61, 0xA1,
     0x63, 0xA3, 0xA2, 0x62, 0x66, 0xA6, 0xA7, 0x67, 0xA5, 0x65, 0x64, 0xA4,
     0x6C, 0xAC, 0xAD, 0x6D, 0xAF, 0x6F, 0x6E, 0xAE, 0xAA, 0x6A, 0x6B, 0xAB,
     0x69, 0xA9, 0xA8, 0x68, 0x78, 0xB8, 0xB9, 0x79, 0xBB, 0x7B, 0x7A, 0xBA,
     0xBE, 0x7E, 0x7F, 0xBF, 0x7D, 0xBD, 0xBC, 0x7C, 0xB4, 0x74, 0x75, 0xB5,
     0x77, 0xB7, 0xB6, 0x76, 0x72, 0xB2, 0xB3, 0x73, 0xB1, 0x71, 0x70, 0xB0,
     0x50, 0x90, 0x91, 0x51, 0x93, 0x53, 0x52, 0x92, 0x96, 0x56, 0x57, 0x97,
     0x55, 0x95, 0x94, 0x54, 0x9C, 0x5C, 0x5D, 0x9D, 0x5F, 0x9F, 0x9E, 0x5E,
     0x5A, 0x9A, 0x9B, 0x5B, 0x99, 0x59, 0x58, 0x98, 0x88, 0x48, 0x49, 0x89,
     0x4B, 0x8B, 0x8A, 0x4A, 0x4E, 0x8E, 0x8F, 0x4F, 0x8D, 0x4D, 0x4C, 0x8C,
     0x44, 0x84, 0x85, 0x45, 0x87, 0x47, 0x46, 0x86, 0x82, 0x42, 0x43, 0x83,
     0x41, 0x81, 0x80, 0x40]"

text \<open>One turn of the loop on the pair of \<open>ucCRCHi\<close> and \<open>ucCRCLo\<close>.\<close>

definition crc16_turn :: "byte \<times> byte \<Rightarrow> byte \<Rightarrow> byte \<times> byte" where
  "crc16_turn c b =
     (let iIndex = unat (snd c XOR b) in (aucCRCLo ! iIndex, fst c XOR aucCRCHi ! iIndex))"

definition usMBCRC16 :: "byte list \<Rightarrow> u16" where
  "usMBCRC16 pucFrame =
     (let (hi, lo) = foldl crc16_turn (0xFF, 0xFF) pucFrame in push_bit 8 (ucast hi) OR ucast lo)"

text \<open>The Modbus check sum bit by bit: the polynomial 0xA001, least significant bit first.\<close>

definition crc16 :: "byte list \<Rightarrow> u16" where
  "crc16 bs = rcrc_bytes 0xA001 0xFFFF bs"

section \<open>The tables are right\<close>

text \<open>The two tables as one of words.\<close>

definition crc16_table :: "u16 list" where
  "crc16_table = fold xor_double [0xC0C1, 0xC181, 0xC301, 0xC601, 0xCC01, 0xD801, 0xF001, 0xA001] [0]"

lemma crc16_table_holds: "holds_crcs 0xA001 8 crc16_table"
  unfolding crc16_table_def by (rule table_right) (simp add: upt_rec funpow_8 rcrc_shift_def)

lemma tables_split:
  "map (\<lambda>w. ucast (drop_bit 8 w) :: byte) crc16_table = aucCRCLo"
  "map (\<lambda>w. ucast w :: byte) crc16_table = aucCRCHi"
  by (simp_all add: crc16_table_def xor_double_def aucCRCLo_def aucCRCHi_def)

text \<open>The pair of bytes stands for a word.\<close>

definition crc_pair :: "byte \<times> byte \<Rightarrow> u16" where
  "crc_pair c = push_bit 8 (ucast (fst c)) OR ucast (snd c)"

lemma crc_pair_split: "crc_pair (ucast (drop_bit 8 w), ucast w) = w"
  by (rule bit_word_eqI) (auto simp: crc_pair_def bit_simps simp del: push_bit_of_1 push_bit_eq_mult)

lemma crc_pair_xor: "crc_pair (h, l XOR g) = crc_pair (h, l) XOR ucast g"
  by (rule bit_word_eqI) (auto simp: crc_pair_def bit_simps dest: bit_imp_le_length simp del: push_bit_of_1 push_bit_eq_mult)

lemma crc16_turn_spec: "crc_pair (crc16_turn c b) = rcrc_byte 0xA001 (crc_pair c) b"
proof -
  let ?i = "snd c XOR b"
  have "unat ?i < 2 ^ LENGTH(8)" by (rule unsigned_less)
  then have "unat ?i < length crc16_table" using crc16_table_holds by (simp add: holds_crcs_def)
  then have turn: "crc16_turn c b = (ucast (drop_bit 8 (crc16_table ! unat ?i)), fst c XOR ucast (crc16_table ! unat ?i))"
    by (simp add: crc16_turn_def tables_split [symmetric] Let_def)
  have index: "ucast (crc_pair c XOR ucast b) = ?i"
    by (rule bit_word_eqI) (auto simp: crc_pair_def bit_simps simp del: push_bit_of_1 push_bit_eq_mult)
  have rest: "drop_bit 8 (crc_pair c) = ucast (fst c)"
    by (rule bit_word_eqI) (auto simp: crc_pair_def bit_simps dest: bit_imp_le_length simp del: push_bit_of_1 push_bit_eq_mult)
  have "rcrc_byte 0xA001 (crc_pair c) b = crc16_table ! unat ?i XOR ucast (fst c)"
    using rcrc_byte_by_table [OF crc16_table_holds, of "crc_pair c" b] by (simp add: index rest)
  also have "\<dots> = crc_pair (crc16_turn c b)"
    unfolding turn xor.commute [of "fst c"] crc_pair_xor crc_pair_split ..
  finally show ?thesis by simp
qed

lemma table_crc: "usMBCRC16 bs = crc16 bs"
proof -
  have "crc_pair (foldl crc16_turn c bs) = rcrc_bytes 0xA001 (crc_pair c) bs" for c
    by (induction bs arbitrary: c) (simp_all add: rcrc_bytes_def crc16_turn_spec)
  moreover have "crc_pair (0xFF, 0xFF) = 0xFFFF" by (simp add: crc_pair_def)
  ultimately show ?thesis
    by (simp add: usMBCRC16_def crc16_def case_prod_beta crc_pair_def del: push_bit_eq_mult)
qed

lemma crc16_residue:
  "rcrc_byte 0xA001 (rcrc_byte 0xA001 c (ucast (c AND 0xFF))) (ucast (drop_bit 8 c)) = (0 :: u16)"
proof -
  have ff: "(0xFF :: u16) = mask 8" by (simp add: mask_eq_exp_minus_1)
  have "c XOR ucast (ucast (c AND 0xFF) :: byte) = push_bit 8 (drop_bit 8 c)"
    unfolding ff
    by (rule bit_word_eqI) (auto simp: bit_simps simp del: push_bit_of_1 push_bit_eq_mult)
  then have "rcrc_byte 0xA001 c (ucast (c AND 0xFF)) = drop_bit 8 c"
    by (simp only: rcrc_byte_def shift_high) (simp add: shift_high)
  moreover have "ucast (ucast (drop_bit 8 c) :: byte) = drop_bit 8 c"
    by (rule bit_word_eqI) (auto simp: bit_simps dest: bit_imp_le_length)
  ultimately show ?thesis by (simp add: rcrc_byte_def)
qed

text \<open>
  C24. The table-driven check sum is the Modbus check sum: for every sequence of bytes the two tables of
  256 entries give what shifting bit by bit with the polynomial 0xA001 gives, and a message followed by
  its check sum, low byte first, has check sum 0.
\<close>

theorem table_crc_correct:
  "usMBCRC16 bs = crc16 bs \<and>
   usMBCRC16 (bs @ [ucast (usMBCRC16 bs AND 0xFF), ucast (drop_bit 8 (usMBCRC16 bs))]) = 0"
  by (simp add: table_crc crc16_def rcrc_bytes_append) (simp add: rcrc_bytes_def crc16_residue)

section \<open>The port\<close>

datatype eMBRcvState = STATE_RX_INIT | STATE_RX_IDLE | STATE_RX_RCV | STATE_RX_ERROR
datatype eMBSndState = STATE_TX_IDLE | STATE_TX_XMIT
datatype eMBEventType = EV_READY | EV_FRAME_RECEIVED | EV_EXECUTE | EV_FRAME_SENT

text \<open>
  The \<open>static\<close> variables of \<open>mbrtu.c\<close>. \<open>pucSndBufferCur\<close> points into \<open>ucRTUBuf\<close>: its index.
  \<open>t35\<close> is whether the timer runs, \<open>mb_events\<close> what was posted, \<open>line\<close> the bytes put on the bus. The last
  two are static in \<open>eMBPoll\<close>; its pointer \<open>ucMBFrame\<close> is always that of index 1 of the buffer.
\<close>

record rtu_st =
  eRcvState :: eMBRcvState
  eSndState :: eMBSndState
  ucRTUBuf :: mem
  pucSndBufferCur :: nat
  usSndBufferCount :: nat
  usRcvBufferPos :: nat
  t35 :: bool
  mb_events :: "eMBEventType list"
  line :: "byte list"
  ucRcvAddress :: byte
  usLength :: nat

definition MB_SER_PDU_SIZE_MIN :: nat where "MB_SER_PDU_SIZE_MIN = 4"
definition MB_SER_PDU_SIZE_MAX :: nat where "MB_SER_PDU_SIZE_MAX = 256"

definition eMBRTUStart :: "rtu_st \<Rightarrow> rtu_st" where
  "eMBRTUStart r = r\<lparr>eRcvState := STATE_RX_INIT, t35 := True\<rparr>"

definition eMBRTUStop :: "rtu_st \<Rightarrow> rtu_st" where
  "eMBRTUStop r = r\<lparr>t35 := False\<rparr>"

text \<open>A received byte, and the end of the pause of 3.5 characters.\<close>

definition xMBRTUReceiveFSM :: "byte \<Rightarrow> rtu_st \<Rightarrow> rtu_st" where
  "xMBRTUReceiveFSM ucByte r =
     (case eRcvState r of
        STATE_RX_INIT \<Rightarrow> r\<lparr>t35 := True\<rparr>
      | STATE_RX_ERROR \<Rightarrow> r\<lparr>t35 := True\<rparr>
      | STATE_RX_IDLE \<Rightarrow>
          r\<lparr>ucRTUBuf := (ucRTUBuf r)(0 := ucByte), usRcvBufferPos := 1, eRcvState := STATE_RX_RCV, t35 := True\<rparr>
      | STATE_RX_RCV \<Rightarrow>
          if usRcvBufferPos r < MB_SER_PDU_SIZE_MAX
          then r\<lparr>ucRTUBuf := (ucRTUBuf r)(usRcvBufferPos r := ucByte),
                 usRcvBufferPos := usRcvBufferPos r + 1, t35 := True\<rparr>
          else r\<lparr>eRcvState := STATE_RX_ERROR, t35 := True\<rparr>)"

definition xMBRTUTimerT35Expired :: "rtu_st \<Rightarrow> rtu_st" where
  "xMBRTUTimerT35Expired r =
     (let r1 = (case eRcvState r of
                  STATE_RX_INIT \<Rightarrow> r\<lparr>mb_events := mb_events r @ [EV_READY]\<rparr>
                | STATE_RX_RCV \<Rightarrow> r\<lparr>mb_events := mb_events r @ [EV_FRAME_RECEIVED]\<rparr>
                | _ \<Rightarrow> r)
      in r1\<lparr>t35 := False, eRcvState := STATE_RX_IDLE\<rparr>)"

text \<open>The address and the length of the PDU, which starts at index 1 of the buffer; \<open>None\<close> is \<open>MB_EIO\<close>.\<close>

definition eMBRTUReceive :: "rtu_st \<Rightarrow> (byte \<times> nat) option" where
  "eMBRTUReceive r =
     (if usRcvBufferPos r \<ge> MB_SER_PDU_SIZE_MIN \<and>
         usMBCRC16 (map (ucRTUBuf r) [0..<usRcvBufferPos r]) = 0
      then Some (ucRTUBuf r 0, usRcvBufferPos r - 1 - 2) else None)"

text \<open>The frame to send is the PDU in the buffer, from index 1 on.\<close>

definition eMBRTUSend :: "byte \<Rightarrow> nat \<Rightarrow> rtu_st \<Rightarrow> bool \<times> rtu_st" where
  "eMBRTUSend ucSlaveAddress usLen r =
     (if eRcvState r = STATE_RX_IDLE
      then let buf = (ucRTUBuf r)(0 := ucSlaveAddress);
               n = 1 + usLen;
               usCRC16 = usMBCRC16 (map buf [0..<n])
           in (True, r\<lparr>ucRTUBuf := buf(n := ucast (usCRC16 AND 0xFF), n + 1 := ucast (drop_bit 8 usCRC16)),
                 pucSndBufferCur := 0, usSndBufferCount := n + 2, eSndState := STATE_TX_XMIT\<rparr>)
      else (False, r))"

definition xMBRTUTransmitFSM :: "rtu_st \<Rightarrow> rtu_st" where
  "xMBRTUTransmitFSM r =
     (case eSndState r of
        STATE_TX_IDLE \<Rightarrow> r
      | STATE_TX_XMIT \<Rightarrow>
          if usSndBufferCount r \<noteq> 0
          then r\<lparr>line := line r @ [ucRTUBuf r (pucSndBufferCur r)],
                 pucSndBufferCur := pucSndBufferCur r + 1, usSndBufferCount := usSndBufferCount r - 1\<rparr>
          else r\<lparr>mb_events := mb_events r @ [EV_FRAME_SENT], eSndState := STATE_TX_IDLE\<rparr>)"

section \<open>Sending and receiving\<close>

lemma crc_appended:
  "usMBCRC16 (bs @ [ucast (usMBCRC16 bs AND 0xFF), ucast (drop_bit 8 (usMBCRC16 bs))]) = 0"
  by (simp add: table_crc crc16_def rcrc_bytes_append) (simp add: rcrc_bytes_def crc16_residue)

lemma receive_bytes:
  assumes "eRcvState r = STATE_RX_RCV" "usRcvBufferPos r + length bs \<le> 256"
  shows "fold xMBRTUReceiveFSM bs r =
    r\<lparr>ucRTUBuf := (\<lambda>i. if usRcvBufferPos r \<le> i \<and> i < usRcvBufferPos r + length bs
         then bs ! (i - usRcvBufferPos r) else ucRTUBuf r i),
      usRcvBufferPos := usRcvBufferPos r + length bs, t35 := (bs \<noteq> [] \<or> t35 r)\<rparr>"
  using assms
proof (induction bs arbitrary: r)
  case (Cons b bs)
  let ?r = "xMBRTUReceiveFSM b r"
  have r: "?r = r\<lparr>ucRTUBuf := (ucRTUBuf r)(usRcvBufferPos r := b),
      usRcvBufferPos := usRcvBufferPos r + 1, t35 := True\<rparr>"
    using Cons.prems by (simp add: xMBRTUReceiveFSM_def MB_SER_PDU_SIZE_MAX_def)
  have "fold xMBRTUReceiveFSM bs ?r = ?r\<lparr>ucRTUBuf := (\<lambda>i. if usRcvBufferPos ?r \<le> i \<and> i < usRcvBufferPos ?r + length bs
         then bs ! (i - usRcvBufferPos ?r) else ucRTUBuf ?r i),
      usRcvBufferPos := usRcvBufferPos ?r + length bs, t35 := (bs \<noteq> [] \<or> t35 ?r)\<rparr>"
    using Cons.prems by (intro Cons.IH) (simp_all add: r)
  then show ?case by (auto simp: r fun_eq_iff nth_Cons' intro!: rtu_st.equality)
qed (auto simp: fun_eq_iff intro!: rtu_st.equality)

text \<open>
  A frame of at most 256 bytes that arrives in the idle state is captured byte for byte, and at the
  end of the pause the stack is told; the receiver is idle again.
\<close>

lemma captured:
  assumes "eRcvState r = STATE_RX_IDLE" "bs \<noteq> []" "length bs \<le> 256"
  defines "r' \<equiv> xMBRTUTimerT35Expired (fold xMBRTUReceiveFSM bs r)"
  shows "map (ucRTUBuf r') [0..<length bs] = bs" "usRcvBufferPos r' = length bs"
    "mb_events r' = mb_events r @ [EV_FRAME_RECEIVED]" "eRcvState r' = STATE_RX_IDLE"
proof -
  obtain b cs where bs: "bs = b # cs" using assms(2) by (cases bs) auto
  define r1 where "r1 = xMBRTUReceiveFSM b r"
  have r1: "ucRTUBuf r1 = (ucRTUBuf r)(0 := b)" "usRcvBufferPos r1 = 1" "eRcvState r1 = STATE_RX_RCV"
    "mb_events r1 = mb_events r"
    using assms(1) by (simp_all add: r1_def xMBRTUReceiveFSM_def)
  have f: "fold xMBRTUReceiveFSM bs r = r1\<lparr>ucRTUBuf := (\<lambda>i. if usRcvBufferPos r1 \<le> i \<and> i < usRcvBufferPos r1 + length cs
         then cs ! (i - usRcvBufferPos r1) else ucRTUBuf r1 i),
      usRcvBufferPos := usRcvBufferPos r1 + length cs, t35 := (cs \<noteq> [] \<or> t35 r1)\<rparr>"
  proof -
    have "fold xMBRTUReceiveFSM bs r = fold xMBRTUReceiveFSM cs r1" by (simp add: bs r1_def)
    moreover have "usRcvBufferPos r1 + length cs \<le> 256" using assms(3) r1(2) by (simp add: bs)
    ultimately show ?thesis using receive_bytes [OF r1(3), of cs] by (simp only:)
  qed
  have r': "r' = (fold xMBRTUReceiveFSM bs r)\<lparr>mb_events := mb_events r @ [EV_FRAME_RECEIVED], t35 := False,
      eRcvState := STATE_RX_IDLE\<rparr>"
    unfolding r'_def xMBRTUTimerT35Expired_def f by (simp add: Let_def r1(3,4))
  have buf: "ucRTUBuf r' = (\<lambda>i. if 1 \<le> i \<and> i < 1 + length cs then cs ! (i - 1) else ucRTUBuf r1 i)"
    unfolding r' f r1(2) by simp
  have at: "ucRTUBuf r' i = bs ! i" if "i < length bs" for i
    using that by (cases i) (simp_all add: buf r1(1) bs)
  show "map (ucRTUBuf r') [0..<length bs] = bs" by (rule nth_equalityI) (simp_all add: at)
  show "usRcvBufferPos r' = length bs" "mb_events r' = mb_events r @ [EV_FRAME_RECEIVED]"
    "eRcvState r' = STATE_RX_IDLE"
    unfolding r' f r1(2) by (simp_all add: bs)
qed

datatype bus_input = Byte byte | Pause

fun rtu_input :: "bus_input \<Rightarrow> rtu_st \<Rightarrow> rtu_st" where
  "rtu_input (Byte b) r = xMBRTUReceiveFSM b r"
| "rtu_input Pause r = xMBRTUTimerT35Expired r"

lemma rtu_input_bounds:
  "usRcvBufferPos r \<le> 256 \<Longrightarrow> usRcvBufferPos (rtu_input x r) \<le> 256 \<and>
     (\<forall>i \<ge> 256. ucRTUBuf (rtu_input x r) i = ucRTUBuf r i)"
  by (cases x) (auto simp: xMBRTUReceiveFSM_def xMBRTUTimerT35Expired_def MB_SER_PDU_SIZE_MAX_def Let_def
      split: eMBRcvState.split)

lemma rtu_inputs_bounds:
  "usRcvBufferPos r \<le> 256 \<Longrightarrow> usRcvBufferPos (fold rtu_input xs r) \<le> 256 \<and>
     (\<forall>i \<ge> 256. ucRTUBuf (fold rtu_input xs r) i = ucRTUBuf r i)"
proof (induction xs arbitrary: r)
  case (Cons x xs)
  with rtu_input_bounds [OF Cons.prems, of x] Cons.IH [of "rtu_input x r"] show ?case by simp
qed simp

lemma error_stays:
  "eRcvState r = STATE_RX_ERROR \<Longrightarrow> eRcvState (fold xMBRTUReceiveFSM bs r) = STATE_RX_ERROR \<and>
     mb_events (fold xMBRTUReceiveFSM bs r) = mb_events r"
  by (induction bs arbitrary: r) (simp_all add: xMBRTUReceiveFSM_def)

text \<open>An idle port.\<close>

definition idle_port :: rtu_st where
  "idle_port = \<lparr>eRcvState = STATE_RX_IDLE, eSndState = STATE_TX_IDLE, ucRTUBuf = \<lambda>_. 0, pucSndBufferCur = 0,
     usSndBufferCount = 0, usRcvBufferPos = 0, t35 = False, mb_events = [], line = [], ucRcvAddress = 0, usLength = 0\<rparr>"

text \<open>
  C34. The receiver never writes outside its buffer of 256 bytes: after any sequence of received bytes and
  pauses, in any state, the position is at most 256 and no byte behind the buffer has changed. A frame
  that is too long is dropped as a whole: the pause after it posts nothing.
\<close>

theorem rtu_receiver_in_bounds:
  assumes "usRcvBufferPos r \<le> 256"
  shows "usRcvBufferPos (fold rtu_input xs r) \<le> 256 \<and>
    (\<forall>i \<ge> 256. ucRTUBuf (fold rtu_input xs r) i = ucRTUBuf r i) \<and>
    (eRcvState r = STATE_RX_IDLE \<and> 256 < length bs \<longrightarrow>
       mb_events (xMBRTUTimerT35Expired (fold xMBRTUReceiveFSM bs r)) = mb_events r)"
proof -
  have "mb_events (xMBRTUTimerT35Expired (fold xMBRTUReceiveFSM bs r)) = mb_events r"
    if idle: "eRcvState r = STATE_RX_IDLE" and long: "256 < length bs"
  proof -
    define cs where "cs = take 255 (tl bs)"
    define r1 where "r1 = xMBRTUReceiveFSM (hd bs) r"
    have bs: "bs = hd bs # cs @ bs ! 256 # drop 257 bs"
    proof -
      obtain b t where bt: "bs = b # t" "255 < length t" using long by (cases bs) auto
      then show ?thesis using id_take_nth_drop [of 255 t] by (simp add: cs_def)
    qed
    have r1: "eRcvState r1 = STATE_RX_RCV" "usRcvBufferPos r1 = 1" "mb_events r1 = mb_events r"
      using idle by (simp_all add: r1_def xMBRTUReceiveFSM_def)
    have len: "length cs = 255" using long by (simp add: cs_def)
    define r2 where "r2 = fold xMBRTUReceiveFSM cs r1"
    have r2: "eRcvState r2 = STATE_RX_RCV" "usRcvBufferPos r2 = 256" "mb_events r2 = mb_events r"
      unfolding r2_def using receive_bytes [OF r1(1), of cs] r1 len by simp_all
    define r3 where "r3 = xMBRTUReceiveFSM (bs ! 256) r2"
    have r3: "eRcvState r3 = STATE_RX_ERROR" "mb_events r3 = mb_events r"
      using r2 by (simp_all add: r3_def xMBRTUReceiveFSM_def MB_SER_PDU_SIZE_MAX_def)
    have "fold xMBRTUReceiveFSM bs r = fold xMBRTUReceiveFSM (drop 257 bs) r3"
      by (subst bs) (simp add: r1_def r2_def r3_def)
    with error_stays [OF r3(1), of "drop 257 bs"] r3(2) show ?thesis
      by (simp add: xMBRTUTimerT35Expired_def Let_def)
  qed
  with rtu_inputs_bounds [OF assms, of xs] show ?thesis by blast
qed

lemma rtu_receiver_in_bounds_witness:
  "usRcvBufferPos (fold rtu_input [Byte 1, Byte 2, Pause, Byte 3] idle_port) \<le> 256"
  using rtu_receiver_in_bounds [of idle_port "[Byte 1, Byte 2, Pause, Byte 3]" "[]"]
  by (simp add: idle_port_def del: fold.simps)

lemma sent_frame:
  fixes r :: rtu_st and a :: byte and n :: nat
  assumes "eRcvState r = STATE_RX_IDLE"
  defines "r' \<equiv> snd (eMBRTUSend a n r)"
  shows "eSndState r' = STATE_TX_XMIT" "pucSndBufferCur r' = 0" "usSndBufferCount r' = n + 3" "line r' = line r"
    "map (ucRTUBuf r') [0..<n + 1] = a # map (\<lambda>i. ucRTUBuf r (i + 1)) [0..<n]"
    "usMBCRC16 (map (ucRTUBuf r') [0..<n + 3]) = 0"
proof -
  let ?buf = "(ucRTUBuf r)(0 := a)"
  define crc where "crc = usMBCRC16 (map ?buf [0..<1 + n])"
  have buf: "ucRTUBuf r' = ?buf(1 + n := ucast (crc AND 0xFF), 2 + n := ucast (drop_bit 8 crc))"
    using assms(1) by (simp add: r'_def eMBRTUSend_def Let_def crc_def del: upt_Suc)
  show "eSndState r' = STATE_TX_XMIT" "pucSndBufferCur r' = 0" "usSndBufferCount r' = n + 3" "line r' = line r"
    using assms(1) by (simp_all add: r'_def eMBRTUSend_def Let_def del: upt_Suc)
  have head: "map (ucRTUBuf r') [0..<1 + n] = map ?buf [0..<1 + n]" by (simp add: buf del: upt_Suc)
  also have "\<dots> = a # map (\<lambda>i. ucRTUBuf r (i + 1)) [0..<n]"
    by (rule nth_equalityI) (auto simp: nth_Cons' simp del: upt_Suc)
  finally show "map (ucRTUBuf r') [0..<n + 1] = a # map (\<lambda>i. ucRTUBuf r (i + 1)) [0..<n]" by (simp only: add.commute)
  have "[0..<1 + n + 2] = [0..<1 + n] @ [1 + n..<1 + n + 2]" by (rule upt_add_eq_append) simp
  also have "[1 + n..<1 + n + 2] = [1 + n, 2 + n]" by (simp add: upt_conv_Cons)
  also have "1 + n + 2 = n + 3" by simp
  finally have upt: "[0..<n + 3] = [0..<1 + n] @ [1 + n, 2 + n]" .
  have "map (ucRTUBuf r') [0..<n + 3] = map ?buf [0..<1 + n] @ [ucast (crc AND 0xFF), ucast (drop_bit 8 crc)]"
    unfolding upt map_append head by (simp add: buf del: upt_Suc)
  then show "usMBCRC16 (map (ucRTUBuf r') [0..<n + 3]) = 0" unfolding crc_def by (simp only: crc_appended)
qed

lemma transmit_all:
  assumes "eSndState r = STATE_TX_XMIT" "n \<le> usSndBufferCount r"
  shows "(xMBRTUTransmitFSM ^^ n) r = r\<lparr>line := line r @ map (ucRTUBuf r) [pucSndBufferCur r..<pucSndBufferCur r + n],
    pucSndBufferCur := pucSndBufferCur r + n, usSndBufferCount := usSndBufferCount r - n\<rparr>"
  using assms by (induction n) (auto simp: xMBRTUTransmitFSM_def)

text \<open>
  A reply goes out as address, PDU and check sum, and whatever the PDU is, a receiver of the same
  kind captures and accepts it with the same address, length and content.
\<close>

theorem rtu_reply_roundtrip:
  fixes r q :: rtu_st
  assumes "eRcvState r = STATE_RX_IDLE" "eRcvState q = STATE_RX_IDLE" "1 \<le> n" "n \<le> 253"
  shows "let sent = (xMBRTUTransmitFSM ^^ (n + 3)) (snd (eMBRTUSend a n (r\<lparr>line := []\<rparr>)));
             got = xMBRTUTimerT35Expired (fold xMBRTUReceiveFSM (line sent) q)
    in fst (eMBRTUSend a n r) \<and> length (line sent) = n + 3 \<and> usSndBufferCount sent = 0 \<and>
       eMBRTUReceive got = Some (a, n) \<and> (\<forall>i < n. ucRTUBuf got (Suc i) = ucRTUBuf r (Suc i))"
proof -
  let ?r = "r\<lparr>line := []\<rparr>"
  define r1 where "r1 = snd (eMBRTUSend a n ?r)"
  let ?bs = "map (ucRTUBuf r1) [0..<n + 3]"
  have idle: "eRcvState ?r = STATE_RX_IDLE" using assms(1) by simp
  note r1 = sent_frame [OF idle, of a n, folded r1_def]
  define sent where "sent = (xMBRTUTransmitFSM ^^ (n + 3)) r1"
  have sent: "line sent = ?bs" "usSndBufferCount sent = 0"
    using transmit_all [OF r1(1), of "n + 3"] r1(2-4) by (simp_all add: sent_def del: upt_Suc)
  have len: "length ?bs = n + 3" by simp
  define got where "got = xMBRTUTimerT35Expired (fold xMBRTUReceiveFSM ?bs q)"
  have got: "map (ucRTUBuf got) [0..<n + 3] = ?bs" "usRcvBufferPos got = n + 3"
    using captured [OF assms(2), of ?bs] assms(4) unfolding len got_def by simp_all
  have at: "ucRTUBuf got i = (if i = 0 then a else ucRTUBuf r i)" if "i < n + 1" for i
  proof -
    have "ucRTUBuf got i = ucRTUBuf r1 i"
      using arg_cong [where f = "\<lambda>l. l ! i", OF got(1)] that by (simp del: upt_Suc)
    also have "\<dots> = map (ucRTUBuf r1) [0..<n + 1] ! i" using that by (simp del: upt_Suc)
    finally show ?thesis unfolding r1(5) using that by (auto simp: nth_Cons')
  qed
  have rcv: "eMBRTUReceive got = Some (a, n)"
    unfolding eMBRTUReceive_def got using assms(3) at [of 0] r1(6) by (simp add: MB_SER_PDU_SIZE_MIN_def)
  have "fst (eMBRTUSend a n r)" using assms(1) by (simp add: eMBRTUSend_def Let_def)
  moreover have "\<forall>i < n. ucRTUBuf got (Suc i) = ucRTUBuf r (Suc i)" using at by simp
  ultimately show ?thesis
    unfolding Let_def r1_def [symmetric] sent_def [symmetric] sent got_def [symmetric]
    using rcv sent(2) by simp
qed

lemma rtu_reply_roundtrip_witness:
  "eMBRTUReceive (xMBRTUTimerT35Expired (fold xMBRTUReceiveFSM (line ((xMBRTUTransmitFSM ^^ 5)
     (snd (eMBRTUSend 1 2 (idle_port\<lparr>line := []\<rparr>))))) idle_port)) = Some (1, 2)"
  using rtu_reply_roundtrip [of idle_port idle_port 2 1] by (simp add: idle_port_def Let_def)

end
