(* ===== verification/Main_State.thy ===== *)
theory Main_State
  imports Led Device_Table Radio_Encoder Button Modbus_Rtu
begin

text \<open>
  The state of the whole unit: one record per component, with the names of the C
  variables as fields, and what the components share (pins, timers, lamps, table of
  devices, transmitter). A function of the application that touches several of them is a
  function on \<open>sys\<close>; the lamp and transmitter operations are lifted where they are used.
\<close>

section \<open>Pins\<close>

text \<open>The pins of \<open>pin_config.h\<close> the application reads or writes.\<close>

datatype pin =
    MOTO_LEFT_FULLY_OPEN_PIN | MOTO_LEFT_FULLY_CLOSE_PIN | MOTO_LEFT_CONTROL_PIN
  | MOTO_RIGHT_FULLY_OPEN_PIN | MOTO_RIGHT_FULLY_CLOSE_PIN | MOTO_RIGHT_CONTROL_PIN
  | KEY_ON_PIN | KEY_OFF_PIN
  | DRY_CONTACT_VALVE_INPUT_PIN | DRY_CONTACT_VALVE_STATUS_PIN | DRY_CONTACT_LEAK_ALARM_PIN
  | DRY_CONTACT_TECH_ALARM_PIN | DRY_CONTACT_SPARE_PIN

abbreviation (input) PIN_HIGH :: bool where "PIN_HIGH \<equiv> True"
abbreviation (input) PIN_LOW :: bool where "PIN_LOW \<equiv> False"

section \<open>Warnings and the valve\<close>

text \<open>\<open>enum Device_Status\<close>.\<close>

datatype device_status =
    ValveClose | ValveOpen | LearnDevice | ValveLeftFail | ValveRightFail | SlaverLowPower
  | SlaverUltraLowPower | SlaverSensorLeak | SlaverSensorLost | SlaverOffline
  | MasterSensorLost | MasterSensorLeak | MasterSensorAbnormal | MasterLowTemp

definition status_code :: "device_status \<Rightarrow> byte" where
  "status_code s =
     (case s of ValveClose \<Rightarrow> 0 | ValveOpen \<Rightarrow> 1 | LearnDevice \<Rightarrow> 2 | ValveLeftFail \<Rightarrow> 3
      | ValveRightFail \<Rightarrow> 4 | SlaverLowPower \<Rightarrow> 5 | SlaverUltraLowPower \<Rightarrow> 6
      | SlaverSensorLeak \<Rightarrow> 7 | SlaverSensorLost \<Rightarrow> 8 | SlaverOffline \<Rightarrow> 9
      | MasterSensorLost \<Rightarrow> 10 | MasterSensorLeak \<Rightarrow> 11 | MasterSensorAbnormal \<Rightarrow> 12
      | MasterLowTemp \<Rightarrow> 13)"

text \<open>The two values of \<open>valve_status\<close>.\<close>

datatype valve_position = VALVE_STATUS_CLOSE | VALVE_STATUS_OPEN

definition position_code :: "valve_position \<Rightarrow> byte" where
  "position_code p = (case p of VALVE_STATUS_CLOSE \<Rightarrow> 0 | VALVE_STATUS_OPEN \<Rightarrow> 1)"

text \<open>\<open>DeviceStatus = get_valve_status()\<close>: the two codes are those of the enumeration.\<close>

definition position_status :: "valve_position \<Rightarrow> device_status" where
  "position_status p = (case p of VALVE_STATUS_CLOSE \<Rightarrow> ValveClose | VALVE_STATUS_OPEN \<Rightarrow> ValveOpen)"

lemma position_status_code: "status_code (position_status p) = position_code p"
  by (cases p) (simp_all add: status_code_def position_status_def position_code_def)

text \<open>
  The \<open>static\<close> and global variables of \<open>valve_work.c\<close>; the three flags are 0 or 1 in the
  code. The arrays of two are split in left (0) and right (1).
\<close>

record valve_st =
  valve_status :: valve_position
  lock_status :: byte
  valve_valid :: bool
  valve_left_check_result :: bool
  valve_right_check_result :: bool
  mb_valve_control_left :: byte
  mb_valve_control_right :: byte
  mb_valve_check_left :: byte
  mb_valve_check_right :: byte

text \<open>The function a \<open>WariningEvent\<close> points to.\<close>

datatype warning_callback =
    ValveLeftFailEventCallback | ValveRightFailEventCallback | SlaverLowPowerEventCallback
  | SlaverUltraLowPowerEventCallback | SlaverSensorLeakEventCallback
  | SlaverSensorLostEventCallback | SlaverOfflineEventCallback
  | MasterSensorLostEventCallback | MasterSensorLeakEventCallback | MasterLowTempEventCallback

record WariningEvent =
  last_id :: byte
  warning_id :: byte
  priority :: byte
  callback :: "warning_callback option"

record warn_st =
  allow_add_device :: byte
  DeviceStatus :: device_status
  NowEvent :: WariningEvent

section \<open>The other components\<close>

text \<open>Where \<open>heart_thread_entry\<close> goes on after its next delay.\<close>

datatype heart_pc = heart_boot | heart_connect | heart_loop | heart_send

record heart_st =
  gateway_heart_retry :: byte
  before_wait_time :: u32
  after_wait_time :: u32
  heart_pc :: heart_pc

text \<open>The button pointers are \<open>None\<close> until \<open>button_init\<close>.\<close>

record key_st =
  key_on_btn :: "agile_btn option"
  key_off_btn :: "agile_btn option"
  key_on_count :: byte
  key_off_count :: byte
  key_on_off_flag :: bool
  key_on_long_click :: bool
  key_off_long_click :: bool

record dry_st =
  dry_contact_valve_input_level :: int
  dry_contact_input_state :: "byte list"
  dry_contact_output_state :: "byte list"

record rtc_st =
  valve_hours :: byte
  rtc_hours :: byte

text \<open>
  \<open>dl_part\<close> is whether the pointer is set. The download partition itself: its length
  (\<open>None\<close>: not in the partition table), its bytes, and whether the flash driver succeeds.
\<close>

record ota_st =
  update_file_total_size :: u32
  update_file_cur_size :: u32
  dl_part :: bool
  part_len :: "u32 option"
  part_data :: mem
  flash_ok :: bool

record factory_st =
  factory_controller_recv_rssi :: int
  factory_controller_recv_snr :: int
  factory_gateway_recv_rssi :: int
  factory_gateway_recv_snr :: int

record mb_st =
  rtu :: rtu_st
  ucSDiscInBuf :: "byte list"
  ucSCoilBuf :: "byte list"
  usSRegInBuf :: "u16 list"
  usSRegHoldBuf :: "u16 list"

text \<open>\<open>cpu_reset\<close>: the code has called \<open>rt_hw_cpu_reset\<close>; nothing runs after that.\<close>

record sys =
  pin_in :: "pin \<Rightarrow> bool"
  pin_out :: "pin \<Rightarrow> bool"
  timer :: timers
  leds :: led_bank
  store :: storage
  radio :: radio_st
  valve :: valve_st
  warn :: warn_st
  heart :: heart_st
  keys :: key_st
  dry :: dry_st
  rtc :: rtc_st
  ota :: ota_st
  factory :: factory_st
  mb :: mb_st
  cpu_reset :: bool

definition rt_pin_write :: "pin \<Rightarrow> bool \<Rightarrow> sys \<Rightarrow> sys" where
  "rt_pin_write p v s = s\<lparr>pin_out := (pin_out s)(p := v)\<rparr>"

definition rt_pin_read :: "pin \<Rightarrow> sys \<Rightarrow> bool" where
  "rt_pin_read p s = pin_in s p"

abbreviation lamps :: "(led_bank \<Rightarrow> led_bank) \<Rightarrow> sys \<Rightarrow> sys" where
  "lamps f s \<equiv> s\<lparr>leds := f (leds s)\<rparr>"

abbreviation timer_start :: "timer_id \<Rightarrow> sys \<Rightarrow> sys" where
  "timer_start t s \<equiv> s\<lparr>timer := rt_timer_start t (timer s)\<rparr>"

abbreviation timer_stop :: "timer_id \<Rightarrow> sys \<Rightarrow> sys" where
  "timer_stop t s \<equiv> s\<lparr>timer := rt_timer_stop t (timer s)\<rparr>"

abbreviation status :: "sys \<Rightarrow> device_status" where
  "status s \<equiv> DeviceStatus (warn s)"

definition set_status :: "device_status \<Rightarrow> sys \<Rightarrow> sys" where
  "set_status d s = s\<lparr>warn := (warn s)\<lparr>DeviceStatus := d\<rparr>\<rparr>"

definition warning_status_get :: "sys \<Rightarrow> device_status" where
  "warning_status_get s = status s"

definition get_valve_status :: "sys \<Rightarrow> valve_position" where
  "get_valve_status s = valve_status (valve s)"

definition get_valve_lock :: "sys \<Rightarrow> byte" where
  "get_valve_lock s = lock_status (valve s)"

text \<open>The guard \<open>ValveClose || ValveOpen || SlaverSensorLost\<close> of most handlers.\<close>

definition idle :: "sys \<Rightarrow> bool" where
  "idle s \<longleftrightarrow> status s = ValveClose \<or> status s = ValveOpen \<or> status s = SlaverSensorLost"

definition fw_main_ver :: byte where "fw_main_ver = 0x00"
definition fw_sub_ver :: byte where "fw_sub_ver = 0x04"

section \<open>A unit fresh from the factory\<close>

text \<open>
  All variables have their initial values, flash and download partition are empty. It is the source of the values in
  \<open>ram_reset\<close> and the concrete state the witnesses start from. Its \<open>heap_ok\<close> is \<open>True\<close>: memory can be allocated.
\<close>

definition new_unit :: sys where
  "new_unit =
     \<lparr>pin_in = \<lambda>_. False, pin_out = \<lambda>_. False, timer = \<lambda>_. no_timer,
      leds = \<lparr>lamp = \<lambda>_. led_internal_zero, first_handle = [], Pixel_Buf = \<lambda>_ _. 0,
               beep_level = False, led_valve_on_pause_flag = False\<rparr>,
      store = \<lparr>total_slot = 0, device_list = [], ef_env = Map.empty, heap_ok = True\<rparr>,
      radio = \<lparr>lora_tx_buf = \<lambda>_. 0, rf_en_mq = [], local_address = 0, rf_ack_sem = False,
                rf_txdone_sem = False, csma_pause = 0, cad_detected = 0, channel = 0,
                listening = False, air = []\<rparr>,
      valve = \<lparr>valve_status = VALVE_STATUS_CLOSE, lock_status = 0, valve_valid = True,
                valve_left_check_result = False, valve_right_check_result = False,
                mb_valve_control_left = 0, mb_valve_control_right = 0,
                mb_valve_check_left = 0, mb_valve_check_right = 0\<rparr>,
      warn = \<lparr>allow_add_device = 0, DeviceStatus = ValveClose,
               NowEvent = \<lparr>last_id = 0, warning_id = 0, priority = 0, callback = None\<rparr>\<rparr>,
      heart = \<lparr>gateway_heart_retry = 0, before_wait_time = 0, after_wait_time = 0,
                heart_pc = heart_boot\<rparr>,
      keys = \<lparr>key_on_btn = None, key_off_btn = None, key_on_count = 0, key_off_count = 0, key_on_off_flag = False,
               key_on_long_click = False, key_off_long_click = False\<rparr>,
      dry = \<lparr>dry_contact_valve_input_level = -1, dry_contact_input_state = replicate 8 0,
              dry_contact_output_state = replicate 8 0\<rparr>,
      rtc = \<lparr>valve_hours = 0, rtc_hours = 0\<rparr>,
      ota = \<lparr>update_file_total_size = 0, update_file_cur_size = 0, dl_part = False,
              part_len = Some 0x80000, part_data = \<lambda>_. 0xFF, flash_ok = True\<rparr>,
      factory = \<lparr>factory_controller_recv_rssi = 0, factory_controller_recv_snr = 0,
                  factory_gateway_recv_rssi = 0, factory_gateway_recv_snr = 0\<rparr>,
      mb = \<lparr>rtu = \<lparr>eRcvState = STATE_RX_INIT, eSndState = STATE_TX_IDLE, ucRTUBuf = \<lambda>_. 0,
               pucSndBufferCur = 0, usSndBufferCount = 0, usRcvBufferPos = 0, t35 = False, mb_events = [],
               line = [], ucRcvAddress = 0, usLength = 0\<rparr>,
             ucSDiscInBuf = replicate 8 0, ucSCoilBuf = replicate 4 0,
             usSRegInBuf = replicate 32 0, usSRegHoldBuf = replicate 32 0\<rparr>,
      cpu_reset = False\<rparr>"

lemma new_unit_simps [simp]:
  "status new_unit = ValveClose" "priority (NowEvent (warn new_unit)) = 0"
  "callback (NowEvent (warn new_unit)) = None" "valve_status (valve new_unit) = VALVE_STATUS_CLOSE"
  "valve_valid (valve new_unit) = True" "lock_status (valve new_unit) = 0"
  "device_list (store new_unit) = []" "total_slot (store new_unit) = 0"
  "ef_env (store new_unit) = Map.empty" "heap_ok (store new_unit) = True"
  "rf_en_mq (radio new_unit) = []" "cpu_reset new_unit = False"
  "part_len (ota new_unit) = Some 0x80000" "flash_ok (ota new_unit) = True"
  "update_file_cur_size (ota new_unit) = 0"
  by (simp_all add: new_unit_def)

section \<open>Operations that only indicate and send\<close>

text \<open>
  Reporting to the gateway, beeping and lighting lamps change the lamps and the
  transmitter and nothing else. The reports are instances of this contract, and with it
  each of them gives the facts below to the simplifier.
\<close>

locale report =
  fixes op :: "sys \<Rightarrow> sys"
  assumes only: "op s = s\<lparr>leds := leds (op s), radio := radio (op s)\<rparr>"
begin

lemma frames [simp]:
  "pin_in (op s) = pin_in s" "pin_out (op s) = pin_out s" "timer (op s) = timer s"
  "store (op s) = store s" "valve (op s) = valve s" "warn (op s) = warn s"
  "heart (op s) = heart s" "keys (op s) = keys s" "dry (op s) = dry s" "rtc (op s) = rtc s"
  "ota (op s) = ota s" "factory (op s) = factory s" "mb (op s) = mb s"
  "cpu_reset (op s) = cpu_reset s"
  by (subst only, simp)+

lemma reads [simp]:
  "warning_status_get (op s) = warning_status_get s" "get_valve_status (op s) = get_valve_status s"
  "get_valve_lock (op s) = get_valve_lock s" "idle (op s) = idle s"
  by (simp_all add: warning_status_get_def get_valve_status_def get_valve_lock_def idle_def)

end

text \<open>
  A report whose queueing also respects the transmitter's invariant; the address of the
  unit is fixed.
\<close>

locale sending_report = report +
  assumes sends: "radio_ok (radio s) \<Longrightarrow> radio_ok (radio (op s))"
    and address: "local_address (radio (op s)) = local_address (radio s)"
begin

lemma sends_keep [keep]: "radio_ok (radio s) \<Longrightarrow> radio_ok (radio (op s))"
  by (rule sends)

lemma address_simp [simp]: "local_address (radio (op s)) = local_address (radio s)"
  by (rule address)

end

end
