(* ===== verification/Gateway_Api.thy ===== *)
theory Gateway_Api
  imports Main_State
begin

text \<open>
  The reports to the gateway (\<open>applications/gateway_api.c\<close>) and the sender they all use
  (\<open>radio_gateway_command_send\<close>). Every report fills a local buffer and a frame header;
  \<open>gateway_report\<close> is that header. Only the first \<open>tx_len\<close> bytes of the buffer are ever
  read, so \<open>tx_data\<close> lists exactly those.
\<close>

definition radio_gateway_command_send :: "tx_format \<Rightarrow> sys \<Rightarrow> sys" where
  "radio_gateway_command_send tx s =
     (if dest_addr tx = 0 then s
      else s\<lparr>leds := wifi_communication_blink (leds s), radio := command_send 0 tx (radio s)\<rparr>)"

definition gateway_report :: "byte \<Rightarrow> byte \<Rightarrow> u32 \<Rightarrow> byte \<Rightarrow> byte list \<Rightarrow> sys \<Rightarrow> sys" where
  "gateway_report a ty dest cmd bytes s =
     radio_gateway_command_send
       (tx_zero\<lparr>msg_ack := a, tx_msg_type := ty, dest_addr := dest,
         source_addr := local_address (radio s), tx_command := cmd, tx_data := bytes,
         tx_len := length bytes\<rparr>) s"

section \<open>The reports\<close>

definition gateway_warning_master_leak :: "byte \<Rightarrow> sys \<Rightarrow> sys" where
  "gateway_warning_master_leak v s =
     gateway_report 1 MSG_CONFIRMED_UPLINK (aq_gateway_find (store s)) WARNING_UPLOAD_CMD
      [1, v] s"

definition gateway_warning_master_lost :: "byte \<Rightarrow> sys \<Rightarrow> sys" where
  "gateway_warning_master_lost v s =
     gateway_report 1 MSG_CONFIRMED_UPLINK (aq_gateway_find (store s)) WARNING_UPLOAD_CMD
      [2, v] s"

definition gateway_warning_master_valve_check :: "byte \<Rightarrow> sys \<Rightarrow> sys" where
  "gateway_warning_master_valve_check v s =
     gateway_report 1 MSG_CONFIRMED_UPLINK (aq_gateway_find (store s)) WARNING_UPLOAD_CMD
      [3, v] s"

definition gateway_warning_master_low_temp :: "byte \<Rightarrow> sys \<Rightarrow> sys" where
  "gateway_warning_master_low_temp v s =
     gateway_report 1 MSG_CONFIRMED_UPLINK (aq_gateway_find (store s)) WARNING_UPLOAD_CMD
      [4, v] s"

text \<open>The buffer of 255 bytes comes from \<open>rt_malloc\<close>; without it nothing is sent.\<close>

definition gateway_warning_slaver_offline :: "sys \<Rightarrow> sys" where
  "gateway_warning_slaver_offline s =
     (if \<not> heap_ok (store s) then s
      else let (bytes, n) = aq_device_offline_upload (store s) in
        radio_gateway_command_send
          (tx_zero\<lparr>msg_ack := 1, tx_msg_type := MSG_CONFIRMED_UPLINK,
            dest_addr := aq_gateway_find (store s), source_addr := local_address (radio s),
            tx_command := WARNING_UPLOAD_CMD, tx_data := [5, n] @ bytes,
            tx_len := unat n * 4 + 2\<rparr>) s)"

definition gateway_warning_endunit_heart :: "u32 \<Rightarrow> byte \<Rightarrow> byte \<Rightarrow> byte \<Rightarrow> sys \<Rightarrow> sys" where
  "gateway_warning_endunit_heart slaver_addr battery_level warn_status rssi s =
     gateway_report 1 MSG_CONFIRMED_UPLINK (aq_gateway_find (store s)) WARNING_UPLOAD_CMD
      ([6] @ split32 slaver_addr @ [battery_level, warn_status, rssi]) s"

definition gateway_warning_slaver_leak :: "u32 \<Rightarrow> byte \<Rightarrow> byte \<Rightarrow> sys \<Rightarrow> sys" where
  "gateway_warning_slaver_leak slaver_addr leak_level rssi s =
     gateway_report 1 MSG_CONFIRMED_UPLINK (aq_gateway_find (store s)) WARNING_UPLOAD_CMD
      ([7] @ split32 slaver_addr @ [leak_level, rssi]) s"

definition gateway_warning_slaver_lost :: "u32 \<Rightarrow> byte \<Rightarrow> byte \<Rightarrow> sys \<Rightarrow> sys" where
  "gateway_warning_slaver_lost slaver_addr lost_level rssi s =
     gateway_report 1 MSG_CONFIRMED_UPLINK (aq_gateway_find (store s)) WARNING_UPLOAD_CMD
      ([8] @ split32 slaver_addr @ [lost_level, rssi]) s"

definition gateway_control_master_control :: "byte \<Rightarrow> sys \<Rightarrow> sys" where
  "gateway_control_master_control v s =
     gateway_report 0 MSG_CONFIRMED_UPLINK (aq_gateway_find (store s)) CONTROL_VALVE_CMD
      [0, v] s"

definition gateway_control_slaver_control :: "u32 \<Rightarrow> byte \<Rightarrow> byte \<Rightarrow> sys \<Rightarrow> sys" where
  "gateway_control_slaver_control device_addr v rssi s =
     gateway_report 0 MSG_CONFIRMED_UPLINK (aq_gateway_find (store s)) CONTROL_VALVE_CMD
      ([1] @ split32 device_addr @ [v, rssi]) s"

definition gateway_control_door_control :: "u32 \<Rightarrow> byte \<Rightarrow> byte \<Rightarrow> sys \<Rightarrow> sys" where
  "gateway_control_door_control device_addr v rssi s =
     gateway_report 0 MSG_CONFIRMED_UPLINK (aq_gateway_find (store s)) CONTROL_VALVE_CMD
      ([2] @ split32 device_addr @ [v, rssi]) s"

definition gateway_control_door_delay :: "u32 \<Rightarrow> byte \<Rightarrow> byte \<Rightarrow> sys \<Rightarrow> sys" where
  "gateway_control_door_delay device_addr v rssi s =
     gateway_report 0 MSG_CONFIRMED_UPLINK (aq_gateway_find (store s)) CONTROL_VALVE_CMD
      ([3] @ split32 device_addr @ [v, rssi]) s"

definition gateway_control_motion_sensor_control :: "u32 \<Rightarrow> byte \<Rightarrow> byte \<Rightarrow> byte \<Rightarrow> byte \<Rightarrow> byte \<Rightarrow> sys \<Rightarrow> sys" where
  "gateway_control_motion_sensor_control device_addr rssi v range_time_level delay_time_level human_detected s =
     gateway_report 0 MSG_CONFIRMED_UPLINK (aq_gateway_find (store s)) CONTROL_VALVE_CMD
      ([4] @ split32 device_addr @
       [v, rssi, range_time_level, delay_time_level, human_detected]) s"

definition gateway_learn_broacast_confirm :: "u32 \<Rightarrow> sys \<Rightarrow> sys" where
  "gateway_learn_broacast_confirm dst_addr s =
     gateway_report 1 MSG_UNCONFIRMED_UPLINK dst_addr LEARN_DEVICE_CMD
      [0] s"

definition gateway_learn_add_upload :: "u32 \<Rightarrow> sys \<Rightarrow> sys" where
  "gateway_learn_add_upload dst_addr s =
     gateway_report 1 MSG_UNCONFIRMED_UPLINK dst_addr LEARN_DEVICE_CMD
      [1, fw_main_ver, fw_sub_ver] s"

definition gateway_heart_upload_poweron :: "sys \<Rightarrow> sys" where
  "gateway_heart_upload_poweron s =
     gateway_report 1 MSG_UNCONFIRMED_UPLINK (aq_gateway_find (store s)) HEART_UPLOAD_CMD
      [0, status_code (warning_status_get s), position_code (get_valve_status s), fw_main_ver,
        fw_sub_ver, aq_device_slaver_count (store s)] s"

definition gateway_heart_upload_master :: "sys \<Rightarrow> sys" where
  "gateway_heart_upload_master s =
     gateway_report 1 MSG_UNCONFIRMED_UPLINK (aq_gateway_find (store s)) HEART_UPLOAD_CMD
      [1, status_code (warning_status_get s), position_code (get_valve_status s), fw_main_ver,
        fw_sub_ver] s"

definition gateway_heart_doorunit_upload :: "u32 \<Rightarrow> byte \<Rightarrow> byte \<Rightarrow> sys \<Rightarrow> sys" where
  "gateway_heart_doorunit_upload device_addr rssi bat_level s =
     gateway_report 1 MSG_UNCONFIRMED_UPLINK (aq_gateway_find (store s)) HEART_UPLOAD_CMD
      ([2] @ split32 device_addr @ [rssi, bat_level]) s"

definition gateway_heart_motion_sensor_upload :: "u32 \<Rightarrow> byte \<Rightarrow> byte \<Rightarrow> byte \<Rightarrow> byte \<Rightarrow> sys \<Rightarrow> sys" where
  "gateway_heart_motion_sensor_upload device_addr rssi range_time_level delay_time_level human_detected s =
     gateway_report 1 MSG_UNCONFIRMED_UPLINK (aq_gateway_find (store s)) HEART_UPLOAD_CMD
      ([3] @ split32 device_addr @
       [rssi, range_time_level, delay_time_level, human_detected]) s"

definition gateway_sync_device_add :: "byte \<Rightarrow> u32 \<Rightarrow> byte \<Rightarrow> sys \<Rightarrow> sys" where
  "gateway_sync_device_add device_type device_addr rssi s =
     gateway_report 1 MSG_CONFIRMED_UPLINK (aq_gateway_find (store s)) DEVICE_SYNC_CMD
      ([0] @ split32 device_addr @ [rssi, device_type]) s"

definition gateway_sync_device_del :: "u32 \<Rightarrow> sys \<Rightarrow> sys" where
  "gateway_sync_device_del device_addr s =
     gateway_report 1 MSG_CONFIRMED_UPLINK (aq_gateway_find (store s)) DEVICE_SYNC_CMD
      ([1] @ split32 device_addr) s"

definition gateway_sync_device_reset :: "sys \<Rightarrow> sys" where
  "gateway_sync_device_reset s =
     gateway_report 1 MSG_CONFIRMED_UPLINK (aq_gateway_find (store s)) DEVICE_SYNC_CMD
      [2] s"

definition gateway_sync_device_upload :: "sys \<Rightarrow> sys" where
  "gateway_sync_device_upload s =
     (if \<not> heap_ok (store s) then s
      else let (bytes, n) = aq_device_clone_upload (store s) in
        radio_gateway_command_send
          (tx_zero\<lparr>msg_ack := 1, tx_msg_type := MSG_CONFIRMED_UPLINK,
            dest_addr := aq_gateway_find (store s), source_addr := local_address (radio s),
            tx_command := DEVICE_SYNC_CMD,
            tx_data := [3, status_code (warning_status_get s), position_code (get_valve_status s), n]
              @ bytes,
            tx_len := unat n * 8 + 4\<rparr>) s)"

definition gateway_ota_resp_start :: "sys \<Rightarrow> sys" where
  "gateway_ota_resp_start s =
     gateway_report 1 MSG_UNCONFIRMED_UPLINK (aq_gateway_find (store s)) FIRMWARE_UPDATE_CMD
      [1] s"

definition gateway_ota_ack_transfer :: "sys \<Rightarrow> sys" where
  "gateway_ota_ack_transfer s =
     gateway_report 1 MSG_UNCONFIRMED_UPLINK (aq_gateway_find (store s)) FIRMWARE_UPDATE_CMD
      [2] s"

definition gateway_ota_resp_end :: "sys \<Rightarrow> sys" where
  "gateway_ota_resp_end s =
     gateway_report 1 MSG_UNCONFIRMED_UPLINK (aq_gateway_find (store s)) FIRMWARE_UPDATE_CMD
      [3] s"

section \<open>They only indicate and send\<close>

lemma gateway_command_only:
  "radio_gateway_command_send tx s =
     s\<lparr>leds := leds (radio_gateway_command_send tx s), radio := radio (radio_gateway_command_send tx s)\<rparr>"
  by (simp add: radio_gateway_command_send_def)

lemma gateway_command_radio_ok: "radio_ok (radio s) \<Longrightarrow> radio_ok (radio (radio_gateway_command_send tx s))"
  by (simp add: radio_gateway_command_send_def keep)

lemma gateway_command_address: "local_address (radio (radio_gateway_command_send tx s)) = local_address (radio s)"
  by (simp add: radio_gateway_command_send_def)

lemma gateway_report_sends: "sending_report (\<lambda>s. gateway_report a ty (dest s) cmd (bytes s) s)"
  by unfold_locales
    (simp_all only: gateway_report_def gateway_command_radio_ok gateway_command_address,
      rule gateway_command_only)

lemma gateway_warning_slaver_offline_sends: "sending_report gateway_warning_slaver_offline"
  by unfold_locales
    (auto simp: gateway_warning_slaver_offline_def case_prod_beta gateway_command_radio_ok
      gateway_command_address intro: gateway_command_only)

lemma gateway_sync_device_upload_sends: "sending_report gateway_sync_device_upload"
  by unfold_locales
    (auto simp: gateway_sync_device_upload_def case_prod_beta gateway_command_radio_ok
      gateway_command_address intro: gateway_command_only)

interpretation gw_warning_master_leak: sending_report "gateway_warning_master_leak v" for v
  unfolding gateway_warning_master_leak_def [abs_def] by (rule gateway_report_sends)
interpretation gw_warning_master_lost: sending_report "gateway_warning_master_lost v" for v
  unfolding gateway_warning_master_lost_def [abs_def] by (rule gateway_report_sends)
interpretation gw_warning_master_valve_check: sending_report "gateway_warning_master_valve_check v" for v
  unfolding gateway_warning_master_valve_check_def [abs_def] by (rule gateway_report_sends)
interpretation gw_warning_master_low_temp: sending_report "gateway_warning_master_low_temp v" for v
  unfolding gateway_warning_master_low_temp_def [abs_def] by (rule gateway_report_sends)
interpretation gw_warning_endunit_heart: sending_report "gateway_warning_endunit_heart slaver_addr battery_level warn_status rssi" for slaver_addr battery_level warn_status rssi
  unfolding gateway_warning_endunit_heart_def [abs_def] by (rule gateway_report_sends)
interpretation gw_warning_slaver_leak: sending_report "gateway_warning_slaver_leak slaver_addr leak_level rssi" for slaver_addr leak_level rssi
  unfolding gateway_warning_slaver_leak_def [abs_def] by (rule gateway_report_sends)
interpretation gw_warning_slaver_lost: sending_report "gateway_warning_slaver_lost slaver_addr lost_level rssi" for slaver_addr lost_level rssi
  unfolding gateway_warning_slaver_lost_def [abs_def] by (rule gateway_report_sends)
interpretation gw_control_master_control: sending_report "gateway_control_master_control v" for v
  unfolding gateway_control_master_control_def [abs_def] by (rule gateway_report_sends)
interpretation gw_control_slaver_control: sending_report "gateway_control_slaver_control device_addr v rssi" for device_addr v rssi
  unfolding gateway_control_slaver_control_def [abs_def] by (rule gateway_report_sends)
interpretation gw_control_door_control: sending_report "gateway_control_door_control device_addr v rssi" for device_addr v rssi
  unfolding gateway_control_door_control_def [abs_def] by (rule gateway_report_sends)
interpretation gw_control_door_delay: sending_report "gateway_control_door_delay device_addr v rssi" for device_addr v rssi
  unfolding gateway_control_door_delay_def [abs_def] by (rule gateway_report_sends)
interpretation gw_control_motion_sensor_control: sending_report "gateway_control_motion_sensor_control device_addr rssi v range_time_level delay_time_level human_detected" for device_addr rssi v range_time_level delay_time_level human_detected
  unfolding gateway_control_motion_sensor_control_def [abs_def] by (rule gateway_report_sends)
interpretation gw_learn_broacast_confirm: sending_report "gateway_learn_broacast_confirm dst_addr" for dst_addr
  unfolding gateway_learn_broacast_confirm_def [abs_def] by (rule gateway_report_sends)
interpretation gw_learn_add_upload: sending_report "gateway_learn_add_upload dst_addr" for dst_addr
  unfolding gateway_learn_add_upload_def [abs_def] by (rule gateway_report_sends)
interpretation gw_heart_upload_poweron: sending_report gateway_heart_upload_poweron
  unfolding gateway_heart_upload_poweron_def [abs_def] by (rule gateway_report_sends)
interpretation gw_heart_upload_master: sending_report gateway_heart_upload_master
  unfolding gateway_heart_upload_master_def [abs_def] by (rule gateway_report_sends)
interpretation gw_heart_doorunit_upload: sending_report "gateway_heart_doorunit_upload device_addr rssi bat_level" for device_addr rssi bat_level
  unfolding gateway_heart_doorunit_upload_def [abs_def] by (rule gateway_report_sends)
interpretation gw_heart_motion_sensor_upload: sending_report "gateway_heart_motion_sensor_upload device_addr rssi range_time_level delay_time_level human_detected" for device_addr rssi range_time_level delay_time_level human_detected
  unfolding gateway_heart_motion_sensor_upload_def [abs_def] by (rule gateway_report_sends)
interpretation gw_sync_device_add: sending_report "gateway_sync_device_add device_type device_addr rssi" for device_type device_addr rssi
  unfolding gateway_sync_device_add_def [abs_def] by (rule gateway_report_sends)
interpretation gw_sync_device_del: sending_report "gateway_sync_device_del device_addr" for device_addr
  unfolding gateway_sync_device_del_def [abs_def] by (rule gateway_report_sends)
interpretation gw_sync_device_reset: sending_report gateway_sync_device_reset
  unfolding gateway_sync_device_reset_def [abs_def] by (rule gateway_report_sends)
interpretation gw_ota_resp_start: sending_report gateway_ota_resp_start
  unfolding gateway_ota_resp_start_def [abs_def] by (rule gateway_report_sends)
interpretation gw_ota_ack_transfer: sending_report gateway_ota_ack_transfer
  unfolding gateway_ota_ack_transfer_def [abs_def] by (rule gateway_report_sends)
interpretation gw_ota_resp_end: sending_report gateway_ota_resp_end
  unfolding gateway_ota_resp_end_def [abs_def] by (rule gateway_report_sends)
interpretation gw_warning_slaver_offline: sending_report gateway_warning_slaver_offline
  by (rule gateway_warning_slaver_offline_sends)
interpretation gw_sync_device_upload: sending_report gateway_sync_device_upload
  by (rule gateway_sync_device_upload_sends)

section \<open>The device list fits a frame\<close>

lemma concat_fixed_length: "(\<And>x. length (f x) = k) \<Longrightarrow> length (concat (map f xs)) = length xs * k"
  by (induction xs) simp_all

text \<open>
  C28. The answer to a sync request is queued whole: with at most twelve devices it has four bytes
  of status and eight per device, so it fits the transmit buffer and the queue's messages, and its count
  byte is the number of devices listed.
\<close>

theorem sync_report_queued:
  assumes "slots_ok (store s)" "heap_ok (store s)" "aq_gateway_find (store s) \<noteq> 0"
    and room: "length (rf_en_mq (radio s)) < RF_MQ_SIZE"
  shows "\<exists>tx. rf_en_mq (radio (gateway_sync_device_upload s)) = rf_en_mq (radio s) @ [queued 0 tx] \<and>
    tx_fits tx \<and> tx_len tx \<le> 100 \<and> tx_command tx = DEVICE_SYNC_CMD \<and>
    (let ds = filter (\<lambda>d. dev_type d \<noteq> DEVICE_TYPE_GATEWAY) (device_list (store s)) in
     length ds \<le> MAX_SLAVER_DEVICE \<and> tx_len tx = 4 + 8 * length ds \<and>
     tx_data tx = [3, status_code (status s), position_code (valve_status (valve s)), of_nat (length ds)]
       @ concat (map (\<lambda>d. split32 (device_id d) @ [dev_type d, online d, rssi_level d, battery d]) ds))"
proof -
  let ?ds = "filter (\<lambda>d. dev_type d \<noteq> DEVICE_TYPE_GATEWAY) (device_list (store s))"
  let ?bytes = "concat (map (\<lambda>d. split32 (device_id d) @ [dev_type d, online d, rssi_level d, battery d]) ?ds)"
  let ?tx = "tx_zero\<lparr>msg_ack := 1, tx_msg_type := MSG_CONFIRMED_UPLINK,
            dest_addr := aq_gateway_find (store s), source_addr := local_address (radio s),
            tx_command := DEVICE_SYNC_CMD,
            tx_data := [3, status_code (status s), position_code (valve_status (valve s)), of_nat (length ?ds)] @ ?bytes,
            tx_len := length ?ds * 8 + 4\<rparr>"
  have n: "length ?ds \<le> 12"
    by (rule le_trans [OF length_filter_le slots_ok_capacity [OF assms(1), unfolded MAX_SLAVER_DEVICE_def]])
  have bytes: "length ?bytes = length ?ds * 8" by (rule concat_fixed_length) (simp add: split32_def)
  have u: "unat (of_nat (length ?ds) :: byte) = length ?ds" using n by (simp add: unat_of_nat)
  have fits: "tx_fits ?tx" "tx_len ?tx \<le> 239" using n by (simp_all add: tx_fits_def bytes)
  have "radio (gateway_sync_device_upload s) = command_send 0 ?tx (radio s)"
    using assms(2,3) u
    by (simp add: gateway_sync_device_upload_def aq_device_clone_upload_def radio_gateway_command_send_def
        Let_def warning_status_get_def get_valve_status_def)
  then have "rf_en_mq (radio (gateway_sync_device_upload s)) = rf_en_mq (radio s) @ [queued 0 ?tx]"
    using command_send_queued [OF fits, of 0 "radio s"] room by (simp add: rt_mq_send_def)
  with n fits show ?thesis by (intro exI [of _ ?tx]) (simp add: MAX_SLAVER_DEVICE_def Let_def)
qed

text \<open>A unit with one gateway in its table.\<close>

definition paired_unit :: sys where
  "paired_unit = new_unit\<lparr>store := with_device 0 2 DEVICE_TYPE_GATEWAY 9 (store new_unit)\<rparr>"

lemma paired_unit_simps [simp]:
  "device_list (store paired_unit) = [new_device 0 2 DEVICE_TYPE_GATEWAY 9]"
  "heap_ok (store paired_unit) = True" "rf_en_mq (radio paired_unit) = []" "status paired_unit = ValveClose"
  "aq_gateway_find (store paired_unit) = 9"
  by (simp_all add: paired_unit_def with_device_def Let_def aq_gateway_find_def new_device_def)

lemma paired_unit_table: "table_ok (store paired_unit)"
proof -
  have b: "store new_unit = blank_table" by (simp add: new_unit_def blank_table_def)
  show ?thesis
    unfolding paired_unit_def b
    using with_device_ok [OF blank_table_ok, of 9 0 2 DEVICE_TYPE_GATEWAY]
    by (simp add: MAX_SLAVER_DEVICE_def slot_used_def)
qed

lemma sync_report_queued_witness:
  "\<exists>tx. rf_en_mq (radio (gateway_sync_device_upload paired_unit)) = [queued 0 tx] \<and> tx_len tx = 4"
  using sync_report_queued [of paired_unit] paired_unit_table
  by (auto simp: RF_MQ_SIZE_def table_ok_def new_device_def)

end
