(* ===== verification/Heart.thy ===== *)
theory Heart
  imports Gateway_Api
begin

text \<open>
  The link to the gateway (\<open>applications/heart.c\<close>): the connection attempts after power-on
  and the thread that sends one heartbeat every 900 seconds at a random moment.

  The thread is cut at its delays: one turn of \<open>heart_thread_entry\<close> runs to the next
  \<open>rt_thread_mdelay\<close> and gives its length in milliseconds. The value of the random number
  generator is an input of the turn.
\<close>

definition random_second_get :: "u32 \<Rightarrow> u32 \<Rightarrow> u32 \<Rightarrow> u32" where
  "random_second_get v lo hi = v mod (hi - lo + 1) + lo"

definition gateway_heart_check :: "sys \<Rightarrow> sys" where
  "gateway_heart_check s =
     (let gw = aq_gateway_find (store s) in
      if gw = 0 then s
      else if aq_device_recv_find gw (store s) \<noteq> 0
      then lamps (wifi_led 1) (s\<lparr>store := aq_device_recv_set gw 0 (store s)\<rparr>)
      else lamps (wifi_led 2) s)"

definition gateway_connect_start :: "sys \<Rightarrow> sys" where
  "gateway_connect_start s =
     (if aq_gateway_find (store s) \<noteq> 0
      then timer_start heart_connect_timer
             (gateway_heart_upload_poweron (s\<lparr>heart := (heart s)\<lparr>gateway_heart_retry := 0\<rparr>\<rparr>))
      else s)"

definition heart_connect_timer_callback :: "sys \<Rightarrow> sys" where
  "heart_connect_timer_callback s =
     (if aq_device_recv_find (aq_gateway_find (store s)) (store s) = 0
      then if gateway_heart_retry (heart s) < 3
           then timer_start heart_connect_timer
                  (gateway_heart_upload_poweron
                    (s\<lparr>heart := (heart s)\<lparr>gateway_heart_retry := gateway_heart_retry (heart s) + 1\<rparr>\<rparr>))
           else lamps (wifi_led 2) s
      else s)"

definition heart_goto :: "heart_pc \<Rightarrow> sys \<Rightarrow> sys" where
  "heart_goto pc s = s\<lparr>heart := (heart s)\<lparr>heart_pc := pc\<rparr>\<rparr>"

definition heart_thread_entry :: "u32 \<Rightarrow> sys \<Rightarrow> nat \<times> sys" where
  "heart_thread_entry v s =
     (case heart_pc (heart s) of
        heart_boot \<Rightarrow>
          if aq_gateway_find (store s) \<noteq> 0
          then (unat (random_second_get v 20 40 * 500), heart_goto heart_connect (lamps (wifi_led 0) s))
          else (0, heart_goto heart_loop s)
      | heart_connect \<Rightarrow> (0, heart_goto heart_loop (gateway_connect_start s))
      | heart_loop \<Rightarrow>
          if aq_gateway_find (store s) \<noteq> 0
          then let before = random_second_get v 60 780
               in (unat (before * 1000),
                   heart_goto heart_send
                     (s\<lparr>heart := (heart s)\<lparr>before_wait_time := before, after_wait_time := 900 - before\<rparr>\<rparr>))
          else (10, s)
      | heart_send \<Rightarrow>
          (unat (after_wait_time (heart s) * 1000), heart_goto heart_loop (gateway_heart_upload_master s)))"

definition heart_init :: "sys \<Rightarrow> sys" where
  "heart_init s =
     s\<lparr>timer := rt_timer_create heart_connect_timer 3000 False (timer s),
       heart := (heart s)\<lparr>heart_pc := heart_boot\<rparr>\<rparr>"

section \<open>Frames\<close>

lemma gateway_connect_start_frames [simp]:
  "pin_in (gateway_connect_start s) = pin_in s" "pin_out (gateway_connect_start s) = pin_out s"
  "store (gateway_connect_start s) = store s" "valve (gateway_connect_start s) = valve s"
  "warn (gateway_connect_start s) = warn s" "keys (gateway_connect_start s) = keys s"
  "dry (gateway_connect_start s) = dry s" "rtc (gateway_connect_start s) = rtc s"
  "ota (gateway_connect_start s) = ota s" "factory (gateway_connect_start s) = factory s"
  "mb (gateway_connect_start s) = mb s" "cpu_reset (gateway_connect_start s) = cpu_reset s"
  by (simp_all add: gateway_connect_start_def)

lemma gateway_connect_start_timers [simp]:
  "t \<noteq> heart_connect_timer \<Longrightarrow> timer (gateway_connect_start s) t = timer s t"
  by (simp add: gateway_connect_start_def rt_timer_start_def)

lemma gateway_connect_start_sends [keep]:
  "radio_ok (radio s) \<Longrightarrow> radio_ok (radio (gateway_connect_start s))"
  by (auto simp: gateway_connect_start_def intro!: keep)

lemma gateway_connect_start_address [simp]:
  "local_address (radio (gateway_connect_start s)) = local_address (radio s)"
  by (simp add: gateway_connect_start_def)

section \<open>The heartbeat period\<close>

lemma random_second_bounds:
  assumes "lo \<le> hi" "unat hi < 2 ^ 31"
  shows "lo \<le> random_second_get v lo hi \<and> random_second_get v lo hi \<le> hi"
proof -
  have lh: "unat lo \<le> unat hi" using assms(1) by (simp add: word_le_nat_alt)
  have d: "unat (hi - lo + 1) = unat hi - unat lo + 1"
    using assms lh by (simp add: unat_plus_if' unat_sub)
  have m: "unat (v mod (hi - lo + 1)) \<le> unat hi - unat lo"
    using d by (simp add: unat_mod)
  then have "unat (random_second_get v lo hi) = unat (v mod (hi - lo + 1)) + unat lo"
    using assms(2) lh by (simp add: random_second_get_def unat_plus_if')
  with m lh show ?thesis by (simp add: word_le_nat_alt)
qed

section \<open>The calls after power-on\<close>

text \<open>
  After power-on the unit calls the gateway at most four times: a call is repeated only
  while the counter is below 3 and each repetition counts.
\<close>

theorem connect_attempts:
  assumes "gateway_heart_retry (heart s) \<le> 3" and "\<not> periodic (timer s heart_connect_timer)"
  shows "let s' = heart_connect_timer_callback
              (s\<lparr>timer := rt_timer_expire heart_connect_timer (timer s)\<rparr>) in
    gateway_heart_retry (heart s') \<le> 3 \<and>
    (running (timer s') heart_connect_timer \<longleftrightarrow>
       gateway_heart_retry (heart s') = gateway_heart_retry (heart s) + 1) \<and>
    (\<not> running (timer s') heart_connect_timer \<longrightarrow> radio s' = radio s)"
proof -
  have "gateway_heart_retry (heart s) < 3 \<Longrightarrow> gateway_heart_retry (heart s) + 1 \<le> 3"
    by (simp add: inc_le)
  then show ?thesis
    using assms soft_timer.expire_once [of "timer s" heart_connect_timer]
    by (auto simp: heart_connect_timer_callback_def Let_def)
qed

lemma connect_attempts_witness:
  "gateway_heart_retry (heart (heart_connect_timer_callback (new_unit
     \<lparr>timer := rt_timer_expire heart_connect_timer (timer new_unit)\<rparr>))) \<le> 3"
  using connect_attempts [of new_unit] by (simp add: Let_def) (simp add: new_unit_def no_timer_def)

end
