(* ===== verification/Valve.thy ===== *)
theory Valve
  imports Heart
begin

text \<open>
  The valve (\<open>applications/valve_work.c\<close>): the two motor pins, the lock kept in flash,
  opening and closing, the start of the anti-jam check and the delayed close. The timer
  callbacks that report failures are in \<open>Valve_Check\<close>, after the warnings they raise.
  Functions returning \<open>rt_err_t\<close> give \<open>True\<close> for \<open>RT_EOK\<close>.
\<close>

definition valve_single_control :: "byte \<Rightarrow> byte \<Rightarrow> sys \<Rightarrow> sys" where
  "valve_single_control i level s =
     (if i = 0
      then rt_pin_write MOTO_LEFT_CONTROL_PIN (level = 0)
             (s\<lparr>valve := (valve s)\<lparr>mb_valve_control_left := level\<rparr>\<rparr>)
      else rt_pin_write MOTO_RIGHT_CONTROL_PIN (level = 0)
             (s\<lparr>valve := (valve s)\<lparr>mb_valve_control_right := level\<rparr>\<rparr>))"

definition valve_turn_control :: "int \<Rightarrow> sys \<Rightarrow> sys" where
  "valve_turn_control dir s =
     (if dir < 0
      then rt_pin_write MOTO_RIGHT_CONTROL_PIN PIN_HIGH (rt_pin_write MOTO_LEFT_CONTROL_PIN PIN_HIGH
             (s\<lparr>valve := (valve s)\<lparr>valve_status := VALVE_STATUS_CLOSE,
                 mb_valve_control_left := 0, mb_valve_control_right := 0\<rparr>\<rparr>))
      else rt_pin_write MOTO_RIGHT_CONTROL_PIN PIN_LOW (rt_pin_write MOTO_LEFT_CONTROL_PIN PIN_LOW
             (s\<lparr>valve := (valve s)\<lparr>valve_status := VALVE_STATUS_OPEN,
                 mb_valve_control_left := 1, mb_valve_control_right := 1\<rparr>\<rparr>)))"

text \<open>The timers \<open>valve_open\<close> stops, in order; \<open>valve_close\<close> stops one more.\<close>

definition valve_move_timers :: "timer_id list" where
  "valve_move_timers =
     [valve_left_turn_back_timer, valve_right_turn_back_timer, valve_left_turn_check_timer,
      valve_right_turn_check_timer, valve_delay_close_timer]"

definition stop_timers :: "timer_id list \<Rightarrow> sys \<Rightarrow> sys" where
  "stop_timers ts s = s\<lparr>timer := fold rt_timer_stop ts (timer s)\<rparr>"

definition valve_open :: "sys \<Rightarrow> bool \<times> sys" where
  "valve_open s =
     (if lock_status (valve s) = 1 \<or> \<not> valve_valid (valve s) then (False, lamps led_valve_fail s)
      else (True,
        timer_start valve_detect_once_timer (stop_timers valve_move_timers
          (valve_turn_control 1 (lamps beep_once (lamps led_valve_on (set_status ValveOpen s)))))))"

definition valve_close :: "sys \<Rightarrow> bool \<times> sys" where
  "valve_close s =
     (if \<not> valve_valid (valve s) then (False, valve_turn_control (-1) (lamps led_valve_fail s))
      else (True,
        stop_timers (valve_move_timers @ [valve_detect_once_timer])
          (valve_turn_control (-1)
            (lamps beep_key_down (lamps led_valve_off (set_status ValveClose s))))))"

definition set_lock :: "byte \<Rightarrow> sys \<Rightarrow> sys" where
  "set_lock v s =
     s\<lparr>valve := (valve s)\<lparr>lock_status := v\<rparr>,
       store := (store s)\<lparr>ef_env := flash_set_key ''valve_lock'' (ucast v) (ef_env (store s))\<rparr>\<rparr>"

definition valve_lock :: "sys \<Rightarrow> sys" where
  "valve_lock s = (if lock_status (valve s) = 0 then set_lock 1 s else s)"

definition valve_unlock :: "sys \<Rightarrow> sys" where
  "valve_unlock s = (if lock_status (valve s) = 1 then set_lock 0 s else s)"

text \<open>The half of \<open>valve_check_start\<close> for one side.\<close>

definition valve_left_check_start :: "sys \<Rightarrow> sys" where
  "valve_left_check_start s =
     (if \<not> rt_pin_read MOTO_LEFT_FULLY_OPEN_PIN s
      then timer_start valve_left_turn_back_timer (rt_pin_write MOTO_LEFT_CONTROL_PIN PIN_HIGH
             ((stop_timers [valve_left_turn_back_timer, valve_left_turn_check_timer] s)
               \<lparr>valve := (valve s)\<lparr>valve_left_check_result := False, mb_valve_check_left := 1\<rparr>\<rparr>))
      else s)"

definition valve_right_check_start :: "sys \<Rightarrow> sys" where
  "valve_right_check_start s =
     (if \<not> rt_pin_read MOTO_RIGHT_FULLY_OPEN_PIN s
      then timer_start valve_right_turn_back_timer (rt_pin_write MOTO_RIGHT_CONTROL_PIN PIN_HIGH
             ((stop_timers [valve_right_turn_back_timer, valve_right_turn_check_timer] s)
               \<lparr>valve := (valve s)\<lparr>valve_right_check_result := False, mb_valve_check_right := 1\<rparr>\<rparr>))
      else s)"

definition valve_check_start :: "sys \<Rightarrow> sys" where
  "valve_check_start s =
     (if valve_status (valve s) = VALVE_STATUS_CLOSE then s
      else valve_right_check_start (valve_left_check_start s))"

definition valve_detect_once_timer_callback :: "sys \<Rightarrow> sys" where
  "valve_detect_once_timer_callback s = valve_check_start s"

definition valve_delay_close_timer_callback :: "sys \<Rightarrow> sys" where
  "valve_delay_close_timer_callback s =
     (if idle s then gateway_control_master_control 0 (snd (valve_close (valve_lock s))) else s)"

definition valve_delay_control :: "byte \<Rightarrow> sys \<Rightarrow> sys" where
  "valve_delay_control v s =
     (if v \<noteq> 0 then timer_start valve_delay_close_timer s else timer_stop valve_delay_close_timer s)"

text \<open>\<open>if(valve_close() == RT_EOK) gateway_control_master_control(0)\<close>, and the same for opening.\<close>

definition close_and_report :: "sys \<Rightarrow> sys" where
  "close_and_report s =
     (let (ok, s1) = valve_close s in if ok then gateway_control_master_control 0 s1 else s1)"

definition open_and_report :: "sys \<Rightarrow> sys" where
  "open_and_report s =
     (let (ok, s1) = valve_open s in if ok then gateway_control_master_control 1 s1 else s1)"

definition valve_dry_contact_control :: "byte \<Rightarrow> sys \<Rightarrow> sys" where
  "valve_dry_contact_control level s =
     (if idle s then if level \<noteq> 0 then close_and_report s else open_and_report s else s)"

section \<open>Effects\<close>

lemma pin_write_simps [simp]:
  "pin_out (rt_pin_write p v s) = (pin_out s)(p := v)" "pin_in (rt_pin_write p v s) = pin_in s"
  "timer (rt_pin_write p v s) = timer s" "leds (rt_pin_write p v s) = leds s"
  "store (rt_pin_write p v s) = store s" "radio (rt_pin_write p v s) = radio s"
  "valve (rt_pin_write p v s) = valve s" "warn (rt_pin_write p v s) = warn s"
  "heart (rt_pin_write p v s) = heart s" "keys (rt_pin_write p v s) = keys s"
  "dry (rt_pin_write p v s) = dry s" "rtc (rt_pin_write p v s) = rtc s"
  "ota (rt_pin_write p v s) = ota s" "factory (rt_pin_write p v s) = factory s"
  "mb (rt_pin_write p v s) = mb s" "cpu_reset (rt_pin_write p v s) = cpu_reset s"
  by (simp_all add: rt_pin_write_def)

lemma stop_timers_simps [simp]:
  "pin_out (stop_timers ts s) = pin_out s" "pin_in (stop_timers ts s) = pin_in s"
  "leds (stop_timers ts s) = leds s"
  "store (stop_timers ts s) = store s" "radio (stop_timers ts s) = radio s"
  "valve (stop_timers ts s) = valve s" "warn (stop_timers ts s) = warn s"
  "heart (stop_timers ts s) = heart s" "keys (stop_timers ts s) = keys s"
  "dry (stop_timers ts s) = dry s" "rtc (stop_timers ts s) = rtc s"
  "ota (stop_timers ts s) = ota s" "factory (stop_timers ts s) = factory s"
  "mb (stop_timers ts s) = mb s" "cpu_reset (stop_timers ts s) = cpu_reset s"
  "running (timer (stop_timers ts s)) t \<longleftrightarrow> t \<notin> set ts \<and> running (timer s) t"
  by (simp_all add: stop_timers_def soft_timer.active_stop_all)

lemma set_status_simps [simp]:
  "pin_out (set_status d s) = pin_out s" "pin_in (set_status d s) = pin_in s"
  "timer (set_status d s) = timer s" "leds (set_status d s) = leds s"
  "store (set_status d s) = store s" "radio (set_status d s) = radio s"
  "valve (set_status d s) = valve s" "status (set_status d s) = d"
  "NowEvent (warn (set_status d s)) = NowEvent (warn s)"
  "allow_add_device (warn (set_status d s)) = allow_add_device (warn s)"
  "heart (set_status d s) = heart s" "keys (set_status d s) = keys s"
  "dry (set_status d s) = dry s" "rtc (set_status d s) = rtc s"
  "ota (set_status d s) = ota s" "factory (set_status d s) = factory s"
  "mb (set_status d s) = mb s" "cpu_reset (set_status d s) = cpu_reset s"
  by (simp_all add: set_status_def)

lemma turn_control_simps [simp]:
  "pin_in (valve_turn_control d s) = pin_in s" "timer (valve_turn_control d s) = timer s"
  "leds (valve_turn_control d s) = leds s" "store (valve_turn_control d s) = store s"
  "radio (valve_turn_control d s) = radio s" "warn (valve_turn_control d s) = warn s"
  "heart (valve_turn_control d s) = heart s" "keys (valve_turn_control d s) = keys s"
  "dry (valve_turn_control d s) = dry s" "rtc (valve_turn_control d s) = rtc s"
  "ota (valve_turn_control d s) = ota s" "factory (valve_turn_control d s) = factory s"
  "mb (valve_turn_control d s) = mb s" "cpu_reset (valve_turn_control d s) = cpu_reset s"
  "lock_status (valve (valve_turn_control d s)) = lock_status (valve s)"
  "valve_valid (valve (valve_turn_control d s)) = valve_valid (valve s)"
  "valve_left_check_result (valve (valve_turn_control d s)) = valve_left_check_result (valve s)"
  "valve_right_check_result (valve (valve_turn_control d s)) = valve_right_check_result (valve s)"
  "valve_status (valve (valve_turn_control d s)) = (if d < 0 then VALVE_STATUS_CLOSE else VALVE_STATUS_OPEN)"
  by (simp_all add: valve_turn_control_def)

lemma set_lock_simps [simp]:
  "pin_out (set_lock v s) = pin_out s" "pin_in (set_lock v s) = pin_in s"
  "timer (set_lock v s) = timer s" "leds (set_lock v s) = leds s"
  "radio (set_lock v s) = radio s" "warn (set_lock v s) = warn s"
  "valve (set_lock v s) = (valve s)\<lparr>lock_status := v\<rparr>"
  "heart (set_lock v s) = heart s" "keys (set_lock v s) = keys s"
  "dry (set_lock v s) = dry s" "rtc (set_lock v s) = rtc s"
  "ota (set_lock v s) = ota s" "factory (set_lock v s) = factory s"
  "mb (set_lock v s) = mb s" "cpu_reset (set_lock v s) = cpu_reset s"
  "device_list (store (set_lock v s)) = device_list (store s)"
  "total_slot (store (set_lock v s)) = total_slot (store s)"
  "heap_ok (store (set_lock v s)) = heap_ok (store s)"
  "flash_get_key ''valve_lock'' (ef_env (store (set_lock v s))) = ucast v"
  by (simp_all add: set_lock_def flash_get_set)

lemma valve_lock_simps [simp]:
  "pin_out (valve_lock s) = pin_out s" "pin_in (valve_lock s) = pin_in s"
  "timer (valve_lock s) = timer s" "leds (valve_lock s) = leds s"
  "radio (valve_lock s) = radio s" "warn (valve_lock s) = warn s"
  "heart (valve_lock s) = heart s" "keys (valve_lock s) = keys s"
  "dry (valve_lock s) = dry s" "rtc (valve_lock s) = rtc s"
  "ota (valve_lock s) = ota s" "factory (valve_lock s) = factory s"
  "mb (valve_lock s) = mb s" "cpu_reset (valve_lock s) = cpu_reset s"
  "valve (valve_lock s) = (if lock_status (valve s) = 0 then (valve s)\<lparr>lock_status := 1\<rparr> else valve s)"
  "device_list (store (valve_lock s)) = device_list (store s)"
  "heap_ok (store (valve_lock s)) = heap_ok (store s)"
  by (simp_all add: valve_lock_def)

lemma valve_unlock_simps [simp]:
  "pin_out (valve_unlock s) = pin_out s" "pin_in (valve_unlock s) = pin_in s"
  "timer (valve_unlock s) = timer s" "leds (valve_unlock s) = leds s"
  "radio (valve_unlock s) = radio s" "warn (valve_unlock s) = warn s"
  "heart (valve_unlock s) = heart s" "keys (valve_unlock s) = keys s"
  "dry (valve_unlock s) = dry s" "rtc (valve_unlock s) = rtc s"
  "ota (valve_unlock s) = ota s" "factory (valve_unlock s) = factory s"
  "mb (valve_unlock s) = mb s" "cpu_reset (valve_unlock s) = cpu_reset s"
  "valve (valve_unlock s) = (if lock_status (valve s) = 1 then (valve s)\<lparr>lock_status := 0\<rparr> else valve s)"
  "device_list (store (valve_unlock s)) = device_list (store s)"
  "heap_ok (store (valve_unlock s)) = heap_ok (store s)"
  by (simp_all add: valve_unlock_def)

lemma valve_close_simps [simp]:
  "pin_in (snd (valve_close s)) = pin_in s" "store (snd (valve_close s)) = store s"
  "radio (snd (valve_close s)) = radio s" "heart (snd (valve_close s)) = heart s"
  "keys (snd (valve_close s)) = keys s" "dry (snd (valve_close s)) = dry s"
  "rtc (snd (valve_close s)) = rtc s" "ota (snd (valve_close s)) = ota s"
  "factory (snd (valve_close s)) = factory s" "mb (snd (valve_close s)) = mb s"
  "cpu_reset (snd (valve_close s)) = cpu_reset s"
  "NowEvent (warn (snd (valve_close s))) = NowEvent (warn s)"
  "allow_add_device (warn (snd (valve_close s))) = allow_add_device (warn s)"
  "status (snd (valve_close s)) = (if valve_valid (valve s) then ValveClose else status s)"
  "valve_status (valve (snd (valve_close s))) = VALVE_STATUS_CLOSE"
  "lock_status (valve (snd (valve_close s))) = lock_status (valve s)"
  "valve_valid (valve (snd (valve_close s))) = valve_valid (valve s)"
  "valve_left_check_result (valve (snd (valve_close s))) = valve_left_check_result (valve s)"
  "valve_right_check_result (valve (snd (valve_close s))) = valve_right_check_result (valve s)"
  "fst (valve_close s) = valve_valid (valve s)"
  by (simp_all add: valve_close_def)

lemma valve_open_simps [simp]:
  "pin_in (snd (valve_open s)) = pin_in s" "store (snd (valve_open s)) = store s"
  "radio (snd (valve_open s)) = radio s" "heart (snd (valve_open s)) = heart s"
  "keys (snd (valve_open s)) = keys s" "dry (snd (valve_open s)) = dry s"
  "rtc (snd (valve_open s)) = rtc s" "ota (snd (valve_open s)) = ota s"
  "factory (snd (valve_open s)) = factory s" "mb (snd (valve_open s)) = mb s"
  "cpu_reset (snd (valve_open s)) = cpu_reset s"
  "NowEvent (warn (snd (valve_open s))) = NowEvent (warn s)"
  "allow_add_device (warn (snd (valve_open s))) = allow_add_device (warn s)"
  "lock_status (valve (snd (valve_open s))) = lock_status (valve s)"
  "valve_valid (valve (snd (valve_open s))) = valve_valid (valve s)"
  "valve_left_check_result (valve (snd (valve_open s))) = valve_left_check_result (valve s)"
  "valve_right_check_result (valve (snd (valve_open s))) = valve_right_check_result (valve s)"
  by (simp_all add: valve_open_def)

lemma valve_open_result:
  "fst (valve_open s) \<longleftrightarrow> lock_status (valve s) \<noteq> 1 \<and> valve_valid (valve s)"
  "valve_status (valve (snd (valve_open s))) =
     (if lock_status (valve s) \<noteq> 1 \<and> valve_valid (valve s) then VALVE_STATUS_OPEN
      else valve_status (valve s))"
  "status (snd (valve_open s)) =
     (if lock_status (valve s) \<noteq> 1 \<and> valve_valid (valve s) then ValveOpen else status s)"
  by (auto simp: valve_open_def)

section \<open>What opening and closing promise\<close>

text \<open>
  Closing a valve that is not marked faulty leaves both motor pins high, the position
  closed, the status \<open>ValveClose\<close>, and none of the six valve timers running, so no pending
  callback can open it again.
\<close>

theorem valve_close_final:
  assumes "valve_valid (valve s)"
  shows "let s' = snd (valve_close s) in
    pin_out s' MOTO_LEFT_CONTROL_PIN = PIN_HIGH \<and> pin_out s' MOTO_RIGHT_CONTROL_PIN = PIN_HIGH \<and>
    valve_status (valve s') = VALVE_STATUS_CLOSE \<and> status s' = ValveClose \<and>
    (\<forall>t \<in> set (valve_move_timers @ [valve_detect_once_timer]). \<not> running (timer s') t) \<and>
    (\<forall>t. t \<notin> set (valve_move_timers @ [valve_detect_once_timer]) \<longrightarrow>
       running (timer s') t = running (timer s) t)"
  using assms by (simp add: valve_close_def valve_turn_control_def)

lemma valve_close_final_witness:
  "valve_valid (valve new_unit) \<and> pin_out (snd (valve_close new_unit)) MOTO_LEFT_CONTROL_PIN \<and>
   \<not> running (timer (snd (valve_close new_unit))) valve_delay_close_timer"
  using valve_close_final [of new_unit] by (simp add: new_unit_def Let_def valve_move_timers_def)

text \<open>
  C11. Opening is refused exactly when the valve is locked or marked faulty; then only the
  lamps change. Otherwise both pins go low, the check timer is started and the delayed close and
  every check in progress are cancelled.
\<close>

theorem valve_open_guarded:
  "if lock_status (valve s) = 1 \<or> \<not> valve_valid (valve s)
   then valve_open s = (False, s\<lparr>leds := led_valve_fail (leds s)\<rparr>)
   else fst (valve_open s) \<and>
     (let s' = snd (valve_open s) in
      \<not> pin_out s' MOTO_LEFT_CONTROL_PIN \<and> \<not> pin_out s' MOTO_RIGHT_CONTROL_PIN \<and>
      valve_status (valve s') = VALVE_STATUS_OPEN \<and> status s' = ValveOpen \<and>
      running (timer s') valve_detect_once_timer \<and>
      remaining (timer s' valve_detect_once_timer) = Some (init_tick (timer s valve_detect_once_timer)) \<and>
      (\<forall>t \<in> set valve_move_timers. \<not> running (timer s') t))"
proof -
  have "init_tick (fold rt_timer_stop ts tm t) = init_tick (tm t)" for ts tm t
    by (induction ts arbitrary: tm) simp_all
  then show ?thesis
    by (auto simp: valve_open_def valve_turn_control_def valve_move_timers_def stop_timers_def
        remaining_start soft_timer.active_stop_all)
qed

lemma valve_open_guarded_witness:
  "fst (valve_open new_unit) \<and> \<not> pin_out (snd (valve_open new_unit)) MOTO_LEFT_CONTROL_PIN \<and>
   \<not> fst (valve_open (valve_lock new_unit))"
  using valve_open_guarded [of new_unit] valve_open_guarded [of "valve_lock new_unit"]
  by (auto simp: new_unit_def Let_def)

section \<open>The valve as a lockable switch\<close>

text \<open>
  The contract the handlers rely on, without timers, pins and lamps: a switch with a lock
  and a fault mark.
\<close>

record switch =
  sw_open :: bool
  sw_locked :: bool
  sw_valid :: bool

datatype valve_cmd = CmdOpen | CmdClose | CmdLock | CmdUnlock

fun switch_step :: "valve_cmd \<Rightarrow> switch \<Rightarrow> switch" where
  "switch_step CmdOpen w = (if \<not> sw_locked w \<and> sw_valid w then w\<lparr>sw_open := True\<rparr> else w)"
| "switch_step CmdClose w = w\<lparr>sw_open := False\<rparr>"
| "switch_step CmdLock w = w\<lparr>sw_locked := True\<rparr>"
| "switch_step CmdUnlock w = w\<lparr>sw_locked := False\<rparr>"

fun valve_step :: "valve_cmd \<Rightarrow> sys \<Rightarrow> sys" where
  "valve_step CmdOpen s = snd (valve_open s)"
| "valve_step CmdClose s = snd (valve_close s)"
| "valve_step CmdLock s = valve_lock s"
| "valve_step CmdUnlock s = valve_unlock s"

definition abs_switch :: "sys \<Rightarrow> switch" where
  "abs_switch s = \<lparr>sw_open = (valve_status (valve s) = VALVE_STATUS_OPEN),
     sw_locked = (lock_status (valve s) = 1), sw_valid = valve_valid (valve s)\<rparr>"

definition lock_flag :: "sys \<Rightarrow> bool" where
  "lock_flag s \<longleftrightarrow> (lock_status (valve s) = 0 \<or> lock_status (valve s) = 1) \<and>
     flash_get_key ''valve_lock'' (ef_env (store s)) = ucast (lock_status (valve s))"

lemma valve_step_lock_flag: "lock_flag s \<Longrightarrow> lock_flag (valve_step c s)"
  by (cases c) (auto simp: lock_flag_def valve_lock_def valve_unlock_def)

lemma valve_step_refines:
  "lock_flag s \<Longrightarrow> abs_switch (valve_step c s) = switch_step c (abs_switch s)"
  by (cases c) (auto simp: abs_switch_def lock_flag_def valve_open_result)

text \<open>
  C10. Any sequence of opening, closing, locking and unlocking does to the valve what it does
  to the switch, and the copy of the lock in flash follows the variable all the way.
\<close>

theorem valve_refines_switch:
  assumes "lock_flag s"
  shows "abs_switch (fold valve_step cs s) = fold switch_step cs (abs_switch s) \<and>
    lock_flag (fold valve_step cs s)"
  using assms
proof (induction cs arbitrary: s)
  case (Cons c cs)
  from Cons.IH [OF valve_step_lock_flag [OF Cons.prems]] show ?case
    by (simp add: valve_step_refines [OF Cons.prems])
qed simp

lemma valve_refines_switch_witness:
  "lock_flag new_unit \<and>
   \<not> sw_open (abs_switch (fold valve_step [CmdOpen, CmdLock, CmdClose, CmdOpen] new_unit))"
proof -
  have "lock_flag new_unit"
    by (simp add: lock_flag_def new_unit_def flash_get_key_def ef_get_env_blob_def decode_number_def)
  with valve_refines_switch [of new_unit "[CmdOpen, CmdLock, CmdClose, CmdOpen]"] show ?thesis
    by simp
qed

lemma switch_locked_closed:
  "\<lbrakk>CmdUnlock \<notin> set cs; sw_locked w; \<not> sw_open w\<rbrakk> \<Longrightarrow> \<not> sw_open (fold switch_step cs w)"
proof (induction cs arbitrary: w)
  case (Cons c cs)
  then show ?case by (cases c) auto
qed simp

section \<open>The delayed close\<close>

text \<open>
  A door unit's delay command arms the timer for its full time (four hours) or disarms it;
  opening or closing the valve disarms it too. When it runs out the valve is closed and locked, in flash too,
  provided no alarm is in force, and otherwise nothing at all happens.
\<close>

theorem delayed_close:
  assumes "lock_flag s" "v \<noteq> 0"
  shows "let armed = valve_delay_control v s; fired = valve_delay_close_timer_callback s in
    remaining (timer armed valve_delay_close_timer) = Some (init_tick (timer s valve_delay_close_timer)) \<and>
    \<not> running (timer (valve_delay_control 0 armed)) valve_delay_close_timer \<and>
    (fst (valve_open armed) \<longrightarrow> \<not> running (timer (snd (valve_open armed))) valve_delay_close_timer) \<and>
    (fst (valve_close armed) \<longrightarrow> \<not> running (timer (snd (valve_close armed))) valve_delay_close_timer) \<and>
    (if idle s
     then valve_status (valve fired) = VALVE_STATUS_CLOSE \<and> lock_status (valve fired) = 1 \<and>
       flash_get_key ''valve_lock'' (ef_env (store fired)) = 1 \<and>
       pin_out fired MOTO_LEFT_CONTROL_PIN = PIN_HIGH \<and> pin_out fired MOTO_RIGHT_CONTROL_PIN = PIN_HIGH
     else fired = s)"
proof -
  have lock: "lock_status (valve (valve_lock s)) = 1 \<and>
      flash_get_key ''valve_lock'' (ef_env (store (valve_lock s))) = 1"
    using assms(1) by (auto simp: lock_flag_def valve_lock_def)
  have pins: "pin_out (snd (valve_close u)) MOTO_LEFT_CONTROL_PIN = PIN_HIGH \<and>
      pin_out (snd (valve_close u)) MOTO_RIGHT_CONTROL_PIN = PIN_HIGH" for u
    by (simp add: valve_close_def valve_turn_control_def)
  have open_timer: "fst (valve_open u) \<Longrightarrow> \<not> running (timer (snd (valve_open u))) valve_delay_close_timer" for u
    by (auto simp: valve_open_def valve_move_timers_def split: if_splits)
  have close_timer: "fst (valve_close u) \<Longrightarrow> \<not> running (timer (snd (valve_close u))) valve_delay_close_timer" for u
    by (auto simp: valve_close_def valve_move_timers_def split: if_splits)
  have arm: "remaining (timer (valve_delay_control v s) valve_delay_close_timer) =
      Some (init_tick (timer s valve_delay_close_timer))"
    using assms(2) by (simp add: valve_delay_control_def remaining_start)
  have disarm: "\<not> running (timer (valve_delay_control 0 u)) valve_delay_close_timer" for u
    by (simp add: valve_delay_control_def)
  show ?thesis
    unfolding Let_def
    using arm disarm open_timer close_timer lock pins [of "valve_lock s"]
    by (simp add: valve_delay_close_timer_callback_def)
qed

lemma delayed_close_witness:
  "remaining (timer (valve_delay_control 1 new_unit) valve_delay_close_timer) =
     Some (init_tick (timer new_unit valve_delay_close_timer)) \<and>
   lock_status (valve (valve_delay_close_timer_callback new_unit)) = 1"
proof -
  have "lock_flag new_unit"
    by (simp add: lock_flag_def new_unit_def flash_get_key_def ef_get_env_blob_def decode_number_def)
  moreover have "idle new_unit" by (simp add: idle_def)
  ultimately show ?thesis using delayed_close [of new_unit 1] by (simp add: Let_def)
qed

end
