(* ===== verification/Warning.thy ===== *)
theory Warning
  imports Valve
begin

text \<open>
  The warnings (\<open>applications/water_work.c\<close>): events with a priority and a callback, the
  event in force (\<open>NowEvent\<close>), the status of the unit and the learn mode.

  The ten event variables are written only by \<open>warning_init\<close> at start-up; they are
  constants here, with the values \<open>warning_event_bind\<close> gives them.
\<close>

definition warning_event_bind :: "byte \<Rightarrow> byte \<Rightarrow> warning_callback option \<Rightarrow> WariningEvent" where
  "warning_event_bind i p cb = \<lparr>last_id = 0, warning_id = i, priority = p, callback = cb\<rparr>"

definition no_event :: WariningEvent where
  "no_event = \<lparr>last_id = 0, warning_id = 0, priority = 0, callback = None\<rparr>"

definition ValveLeftFailEvent :: WariningEvent where
  "ValveLeftFailEvent = warning_event_bind 1 4 (Some ValveLeftFailEventCallback)"
definition ValveRightFailEvent :: WariningEvent where
  "ValveRightFailEvent = warning_event_bind 2 4 (Some ValveRightFailEventCallback)"
definition SlaverLowPowerEvent :: WariningEvent where
  "SlaverLowPowerEvent = warning_event_bind 3 3 (Some SlaverLowPowerEventCallback)"
definition SlaverUltraLowPowerEvent :: WariningEvent where
  "SlaverUltraLowPowerEvent = warning_event_bind 4 6 (Some SlaverUltraLowPowerEventCallback)"
definition SlaverSensorLeakEvent :: WariningEvent where
  "SlaverSensorLeakEvent = warning_event_bind 5 8 (Some SlaverSensorLeakEventCallback)"
definition SlaverSensorLostEvent :: WariningEvent where
  "SlaverSensorLostEvent = warning_event_bind 10 1 (Some SlaverSensorLostEventCallback)"
definition SlaverOfflineEvent :: WariningEvent where
  "SlaverOfflineEvent = warning_event_bind 6 5 (Some SlaverOfflineEventCallback)"
definition MasterSensorLostEvent :: WariningEvent where
  "MasterSensorLostEvent = warning_event_bind 7 1 (Some MasterSensorLostEventCallback)"
definition MasterSensorLeakEvent :: WariningEvent where
  "MasterSensorLeakEvent = warning_event_bind 8 7 (Some MasterSensorLeakEventCallback)"
definition MasterLowTempEvent :: WariningEvent where
  "MasterLowTempEvent = warning_event_bind 9 2 (Some MasterLowTempEventCallback)"

lemmas event_defs =
  ValveLeftFailEvent_def ValveRightFailEvent_def SlaverLowPowerEvent_def
  SlaverUltraLowPowerEvent_def SlaverSensorLeakEvent_def SlaverSensorLostEvent_def
  SlaverOfflineEvent_def MasterSensorLostEvent_def MasterSensorLeakEvent_def
  MasterLowTempEvent_def warning_event_bind_def

definition app_events :: "WariningEvent list" where
  "app_events =
     [ValveLeftFailEvent, ValveRightFailEvent, SlaverLowPowerEvent, SlaverUltraLowPowerEvent,
      SlaverSensorLeakEvent, SlaverSensorLostEvent, SlaverOfflineEvent, MasterSensorLostEvent,
      MasterSensorLeakEvent, MasterLowTempEvent]"

section \<open>Callbacks\<close>

definition slaver_low_power_callback :: "sys \<Rightarrow> sys" where
  "slaver_low_power_callback s =
     set_status SlaverLowPower (lamps led_slave_low_start (lamps led_valve_on_pause s))"

definition slaver_ultra_low_power_callback :: "sys \<Rightarrow> sys" where
  "slaver_ultra_low_power_callback s =
     set_status SlaverUltraLowPower (lamps led_slave_low_start (snd (valve_close (valve_lock s))))"

definition slaver_sensor_leak_callback :: "sys \<Rightarrow> sys" where
  "slaver_sensor_leak_callback s =
     (if status s \<noteq> SlaverSensorLeak
      then set_status SlaverSensorLeak
             (lamps led_water_alarm_start (snd (valve_close (valve_lock s))))
      else s)"

definition slaver_sensor_lost_callback :: "sys \<Rightarrow> sys" where
  "slaver_sensor_lost_callback s = set_status SlaverSensorLost s"

definition master_sensor_lost_callback :: "sys \<Rightarrow> sys" where
  "master_sensor_lost_callback s =
     gateway_warning_master_lost 1
       (set_status MasterSensorLost (lamps led_master_lost_start (lamps led_valve_on_pause s)))"

definition MasterStatusChangeToDeAvtive :: "sys \<Rightarrow> sys" where
  "MasterStatusChangeToDeAvtive s = set_status MasterSensorAbnormal s"

definition master_sensor_leak_callback :: "sys \<Rightarrow> sys" where
  "master_sensor_leak_callback s =
     gateway_warning_master_leak 1
       (set_status MasterSensorLeak
         (lamps led_water_alarm_start (lamps led_warn_off (snd (valve_close s)))))"

definition master_low_temp_callback :: "sys \<Rightarrow> sys" where
  "master_low_temp_callback s = set_status MasterLowTemp (lamps led_ntc_alarm (snd (valve_close s)))"

definition slaver_offline_callback :: "sys \<Rightarrow> sys" where
  "slaver_offline_callback s =
     (if status s \<noteq> SlaverOffline
      then lamps led_offline_start (set_status SlaverOffline (snd (valve_close s)))
      else s)"

definition valve_left_fail_callback :: "sys \<Rightarrow> sys" where
  "valve_left_fail_callback s =
     gateway_warning_master_valve_check 3
       (set_status ValveLeftFail (lamps led_moto_fail_start (lamps led_valve_on_pause s)))"

definition valve_right_fail_callback :: "sys \<Rightarrow> sys" where
  "valve_right_fail_callback s =
     gateway_warning_master_valve_check 4
       (set_status ValveRightFail (lamps led_moto_fail_start (lamps led_valve_on_pause s)))"

text \<open>The call through the pointer \<open>NowEvent.callback\<close>.\<close>

definition run_callback :: "warning_callback \<Rightarrow> sys \<Rightarrow> sys" where
  "run_callback cb =
     (case cb of
        ValveLeftFailEventCallback \<Rightarrow> valve_left_fail_callback
      | ValveRightFailEventCallback \<Rightarrow> valve_right_fail_callback
      | SlaverLowPowerEventCallback \<Rightarrow> slaver_low_power_callback
      | SlaverUltraLowPowerEventCallback \<Rightarrow> slaver_ultra_low_power_callback
      | SlaverSensorLeakEventCallback \<Rightarrow> slaver_sensor_leak_callback
      | SlaverSensorLostEventCallback \<Rightarrow> slaver_sensor_lost_callback
      | SlaverOfflineEventCallback \<Rightarrow> slaver_offline_callback
      | MasterSensorLostEventCallback \<Rightarrow> master_sensor_lost_callback
      | MasterSensorLeakEventCallback \<Rightarrow> master_sensor_leak_callback
      | MasterLowTempEventCallback \<Rightarrow> master_low_temp_callback)"

definition set_now :: "WariningEvent \<Rightarrow> sys \<Rightarrow> sys" where
  "set_now e s = s\<lparr>warn := (warn s)\<lparr>NowEvent := e\<rparr>\<rparr>"

definition warning_enable :: "WariningEvent \<Rightarrow> sys \<Rightarrow> sys" where
  "warning_enable e s =
     (let now = NowEvent (warn s) in
      if priority now \<le> priority e
      then let now1 = now\<lparr>last_id := warning_id e, priority := priority e\<rparr> in
        (case callback e of
           Some cb \<Rightarrow> run_callback cb (set_now (now1\<lparr>callback := Some cb\<rparr>) s)
         | None \<Rightarrow> set_now now1 s)
      else s)"

section \<open>Clearing\<close>

definition led_resume :: "sys \<Rightarrow> sys" where
  "led_resume s = lamps (led_valve_on_resume (get_valve_status s = VALVE_STATUS_OPEN)) s"

definition warning_all_clear :: "sys \<Rightarrow> sys" where
  "warning_all_clear s =
     (let s1 = led_resume (lamps led_warn_off (lamps beep_stop s))
      in set_now no_event (set_status (position_status (get_valve_status s1)) s1))"

definition valvefail_warning_disable :: "sys \<Rightarrow> sys" where
  "valvefail_warning_disable s =
     (if status s = ValveLeftFail \<or> status s = ValveRightFail then warning_all_clear s else s)"

definition warning_lost_clear :: "sys \<Rightarrow> sys" where
  "warning_lost_clear s =
     (let s1 = gateway_warning_master_lost 0 s in
      if idle s1 then led_resume (lamps led_loss_off (warning_all_clear s1)) else s1)"

definition warning_offline_check :: "sys \<Rightarrow> sys" where
  "warning_offline_check s =
     (if status s = SlaverOffline
      then if \<not> aq_device_endunit_offline_find (store s) then warning_all_clear s else s
      else s)"

definition factory_water_leak_simulate :: "sys \<Rightarrow> sys" where
  "factory_water_leak_simulate s = warning_enable MasterSensorLeakEvent s"

section \<open>The learn mode\<close>

definition set_allow :: "byte \<Rightarrow> sys \<Rightarrow> sys" where
  "set_allow v s = s\<lparr>warn := (warn s)\<lparr>allow_add_device := v\<rparr>\<rparr>"

definition radio_learn_timer_callback :: "sys \<Rightarrow> sys" where
  "radio_learn_timer_callback s =
     gateway_connect_start (led_resume (lamps led_notice_once (warning_all_clear (set_allow 0 s))))"

definition radio_start_learn_device :: "sys \<Rightarrow> sys" where
  "radio_start_learn_device s =
     (if idle s then
        timer_start radio_learn_timer (lamps led_learn_start
          (set_allow 1 (set_status LearnDevice (lamps led_valve_on_pause s))))
      else if status s = LearnDevice then
        gateway_connect_start (led_resume (lamps led_notice_once (warning_all_clear
          (set_allow 0 (timer_stop radio_learn_timer s)))))
      else s)"

definition radio_refresh_learn_device :: "sys \<Rightarrow> sys" where
  "radio_refresh_learn_device s = timer_start radio_learn_timer (lamps led_relearn s)"

definition warning_init :: "sys \<Rightarrow> sys" where
  "warning_init s =
     (set_now (warning_event_bind 0 0 None) s)
       \<lparr>timer := rt_timer_create radio_learn_timer 30000 False (timer s)\<rparr>"

section \<open>Effects\<close>

lemma set_now_simps [simp]:
  "pin_out (set_now e s) = pin_out s" "pin_in (set_now e s) = pin_in s"
  "timer (set_now e s) = timer s" "leds (set_now e s) = leds s" "store (set_now e s) = store s"
  "radio (set_now e s) = radio s" "valve (set_now e s) = valve s"
  "status (set_now e s) = status s" "NowEvent (warn (set_now e s)) = e"
  "allow_add_device (warn (set_now e s)) = allow_add_device (warn s)"
  "heart (set_now e s) = heart s" "keys (set_now e s) = keys s" "dry (set_now e s) = dry s"
  "rtc (set_now e s) = rtc s" "ota (set_now e s) = ota s" "factory (set_now e s) = factory s"
  "mb (set_now e s) = mb s" "cpu_reset (set_now e s) = cpu_reset s"
  by (simp_all add: set_now_def)

lemma set_allow_simps [simp]:
  "pin_out (set_allow v s) = pin_out s" "pin_in (set_allow v s) = pin_in s"
  "timer (set_allow v s) = timer s" "leds (set_allow v s) = leds s" "store (set_allow v s) = store s"
  "radio (set_allow v s) = radio s" "valve (set_allow v s) = valve s"
  "status (set_allow v s) = status s" "NowEvent (warn (set_allow v s)) = NowEvent (warn s)"
  "allow_add_device (warn (set_allow v s)) = v"
  "heart (set_allow v s) = heart s" "keys (set_allow v s) = keys s" "dry (set_allow v s) = dry s"
  "rtc (set_allow v s) = rtc s" "ota (set_allow v s) = ota s" "factory (set_allow v s) = factory s"
  "mb (set_allow v s) = mb s" "cpu_reset (set_allow v s) = cpu_reset s"
  by (simp_all add: set_allow_def)

lemma led_resume_simps [simp]:
  "pin_out (led_resume s) = pin_out s" "pin_in (led_resume s) = pin_in s"
  "timer (led_resume s) = timer s" "store (led_resume s) = store s" "radio (led_resume s) = radio s"
  "valve (led_resume s) = valve s" "warn (led_resume s) = warn s" "heart (led_resume s) = heart s"
  "keys (led_resume s) = keys s" "dry (led_resume s) = dry s" "rtc (led_resume s) = rtc s"
  "ota (led_resume s) = ota s" "factory (led_resume s) = factory s" "mb (led_resume s) = mb s"
  "cpu_reset (led_resume s) = cpu_reset s"
  by (simp_all add: led_resume_def)

lemma warning_all_clear_simps [simp]:
  "pin_out (warning_all_clear s) = pin_out s" "pin_in (warning_all_clear s) = pin_in s"
  "timer (warning_all_clear s) = timer s" "store (warning_all_clear s) = store s"
  "radio (warning_all_clear s) = radio s" "valve (warning_all_clear s) = valve s"
  "status (warning_all_clear s) = position_status (valve_status (valve s))"
  "NowEvent (warn (warning_all_clear s)) = no_event"
  "allow_add_device (warn (warning_all_clear s)) = allow_add_device (warn s)"
  "heart (warning_all_clear s) = heart s" "keys (warning_all_clear s) = keys s"
  "dry (warning_all_clear s) = dry s" "rtc (warning_all_clear s) = rtc s"
  "ota (warning_all_clear s) = ota s" "factory (warning_all_clear s) = factory s"
  "mb (warning_all_clear s) = mb s" "cpu_reset (warning_all_clear s) = cpu_reset s"
  by (simp_all add: warning_all_clear_def Let_def get_valve_status_def)

lemmas callback_defs =
  slaver_low_power_callback_def slaver_ultra_low_power_callback_def slaver_sensor_leak_callback_def
  slaver_sensor_lost_callback_def slaver_offline_callback_def master_sensor_lost_callback_def
  master_sensor_leak_callback_def master_low_temp_callback_def valve_left_fail_callback_def
  valve_right_fail_callback_def

text \<open>The status the callback of an event ends in.\<close>

definition alarm_status :: "warning_callback \<Rightarrow> device_status" where
  "alarm_status cb =
     (case cb of
        ValveLeftFailEventCallback \<Rightarrow> ValveLeftFail | ValveRightFailEventCallback \<Rightarrow> ValveRightFail
      | SlaverLowPowerEventCallback \<Rightarrow> SlaverLowPower
      | SlaverUltraLowPowerEventCallback \<Rightarrow> SlaverUltraLowPower
      | SlaverSensorLeakEventCallback \<Rightarrow> SlaverSensorLeak
      | SlaverSensorLostEventCallback \<Rightarrow> SlaverSensorLost
      | SlaverOfflineEventCallback \<Rightarrow> SlaverOffline
      | MasterSensorLostEventCallback \<Rightarrow> MasterSensorLost
      | MasterSensorLeakEventCallback \<Rightarrow> MasterSensorLeak
      | MasterLowTempEventCallback \<Rightarrow> MasterLowTemp)"

lemma run_callback_status: "status (run_callback cb s) = alarm_status cb"
  by (cases cb) (simp_all add: run_callback_def alarm_status_def callback_defs)

lemma run_callback_simps [simp]:
  "NowEvent (warn (run_callback cb s)) = NowEvent (warn s)"
  "allow_add_device (warn (run_callback cb s)) = allow_add_device (warn s)"
  "pin_in (run_callback cb s) = pin_in s" "heart (run_callback cb s) = heart s"
  "keys (run_callback cb s) = keys s" "dry (run_callback cb s) = dry s" "rtc (run_callback cb s) = rtc s"
  "ota (run_callback cb s) = ota s" "factory (run_callback cb s) = factory s"
  "mb (run_callback cb s) = mb s" "cpu_reset (run_callback cb s) = cpu_reset s"
  "device_list (store (run_callback cb s)) = device_list (store s)"
  "heap_ok (store (run_callback cb s)) = heap_ok (store s)"
  "local_address (radio (run_callback cb s)) = local_address (radio s)"
  by (cases cb; simp add: run_callback_def callback_defs)+

lemma warning_enable_simps [simp]:
  "allow_add_device (warn (warning_enable e s)) = allow_add_device (warn s)"
  "pin_in (warning_enable e s) = pin_in s" "heart (warning_enable e s) = heart s"
  "keys (warning_enable e s) = keys s" "dry (warning_enable e s) = dry s" "rtc (warning_enable e s) = rtc s"
  "ota (warning_enable e s) = ota s" "factory (warning_enable e s) = factory s"
  "mb (warning_enable e s) = mb s" "cpu_reset (warning_enable e s) = cpu_reset s"
  "device_list (store (warning_enable e s)) = device_list (store s)"
  "heap_ok (store (warning_enable e s)) = heap_ok (store s)"
  "local_address (radio (warning_enable e s)) = local_address (radio s)"
  by (simp_all add: warning_enable_def Let_def split: option.split)

section \<open>The control invariant\<close>

text \<open>The priority of the event each alarm status belongs to.\<close>

definition alarm_priority :: "device_status \<Rightarrow> byte option" where
  "alarm_priority d =
     (case d of
        ValveLeftFail \<Rightarrow> Some 4 | ValveRightFail \<Rightarrow> Some 4 | SlaverLowPower \<Rightarrow> Some 3
      | SlaverUltraLowPower \<Rightarrow> Some 6 | SlaverSensorLeak \<Rightarrow> Some 8 | SlaverSensorLost \<Rightarrow> Some 1
      | SlaverOffline \<Rightarrow> Some 5 | MasterSensorLost \<Rightarrow> Some 1 | MasterSensorLeak \<Rightarrow> Some 7
      | MasterLowTemp \<Rightarrow> Some 2 | _ \<Rightarrow> None)"

text \<open>The alarms that close the valve, and those that also lock it.\<close>

definition closing_alarm :: "device_status \<Rightarrow> bool" where
  "closing_alarm d \<longleftrightarrow> d \<in> {SlaverUltraLowPower, SlaverSensorLeak, SlaverOffline,
     MasterSensorLeak, MasterLowTemp}"

definition locking_alarm :: "device_status \<Rightarrow> bool" where
  "locking_alarm d \<longleftrightarrow> d \<in> {SlaverUltraLowPower, SlaverSensorLeak}"

text \<open>
  The lock is a flag and its copy in flash agrees; a locked valve is closed; the event in
  force has the priority of the alarm shown; closing alarms keep the valve closed, locking
  alarms keep it locked; a side that failed its check marks the valve faulty.
\<close>

definition core_ok :: "sys \<Rightarrow> bool" where
  "core_ok s \<longleftrightarrow>
     lock_flag s \<and>
     (lock_status (valve s) = 1 \<longrightarrow> valve_status (valve s) = VALVE_STATUS_CLOSE) \<and>
     priority (NowEvent (warn s)) \<le> 8 \<and>
     (\<forall>p. alarm_priority (status s) = Some p \<longrightarrow> priority (NowEvent (warn s)) = p) \<and>
     (closing_alarm (status s) \<longrightarrow> valve_status (valve s) = VALVE_STATUS_CLOSE) \<and>
     (locking_alarm (status s) \<longrightarrow> lock_status (valve s) = 1) \<and>
     (valve_left_check_result (valve s) \<or> valve_right_check_result (valve s) \<longrightarrow>
        \<not> valve_valid (valve s))"

lemma alarm_simps [simp]:
  "alarm_priority ValveClose = None"
  "alarm_priority ValveOpen = None"
  "alarm_priority LearnDevice = None"
  "alarm_priority ValveLeftFail = Some 4"
  "alarm_priority ValveRightFail = Some 4"
  "alarm_priority SlaverLowPower = Some 3"
  "alarm_priority SlaverUltraLowPower = Some 6"
  "alarm_priority SlaverSensorLeak = Some 8"
  "alarm_priority SlaverSensorLost = Some 1"
  "alarm_priority SlaverOffline = Some 5"
  "alarm_priority MasterSensorLost = Some 1"
  "alarm_priority MasterSensorLeak = Some 7"
  "alarm_priority MasterSensorAbnormal = None"
  "alarm_priority MasterLowTemp = Some 2"
  "closing_alarm ValveClose = False"
  "closing_alarm ValveOpen = False"
  "closing_alarm LearnDevice = False"
  "closing_alarm ValveLeftFail = False"
  "closing_alarm ValveRightFail = False"
  "closing_alarm SlaverLowPower = False"
  "closing_alarm SlaverUltraLowPower = True"
  "closing_alarm SlaverSensorLeak = True"
  "closing_alarm SlaverSensorLost = False"
  "closing_alarm SlaverOffline = True"
  "closing_alarm MasterSensorLost = False"
  "closing_alarm MasterSensorLeak = True"
  "closing_alarm MasterSensorAbnormal = False"
  "closing_alarm MasterLowTemp = True"
  "locking_alarm ValveClose = False"
  "locking_alarm ValveOpen = False"
  "locking_alarm LearnDevice = False"
  "locking_alarm ValveLeftFail = False"
  "locking_alarm ValveRightFail = False"
  "locking_alarm SlaverLowPower = False"
  "locking_alarm SlaverUltraLowPower = True"
  "locking_alarm SlaverSensorLeak = True"
  "locking_alarm SlaverSensorLost = False"
  "locking_alarm SlaverOffline = False"
  "locking_alarm MasterSensorLost = False"
  "locking_alarm MasterSensorLeak = False"
  "locking_alarm MasterSensorAbnormal = False"
  "locking_alarm MasterLowTemp = False"
  by (simp_all add: alarm_priority_def closing_alarm_def locking_alarm_def)

lemma locking_closing: "locking_alarm d \<Longrightarrow> closing_alarm d"
  by (auto simp: locking_alarm_def closing_alarm_def)

lemma idle_alarm: "idle s \<Longrightarrow> \<not> closing_alarm (status s) \<and> \<not> locking_alarm (status s)"
  by (auto simp: idle_def)

lemma alarm_position [simp]:
  "alarm_priority (position_status p) = None" "\<not> closing_alarm (position_status p)"
  "\<not> locking_alarm (position_status p)"
  by (cases p; simp add: position_status_def)+

lemma core_ok_cong:
  "\<lbrakk>valve s' = valve s; status s' = status s; NowEvent (warn s') = NowEvent (warn s);
    flash_get_key ''valve_lock'' (ef_env (store s')) = flash_get_key ''valve_lock'' (ef_env (store s))\<rbrakk>
   \<Longrightarrow> core_ok s' = core_ok s"
  by (simp add: core_ok_def lock_flag_def)

lemma core_ok_frame [simp]:
  "core_ok (s\<lparr>leds := l\<rparr>) = core_ok s" "core_ok (s\<lparr>radio := r\<rparr>) = core_ok s"
  "core_ok (s\<lparr>timer := t\<rparr>) = core_ok s" "core_ok (s\<lparr>heart := h\<rparr>) = core_ok s"
  "core_ok (s\<lparr>keys := k\<rparr>) = core_ok s" "core_ok (s\<lparr>dry := d\<rparr>) = core_ok s"
  "core_ok (s\<lparr>rtc := c\<rparr>) = core_ok s" "core_ok (s\<lparr>ota := u\<rparr>) = core_ok s"
  "core_ok (s\<lparr>factory := f\<rparr>) = core_ok s" "core_ok (s\<lparr>mb := m\<rparr>) = core_ok s"
  "core_ok (s\<lparr>pin_in := i\<rparr>) = core_ok s" "core_ok (s\<lparr>pin_out := q\<rparr>) = core_ok s"
  "core_ok (s\<lparr>cpu_reset := b\<rparr>) = core_ok s"
  "core_ok (rt_pin_write p v s) = core_ok s" "core_ok (stop_timers ts s) = core_ok s"
  "core_ok (set_allow a s) = core_ok s" "core_ok (led_resume s) = core_ok s"
  "core_ok (gateway_connect_start s) = core_ok s"
  by (rule core_ok_cong; simp)+

context report
begin

lemma core_ok_op [simp]: "core_ok (op s) = core_ok s"
  by (rule core_ok_cong) simp_all

end

lemma flash_lock_op [simp]:
  "flash_get_key ''valve_lock'' (ef_env (store (valve_lock s))) =
     (if lock_status (valve s) = 0 then 1 else flash_get_key ''valve_lock'' (ef_env (store s)))"
  "flash_get_key ''valve_lock'' (ef_env (store (valve_unlock s))) =
     (if lock_status (valve s) = 1 then 0 else flash_get_key ''valve_lock'' (ef_env (store s)))"
  by (simp_all add: valve_lock_def valve_unlock_def)

lemma valve_close_core [keep]: "core_ok s \<Longrightarrow> core_ok (snd (valve_close s))"
  by (cases "valve_valid (valve s)") (auto simp: core_ok_def lock_flag_def)

lemma valve_close_lock_core [keep]:
  "core_ok s \<Longrightarrow> core_ok (snd (valve_close (valve_lock s)))"
  by (cases "valve_valid (valve s)") (auto simp: core_ok_def lock_flag_def)

lemma valve_open_core [keep]: "core_ok s \<Longrightarrow> core_ok (snd (valve_open s))"
  by (cases "lock_status (valve s) \<noteq> 1 \<and> valve_valid (valve s)")
    (auto simp: core_ok_def lock_flag_def valve_open_result)

lemma valve_unlock_core [keep]: "\<lbrakk>core_ok s; idle s\<rbrakk> \<Longrightarrow> core_ok (valve_unlock s)"
  using idle_alarm [of s] by (auto simp: core_ok_def lock_flag_def)

lemma warning_all_clear_core [keep]: "core_ok s \<Longrightarrow> core_ok (warning_all_clear s)"
  by (simp add: core_ok_def lock_flag_def no_event_def)

lemma close_report_core [keep]:
  "core_ok s \<Longrightarrow> core_ok (close_and_report s)" "core_ok s \<Longrightarrow> core_ok (open_and_report s)"
  using valve_close_core [of s] valve_open_core [of s]
  by (auto simp: close_and_report_def open_and_report_def split: prod.split)

text \<open>A callback run with the priority of its event already in force.\<close>

lemma run_callback_valve:
  "valve_valid (valve (run_callback cb s)) = valve_valid (valve s)"
  "valve_left_check_result (valve (run_callback cb s)) = valve_left_check_result (valve s)"
  "valve_right_check_result (valve (run_callback cb s)) = valve_right_check_result (valve s)"
  by (cases cb; simp add: run_callback_def callback_defs)+

lemma leak_status_event:
  "cb \<noteq> SlaverSensorLeakEventCallback \<Longrightarrow> alarm_status cb \<noteq> SlaverSensorLeak"
  by (cases cb) (simp_all add: alarm_status_def)

lemma run_callback_core:
  assumes "core_ok s"
    and "priority e \<le> 8" "alarm_priority (alarm_status cb) = Some (priority e)"
  shows "core_ok (run_callback cb (set_now e s))"
  using assms
  by (cases cb)
    (auto simp: run_callback_def callback_defs core_ok_def lock_flag_def alarm_status_def)

lemma app_event_callback:
  "e \<in> set app_events \<Longrightarrow> \<exists>cb. callback e = Some cb \<and> priority e \<le> 8 \<and>
     alarm_priority (alarm_status cb) = Some (priority e)"
  by (auto simp: app_events_def event_defs alarm_status_def)

lemma warning_enable_core [keep]:
  assumes "core_ok s" "e \<in> set app_events"
  shows "core_ok (warning_enable e s)"
  using assms app_event_callback [OF assms(2)] run_callback_core [OF assms(1)]
  by (auto simp: warning_enable_def Let_def)

section \<open>The table and the transmitter\<close>

lemma table_ok_lock_key:
  "table_ok (st\<lparr>ef_env := flash_set_key ''valve_lock'' v (ef_env st)\<rparr>) = table_ok st"
proof -
  have "entry_ok (flash_set_key ''valve_lock'' v e) d = entry_ok e d" for e d
    by (simp add: entry_ok_def blob_flash_set_other)
  then show ?thesis by (simp add: table_ok_def slots_ok_def saved_def flash_get_other)
qed

lemma table_ok_lock [simp]:
  "table_ok (store (set_lock v s)) = table_ok (store s)"
  "table_ok (store (valve_lock s)) = table_ok (store s)"
  "table_ok (store (valve_unlock s)) = table_ok (store s)"
  by (simp_all add: set_lock_def valve_lock_def valve_unlock_def table_ok_lock_key)

lemma table_ok_warning [simp]:
  "table_ok (store (run_callback cb s)) = table_ok (store s)"
  "table_ok (store (warning_enable e s)) = table_ok (store s)"
proof -
  show run: "table_ok (store (run_callback cb s)) = table_ok (store s)" for cb s
    by (cases cb) (simp_all add: run_callback_def callback_defs)
  show "table_ok (store (warning_enable e s)) = table_ok (store s)"
    by (auto simp: warning_enable_def Let_def run split: option.split)
qed

lemma radio_ok_warning [keep]:
  "radio_ok (radio s) \<Longrightarrow> radio_ok (radio (run_callback cb s))"
  "radio_ok (radio s) \<Longrightarrow> radio_ok (radio (warning_enable e s))"
proof -
  show run: "radio_ok (radio s) \<Longrightarrow> radio_ok (radio (run_callback cb s))" for cb s
    by (cases cb) (auto simp: run_callback_def callback_defs intro!: keep)
  show "radio_ok (radio s) \<Longrightarrow> radio_ok (radio (warning_enable e s))"
    by (auto simp: warning_enable_def Let_def intro!: run split: option.split)
qed

lemma close_report_simps [simp]:
  "store (close_and_report s) = store s" "store (open_and_report s) = store s"
  "local_address (radio (close_and_report s)) = local_address (radio s)"
  "local_address (radio (open_and_report s)) = local_address (radio s)"
  "cpu_reset (close_and_report s) = cpu_reset s" "cpu_reset (open_and_report s) = cpu_reset s"
  "NowEvent (warn (close_and_report s)) = NowEvent (warn s)"
  "NowEvent (warn (open_and_report s)) = NowEvent (warn s)"
  by (simp_all add: close_and_report_def open_and_report_def case_prod_beta)

lemma close_report_radio [keep]:
  "radio_ok (radio s) \<Longrightarrow> radio_ok (radio (close_and_report s))"
  "radio_ok (radio s) \<Longrightarrow> radio_ok (radio (open_and_report s))"
  by (auto simp: close_and_report_def open_and_report_def case_prod_beta intro!: keep)

text \<open>
  What holds of the unit between two events: the control invariant, the table and its copy in flash, the transmitter, and memory to allocate.
\<close>

definition good :: "sys \<Rightarrow> bool" where
  "good s \<longleftrightarrow> core_ok s \<and> table_ok (store s) \<and> radio_ok (radio s) \<and> heap_ok (store s)"

lemma good_frame [simp]:
  "good (s\<lparr>leds := l\<rparr>) = good s" "good (s\<lparr>timer := t\<rparr>) = good s" "good (s\<lparr>heart := h\<rparr>) = good s"
  "good (s\<lparr>keys := k\<rparr>) = good s" "good (s\<lparr>dry := d\<rparr>) = good s" "good (s\<lparr>rtc := c\<rparr>) = good s"
  "good (s\<lparr>ota := u\<rparr>) = good s" "good (s\<lparr>factory := f\<rparr>) = good s" "good (s\<lparr>mb := m\<rparr>) = good s"
  "good (s\<lparr>pin_in := i\<rparr>) = good s" "good (s\<lparr>pin_out := q\<rparr>) = good s"
  "good (s\<lparr>cpu_reset := b\<rparr>) = good s"
  "good (rt_pin_write p v s) = good s" "good (stop_timers ts s) = good s"
  "good (set_allow a s) = good s" "good (led_resume s) = good s"
  by (simp_all add: good_def)

lemma good_ops [keep]:
  "good s \<Longrightarrow> good (snd (valve_close s))" "good s \<Longrightarrow> good (snd (valve_open s))"
  "good s \<Longrightarrow> good (snd (valve_close (valve_lock s)))"
  "\<lbrakk>good s; idle s\<rbrakk> \<Longrightarrow> good (valve_unlock s)"
  "good s \<Longrightarrow> good (warning_all_clear s)"
  "good s \<Longrightarrow> good (close_and_report s)" "good s \<Longrightarrow> good (open_and_report s)"
  "\<lbrakk>good s; e \<in> set app_events\<rbrakk> \<Longrightarrow> good (warning_enable e s)"
  "good s \<Longrightarrow> good (gateway_connect_start s)"
  by (auto simp: good_def intro!: keep)

context sending_report
begin

lemma good_op [keep]: "good s \<Longrightarrow> good (op s)"
  by (simp add: good_def keep)

end

lemma good_store [keep]:
  "\<lbrakk>good s; table_ok st; heap_ok st; flash_get_key ''valve_lock'' (ef_env st) =
      flash_get_key ''valve_lock'' (ef_env (store s))\<rbrakk> \<Longrightarrow> good (s\<lparr>store := st\<rparr>)"
  unfolding good_def using core_ok_cong [of "s\<lparr>store := st\<rparr>" s] by simp

lemma good_radio [keep]: "\<lbrakk>good s; radio_ok r\<rbrakk> \<Longrightarrow> good (s\<lparr>radio := r\<rparr>)"
  by (simp add: good_def)

lemma app_event [simp]:
  "ValveLeftFailEvent \<in> set app_events" "ValveRightFailEvent \<in> set app_events"
  "SlaverLowPowerEvent \<in> set app_events" "SlaverUltraLowPowerEvent \<in> set app_events"
  "SlaverSensorLeakEvent \<in> set app_events" "SlaverSensorLostEvent \<in> set app_events"
  "SlaverOfflineEvent \<in> set app_events" "MasterSensorLostEvent \<in> set app_events"
  "MasterSensorLeakEvent \<in> set app_events" "MasterLowTempEvent \<in> set app_events"
  by (simp_all add: app_events_def)

lemma good_learn [keep]:
  "good s \<Longrightarrow> good (radio_learn_timer_callback s)"
  "good s \<Longrightarrow> good (radio_refresh_learn_device s)"
  "good s \<Longrightarrow> good (valvefail_warning_disable s)"
  "good s \<Longrightarrow> good (warning_offline_check s)"
  "good s \<Longrightarrow> good (warning_lost_clear s)"
  by (auto simp: radio_learn_timer_callback_def radio_refresh_learn_device_def
      valvefail_warning_disable_def warning_offline_check_def warning_lost_clear_def Let_def
      intro!: keep)

lemma good_learn_status: "good s \<Longrightarrow> idle s \<Longrightarrow> good (set_status LearnDevice s)"
  by (auto simp: good_def core_ok_def lock_flag_def)

lemma good_start_learn [keep]: "good s \<Longrightarrow> good (radio_start_learn_device s)"
proof (cases "idle s")
  case True
  moreover assume "good s"
  ultimately have "good (set_status LearnDevice (lamps led_valve_on_pause s))"
    by (intro good_learn_status) (simp_all add: idle_def)
  with True show ?thesis by (simp add: radio_start_learn_device_def)
next
  case False
  moreover assume "good s"
  ultimately show ?thesis by (auto simp: radio_start_learn_device_def intro!: keep)
qed

lemma good_valve_ops [keep]:
  "good s \<Longrightarrow> good (valve_delay_control v s)"
  "good s \<Longrightarrow> good (valve_delay_close_timer_callback s)"
  "good s \<Longrightarrow> good (valve_dry_contact_control l s)"
  by (auto simp: valve_delay_control_def valve_delay_close_timer_callback_def
      valve_dry_contact_control_def intro!: keep)

section \<open>Raising and clearing alarms\<close>

text \<open>
  C5. A leak reported by a sensor puts the unit in the leak alarm whatever it was doing: the
  valve is closed and locked, the lock is in flash, the alarm has the highest priority, and
  if the alarm is new and the valve not faulty, both motor pins are high and no valve timer is left running.
\<close>

theorem leak_alarm_closes_and_locks:
  assumes "core_ok s"
  shows "let s' = warning_enable SlaverSensorLeakEvent s in
    status s' = SlaverSensorLeak \<and> priority (NowEvent (warn s')) = 8 \<and>
    valve_status (valve s') = VALVE_STATUS_CLOSE \<and> lock_status (valve s') = 1 \<and>
    flash_get_key ''valve_lock'' (ef_env (store s')) = 1 \<and>
    (status s \<noteq> SlaverSensorLeak \<and> valve_valid (valve s) \<longrightarrow>
       pin_out s' MOTO_LEFT_CONTROL_PIN = PIN_HIGH \<and> pin_out s' MOTO_RIGHT_CONTROL_PIN = PIN_HIGH \<and>
       (\<forall>t \<in> set (valve_move_timers @ [valve_detect_once_timer]). \<not> running (timer s') t))"
proof -
  define s1 where "s1 = set_now ((NowEvent (warn s))\<lparr>last_id := 5, priority := 8,
      callback := Some SlaverSensorLeakEventCallback\<rparr>) s"
  have en: "warning_enable SlaverSensorLeakEvent s = slaver_sensor_leak_callback s1"
    using assms by (simp add: warning_enable_def event_defs Let_def run_callback_def s1_def core_ok_def)
  have core: "core_ok (warning_enable SlaverSensorLeakEvent s)"
    using assms by (rule warning_enable_core) (simp add: app_events_def)
  have st: "status (slaver_sensor_leak_callback s1) = SlaverSensorLeak"
    by (simp add: slaver_sensor_leak_callback_def)
  have "status s \<noteq> SlaverSensorLeak \<Longrightarrow> slaver_sensor_leak_callback s1 =
      set_status SlaverSensorLeak (lamps led_water_alarm_start (snd (valve_close (valve_lock s1))))"
    by (simp add: slaver_sensor_leak_callback_def s1_def)
  moreover have "valve_valid (valve (valve_lock s1)) = valve_valid (valve s)" by (simp add: s1_def)
  ultimately show ?thesis
    using core st unfolding en Let_def core_ok_def lock_flag_def
    by (auto simp: valve_close_def valve_turn_control_def)
qed

lemma new_unit_core [simp]: "core_ok new_unit"
  by (simp add: core_ok_def lock_flag_def new_unit_def flash_get_key_def ef_get_env_blob_def
      decode_number_def)

lemma leak_alarm_closes_and_locks_witness:
  "lock_status (valve (warning_enable SlaverSensorLeakEvent new_unit)) = 1 \<and>
   pin_out (warning_enable SlaverSensorLeakEvent new_unit) MOTO_LEFT_CONTROL_PIN"
  using leak_alarm_closes_and_locks [of new_unit] by (simp add: Let_def)

lemma warning_enable_priority:
  "e \<in> set app_events \<Longrightarrow>
   priority (NowEvent (warn (warning_enable e s))) = max (priority (NowEvent (warn s))) (priority e)"
  using app_event_callback [of e] by (auto simp: warning_enable_def Let_def max_def)

lemma warning_enable_status:
  assumes "e \<in> set app_events" "callback e = Some cb"
  shows "status (warning_enable e s) =
    (if priority (NowEvent (warn s)) \<le> priority e then alarm_status cb else status s)"
  using assms by (auto simp: warning_enable_def Let_def run_callback_status)

lemma warning_enable_leak_status:
  "core_ok s \<Longrightarrow> status (warning_enable SlaverSensorLeakEvent s) = SlaverSensorLeak"
  using warning_enable_status [of SlaverSensorLeakEvent SlaverSensorLeakEventCallback s]
  by (auto simp: core_ok_def app_events_def event_defs alarm_status_def)

text \<open>
  C6. An event of lower priority than the one in force changes nothing at all, and after any
  sequence of events the one in force has the highest priority raised; if that is at least
  the priority before, the status shown is an alarm of exactly that priority.
\<close>

theorem highest_priority_wins:
  assumes "core_ok s" and "set es \<subseteq> set app_events"
  shows "let s' = fold warning_enable es s; top = fold max (map priority es) (priority (NowEvent (warn s))) in
    priority (NowEvent (warn s')) = top \<and>
    ((\<exists>e \<in> set es. priority (NowEvent (warn s)) \<le> priority e) \<longrightarrow> alarm_priority (status s') = Some top) \<and>
    ((\<forall>e \<in> set es. priority e < priority (NowEvent (warn s))) \<longrightarrow> s' = s)"
proof -
  have top: "priority (NowEvent (warn (fold warning_enable es s))) =
      fold max (map priority es) (priority (NowEvent (warn s)))" if "set es \<subseteq> set app_events" for es s
    using that by (induction es arbitrary: s) (simp_all add: warning_enable_priority max.commute)
  have low: "fold warning_enable es s = s"
    if "\<forall>e \<in> set es. priority e < priority (NowEvent (warn s))" for es and s :: sys
    using that by (induction es) (auto simp: warning_enable_def Let_def not_le [symmetric])
  have alarm: "alarm_priority (status (fold warning_enable es s)) \<noteq> None"
    if "set es \<subseteq> set app_events" "\<exists>e \<in> set es. priority (NowEvent (warn s)) \<le> priority e"
    for es and s :: sys
    using that
  proof (induction es rule: rev_induct)
    case (snoc e es)
    let ?s = "fold warning_enable es s"
    obtain cb where cb: "callback e = Some cb" "alarm_priority (alarm_status cb) = Some (priority e)"
      using app_event_callback [of e] snoc.prems(1) by auto
    have st: "status (warning_enable e ?s) =
        (if priority (NowEvent (warn ?s)) \<le> priority e then alarm_status cb else status ?s)"
      using snoc.prems(1) cb by (intro warning_enable_status) auto
    show ?case
    proof (cases "\<exists>e \<in> set es. priority (NowEvent (warn s)) \<le> priority e")
      case True
      with snoc st cb show ?thesis by auto
    next
      case False
      then have "?s = s" by (intro low) (auto simp: not_le)
      with False snoc.prems(2) st cb show ?thesis by auto
    qed
  qed simp
  have "core_ok (fold warning_enable es s)"
    using assms by (induction es arbitrary: s) (simp_all add: warning_enable_core)
  then have "alarm_priority (status (fold warning_enable es s)) = Some p \<Longrightarrow>
      p = priority (NowEvent (warn (fold warning_enable es s)))" for p
    by (simp add: core_ok_def)
  with top [OF assms(2), of s] alarm [OF assms(2), of s] low [of es s] show ?thesis
    by (auto simp: Let_def)
qed

lemma highest_priority_wins_witness:
  "alarm_priority (status (fold warning_enable
     [SlaverLowPowerEvent, SlaverSensorLeakEvent, SlaverOfflineEvent] new_unit)) = Some 8"
proof -
  let ?es = "[SlaverLowPowerEvent, SlaverSensorLeakEvent, SlaverOfflineEvent]"
  have "set ?es \<subseteq> set app_events" by (simp add: app_events_def)
  moreover have "\<exists>e \<in> set ?es. priority (NowEvent (warn new_unit)) \<le> priority e"
    "fold max (map priority ?es) (priority (NowEvent (warn new_unit))) = 8"
    by (auto simp: event_defs max_def)
  ultimately show ?thesis
    using highest_priority_wins [of new_unit ?es] new_unit_core unfolding Let_def by metis
qed

text \<open>
  C39. The learn timer drops a leak alarm: an \<open>add device\<close> frame starts it in any status
  (\<open>radio_refresh_learn_device\<close>), and when it fires 30 seconds later the alarm is cleared although the table still
  has the leaking sensor.
\<close>

theorem learn_timer_drops_leak:
  assumes "core_ok s" "status s = SlaverSensorLeak"
  shows "let s1 = radio_refresh_learn_device s;
             s2 = radio_learn_timer_callback (s1\<lparr>timer := rt_timer_expire radio_learn_timer (timer s1)\<rparr>) in
    status s1 = SlaverSensorLeak \<and> running (timer s1) radio_learn_timer \<and>
    remaining (timer s1 radio_learn_timer) = Some (init_tick (timer s radio_learn_timer)) \<and>
    status s2 = ValveClose \<and> NowEvent (warn s2) = no_event \<and>
    aq_device_waterleak_find (store s2) = aq_device_waterleak_find (store s)"
  using assms
  by (simp add: radio_refresh_learn_device_def radio_learn_timer_callback_def core_ok_def
      position_status_def remaining_start Let_def)

lemma learn_timer_drops_leak_witness:
  "core_ok (warning_enable SlaverSensorLeakEvent new_unit) \<and>
   status (warning_enable SlaverSensorLeakEvent new_unit) = SlaverSensorLeak \<and>
   status (radio_learn_timer_callback (radio_refresh_learn_device
     (warning_enable SlaverSensorLeakEvent new_unit)\<lparr>timer :=
        rt_timer_expire radio_learn_timer (timer (radio_refresh_learn_device
          (warning_enable SlaverSensorLeakEvent new_unit)))\<rparr>)) = ValveClose"
proof -
  let ?s = "warning_enable SlaverSensorLeakEvent new_unit"
  have "core_ok ?s" by (rule warning_enable_core) (simp_all add: app_events_def)
  moreover have "status ?s = SlaverSensorLeak"
    by (rule warning_enable_leak_status) simp
  ultimately show ?thesis using learn_timer_drops_leak [of ?s] by (simp add: Let_def)
qed

text \<open>
  Learn mode: it starts only when no alarm is in force, opens the table for its 30 seconds
  without moving the valve, and both a second press and the end of the time close the table again and
  show the position of the valve. In every alarm the request changes nothing.
\<close>

theorem learn_window:
  "if idle s then
     let s1 = radio_start_learn_device s;
         pressed = radio_start_learn_device s1;
         over = radio_learn_timer_callback (s1\<lparr>timer := rt_timer_expire radio_learn_timer (timer s1)\<rparr>) in
     status s1 = LearnDevice \<and> allow_add_device (warn s1) = 1 \<and> valve s1 = valve s \<and>
     remaining (timer s1 radio_learn_timer) = Some (init_tick (timer s radio_learn_timer)) \<and>
     allow_add_device (warn pressed) = 0 \<and> \<not> running (timer pressed) radio_learn_timer \<and>
     status pressed = position_status (valve_status (valve s)) \<and> valve pressed = valve s \<and>
     allow_add_device (warn over) = 0 \<and> status over = position_status (valve_status (valve s)) \<and>
     valve over = valve s
   else if status s \<noteq> LearnDevice then radio_start_learn_device s = s
   else \<not> running (timer (radio_start_learn_device s)) radio_learn_timer"
  by (simp add: radio_start_learn_device_def radio_learn_timer_callback_def idle_def remaining_start
      gateway_connect_start_def Let_def)

lemma learn_window_witness:
  "allow_add_device (warn (radio_start_learn_device new_unit)) = 1 \<and>
   status (radio_start_learn_device (radio_start_learn_device new_unit)) = ValveClose"
proof -
  have "idle new_unit" by (simp add: idle_def)
  then show ?thesis using learn_window [of new_unit] by (simp add: Let_def position_status_def)
qed

end
