(* ===== verification/Valve_Check.thy ===== *)
theory Valve_Check
  imports Warning
begin

text \<open>
  The anti-jam check of the two valves (the timer callbacks of \<open>valve_work.c\<close>): turn the
  motor back for 3 seconds, see the end switch open, drive it again and see the switch
  closed; a side that fails marks the valve faulty and raises a warning.
\<close>

definition valve_left_turn_back_timer_callback :: "sys \<Rightarrow> sys" where
  "valve_left_turn_back_timer_callback s =
     (if rt_pin_read MOTO_LEFT_FULLY_OPEN_PIN s
      then timer_start valve_left_turn_check_timer
             ((rt_pin_write MOTO_LEFT_CONTROL_PIN PIN_LOW s)
               \<lparr>valve := (valve s)\<lparr>mb_valve_control_left := 1\<rparr>\<rparr>)
      else warning_enable ValveLeftFailEvent
             (s\<lparr>valve := (valve s)\<lparr>valve_valid := False, valve_left_check_result := True,
                 mb_valve_check_left := 0\<rparr>\<rparr>))"

definition valve_right_turn_back_timer_callback :: "sys \<Rightarrow> sys" where
  "valve_right_turn_back_timer_callback s =
     (if rt_pin_read MOTO_RIGHT_FULLY_OPEN_PIN s
      then timer_start valve_right_turn_check_timer
             ((rt_pin_write MOTO_RIGHT_CONTROL_PIN PIN_LOW s)
               \<lparr>valve := (valve s)\<lparr>mb_valve_control_right := 1\<rparr>\<rparr>)
      else warning_enable ValveRightFailEvent
             (s\<lparr>valve := (valve s)\<lparr>valve_valid := False, valve_right_check_result := True,
                 mb_valve_check_right := 0\<rparr>\<rparr>))"

definition valve_left_turn_check_timer_callback :: "sys \<Rightarrow> sys" where
  "valve_left_turn_check_timer_callback s =
     (let s1 = s\<lparr>valve := (valve s)\<lparr>mb_valve_check_left := 0\<rparr>\<rparr> in
      if \<not> rt_pin_read MOTO_LEFT_FULLY_OPEN_PIN s1
      then let s2 = (if \<not> valve_right_check_result (valve s1)
                     then valvefail_warning_disable (s1\<lparr>valve := (valve s1)\<lparr>valve_valid := True\<rparr>\<rparr>)
                     else s1)
           in gateway_warning_master_valve_check 1
                (s2\<lparr>valve := (valve s2)\<lparr>valve_left_check_result := False\<rparr>\<rparr>)
      else warning_enable ValveLeftFailEvent
             (s1\<lparr>valve := (valve s1)\<lparr>valve_valid := False, valve_left_check_result := True\<rparr>\<rparr>))"

definition valve_right_turn_check_timer_callback :: "sys \<Rightarrow> sys" where
  "valve_right_turn_check_timer_callback s =
     (let s1 = s\<lparr>valve := (valve s)\<lparr>mb_valve_check_right := 0\<rparr>\<rparr> in
      if \<not> rt_pin_read MOTO_RIGHT_FULLY_OPEN_PIN s1
      then let s2 = (if \<not> valve_left_check_result (valve s1)
                     then valvefail_warning_disable (s1\<lparr>valve := (valve s1)\<lparr>valve_valid := True\<rparr>\<rparr>)
                     else s1)
           in gateway_warning_master_valve_check 2
                (s2\<lparr>valve := (valve s2)\<lparr>valve_right_check_result := False\<rparr>\<rparr>)
      else warning_enable ValveRightFailEvent
             (s1\<lparr>valve := (valve s1)\<lparr>valve_valid := False, valve_right_check_result := True\<rparr>\<rparr>))"

definition valve_timers_create :: "timers \<Rightarrow> timers" where
  "valve_timers_create tm =
     rt_timer_create valve_right_turn_check_timer 10000 False
      (rt_timer_create valve_left_turn_check_timer 9000 False
      (rt_timer_create valve_right_turn_back_timer 3000 False
      (rt_timer_create valve_left_turn_back_timer 3000 False
      (rt_timer_create valve_delay_close_timer (4 * 60 * 60 * 1000) False
      (rt_timer_create valve_detect_once_timer (60 * 1000 * 5) False tm)))))"

definition valve_init :: "sys \<Rightarrow> sys" where
  "valve_init s =
     (let s1 = s\<lparr>valve := (valve s)\<lparr>lock_status :=
                   ucast (flash_get_key ''valve_lock'' (ef_env (store s)))\<rparr>\<rparr>;
          s2 = rt_pin_write MOTO_RIGHT_CONTROL_PIN PIN_HIGH (rt_pin_write MOTO_LEFT_CONTROL_PIN PIN_HIGH s1);
          s3 = s2\<lparr>timer := valve_timers_create (timer s2)\<rparr>
      in if aq_device_waterleak_find (store s3) then warning_enable SlaverSensorLeakEvent s3 else s3)"

lemmas check_callback_defs =
  valve_left_turn_back_timer_callback_def valve_right_turn_back_timer_callback_def
  valve_left_turn_check_timer_callback_def valve_right_turn_check_timer_callback_def

section \<open>The check keeps the invariant\<close>

lemma check_start_simps [simp]:
  "store (valve_check_start s) = store s" "radio (valve_check_start s) = radio s"
  "warn (valve_check_start s) = warn s" "cpu_reset (valve_check_start s) = cpu_reset s"
  "pin_in (valve_check_start s) = pin_in s"
  "lock_status (valve (valve_check_start s)) = lock_status (valve s)"
  "valve_status (valve (valve_check_start s)) = valve_status (valve s)"
  "valve_valid (valve (valve_check_start s)) = valve_valid (valve s)"
  "keys (valve_check_start s) = keys s" "rtc (valve_check_start s) = rtc s"
  by (simp_all add: valve_check_start_def valve_left_check_start_def valve_right_check_start_def)

lemma check_start_results:
  "valve_left_check_result (valve (valve_check_start s)) \<Longrightarrow> valve_left_check_result (valve s)"
  "valve_right_check_result (valve (valve_check_start s)) \<Longrightarrow> valve_right_check_result (valve s)"
  by (auto simp: valve_check_start_def valve_left_check_start_def valve_right_check_start_def
      split: if_splits)

lemma good_check_start [keep]: "good s \<Longrightarrow> good (valve_check_start s)"
  using check_start_results [of s] by (auto simp: good_def core_ok_def lock_flag_def)

lemma good_valve_marks [keep]:
  "\<lbrakk>good s; lock_status v = lock_status (valve s); valve_status v = valve_status (valve s);
    valve_valid v \<Longrightarrow> valve_valid (valve s);
    valve_valid v \<Longrightarrow> valve_left_check_result v = valve_left_check_result (valve s);
    valve_valid v \<Longrightarrow> valve_right_check_result v = valve_right_check_result (valve s)\<rbrakk>
   \<Longrightarrow> good (s\<lparr>valve := v\<rparr>)"
  by (auto simp: good_def core_ok_def lock_flag_def)

lemma disable_simps [simp]:
  "valve (valvefail_warning_disable s) = valve s" "store (valvefail_warning_disable s) = store s"
  "radio (valvefail_warning_disable s) = radio s" "pin_out (valvefail_warning_disable s) = pin_out s"
  "pin_in (valvefail_warning_disable s) = pin_in s" "timer (valvefail_warning_disable s) = timer s"
  "cpu_reset (valvefail_warning_disable s) = cpu_reset s"
  by (simp_all add: valvefail_warning_disable_def)

text \<open>A side that passes: its mark is cleared, and the fault only when the other side has none.\<close>

lemma good_left_pass:
  "good s \<Longrightarrow> good ((if \<not> valve_right_check_result (valve s)
      then valvefail_warning_disable (s\<lparr>valve := (valve s)\<lparr>valve_valid := True\<rparr>\<rparr>) else s)
     \<lparr>valve := (valve s)\<lparr>valve_valid := (if \<not> valve_right_check_result (valve s) then True
        else valve_valid (valve s)), valve_left_check_result := False\<rparr>\<rparr>)"
  by (cases "status s = ValveLeftFail \<or> status s = ValveRightFail")
    (auto simp: good_def core_ok_def lock_flag_def valvefail_warning_disable_def no_event_def)

lemma good_right_pass:
  "good s \<Longrightarrow> good ((if \<not> valve_left_check_result (valve s)
      then valvefail_warning_disable (s\<lparr>valve := (valve s)\<lparr>valve_valid := True\<rparr>\<rparr>) else s)
     \<lparr>valve := (valve s)\<lparr>valve_valid := (if \<not> valve_left_check_result (valve s) then True
        else valve_valid (valve s)), valve_right_check_result := False\<rparr>\<rparr>)"
  by (cases "status s = ValveLeftFail \<or> status s = ValveRightFail")
    (auto simp: good_def core_ok_def lock_flag_def valvefail_warning_disable_def no_event_def)

lemma good_check_callbacks [keep]:
  assumes "good s"
  shows "good (valve_left_turn_back_timer_callback s)" "good (valve_right_turn_back_timer_callback s)"
    "good (valve_left_turn_check_timer_callback s)" "good (valve_right_turn_check_timer_callback s)"
proof -
  show "good (valve_left_turn_back_timer_callback s)" "good (valve_right_turn_back_timer_callback s)"
    using assms by (auto simp: check_callback_defs intro!: keep)
  have "good (s\<lparr>valve := (valve s)\<lparr>mb_valve_check_left := 0\<rparr>\<rparr>)"
    "good (s\<lparr>valve := (valve s)\<lparr>mb_valve_check_right := 0\<rparr>\<rparr>)"
    using assms by (auto intro!: keep)
  note l = good_left_pass [OF this(1)] and r = good_right_pass [OF this(2)]
  show "good (valve_left_turn_check_timer_callback s)"
  proof (cases "rt_pin_read MOTO_LEFT_FULLY_OPEN_PIN s")
    case False
    with l show ?thesis
      by (auto simp: valve_left_turn_check_timer_callback_def Let_def rt_pin_read_def
        intro!: gw_warning_master_valve_check.good_op)
  next
    case True
    with assms show ?thesis
      by (auto simp: valve_left_turn_check_timer_callback_def Let_def rt_pin_read_def intro!: keep)
  qed
  show "good (valve_right_turn_check_timer_callback s)"
  proof (cases "rt_pin_read MOTO_RIGHT_FULLY_OPEN_PIN s")
    case False
    with r show ?thesis
      by (auto simp: valve_right_turn_check_timer_callback_def Let_def rt_pin_read_def
        intro!: gw_warning_master_valve_check.good_op)
  next
    case True
    with assms show ?thesis
      by (auto simp: valve_right_turn_check_timer_callback_def Let_def rt_pin_read_def intro!: keep)
  qed
qed

section \<open>What the check does\<close>

text \<open>One side from start to end, the end switch read as given.\<close>

definition left_check_run :: "bool \<Rightarrow> bool \<Rightarrow> sys \<Rightarrow> sys" where
  "left_check_run back_open driven_open s =
     (let s1 = valve_left_check_start (s\<lparr>pin_in := (pin_in s)(MOTO_LEFT_FULLY_OPEN_PIN := False)\<rparr>);
          s2 = valve_left_turn_back_timer_callback
                 (s1\<lparr>pin_in := (pin_in s1)(MOTO_LEFT_FULLY_OPEN_PIN := back_open),
                     timer := rt_timer_expire valve_left_turn_back_timer (timer s1)\<rparr>)
      in if back_open
         then valve_left_turn_check_timer_callback
                (s2\<lparr>pin_in := (pin_in s2)(MOTO_LEFT_FULLY_OPEN_PIN := driven_open),
                    timer := rt_timer_expire valve_left_turn_check_timer (timer s2)\<rparr>)
         else s2)"

text \<open>
  C26. The check of the left side passes exactly when the end switch opened while the motor
  turned back and closed again after it was driven: then the motor pin is low again, the side has no mark
  and the valve is usable unless the right side has failed. Otherwise the valve is marked
  faulty and cannot be opened.
\<close>

theorem left_check_outcome:
  "let s' = left_check_run back_open driven_open s in
    if back_open \<and> \<not> driven_open
    then \<not> valve_left_check_result (valve s') \<and> \<not> pin_out s' MOTO_LEFT_CONTROL_PIN \<and>
      mb_valve_check_left (valve s') = 0 \<and>
      (valve_valid (valve s') \<longleftrightarrow> valve_valid (valve s) \<or> \<not> valve_right_check_result (valve s))
    else valve_left_check_result (valve s') \<and> \<not> valve_valid (valve s') \<and>
      mb_valve_check_left (valve s') = 0 \<and> \<not> fst (valve_open s')"
proof -
  have en: "valve_valid (valve (warning_enable ValveLeftFailEvent t)) = valve_valid (valve t)"
    "valve_left_check_result (valve (warning_enable ValveLeftFailEvent t)) = valve_left_check_result (valve t)"
    "mb_valve_check_left (valve (warning_enable ValveLeftFailEvent t)) = mb_valve_check_left (valve t)" for t
    by (simp_all add: warning_enable_def Let_def event_defs run_callback_def callback_defs)
  show ?thesis
    unfolding left_check_run_def
    by (simp add: Let_def valve_left_check_start_def check_callback_defs rt_pin_read_def en
        valve_open_result)
qed

lemma left_check_outcome_witness:
  "valve_valid (valve (left_check_run True False new_unit)) \<and>
   \<not> valve_valid (valve (left_check_run True True new_unit)) \<and>
   \<not> valve_valid (valve (left_check_run False True new_unit))"
  using left_check_outcome [of True False new_unit] left_check_outcome [of True True new_unit]
    left_check_outcome [of False True new_unit]
  by (simp add: Let_def)

text \<open>
  Closing a faulty valve does not cancel a check in progress: if the motor was being turned
  back and the end switch opened, the callback drives the motor pin low again, so the valve is opened
  although its status is closed.
\<close>

theorem faulty_close_reopens:
  assumes "\<not> valve_valid (valve s)" "running (timer s) valve_left_turn_back_timer"
    and "pin_in s MOTO_LEFT_FULLY_OPEN_PIN"
  shows "let s1 = snd (valve_close s);
             s2 = valve_left_turn_back_timer_callback
                    (s1\<lparr>timer := rt_timer_expire valve_left_turn_back_timer (timer s1)\<rparr>) in
    pin_out s1 MOTO_LEFT_CONTROL_PIN = PIN_HIGH \<and> running (timer s1) valve_left_turn_back_timer \<and>
    pin_out s2 MOTO_LEFT_CONTROL_PIN = PIN_LOW \<and> valve_status (valve s2) = VALVE_STATUS_CLOSE"
  using assms
  by (simp add: Let_def valve_close_def valve_turn_control_def valve_left_turn_back_timer_callback_def
      rt_pin_read_def)

lemma faulty_close_reopens_witness:
  "\<exists>s. \<not> valve_valid (valve s) \<and> running (timer s) valve_left_turn_back_timer \<and>
     (let s1 = snd (valve_close s);
          s2 = valve_left_turn_back_timer_callback
                 (s1\<lparr>timer := rt_timer_expire valve_left_turn_back_timer (timer s1)\<rparr>) in
      pin_out s1 MOTO_LEFT_CONTROL_PIN \<and> \<not> pin_out s2 MOTO_LEFT_CONTROL_PIN)"
proof -
  let ?s = "new_unit\<lparr>valve := (valve new_unit)\<lparr>valve_valid := False\<rparr>,
      timer := rt_timer_start valve_left_turn_back_timer
        (rt_timer_create valve_left_turn_back_timer 3000 False (timer new_unit)),
      pin_in := (\<lambda>_. True)\<rparr>"
  show ?thesis
    using faulty_close_reopens [of ?s] by (intro exI [of _ ?s]) (simp add: Let_def)
qed

end
