(* ===== verification/Device_Service.thy ===== *)
theory Device_Service
  imports Valve_Check
begin

text \<open>
  The operations of \<open>storage/flashwork.c\<close> that reach beyond the table: creating a device
  beeps, deleting door units reports each to the gateway, and the heartbeat check reports devices that
  went offline and raises the offline alarm. Also here: lifting the table operations to the
  whole state.
\<close>

definition on_store :: "(storage \<Rightarrow> storage) \<Rightarrow> sys \<Rightarrow> sys" where
  "on_store f s = s\<lparr>store := f (store s)\<rparr>"

definition on_radio :: "(radio_st \<Rightarrow> radio_st) \<Rightarrow> sys \<Rightarrow> sys" where
  "on_radio f s = s\<lparr>radio := f (radio s)\<rparr>"

definition aq_device_create :: "byte \<Rightarrow> byte \<Rightarrow> u32 \<Rightarrow> sys \<Rightarrow> device option \<times> sys" where
  "aq_device_create rl ty did s =
     (let ((r, beep), st) = device_create rl ty did (store s); s1 = s\<lparr>store := st\<rparr>
      in (r, if beep then lamps beep_once s1 else s1))"

definition aq_doorunit_delete :: "sys \<Rightarrow> sys" where
  "aq_doorunit_delete s =
     fold (\<lambda>d s. if dev_type d = DEVICE_TYPE_DOORUNIT
                 then gateway_sync_device_del (device_id d)
                        (on_store (\<lambda>st. snd (aq_device_delete (device_id d) st)) s)
                 else s) (device_list (store s)) s"

definition aq_device_heart_check :: "sys \<Rightarrow> sys" where
  "aq_device_heart_check s =
     (let s1 = on_store heart_check_loop s;
          s2 = (if aq_device_endunit_offline_find (store s1)
                then warning_enable SlaverOfflineEvent (gateway_warning_slaver_offline s1) else s1)
      in if aq_device_door_offline_find (store s2) then gateway_warning_slaver_offline s2 else s2)"

text \<open>\<open>storage_init\<close> from the table's point of view.\<close>

definition storage_init :: "sys \<Rightarrow> sys" where
  "storage_init s = on_store reset_storage s"

section \<open>Effects\<close>

lemma on_store_simps [simp]:
  "store (on_store f s) = f (store s)" "valve (on_store f s) = valve s" "warn (on_store f s) = warn s"
  "radio (on_store f s) = radio s" "leds (on_store f s) = leds s" "timer (on_store f s) = timer s"
  "pin_in (on_store f s) = pin_in s" "pin_out (on_store f s) = pin_out s"
  "cpu_reset (on_store f s) = cpu_reset s" "keys (on_store f s) = keys s" "ota (on_store f s) = ota s"
  by (simp_all add: on_store_def)

lemma on_radio_simps [simp]:
  "store (on_radio f s) = store s" "valve (on_radio f s) = valve s" "warn (on_radio f s) = warn s"
  "radio (on_radio f s) = f (radio s)" "leds (on_radio f s) = leds s" "timer (on_radio f s) = timer s"
  "pin_in (on_radio f s) = pin_in s" "pin_out (on_radio f s) = pin_out s"
  "cpu_reset (on_radio f s) = cpu_reset s" "keys (on_radio f s) = keys s" "ota (on_radio f s) = ota s"
  "idle (on_radio f s) = idle s"
  by (simp_all add: on_radio_def idle_def)

text \<open>The lock's key is not touched by the table.\<close>

definition lock_key :: "storage \<Rightarrow> u32" where
  "lock_key st = flash_get_key ''valve_lock'' (ef_env st)"

lemma lock_key_setters [simp]:
  "lock_key (aq_device_waterleak_set did v st) = lock_key st"
  "lock_key (aq_device_wirelost_set did v st) = lock_key st"
  "lock_key (aq_device_battery_set did v st) = lock_key st"
  "lock_key (aq_device_online_set did v st) = lock_key st"
  "lock_key (aq_device_rssi_level_set did v st) = lock_key st"
  by (simp_all add: lock_key_def setter_defs waterleak_field.set_simps wirelost_field.set_simps
      battery_field.set_simps online_field.set_simps rssi_level_field.set_simps)

lemma lock_key_loops [simp]:
  "lock_key (aq_device_recv_set did v st) = lock_key st"
  "lock_key (aq_device_heart_recv_clear st) = lock_key st"
  "lock_key (write_device did f st) = lock_key st"
  "lock_key (snd (aq_device_delete did st)) = lock_key st"
  unfolding lock_key_def aq_device_recv_set_def aq_device_heart_recv_clear_def
  by (simp_all add: recv_node.keys_kept recv_clear_node.keys_kept write_device_def)

lemma lock_key_heart [simp]:
  "lock_key (snd (aq_device_heart_recv src rl st)) = lock_key st"
  "lock_key (heart_check_loop st) = lock_key st"
proof -
  show "lock_key (snd (aq_device_heart_recv src rl st)) = lock_key st"
    by (simp add: aq_device_heart_recv_def split: option.split)
  have "lock_key (heart_check_node i st) = lock_key st" for i st
    using lock_key_setters(4) by (simp add: heart_check_node_def Let_def) (simp add: lock_key_def)
  then show "lock_key (heart_check_loop st) = lock_key st"
    unfolding heart_check_loop_def by (rule fold_same)
qed

lemma lock_key_gateway_delete [simp]: "lock_key (aq_gateway_delete st) = lock_key st"
  unfolding aq_gateway_delete_def by (rule fold_same) simp

lemma lock_key_create [simp]: "lock_key (snd (device_create rl ty did st)) = lock_key st"
  by (auto simp: device_create_def get_free_device_slot_def lock_key_def Let_def flash_get_other
      split: option.split)

lemma heap_kept [simp]:
  "heap_ok (aq_device_waterleak_set did v st) = heap_ok st"
  "heap_ok (aq_device_wirelost_set did v st) = heap_ok st"
  "heap_ok (aq_device_battery_set did v st) = heap_ok st"
  "heap_ok (aq_device_online_set did v st) = heap_ok st"
  "heap_ok (aq_device_rssi_level_set did v st) = heap_ok st"
  "heap_ok (write_device did f st) = heap_ok st"
  "heap_ok (aq_device_recv_set did v st) = heap_ok st"
  "heap_ok (aq_device_heart_recv_clear st) = heap_ok st"
  by (simp_all add: setter_defs waterleak_field.set_simps wirelost_field.set_simps
      battery_field.set_simps online_field.set_simps rssi_level_field.set_simps write_device_def
      aq_device_recv_set_def aq_device_heart_recv_clear_def recv_node.keys_kept recv_clear_node.keys_kept)

lemma heap_kept_heart [simp]:
  "heap_ok (snd (aq_device_heart_recv src rl st)) = heap_ok st"
  "heap_ok (heart_check_loop st) = heap_ok st"
proof -
  show "heap_ok (snd (aq_device_heart_recv src rl st)) = heap_ok st"
    by (simp add: aq_device_heart_recv_def split: option.split)
  have "heap_ok (heart_check_node i st) = heap_ok st" for i st
    by (simp add: heart_check_node_def Let_def)
  then show "heap_ok (heart_check_loop st) = heap_ok st"
    unfolding heart_check_loop_def by (rule fold_same)
qed

lemma gateway_delete_heap [simp]: "heap_ok (aq_gateway_delete st) = heap_ok st"
  unfolding aq_gateway_delete_def by (rule fold_same) simp

lemma good_on_store [keep]:
  "\<lbrakk>good s; table_ok (f (store s)); lock_key (f (store s)) = lock_key (store s);
    heap_ok (f (store s)) = heap_ok (store s)\<rbrakk> \<Longrightarrow> good (on_store f s)"
  unfolding on_store_def by (rule good_store) (simp_all add: lock_key_def good_def)

lemma good_on_radio [keep]:
  "\<lbrakk>good s; radio_ok (f (radio s))\<rbrakk> \<Longrightarrow> good (on_radio f s)"
  unfolding on_radio_def by (rule good_radio)

lemma good_parts: "good s \<Longrightarrow> table_ok (store s)" "good s \<Longrightarrow> radio_ok (radio s)" "good s \<Longrightarrow> core_ok s" "good s \<Longrightarrow> heap_ok (store s)"
  by (simp_all add: good_def)

text \<open>Creating needs memory: without it a slot is lost and the table is no longer consistent.\<close>

lemma good_create [keep]:
  "\<lbrakk>good s; heap_ok (store s)\<rbrakk> \<Longrightarrow> good (snd (aq_device_create rl ty did s))"
proof -
  assume a: "good s" "heap_ok (store s)"
  obtain r b st where c: "device_create rl ty did (store s) = ((r, b), st)" by (metis surj_pair)
  have "table_ok st" using device_create_table_ok [of "store s" rl ty did] a good_parts(1) c by simp
  moreover have "heap_ok st" using device_create_heap [of rl ty did "store s"] a c by simp
  moreover have "lock_key st = lock_key (store s)" using lock_key_create [of rl ty did "store s"] c by simp
  ultimately have "good (s\<lparr>store := st\<rparr>)" using a(1) by (intro good_store) (simp_all add: lock_key_def)
  then show ?thesis by (simp add: aq_device_create_def c Let_def)
qed

lemma good_doorunit_delete [keep]: "good s \<Longrightarrow> good (aq_doorunit_delete s)"
  unfolding aq_doorunit_delete_def by (rule fold_keep) (auto intro!: keep good_parts)

lemma doorunit_delete_heap [simp]: "heap_ok (store (aq_doorunit_delete s)) = heap_ok (store s)"
  unfolding aq_doorunit_delete_def by (rule fold_same) simp

lemma good_heart_check [keep]: "good s \<Longrightarrow> good (aq_device_heart_check s)"
  by (auto simp: aq_device_heart_check_def Let_def intro!: keep good_parts)

section \<open>Answering a device\<close>

text \<open>
  The header every handler fills for its answer: acknowledgement flag set, unconfirmed
  downlink, to the sender of the frame. \<open>bytes\<close> is what \<open>tx_data\<close> points to.
\<close>

definition reply :: "rx_format \<Rightarrow> byte \<Rightarrow> byte list \<Rightarrow> sys \<Rightarrow> tx_format" where
  "reply rx cmd bytes s =
     tx_zero\<lparr>msg_ack := 1, tx_msg_type := MSG_UNCONFIRMED_DOWNLINK, dest_addr := rx_source_addr rx,
       source_addr := local_address (radio s), tx_command := cmd, tx_data := bytes,
       tx_len := length bytes\<rparr>"

text \<open>
  Reading a field through the device pointer of a handler. The pointer is \<open>aq_device_find\<close>
  of the sender's address, so it is the identifier here, and it stays valid: no handler deletes the device it works on.
\<close>

definition dev_field :: "(device \<Rightarrow> byte) \<Rightarrow> u32 \<Rightarrow> sys \<Rightarrow> byte" where
  "dev_field f did s = (case aq_device_find did (store s) of Some d \<Rightarrow> f d | None \<Rightarrow> 0)"

lemma radio_senders_keep [keep]:
  "radio_ok r \<Longrightarrow> radio_ok (radio_endunit_command_send tx r)"
  "radio_ok r \<Longrightarrow> radio_ok (radio_doorunit_command_send tx r)"
  "radio_ok r \<Longrightarrow> radio_ok (radio_motion_command_send tx r)"
  "radio_ok r \<Longrightarrow> radio_ok (radio_factory_command_send tx r)"
  by (simp_all add: radio_endunit_command_send_def radio_doorunit_command_send_def
      radio_motion_command_send_def radio_factory_command_send_def keep)

definition local_addr :: "sys \<Rightarrow> u32" where
  "local_addr s = local_address (radio s)"

section \<open>The heartbeat check\<close>

text \<open>
  C27. The check every 48 hours: each device but the gateway that was not heard since the last check goes offline and all
  flags are cleared for the next period; if a water sensor is offline the offline alarm is raised unless
  a stronger one is in force, and it closes the valve; otherwise the status does not change.
\<close>

theorem heart_check_outcome:
  assumes "distinct (map device_id (device_list (store s)))" "core_ok s"
  shows "let s' = aq_device_heart_check s in
    device_list (store s') = map (\<lambda>d. if dev_type d = DEVICE_TYPE_GATEWAY then d
        else d\<lparr>recv := 0, online := if recv d = 0 then 0 else online d\<rparr>) (device_list (store s)) \<and>
    (aq_device_endunit_offline_find (store s') \<and> priority (NowEvent (warn s)) \<le> 5 \<longrightarrow>
       status s' = SlaverOffline \<and> valve_status (valve s') = VALVE_STATUS_CLOSE) \<and>
    (\<not> aq_device_endunit_offline_find (store s') \<or> priority (NowEvent (warn s)) > 5 \<longrightarrow>
       status s' = status s \<and> valve s' = valve s)"
proof -
  define s1 where "s1 = on_store heart_check_loop s"
  define s2 where "s2 = (if aq_device_endunit_offline_find (store s1)
      then warning_enable SlaverOfflineEvent (gateway_warning_slaver_offline s1) else s1)"
  have dl: "device_list (store s1) = map (\<lambda>d. if dev_type d = DEVICE_TYPE_GATEWAY then d
        else d\<lparr>recv := 0, online := if recv d = 0 then 0 else online d\<rparr>) (device_list (store s))"
    using heart_check_loop_list [OF assms(1)] by (simp add: s1_def heart_checked_def comp_def)
  have e: "aq_device_heart_check s = (if aq_device_door_offline_find (store s2)
      then gateway_warning_slaver_offline s2 else s2)"
    by (simp add: aq_device_heart_check_def s1_def s2_def Let_def)
  have dl2: "device_list (store s2) = device_list (store s1)" by (simp add: s2_def)
  have off: "aq_device_endunit_offline_find (store s2) = aq_device_endunit_offline_find (store s1)"
    by (simp add: aq_device_endunit_offline_find_def dl2)
  have core: "core_ok s1" using assms(2) by (simp add: s1_def core_ok_def lock_flag_def
      lock_key_heart(2) [unfolded lock_key_def])
  have raise: "status s2 = SlaverOffline \<and> valve_status (valve s2) = VALVE_STATUS_CLOSE"
    if o: "aq_device_endunit_offline_find (store s1)" and p: "priority (NowEvent (warn s)) \<le> 5"
  proof -
    have "core_ok (gateway_warning_slaver_offline s1)" using core by simp
    then have "core_ok s2" using o unfolding s2_def by (simp add: warning_enable_core app_events_def)
    moreover have "status s2 = SlaverOffline"
      using o p warning_enable_status [of SlaverOfflineEvent SlaverOfflineEventCallback
          "gateway_warning_slaver_offline s1"]
      by (simp add: s2_def app_events_def event_defs alarm_status_def s1_def)
    ultimately show ?thesis by (simp add: core_ok_def)
  qed
  have keep_status: "status s2 = status s \<and> valve s2 = valve s"
    if "\<not> aq_device_endunit_offline_find (store s1) \<or> priority (NowEvent (warn s)) > 5"
    using that by (auto simp: s2_def s1_def warning_enable_def event_defs Let_def)
  have final: "store (aq_device_heart_check s) = store s2" "status (aq_device_heart_check s) = status s2"
    "valve (aq_device_heart_check s) = valve s2" by (simp_all add: e)
  show ?thesis
    unfolding Let_def final off using dl dl2 raise keep_status by auto
qed

lemma heart_check_outcome_witness:
  "let s = new_unit\<lparr>store := with_device 0 2 DEVICE_TYPE_ENDUNIT 9 (store new_unit)\<rparr>;
       s' = aq_device_heart_check s
   in map online (device_list (store s')) = [0] \<and> status s' = SlaverOffline"
proof -
  define s where "s = new_unit\<lparr>store := with_device 0 2 DEVICE_TYPE_ENDUNIT 9 (store new_unit)\<rparr>"
  have dl: "device_list (store s) = [new_device 0 2 DEVICE_TYPE_ENDUNIT 9]"
    by (simp add: s_def with_device_def Let_def)
  have "core_ok s"
    using new_unit_core
    by (simp add: s_def core_ok_def lock_flag_def with_device_def Let_def flash_get_other)
  moreover have "priority (NowEvent (warn s)) = 0" by (simp add: s_def)
  ultimately show ?thesis
    using heart_check_outcome [of s] unfolding s_def [symmetric] Let_def
    by (simp add: dl new_device_def device_type_defs aq_device_endunit_offline_find_def)
qed

end
