(* ===== verification/Proto_Endunit.thy ===== *)
theory Proto_Endunit
  imports Device_Service
begin

text \<open>
  Frames from the water sensors (\<open>radio_protocol/radio_protocol_endunit.c\<close>): heartbeat, learning,
  valve control and warnings. \<open>did\<close> is the device the handler was called for.
\<close>

definition radio_frame_endunit_parse_heart :: "rx_format \<Rightarrow> u32 \<Rightarrow> sys \<Rightarrow> sys" where
  "radio_frame_endunit_parse_heart rx did s =
     (let level = rx_data rx 2; warn_status = rx_data rx 3;
          s1 = on_radio (radio_endunit_command_send (reply rx HEART_UPLOAD_CMD [] s)) s;
          s2 = on_store (aq_device_battery_set did level) s1;
          s3 = (if dev_field battery did s2 = 1 then warning_enable SlaverLowPowerEvent s2
                else if dev_field battery did s2 = 2 then warning_enable SlaverUltraLowPowerEvent s2
                else s2)
      in gateway_warning_endunit_heart did level warn_status (dev_field rssi_level did s3) s3)"

definition radio_frame_endunit_parse_learn :: "rx_format \<Rightarrow> sys \<Rightarrow> sys" where
  "radio_frame_endunit_parse_learn rx s =
     (if rx_dest_addr rx = 0xFFFFFFFF \<and> allow_add_device (warn s) = 1
      then on_radio (radio_endunit_command_send (reply rx LEARN_DEVICE_CMD [0] s)) s
      else if rx_dest_addr rx = local_addr s
      then
        let sub_command = rx_data rx 2;
            s1 = on_radio (radio_endunit_command_send (reply rx LEARN_DEVICE_CMD [sub_command] s)) s
        in if sub_command = 1
           then case aq_device_create (rx_rssi_level rx) DEVICE_TYPE_ENDUNIT (rx_source_addr rx) s1 of
                  (None, s2) \<Rightarrow> lamps learn_fail_ring s2
                | (Some d, s2) \<Rightarrow>
                    gateway_sync_device_add DEVICE_TYPE_ENDUNIT (rx_source_addr rx) (rx_rssi_level rx)
                      (radio_refresh_learn_device (lamps beep_once s2))
           else if sub_command = 2 then radio_start_learn_device s1
           else s1
      else s)"

definition radio_frame_endunit_parse_valve :: "rx_format \<Rightarrow> u32 \<Rightarrow> sys \<Rightarrow> sys" where
  "radio_frame_endunit_parse_valve rx did s =
     (let v = rx_data rx 2;
          s0 = on_store (write_device did (\<lambda>d. d\<lparr>rssi_level := rx_rssi_level rx\<rparr>)) s;
          s1 = on_radio (radio_endunit_command_send (reply rx CONTROL_VALVE_CMD [v] s0)) s0
      in if v \<noteq> 0
         then if idle s1
              then gateway_control_slaver_control (rx_source_addr rx) 1 (rx_rssi_level rx)
                     (snd (valve_open (valve_unlock s1)))
              else s1
         else
           let s2 = on_store (aq_device_waterleak_set did 0) s1 in
           if status s2 = SlaverSensorLeak
           then if \<not> aq_device_waterleak_find (store s2) then warning_all_clear s2 else s2
           else if idle s2
           then gateway_control_slaver_control (rx_source_addr rx) 0 (rx_rssi_level rx)
                  (snd (valve_close (valve_lock s2)))
           else if status s2 = SlaverOffline
           then gateway_control_slaver_control (rx_source_addr rx) 0 (rx_rssi_level rx) s2
           else s2)"

text \<open>The two cases of the \<open>switch\<close> in \<open>radio_frame_endunit_parse_warn\<close>.\<close>

definition endunit_warn_leak :: "byte \<Rightarrow> u32 \<Rightarrow> sys \<Rightarrow> sys" where
  "endunit_warn_leak level did s =
     (let s1 = on_store (aq_device_waterleak_set did level) s;
          s2 = (if level \<noteq> 0 then warning_enable SlaverSensorLeakEvent s1
                else if status s1 = SlaverSensorLeak
                then if \<not> aq_device_waterleak_find (store s1)
                     then snd (valve_close (warning_all_clear s1)) else s1
                else s1)
      in gateway_warning_slaver_leak did level (dev_field rssi_level did s2) s2)"

definition endunit_warn_lost :: "byte \<Rightarrow> u32 \<Rightarrow> sys \<Rightarrow> sys" where
  "endunit_warn_lost level did s =
     (let s1 = on_store (aq_device_wirelost_set did level) s;
          s2 = (if level \<noteq> 0 then warning_enable SlaverSensorLostEvent s1
                else if status s1 = SlaverSensorLost
                then if \<not> aq_device_wirelost_find (store s1) then warning_all_clear s1 else s1
                else s1)
      in gateway_warning_slaver_lost did level (dev_field rssi_level did s2) s2)"

definition radio_frame_endunit_parse_warn :: "rx_format \<Rightarrow> u32 \<Rightarrow> sys \<Rightarrow> sys" where
  "radio_frame_endunit_parse_warn rx did s =
     (let s1 = on_radio (radio_endunit_command_send
                 (reply rx WARNING_UPLOAD_CMD [rx_data rx 2, rx_data rx 3] s)) s
      in if rx_data rx 2 = 0 then endunit_warn_leak (rx_data rx 3) did s1
         else if rx_data rx 2 = 1 then endunit_warn_lost (rx_data rx 3) did s1
         else s1)"

text \<open>The sender is looked up before the learn handler runs.\<close>

definition radio_frame_endunit_parse :: "rx_format \<Rightarrow> sys \<Rightarrow> sys" where
  "radio_frame_endunit_parse rx s =
     (let dev = aq_device_find (rx_source_addr rx) (store s);
          s1 = (if rx_data rx 0 = LEARN_DEVICE_CMD then radio_frame_endunit_parse_learn rx s else s)
      in case dev of
           None \<Rightarrow> s1
         | Some d \<Rightarrow>
             if rx_dest_addr rx \<noteq> local_addr s1 then s1
             else
               let did = device_id d; command = rx_data rx 0;
                   s2 = (if command = HEART_UPLOAD_CMD then radio_frame_endunit_parse_heart rx did s1
                         else if command = CONTROL_VALVE_CMD then radio_frame_endunit_parse_valve rx did s1
                         else if command = WARNING_UPLOAD_CMD then radio_frame_endunit_parse_warn rx did s1
                         else s1);
                   s3 = on_store (\<lambda>st. snd (aq_device_heart_recv (rx_source_addr rx) (rx_rssi_level rx) st)) s2
               in warning_offline_check s3)"

section \<open>The handlers keep the invariant\<close>

lemma good_endunit_heart [keep]: "good s \<Longrightarrow> good (radio_frame_endunit_parse_heart rx did s)"
  by (auto simp: radio_frame_endunit_parse_heart_def Let_def intro!: keep good_parts)

lemma good_endunit_learn [keep]:
  assumes "good s" "heap_ok (store s)"
  shows "good (radio_frame_endunit_parse_learn rx s)"
proof -
  have c: "good s1 \<Longrightarrow> heap_ok (store s1) \<Longrightarrow> aq_device_create rl ty did s1 = (r, s2) \<Longrightarrow> good s2"
    for s1 rl ty did r s2 using good_create [of s1 rl ty did] by simp
  show ?thesis
    using assms
    by (auto simp: radio_frame_endunit_parse_learn_def Let_def intro!: keep good_parts
        dest!: c [rotated -1] split: prod.split option.split)
qed

lemma good_endunit_valve [keep]: "good s \<Longrightarrow> good (radio_frame_endunit_parse_valve rx did s)"
  by (auto simp: radio_frame_endunit_parse_valve_def Let_def persist_def intro!: keep good_parts)

lemma good_endunit_warn [keep]: "good s \<Longrightarrow> good (radio_frame_endunit_parse_warn rx did s)"
  by (auto simp: radio_frame_endunit_parse_warn_def endunit_warn_leak_def endunit_warn_lost_def Let_def
      intro!: keep good_parts)

lemma good_endunit [keep]:
  "\<lbrakk>good s; heap_ok (store s)\<rbrakk> \<Longrightarrow> good (radio_frame_endunit_parse rx s)"
  by (auto simp: radio_frame_endunit_parse_def Let_def intro!: keep good_parts split: option.split)

end
