(* ===== verification/Proto_Doorunit.thy ===== *)
theory Proto_Doorunit
  imports Device_Service
begin

text \<open>
  Frames from the door unit (\<open>radio_protocol/radio_protocol_doorunit.c\<close>) and from the motion
  sensors (\<open>radio_protocol/radio_protocol_motion.c\<close>): heartbeat, learning and valve control.
\<close>

section \<open>The door unit\<close>

definition radio_frame_doorunit_parse_heart :: "rx_format \<Rightarrow> u32 \<Rightarrow> sys \<Rightarrow> sys" where
  "radio_frame_doorunit_parse_heart rx did s =
     (let sub_command = rx_data rx 2;
          s1 = on_radio (radio_doorunit_command_send (reply rx HEART_UPLOAD_CMD [sub_command] s)) s
      in if sub_command = 0
         then let s2 = on_store (aq_device_battery_set did (rx_data rx 3)) s1
              in gateway_heart_doorunit_upload did (dev_field rssi_level did s2)
                   (dev_field battery did s2) s2
         else s1)"

definition radio_frame_doorunit_parse_learn :: "rx_format \<Rightarrow> sys \<Rightarrow> sys" where
  "radio_frame_doorunit_parse_learn rx s =
     (if rx_dest_addr rx = 0xFFFFFFFF \<and> allow_add_device (warn s) = 1
      then on_radio (radio_doorunit_command_send (reply rx LEARN_DEVICE_CMD [0] s)) s
      else if rx_dest_addr rx = local_addr s
      then
        let sub_command = rx_data rx 2;
            s1 = on_radio (radio_doorunit_command_send (reply rx LEARN_DEVICE_CMD [sub_command] s)) s
        in if sub_command = 1
           then case aq_device_create (rx_rssi_level rx) DEVICE_TYPE_DOORUNIT (rx_source_addr rx)
                       (aq_doorunit_delete s1) of
                  (None, s2) \<Rightarrow> lamps learn_fail_ring s2
                | (Some d, s2) \<Rightarrow>
                    gateway_sync_device_add DEVICE_TYPE_DOORUNIT (rx_source_addr rx) (rx_rssi_level rx)
                      (radio_refresh_learn_device s2)
           else s1
      else s)"

definition radio_frame_doorunit_parse_valve :: "rx_format \<Rightarrow> u32 \<Rightarrow> sys \<Rightarrow> sys" where
  "radio_frame_doorunit_parse_valve rx did s =
     (let sub_command = rx_data rx 2; src = rx_source_addr rx; rl = rx_rssi_level rx;
          s0 = on_store (write_device did (\<lambda>d. d\<lparr>rssi_level := rl\<rparr>)) s;
          s1 = on_radio (radio_doorunit_command_send (reply rx CONTROL_VALVE_CMD [sub_command] s0)) s0
      in if sub_command = 0
         then if idle s1
              then gateway_control_door_control src 0 rl (snd (valve_close (valve_lock s1)))
              else if status s1 = SlaverOffline then gateway_control_door_control src 0 rl s1
              else s1
         else if sub_command = 1
         then if idle s1
              then gateway_control_door_control src 1 rl (snd (valve_open (valve_unlock s1)))
              else s1
         else if sub_command = 2
         then if idle s1 then gateway_control_door_delay src 1 rl (valve_delay_control 1 s1) else s1
         else if sub_command = 3
         then gateway_control_door_delay src 0 rl (valve_delay_control 0 s1)
         else s1)"

definition radio_frame_doorunit_parse :: "rx_format \<Rightarrow> sys \<Rightarrow> sys" where
  "radio_frame_doorunit_parse rx s =
     (let dev = aq_device_find (rx_source_addr rx) (store s);
          s1 = (if rx_data rx 0 = LEARN_DEVICE_CMD then radio_frame_doorunit_parse_learn rx s else s)
      in case dev of
           None \<Rightarrow> s1
         | Some d \<Rightarrow>
             if rx_dest_addr rx \<noteq> local_addr s1 then s1
             else
               let did = device_id d; command = rx_data rx 0;
                   s2 = (if command = HEART_UPLOAD_CMD then radio_frame_doorunit_parse_heart rx did s1
                         else if command = CONTROL_VALVE_CMD then radio_frame_doorunit_parse_valve rx did s1
                         else s1)
               in on_store (\<lambda>st. snd (aq_device_heart_recv (rx_source_addr rx) (rx_rssi_level rx) st)) s2)"

section \<open>The motion sensors\<close>

text \<open>
  The arguments of \<open>gateway_heart_motion_sensor_upload\<close> are passed as the code passes
  them: the delay level where the range level is expected, and the other way round.
\<close>

definition radio_frame_motion_parse_heart :: "rx_format \<Rightarrow> u32 \<Rightarrow> sys \<Rightarrow> sys" where
  "radio_frame_motion_parse_heart rx did s =
     (let delay_time_level = rx_data rx 2; range_time_level = rx_data rx 3; human_detected = rx_data rx 4;
          s1 = on_radio (radio_endunit_command_send (reply rx HEART_UPLOAD_CMD [] s)) s
      in gateway_heart_motion_sensor_upload did (dev_field rssi_level did s1)
           delay_time_level range_time_level human_detected s1)"

definition radio_frame_motion_parse_control :: "rx_format \<Rightarrow> u32 \<Rightarrow> sys \<Rightarrow> sys" where
  "radio_frame_motion_parse_control rx did s =
     (let v = rx_data rx 2; src = rx_source_addr rx; rl = rx_rssi_level rx;
          s0 = on_store (write_device did (\<lambda>d. d\<lparr>rssi_level := rl\<rparr>)) s;
          s1 = on_radio (radio_endunit_command_send (reply rx CONTROL_VALVE_CMD [v] s0)) s0
      in if v \<noteq> 0
         then if idle s1
              then gateway_control_motion_sensor_control src rl 1 (rx_data rx 3) (rx_data rx 4)
                     (rx_data rx 5) (snd (valve_open (valve_unlock s1)))
              else s1
         else if idle s1
              then gateway_control_motion_sensor_control src rl 0 (rx_data rx 3) (rx_data rx 4)
                     (rx_data rx 5) (snd (valve_close s1))
              else s1)"

definition radio_frame_motion_parse_learn :: "rx_format \<Rightarrow> sys \<Rightarrow> sys" where
  "radio_frame_motion_parse_learn rx s =
     (if rx_dest_addr rx = 0xFFFFFFFF \<and> allow_add_device (warn s) = 1
      then on_radio (radio_motion_command_send (reply rx LEARN_DEVICE_CMD [0] s)) s
      else if rx_dest_addr rx = local_addr s
      then
        let sub_command = rx_data rx 2;
            s1 = on_radio (radio_motion_command_send (reply rx LEARN_DEVICE_CMD [sub_command] s)) s
        in if sub_command = 1
           then case aq_device_create (rx_rssi_level rx) DEVICE_TYPE_MOTION_SENSOR (rx_source_addr rx) s1 of
                  (None, s2) \<Rightarrow> lamps learn_fail_ring s2
                | (Some d, s2) \<Rightarrow>
                    gateway_sync_device_add DEVICE_TYPE_MOTION_SENSOR (rx_source_addr rx) (rx_rssi_level rx)
                      (radio_refresh_learn_device (lamps beep_once s2))
           else s1
      else s)"

definition radio_frame_motion_parse :: "rx_format \<Rightarrow> sys \<Rightarrow> sys" where
  "radio_frame_motion_parse rx s =
     (let dev = aq_device_find (rx_source_addr rx) (store s);
          s1 = (if rx_data rx 0 = LEARN_DEVICE_CMD then radio_frame_motion_parse_learn rx s else s)
      in case dev of
           None \<Rightarrow> s1
         | Some d \<Rightarrow>
             if rx_dest_addr rx \<noteq> local_addr s1 then s1
             else
               let did = device_id d; command = rx_data rx 0;
                   s2 = (if command = HEART_UPLOAD_CMD then radio_frame_motion_parse_heart rx did s1
                         else if command = CONTROL_VALVE_CMD then radio_frame_motion_parse_control rx did s1
                         else s1)
               in on_store (\<lambda>st. snd (aq_device_heart_recv (rx_source_addr rx) (rx_rssi_level rx) st)) s2)"

section \<open>The handlers keep the invariant\<close>

lemma created_good:
  "\<lbrakk>aq_device_create rl ty did s1 = (r, s2); good s1; heap_ok (store s1)\<rbrakk> \<Longrightarrow> good s2"
  using good_create [of s1 rl ty did] by simp

lemma good_doorunit_parts [keep]:
  "good s \<Longrightarrow> good (radio_frame_doorunit_parse_heart rx did s)"
  "good s \<Longrightarrow> good (radio_frame_doorunit_parse_valve rx did s)"
  "\<lbrakk>good s; heap_ok (store s)\<rbrakk> \<Longrightarrow> good (radio_frame_doorunit_parse_learn rx s)"
  by (auto simp: radio_frame_doorunit_parse_heart_def radio_frame_doorunit_parse_valve_def
      radio_frame_doorunit_parse_learn_def Let_def persist_def intro!: keep good_parts
      dest!: created_good split: prod.split option.split)

lemma good_doorunit [keep]:
  "\<lbrakk>good s; heap_ok (store s)\<rbrakk> \<Longrightarrow> good (radio_frame_doorunit_parse rx s)"
  by (auto simp: radio_frame_doorunit_parse_def Let_def intro!: keep good_parts split: option.split)

lemma good_motion_parts [keep]:
  "good s \<Longrightarrow> good (radio_frame_motion_parse_heart rx did s)"
  "good s \<Longrightarrow> good (radio_frame_motion_parse_control rx did s)"
  "\<lbrakk>good s; heap_ok (store s)\<rbrakk> \<Longrightarrow> good (radio_frame_motion_parse_learn rx s)"
  by (auto simp: radio_frame_motion_parse_heart_def radio_frame_motion_parse_control_def
      radio_frame_motion_parse_learn_def Let_def persist_def intro!: keep good_parts
      dest!: created_good split: prod.split option.split)

lemma good_motion [keep]:
  "\<lbrakk>good s; heap_ok (store s)\<rbrakk> \<Longrightarrow> good (radio_frame_motion_parse rx s)"
  by (auto simp: radio_frame_motion_parse_def Let_def intro!: keep good_parts split: option.split)

end
