(* ===== verification/Lora_Ota.thy ===== *)
theory Lora_Ota
  imports Device_Service
begin

text \<open>
  Firmware download (\<open>ota/lora_ota.c\<close>) into the partition \<open>download\<close>. The partition calls
  have the effect FAL and the NOR flash document: a bounds check on \<open>addr + size\<close> in 32
  bits, erasing whole blocks of 4096 bytes to 0xFF, writing can only clear bits. A call through the unset
  pointer ends in an assertion; it is a failed call here.
\<close>

definition fal_partition_erase :: "u32 \<Rightarrow> u32 \<Rightarrow> ota_st \<Rightarrow> bool \<times> ota_st" where
  "fal_partition_erase addr sz p =
     (case part_len p of
        None \<Rightarrow> (False, p)
      | Some l \<Rightarrow>
          if \<not> dl_part p \<or> addr + sz > l \<or> \<not> flash_ok p then (False, p)
          else (True, p\<lparr>part_data := \<lambda>i. if unat addr \<le> i \<and>
                  i < unat addr + (unat sz + 4095) div 4096 * 4096 then 0xFF else part_data p i\<rparr>))"

definition fal_partition_write :: "u32 \<Rightarrow> mem \<Rightarrow> nat \<Rightarrow> ota_st \<Rightarrow> bool \<times> ota_st" where
  "fal_partition_write addr buf n p =
     (case part_len p of
        None \<Rightarrow> (False, p)
      | Some l \<Rightarrow>
          if \<not> dl_part p \<or> addr + of_nat n > l \<or> \<not> flash_ok p then (False, p)
          else (True, p\<lparr>part_data := \<lambda>i. if unat addr \<le> i \<and> i < unat addr + n
                  then part_data p i AND buf (i - unat addr) else part_data p i\<rparr>))"

definition on_ota :: "(ota_st \<Rightarrow> ota_st) \<Rightarrow> sys \<Rightarrow> sys" where
  "on_ota f s = s\<lparr>ota := f (ota s)\<rparr>"

definition lora_ota_begin :: "u32 \<Rightarrow> sys \<Rightarrow> sys" where
  "lora_ota_begin file_size s =
     (let s1 = on_ota (\<lambda>p. p\<lparr>update_file_total_size := file_size, dl_part := part_len p \<noteq> None\<rparr>) s in
      case part_len (ota s1) of
        None \<Rightarrow> s1
      | Some l \<Rightarrow>
          if update_file_total_size (ota s1) > l then s1
          else let (ok, p) = fal_partition_erase 0 (update_file_total_size (ota s1)) (ota s1);
                   s2 = s1\<lparr>ota := p\<rparr>
               in if \<not> ok then s2 else gateway_ota_resp_start s2)"

definition lora_ota_receive :: "mem \<Rightarrow> u32 \<Rightarrow> nat \<Rightarrow> sys \<Rightarrow> sys" where
  "lora_ota_receive buf offset n s =
     (if update_file_cur_size (ota s) \<noteq> offset then gateway_ota_ack_transfer s
      else let (ok, p) = fal_partition_write (update_file_cur_size (ota s)) buf n (ota s);
               s1 = s\<lparr>ota := p\<rparr>
           in if \<not> ok then s1
              else gateway_ota_ack_transfer
                     (on_ota (\<lambda>p. p\<lparr>update_file_cur_size := update_file_cur_size p + of_nat n\<rparr>) s1))"

definition lora_ota_end :: "sys \<Rightarrow> sys" where
  "lora_ota_end s = (gateway_ota_resp_end s)\<lparr>cpu_reset := True\<rparr>"

lemma on_ota_good [simp]: "good (on_ota f s) = good s"
  by (simp add: on_ota_def)

lemma good_ota [keep]:
  "good s \<Longrightarrow> good (lora_ota_begin n s)" "good s \<Longrightarrow> good (lora_ota_receive buf off k s)"
  "good s \<Longrightarrow> good (lora_ota_end s)"
  by (auto simp: lora_ota_begin_def lora_ota_receive_def lora_ota_end_def Let_def case_prod_beta
      intro!: keep split: option.split)

section \<open>Reassembly\<close>

text \<open>
  What a receiver of numbered packets should do: append a packet whose offset is the
  length received so far, and ignore any other.
\<close>

fun reassemble :: "byte list \<Rightarrow> (u32 \<times> byte list) list \<Rightarrow> byte list" where
  "reassemble img [] = img"
| "reassemble img ((off, bytes) # ps) =
     reassemble (if unat off = length img then img @ bytes else img) ps"

text \<open>A packet as \<open>radio_frame_gateway_parse_ota\<close> passes it on.\<close>

definition receive_packet :: "u32 \<times> byte list \<Rightarrow> sys \<Rightarrow> sys" where
  "receive_packet pkt s = lora_ota_receive (nth (snd pkt)) (fst pkt) (length (snd pkt)) s"

text \<open>The image is at the start of the partition, blank flash behind it.\<close>

definition ota_holds :: "byte list \<Rightarrow> nat \<Rightarrow> ota_st \<Rightarrow> bool" where
  "ota_holds img cap p \<longleftrightarrow>
     unat (update_file_cur_size p) = length img \<and>
     (\<forall>i < length img. part_data p i = img ! i) \<and>
     (\<forall>i < cap. length img \<le> i \<longrightarrow> part_data p i = 0xFF) \<and>
     dl_part p \<and> flash_ok p"

lemma reassemble_length: "length img \<le> length (reassemble img ps)"
  by (induction img ps rule: reassemble.induct) (auto simp: le_trans)

lemma and_blank: "(0xFF :: byte) AND b = b"
proof -
  have "(0xFF :: byte) = - 1" by simp
  then show ?thesis by (metis and.left_neutral)
qed

lemma receive_packet_step:
  assumes h: "ota_holds img cap (ota s)" and len: "part_len (ota s) = Some l"
    and fits: "unat off = length img \<longrightarrow> length img + length bytes \<le> cap" and cap: "cap \<le> unat l"
  shows "ota_holds (if unat off = length img then img @ bytes else img) cap
      (ota (receive_packet (off, bytes) s)) \<and>
    part_len (ota (receive_packet (off, bytes) s)) = Some l"
proof (cases "unat off = length img")
  case False
  then have "update_file_cur_size (ota s) \<noteq> off" using h by (auto simp: ota_holds_def)
  with False h len show ?thesis by (simp add: receive_packet_def lora_ota_receive_def)
next
  case True
  let ?c = "update_file_cur_size (ota s)" and ?n = "length bytes"
  have off: "?c = off" using True h by (simp add: ota_holds_def word_unat_eq_iff)
  have "unat l < 2 ^ LENGTH(32)" by (rule unsigned_less)
  then have lt: "length img + ?n < 2 ^ 32" using fits True cap by simp
  have u: "unat (off + of_nat ?n) = length img + ?n"
    using lt True by (simp add: unat_plus_if' unat_of_nat)
  have ok: "\<not> off + of_nat ?n > l"
    using u fits True cap by (simp add: word_less_nat_alt)
  have cond: "dl_part (ota s)" "flash_ok (ota s)" using h by (simp_all add: ota_holds_def)
  have r: "ota (receive_packet (off, bytes) s) = (ota s)
     \<lparr>part_data := \<lambda>i. if length img \<le> i \<and> i < length img + ?n
        then part_data (ota s) i AND bytes ! (i - length img) else part_data (ota s) i,
      update_file_cur_size := off + of_nat ?n\<rparr>"
    using off ok cond len True
    by (simp add: receive_packet_def lora_ota_receive_def fal_partition_write_def on_ota_def
        cong: if_cong)
  have blank: "part_data (ota s) i = 0xFF" if "length img \<le> i" "i < length img + ?n" for i
    using h that fits True by (simp add: ota_holds_def)
  show ?thesis
    using h u True len
    by (auto simp: r ota_holds_def nth_append blank and_blank)
qed

lemma receive_packets:
  assumes "ota_holds img cap (ota s)" "part_len (ota s) = Some l" "cap \<le> unat l"
    and "length (reassemble img ps) \<le> cap"
  shows "ota_holds (reassemble img ps) cap (ota (fold receive_packet ps s))"
  using assms
proof (induction ps arbitrary: img s)
  case (Cons p ps)
  obtain off bytes where p: "p = (off, bytes)" by fastforce
  let ?img = "if unat off = length img then img @ bytes else img"
  have "length ?img \<le> cap"
    using Cons.prems(4) reassemble_length [of ?img ps] by (simp add: p split: if_splits)
  then have fits: "unat off = length img \<longrightarrow> length img + length bytes \<le> cap" by auto
  note step = receive_packet_step [OF Cons.prems(1,2) fits Cons.prems(3)]
  show ?case
    using Cons.IH [OF step [THEN conjunct1] step [THEN conjunct2] Cons.prems(3)] Cons.prems(4)
    by (simp add: p)
qed simp

text \<open>
  C20. After a first \<open>lora_ota_begin\<close> the partition holds exactly what a receiver that
  appends in order and ignores repeated or out-of-order packets has received, and the counter is its length, however the packets are duplicated or mixed up on
  the way, as long as the image fits the announced size.
\<close>

theorem ota_download:
  assumes "part_len (ota s) = Some l" "sz \<le> l" "flash_ok (ota s)" "update_file_cur_size (ota s) = 0"
    and "length (reassemble [] ps) \<le> unat sz"
  shows "let p = ota (fold receive_packet ps (lora_ota_begin sz s)) in
    unat (update_file_cur_size p) = length (reassemble [] ps) \<and>
    (\<forall>i < length (reassemble [] ps). part_data p i = reassemble [] ps ! i)"
proof -
  have sz: "\<not> l < sz" using assms(2) by (simp add: not_less)
  have "i < n \<Longrightarrow> i < (n + 4095) div 4096 * 4096" for i n :: nat
    using div_mult_mod_eq [of "n + 4095" 4096] mod_less_divisor [of 4096 "n + 4095"] by linarith
  then have "ota_holds [] (unat sz) (ota (lora_ota_begin sz s))"
    and "part_len (ota (lora_ota_begin sz s)) = Some l"
    using assms sz
    by (auto simp: ota_holds_def lora_ota_begin_def on_ota_def fal_partition_erase_def Let_def)
  moreover have "unat sz \<le> unat l" using assms(2) by (simp add: word_le_nat_alt)
  ultimately have "ota_holds (reassemble [] ps) (unat sz) (ota (fold receive_packet ps (lora_ota_begin sz s)))"
    using assms(5) by (intro receive_packets)
  then show ?thesis by (simp add: ota_holds_def Let_def)
qed

lemma ota_download_witness:
  "unat (update_file_cur_size (ota (fold receive_packet [(0, [1, 2]), (0, [1, 2]), (7, [9]), (2, [3])]
     (lora_ota_begin 3 new_unit)))) = 3"
proof -
  have "reassemble [] [(0, [1, 2]), (0, [1, 2]), (7, [9]), (2, [3])] = [1, 2, 3]" by simp
  with ota_download [of new_unit "0x80000" 3 "[(0, [1, 2]), (0, [1, 2]), (7, [9]), (2, [3])]"]
  show ?thesis unfolding Let_def by simp
qed

text \<open>
  A second download in the same session is lost: \<open>lora_ota_begin\<close> does not reset the counter, so the first
  packet of the new image, at offset 0, is acknowledged but not written.
\<close>

theorem ota_second_session:
  assumes "update_file_cur_size (ota s) \<noteq> 0"
  shows "let s1 = lora_ota_begin sz s; s2 = lora_ota_receive buf 0 n s1 in
    s2 = gateway_ota_ack_transfer s1 \<and> part_data (ota s2) = part_data (ota s1) \<and>
    update_file_cur_size (ota s2) = update_file_cur_size (ota s)"
proof -
  have "update_file_cur_size (ota (lora_ota_begin sz s)) = update_file_cur_size (ota s)"
    by (auto simp: lora_ota_begin_def on_ota_def fal_partition_erase_def Let_def split: option.split)
  with assms show ?thesis by (simp add: lora_ota_receive_def Let_def)
qed

lemma ota_second_session_witness:
  "update_file_cur_size (ota (lora_ota_receive (\<lambda>_. 1) 0 5 (lora_ota_begin 100
     (new_unit\<lparr>ota := (ota new_unit)\<lparr>update_file_cur_size := 64\<rparr>\<rparr>)))) = 64"
proof -
  define s where "s = new_unit\<lparr>ota := (ota new_unit)\<lparr>update_file_cur_size := 64\<rparr>\<rparr>"
  have "update_file_cur_size (ota s) = 64" "(64 :: u32) \<noteq> 0" by (simp_all add: s_def)
  then show ?thesis
    using ota_second_session [of s 100 "\<lambda>_. 1" 5] unfolding s_def [symmetric] Let_def by metis
qed

end
