(* ===== verification/Proto_Gateway.thy ===== *)
theory Proto_Gateway
  imports Lora_Ota
begin

text \<open>
  Frames from the gateway (\<open>radio_protocol/radio_protocol_gateway.c\<close>): synchronisation,
  learning, acknowledgements, firmware download and remote control; and from the factory
  test tool (\<open>radio_protocol/radio_protocol_factory.c\<close>).
\<close>

definition radio_frame_gateway_parse_sync :: "rx_format \<Rightarrow> sys \<Rightarrow> sys" where
  "radio_frame_gateway_parse_sync rx s =
     (let sub_command = rx_data rx 2 in
      if sub_command = 0 then gateway_sync_device_upload s
      else if sub_command = 1
      then let device_addr = be32 (rx_data rx 3) (rx_data rx 4) (rx_data rx 5) (rx_data rx 6)
           in on_store (\<lambda>st. snd (aq_device_delete device_addr st)) s
      else s)"

definition radio_frame_gateway_parse_heart :: "rx_format \<Rightarrow> sys \<Rightarrow> sys" where
  "radio_frame_gateway_parse_heart rx s = s"

definition radio_frame_gateway_parse_learn :: "rx_format \<Rightarrow> sys \<Rightarrow> sys" where
  "radio_frame_gateway_parse_learn rx s =
     (if rx_dest_addr rx = 0xFFFFFFFF \<and> allow_add_device (warn s) = 1
      then gateway_learn_broacast_confirm (rx_source_addr rx) s
      else if rx_dest_addr rx = local_addr s
      then if rx_data rx 2 = 1
           then case aq_device_create 0 DEVICE_TYPE_GATEWAY (rx_source_addr rx)
                       (on_store aq_gateway_delete s) of
                  (None, s1) \<Rightarrow> lamps learn_fail_ring s1
                | (Some d, s1) \<Rightarrow>
                    gateway_learn_add_upload (rx_source_addr rx)
                      (radio_refresh_learn_device (lamps (wifi_led 1) (lamps beep_once s1)))
           else s
      else s)"

definition radio_frame_gateway_parse_ack :: "rx_format \<Rightarrow> sys \<Rightarrow> sys" where
  "radio_frame_gateway_parse_ack rx s = on_radio rf_ack_callback s"

definition radio_frame_gateway_parse_ota :: "rx_format \<Rightarrow> sys \<Rightarrow> sys" where
  "radio_frame_gateway_parse_ota rx s =
     (let sub_command = rx_data rx 2;
          w = be32 (rx_data rx 3) (rx_data rx 4) (rx_data rx 5) (rx_data rx 6)
      in if sub_command = 1 then lora_ota_begin w s
         else if sub_command = 2
         then lora_ota_receive (\<lambda>i. rx_data rx (8 + i)) w (unat (rx_data rx 7)) s
         else if sub_command = 3 then lora_ota_end s
         else s)"

definition radio_frame_gateway_parse_control :: "rx_format \<Rightarrow> sys \<Rightarrow> sys" where
  "radio_frame_gateway_parse_control rx s =
     (let sub_command = rx_data rx 2 in
      if sub_command = 0
      then if idle s then gateway_control_master_control 0 (snd (valve_close s)) else s
      else if sub_command = 1
      then if idle s then gateway_control_master_control 1 (snd (valve_open (valve_unlock s))) else s
      else s)"

definition radio_frame_gateway_parse :: "rx_format \<Rightarrow> sys \<Rightarrow> sys" where
  "radio_frame_gateway_parse rx s =
     (let dev = aq_device_find (rx_source_addr rx) (store s);
          s1 = (if rx_data rx 0 = LEARN_DEVICE_CMD then radio_frame_gateway_parse_learn rx s else s)
      in case dev of
           None \<Rightarrow> s1
         | Some d \<Rightarrow>
             if rx_dest_addr rx \<noteq> local_addr s1 then s1
             else
               let command = rx_data rx 0;
                   s2 = on_store (aq_device_recv_set (rx_source_addr rx) 1) (lamps (wifi_led 1) s1)
               in if command = HEART_UPLOAD_CMD then radio_frame_gateway_parse_heart rx s2
                  else if command = CONTROL_VALVE_CMD then radio_frame_gateway_parse_control rx s2
                  else if command = DEVICE_SYNC_CMD then radio_frame_gateway_parse_sync rx s2
                  else if command = CONFIRM_ACK_CMD then radio_frame_gateway_parse_ack rx s2
                  else if command = FIRMWARE_UPDATE_CMD then radio_frame_gateway_parse_ota rx s2
                  else s2)"

section \<open>The factory tool\<close>

text \<open>\<open>int16_t\<close> from two bytes, \<open>int8_t\<close> from one.\<close>

definition radio_frame_factory_parse_heart :: "rx_format \<Rightarrow> sys \<Rightarrow> sys" where
  "radio_frame_factory_parse_heart rx s =
     s\<lparr>factory := \<lparr>factory_controller_recv_rssi = rx_rssi rx, factory_controller_recv_snr = rx_snr rx,
        factory_gateway_recv_rssi =
          sint (push_bit 8 (ucast (rx_data rx 2)) OR ucast (rx_data rx 3) :: u16),
        factory_gateway_recv_snr = sint (rx_data rx 4)\<rparr>\<rparr>"

definition radio_frame_factory_parse :: "rx_format \<Rightarrow> sys \<Rightarrow> sys" where
  "radio_frame_factory_parse rx s =
     (if rx_dest_addr rx \<noteq> local_addr s \<or> rx_source_addr rx \<noteq> 99999999 then s
      else if rx_data rx 0 = FACTORY_RF_TEST_CMD then radio_frame_factory_parse_heart rx s
      else s)"

section \<open>The handlers keep the invariant\<close>

lemma gateway_created_good:
  "\<lbrakk>aq_device_create rl ty did s1 = (r, s2); good s1; heap_ok (store s1)\<rbrakk> \<Longrightarrow> good s2"
  using good_create [of s1 rl ty did] by simp

lemma radio_ok_ack [keep]: "radio_ok r \<Longrightarrow> radio_ok (rf_ack_callback r)"
  by (simp add: radio_ok_def rf_ack_callback_def)

lemma good_gateway_parts [keep]:
  "good s \<Longrightarrow> good (radio_frame_gateway_parse_sync rx s)"
  "good s \<Longrightarrow> good (radio_frame_gateway_parse_heart rx s)"
  "good s \<Longrightarrow> good (radio_frame_gateway_parse_ack rx s)"
  "good s \<Longrightarrow> good (radio_frame_gateway_parse_ota rx s)"
  "good s \<Longrightarrow> good (radio_frame_gateway_parse_control rx s)"
  by (auto simp: radio_frame_gateway_parse_sync_def radio_frame_gateway_parse_heart_def
      radio_frame_gateway_parse_ack_def radio_frame_gateway_parse_ota_def
      radio_frame_gateway_parse_control_def Let_def intro!: keep good_parts)

lemma good_gateway_learn [keep]:
  assumes "good s" "heap_ok (store s)"
  shows "good (radio_frame_gateway_parse_learn rx s)"
proof -
  obtain r s1 where c: "aq_device_create 0 DEVICE_TYPE_GATEWAY (rx_source_addr rx)
      (on_store aq_gateway_delete s) = (r, s1)" by fastforce
  have "good (on_store aq_gateway_delete s)"
    using assms(1) good_parts(1) [OF assms(1)] by (intro good_on_store) (simp_all add: keep)
  then have "good s1" using gateway_created_good [OF c] assms(2) by simp
  with assms(1) show ?thesis
    by (auto simp: radio_frame_gateway_parse_learn_def c intro!: keep split: option.split)
qed

lemma good_gateway [keep]:
  assumes "good s" "heap_ok (store s)"
  shows "good (radio_frame_gateway_parse rx s)"
proof -
  define s1 where "s1 = (if rx_data rx 0 = LEARN_DEVICE_CMD then radio_frame_gateway_parse_learn rx s else s)"
  define s2 where "s2 = on_store (aq_device_recv_set (rx_source_addr rx) 1) (lamps (wifi_led 1) s1)"
  have s1: "good s1" using assms by (simp add: s1_def keep)
  then have s2: "good s2"
    unfolding s2_def using good_parts(1) [OF s1] by (intro good_on_store) (simp_all add: keep)
  show ?thesis
    unfolding radio_frame_gateway_parse_def Let_def s1_def [symmetric] s2_def [symmetric]
    using s1 good_gateway_parts [OF s2, of rx] s2 by (simp split: option.split)
qed

lemma good_factory [keep]: "good s \<Longrightarrow> good (radio_frame_factory_parse rx s)"
  by (simp add: radio_frame_factory_parse_def radio_frame_factory_parse_heart_def)

end
