(* ===== verification/Radio_Protocol.thy ===== *)
theory Radio_Protocol
  imports Proto_Endunit Proto_Doorunit Proto_Gateway
begin

text \<open>
  Reception (\<open>radio_protocol/radio_protocol.c\<close>, \<open>OnRxDone\<close> of \<open>radio/radio_app.c\<close>): a frame that passes the checks of
  \<open>frame_accept\<close> goes to the handler of its device type.
\<close>

definition radio_dispatch :: "rx_format \<Rightarrow> sys \<Rightarrow> sys" where
  "radio_dispatch rx s =
     (if rx_device_type rx = DEVICE_TYPE_MOTION_SENSOR then radio_frame_motion_parse rx s
      else if rx_device_type rx = DEVICE_TYPE_ENDUNIT then radio_frame_endunit_parse rx s
      else if rx_device_type rx = DEVICE_TYPE_DOORUNIT then radio_frame_doorunit_parse rx s
      else if rx_device_type rx = DEVICE_TYPE_GATEWAY then radio_frame_gateway_parse rx s
      else if rx_device_type rx = DEVICE_TYPE_FACTORY_TOOL then radio_frame_factory_parse rx s
      else s)"

definition radio_protocol_parse :: "int \<Rightarrow> int \<Rightarrow> mem \<Rightarrow> nat \<Rightarrow> sys \<Rightarrow> sys" where
  "radio_protocol_parse rssi stack_snr data len s =
     (case frame_accept rssi stack_snr data len of None \<Rightarrow> s | Some rx \<Rightarrow> radio_dispatch rx s)"

definition OnRxDone :: "mem \<Rightarrow> nat \<Rightarrow> int \<Rightarrow> int \<Rightarrow> sys \<Rightarrow> sys" where
  "OnRxDone payload n rssi stack_snr s =
     radio_protocol_parse rssi stack_snr payload n (on_radio radio_recv_start s)"

lemma radio_recv_start_ok [keep]: "radio_ok r \<Longrightarrow> radio_ok (radio_recv_start r)"
  by (simp add: radio_ok_def radio_recv_start_def)

lemma good_receive [keep]:
  "\<lbrakk>good s; heap_ok (store s)\<rbrakk> \<Longrightarrow> good (OnRxDone payload n rssi g s)"
  by (auto simp: OnRxDone_def radio_protocol_parse_def radio_dispatch_def intro!: keep good_parts
      split: option.split)

end
