(* ===== verification/Hours.thy ===== *)
theory Hours
  imports Device_Service
begin

text \<open>
  The hourly thread (\<open>applications/rtc.c\<close>): every 120 hours the valve is checked, every 48
  hours the heartbeats of the devices.
\<close>

definition rtc_thread_start :: "sys \<Rightarrow> sys" where
  "rtc_thread_start s = on_store aq_device_heart_recv_clear s"

text \<open>One turn of the loop of \<open>rtc_thread_entry\<close>, after the semaphore.\<close>

definition rtc_thread_entry :: "sys \<Rightarrow> sys" where
  "rtc_thread_entry s =
     (let v = valve_hours (rtc s) + 1;
          s1 = s\<lparr>rtc := (rtc s)\<lparr>valve_hours := v\<rparr>\<rparr>;
          s2 = (if v mod 120 = 0 then valve_check_start (s1\<lparr>rtc := (rtc s1)\<lparr>valve_hours := 0\<rparr>\<rparr>) else s1);
          s3 = (if rtc_hours (rtc s2) < 47
                then s2\<lparr>rtc := (rtc s2)\<lparr>rtc_hours := rtc_hours (rtc s2) + 1\<rparr>\<rparr>
                else aq_device_heart_check (s2\<lparr>rtc := (rtc s2)\<lparr>rtc_hours := 0\<rparr>\<rparr>))
      in gateway_heart_check s3)"

section \<open>The invariant\<close>

lemma gateway_heart_check_good [keep]: "good s \<Longrightarrow> good (gateway_heart_check s)"
proof -
  assume g: "good s"
  have "good (on_store (aq_device_recv_set gw 0) s)" for gw
    using g good_parts(1) [OF g] by (intro good_on_store) (simp_all add: keep)
  then show ?thesis using g by (simp add: gateway_heart_check_def Let_def on_store_def)
qed

lemma good_rtc [keep]: "good s \<Longrightarrow> good (rtc_thread_entry s)" "good s \<Longrightarrow> good (rtc_thread_start s)"
proof -
  assume g: "good s"
  show "good (rtc_thread_entry s)"
    unfolding rtc_thread_entry_def Let_def
    using g by (intro gateway_heart_check_good) (auto intro!: keep)
  show "good (rtc_thread_start s)"
    unfolding rtc_thread_start_def using g good_parts(1) [OF g]
    by (intro good_on_store) (simp_all add: keep)
qed

section \<open>Counting the hours\<close>

lemma warning_offline_rtc [simp]: "rtc (aq_device_heart_check s) = rtc s"
  by (simp add: aq_device_heart_check_def Let_def on_store_def)

lemma gateway_check_rtc [simp]: "rtc (gateway_heart_check s) = rtc s"
  by (simp add: gateway_heart_check_def Let_def)

text \<open>
  The two counters of the hourly thread never drift: after any number of hours they are that
  number modulo 48 and modulo 120, so every 48th turn checks the heartbeats and every 120th turn
  starts the valve check.
\<close>

theorem hours_counted:
  assumes "rtc_hours (rtc s) = 0" "valve_hours (rtc s) = 0"
  shows "unat (rtc_hours (rtc ((rtc_thread_entry ^^ n) s))) = n mod 48 \<and>
    unat (valve_hours (rtc ((rtc_thread_entry ^^ n) s))) = n mod 120"
proof (induction n)
  case (Suc n)
  let ?s = "(rtc_thread_entry ^^ n) s"
  let ?r = "unat (rtc_hours (rtc ?s))" and ?v = "unat (valve_hours (rtc ?s))"
  have lt: "?r < 48" "?v < 120" using Suc by simp_all
  have inc: "unat (w + 1) = unat w + 1" if "unat w < 200" for w :: byte
    using that by (simp add: unat_plus_if')
  have "Suc ?v mod 120 = 0 \<longleftrightarrow> Suc ?v = 120" using lt(2) by (simp only: mod_Suc) simp
  then have v: "(valve_hours (rtc ?s) + 1) mod 120 = 0 \<longleftrightarrow> ?v + 1 = 120"
    using inc [of "valve_hours (rtc ?s)"] lt(2) by (simp only: word_unat_eq_iff unat_mod) simp
  have r: "rtc_hours (rtc ?s) < 47 \<longleftrightarrow> ?r < 47" by (simp add: word_less_nat_alt)
  have rtc: "rtc (rtc_thread_entry ?s) = \<lparr>valve_hours = (if ?v + 1 = 120 then 0 else valve_hours (rtc ?s) + 1),
      rtc_hours = (if ?r < 47 then rtc_hours (rtc ?s) + 1 else 0)\<rparr>"
    by (simp add: rtc_thread_entry_def Let_def v r)
  have "unat (rtc_hours (rtc (rtc_thread_entry ?s))) = Suc n mod 48"
    using Suc lt(1) inc [of "rtc_hours (rtc ?s)"] mod_Suc [of n 48] by (auto simp: rtc)
  moreover have "unat (valve_hours (rtc (rtc_thread_entry ?s))) = Suc n mod 120"
    using Suc lt(2) inc [of "valve_hours (rtc ?s)"] mod_Suc [of n 120] by (auto simp: rtc)
  ultimately show ?case by simp
qed (simp add: assms)

lemma hours_counted_witness:
  "unat (rtc_hours (rtc ((rtc_thread_entry ^^ 100) new_unit))) = 4"
proof -
  have "rtc_hours (rtc new_unit) = 0" "valve_hours (rtc new_unit) = 0" by (simp_all add: new_unit_def)
  from hours_counted [OF this, of 100] show ?thesis by simp
qed

end
