(* ===== verification/Dry_Contact.thy ===== *)
theory Dry_Contact
  imports Device_Service
begin

text \<open>
  The dry contacts (\<open>applications/dry_contact.c\<close>): one input that commands the valve and three
  outputs that show the alarms and the valve, polled every 200 milliseconds.
\<close>

definition bool_byte :: "bool \<Rightarrow> byte" where
  "bool_byte b = (if b then 1 else 0)"

definition set_output :: "nat \<Rightarrow> byte \<Rightarrow> sys \<Rightarrow> sys" where
  "set_output i level s =
     s\<lparr>dry := (dry s)\<lparr>dry_contact_output_state := (dry_contact_output_state (dry s))[i := level]\<rparr>\<rparr>"

definition dry_contact_tech_alarm_set :: "byte \<Rightarrow> sys \<Rightarrow> sys" where
  "dry_contact_tech_alarm_set level s =
     lamps (led_dry_contact_set 3 level)
       (set_output 2 level (rt_pin_write DRY_CONTACT_TECH_ALARM_PIN (level = 0) s))"

definition dry_contact_leak_alarm_set :: "byte \<Rightarrow> sys \<Rightarrow> sys" where
  "dry_contact_leak_alarm_set level s =
     lamps (led_dry_contact_set 4 level)
       (set_output 1 level (rt_pin_write DRY_CONTACT_LEAK_ALARM_PIN (level = 0) s))"

definition dry_contact_valve_status_set :: "byte \<Rightarrow> sys \<Rightarrow> sys" where
  "dry_contact_valve_status_set level s =
     lamps (led_dry_contact_set 5 level)
       (set_output 0 level (rt_pin_write DRY_CONTACT_VALVE_STATUS_PIN (level = 0) s))"

definition dry_contact_input :: "sys \<Rightarrow> sys" where
  "dry_contact_input s =
     (let level = rt_pin_read DRY_CONTACT_VALVE_INPUT_PIN s;
          s1 = lamps (led_dry_contact_set 6 (bool_byte (\<not> level))) s
      in if (if level then 1 else 0) \<noteq> dry_contact_valve_input_level (dry s1)
         then valve_dry_contact_control (bool_byte level)
                (s1\<lparr>dry := (dry s1)\<lparr>dry_contact_valve_input_level := (if level then 1 else 0),
                    dry_contact_input_state := (dry_contact_input_state (dry s1))[0 := bool_byte (\<not> level)]\<rparr>\<rparr>)
         else s1)"

definition dry_contact_alarms :: "sys \<Rightarrow> sys" where
  "dry_contact_alarms s =
     (case warning_status_get s of
        ValveLeftFail \<Rightarrow> dry_contact_leak_alarm_set 0 (dry_contact_tech_alarm_set 1 s)
      | ValveRightFail \<Rightarrow> dry_contact_leak_alarm_set 0 (dry_contact_tech_alarm_set 1 s)
      | SlaverLowPower \<Rightarrow> dry_contact_leak_alarm_set 0 (dry_contact_tech_alarm_set 1 s)
      | SlaverSensorLost \<Rightarrow> dry_contact_leak_alarm_set 0 (dry_contact_tech_alarm_set 1 s)
      | SlaverUltraLowPower \<Rightarrow> dry_contact_leak_alarm_set 0 (dry_contact_tech_alarm_set 1 s)
      | SlaverOffline \<Rightarrow> dry_contact_leak_alarm_set 0 (dry_contact_tech_alarm_set 1 s)
      | SlaverSensorLeak \<Rightarrow> dry_contact_leak_alarm_set 1 (dry_contact_tech_alarm_set 0 s)
      | _ \<Rightarrow> dry_contact_leak_alarm_set 0 (dry_contact_tech_alarm_set 0 s))"

definition dry_contact_polling_timer_callback :: "sys \<Rightarrow> sys" where
  "dry_contact_polling_timer_callback s =
     (let s1 = dry_contact_alarms (dry_contact_input s)
      in dry_contact_valve_status_set (position_code (get_valve_status s1)) s1)"

definition dry_contact_init :: "sys \<Rightarrow> sys" where
  "dry_contact_init s =
     (let s1 = rt_pin_write DRY_CONTACT_SPARE_PIN PIN_HIGH (rt_pin_write DRY_CONTACT_TECH_ALARM_PIN PIN_HIGH
                (rt_pin_write DRY_CONTACT_LEAK_ALARM_PIN PIN_HIGH
                  (rt_pin_write DRY_CONTACT_VALVE_STATUS_PIN PIN_HIGH s)))
      in s1\<lparr>timer := rt_timer_start dry_contact_valve_input_timer
                       (rt_timer_create dry_contact_valve_input_timer 200 True (timer s1))\<rparr>)"

section \<open>The invariant\<close>

lemma set_output_good [simp]: "good (set_output i l s) = good s"
  by (simp add: set_output_def)

lemma dry_set_good [simp]:
  "good (dry_contact_tech_alarm_set l s) = good s" "good (dry_contact_leak_alarm_set l s) = good s"
  "good (dry_contact_valve_status_set l s) = good s"
  by (simp_all add: dry_contact_tech_alarm_set_def dry_contact_leak_alarm_set_def
      dry_contact_valve_status_set_def)

lemma good_dry [keep]: "good s \<Longrightarrow> good (dry_contact_polling_timer_callback s)"
proof -
  assume "good s"
  then have "good (dry_contact_input s)" by (auto simp: dry_contact_input_def Let_def intro!: keep)
  then show ?thesis
    by (simp add: dry_contact_polling_timer_callback_def dry_contact_alarms_def Let_def
        split: device_status.split)
qed

section \<open>What the outputs show\<close>

lemma set_output_simps [simp]:
  "warn (set_output i l s) = warn s" "valve (set_output i l s) = valve s" "pin_out (set_output i l s) = pin_out s"
  "dry_contact_output_state (dry (set_output i l s)) = (dry_contact_output_state (dry s))[i := l]"
  "dry_contact_valve_input_level (dry (set_output i l s)) = dry_contact_valve_input_level (dry s)"
  by (simp_all add: set_output_def)

lemmas output_defs =
  dry_contact_tech_alarm_set_def dry_contact_leak_alarm_set_def dry_contact_valve_status_set_def

lemma contact_control_dry [simp]: "dry (valve_dry_contact_control l s) = dry s"
  by (simp add: valve_dry_contact_control_def close_and_report_def open_and_report_def case_prod_beta Let_def)

text \<open>
  After each poll the three outputs and their Modbus copies show the state: the leak contact is
  closed (low) exactly in the leak alarm, the technical contact exactly in the six technical alarms,
  the valve contact exactly when the valve is open. The input moves the valve only when its level has
  changed since the last poll.
\<close>

theorem dry_contacts_mirror:
  assumes "length (dry_contact_output_state (dry s)) = 8"
  shows "let s' = dry_contact_polling_timer_callback s;
             leak = (status s' = SlaverSensorLeak);
             tech = (status s' \<in> {ValveLeftFail, ValveRightFail, SlaverLowPower, SlaverSensorLost,
                       SlaverUltraLowPower, SlaverOffline});
             out = dry_contact_output_state (dry s')
    in pin_out s' DRY_CONTACT_LEAK_ALARM_PIN = (\<not> leak) \<and> out ! 1 = bool_byte leak \<and>
       pin_out s' DRY_CONTACT_TECH_ALARM_PIN = (\<not> tech) \<and> out ! 2 = bool_byte tech \<and>
       pin_out s' DRY_CONTACT_VALVE_STATUS_PIN = (valve_status (valve s') = VALVE_STATUS_CLOSE) \<and>
       out ! 0 = position_code (valve_status (valve s')) \<and>
       dry_contact_valve_input_level (dry s') = (if pin_in s DRY_CONTACT_VALVE_INPUT_PIN then 1 else 0) \<and>
       (dry_contact_valve_input_level (dry s) = (if pin_in s DRY_CONTACT_VALVE_INPUT_PIN then 1 else 0)
          \<longrightarrow> valve s' = valve s \<and> warn s' = warn s)"
proof -
  define s1 where "s1 = dry_contact_input s"
  have len: "length (dry_contact_output_state (dry s1)) = 8"
    using assms by (simp add: s1_def dry_contact_input_def Let_def)
  have level: "dry_contact_valve_input_level (dry s1) = (if pin_in s DRY_CONTACT_VALVE_INPUT_PIN then 1 else 0)"
    by (simp add: s1_def dry_contact_input_def Let_def rt_pin_read_def)
  have same: "dry_contact_valve_input_level (dry s) = (if pin_in s DRY_CONTACT_VALVE_INPUT_PIN then 1 else 0)
      \<Longrightarrow> valve s1 = valve s \<and> warn s1 = warn s"
    by (simp add: s1_def dry_contact_input_def Let_def rt_pin_read_def)
  have code: "(position_code p = 0) = (p = VALVE_STATUS_CLOSE)" for p
    by (cases p) (simp_all add: position_code_def)
  show ?thesis
    unfolding dry_contact_polling_timer_callback_def s1_def [symmetric]
    using len level same
    by (cases "status s1")
      (simp_all add: dry_contact_alarms_def output_defs warning_status_get_def get_valve_status_def
        Let_def bool_byte_def code nth_list_update)
qed

lemma dry_contacts_mirror_witness:
  "pin_out (dry_contact_polling_timer_callback (set_status SlaverSensorLeak new_unit)) DRY_CONTACT_LEAK_ALARM_PIN
     = (status (dry_contact_polling_timer_callback (set_status SlaverSensorLeak new_unit)) \<noteq> SlaverSensorLeak)"
proof -
  have "length (dry_contact_output_state (dry (set_status SlaverSensorLeak new_unit))) = 8"
    by (simp add: new_unit_def)
  from dry_contacts_mirror [OF this] show ?thesis by (simp add: Let_def)
qed

end
