(* ===== verification/Keys.thy ===== *)
theory Keys
  imports Device_Service
begin

text \<open>
  The two keys (\<open>applications/key.c\<close>): clicks open and close the valve or silence an alarm,
  holding one key starts the valve check or learning, holding both resets the unit to
  the state of a new one. Then the setting up of the two buttons and the turn of the button thread that scans
  both pins and calls the handlers.
\<close>

definition key_on_click_handle :: "sys \<Rightarrow> sys" where
  "key_on_click_handle s =
     (case status s of
        ValveClose \<Rightarrow> open_and_report s
      | SlaverSensorLost \<Rightarrow> open_and_report s
      | ValveOpen \<Rightarrow> lamps beep_once s
      | SlaverLowPower \<Rightarrow>
          if get_valve_status s = VALVE_STATUS_CLOSE then open_and_report s else s
      | SlaverUltraLowPower \<Rightarrow> lamps beep_three_times s
      | SlaverSensorLeak \<Rightarrow> lamps beep_three_times s
      | MasterSensorLost \<Rightarrow> open_and_report s
      | MasterSensorLeak \<Rightarrow> lamps beep_three_times s
      | MasterSensorAbnormal \<Rightarrow> lamps beep_three_times s
      | _ \<Rightarrow> s)"

definition key_off_click_handle :: "sys \<Rightarrow> sys" where
  "key_off_click_handle s =
     (case status s of
        ValveClose \<Rightarrow> if get_valve_lock s \<noteq> 0 then lamps led_valve_fail s else lamps beep_key_down s
      | SlaverSensorLost \<Rightarrow> if get_valve_lock s \<noteq> 0 then lamps led_valve_fail s else lamps beep_key_down s
      | ValveOpen \<Rightarrow> close_and_report s
      | SlaverLowPower \<Rightarrow>
          if get_valve_status s = VALVE_STATUS_OPEN then close_and_report s else s
      | SlaverUltraLowPower \<Rightarrow> lamps beep_once s
      | SlaverSensorLeak \<Rightarrow> lamps beep_stop s
      | MasterSensorLost \<Rightarrow> lamps beep_stop (close_and_report s)
      | MasterSensorLeak \<Rightarrow> lamps beep_stop s
      | MasterSensorAbnormal \<Rightarrow>
          gateway_warning_master_leak 0 (warning_all_clear (lamps beep_key_down s))
      | ValveLeftFail \<Rightarrow> lamps beep_stop s
      | ValveRightFail \<Rightarrow> lamps beep_stop s
      | MasterLowTemp \<Rightarrow> lamps beep_key_down (lamps beep_stop s)
      | _ \<Rightarrow> s)"

text \<open>
  Both keys held: tell the gateway, restore the default key-value store, reset. During the
  three seconds before the reset other threads still run; the model resets at once.
\<close>

definition key_on_off_long_click_handle :: "sys \<Rightarrow> sys" where
  "key_on_off_long_click_handle s =
     (if key_on_count (keys s) > 3 \<and> key_off_count (keys s) > 3
      then if \<not> key_on_off_flag (keys s)
           then let s1 = gateway_sync_device_reset (s\<lparr>keys := (keys s)\<lparr>key_on_off_flag := True\<rparr>\<rparr>)
                in (lamps led_factory_start (on_store (\<lambda>st. st\<lparr>ef_env := ef_env_set_default\<rparr>) s1))
                     \<lparr>cpu_reset := True\<rparr>
           else s
      else s)"

definition key_off_long_hold_handle :: "sys \<Rightarrow> sys" where
  "key_off_long_hold_handle s =
     (if key_off_count (keys s) < 4
      then s\<lparr>keys := (keys s)\<lparr>key_off_count := key_off_count (keys s) + 1\<rparr>\<rparr>
      else if key_on_count (keys s) \<noteq> 0 then key_on_off_long_click_handle s
      else if \<not> key_off_long_click (keys s)
      then radio_start_learn_device (s\<lparr>keys := (keys s)\<lparr>key_off_long_click := True\<rparr>\<rparr>)
      else s)"

definition key_off_long_free_handle :: "sys \<Rightarrow> sys" where
  "key_off_long_free_handle s =
     s\<lparr>keys := (keys s)\<lparr>key_on_off_flag := False, key_off_count := 0, key_off_long_click := False\<rparr>\<rparr>"

definition key_on_long_hold_handle :: "sys \<Rightarrow> sys" where
  "key_on_long_hold_handle s =
     (if key_on_count (keys s) < 4
      then s\<lparr>keys := (keys s)\<lparr>key_on_count := key_on_count (keys s) + 1\<rparr>\<rparr>
      else if key_off_count (keys s) \<noteq> 0 then key_on_off_long_click_handle s
      else if \<not> key_on_long_click (keys s)
      then valve_check_start (s\<lparr>keys := (keys s)\<lparr>key_on_long_click := True\<rparr>\<rparr>)
      else s)"

definition key_on_long_free_handle :: "sys \<Rightarrow> sys" where
  "key_on_long_free_handle s =
     s\<lparr>keys := (keys s)\<lparr>key_on_off_flag := False, key_on_count := 0, key_on_long_click := False\<rparr>\<rparr>"

section \<open>The buttons\<close>

text \<open>
  The tick count at start-up is not used before the first press sets a new deadline; it is 0 here. Without
  memory the pointer stays empty (the assertions in the package stop the unit then).
\<close>

definition key_setup :: "agile_btn \<Rightarrow> agile_btn" where
  "key_setup b =
     snd (agile_btn_start 0
       (snd (agile_btn_set_event_cb BTN_HOLD_FREE_EVENT
         (snd (agile_btn_set_event_cb BTN_HOLD_EVENT
           (snd (agile_btn_set_event_cb BTN_PRESS_UP_EVENT
             (agile_btn_set_hold_cycle_time 1000 b))))))))"

definition button_init :: "sys \<Rightarrow> sys" where
  "button_init s =
     s\<lparr>keys := (keys s)
         \<lparr>key_on_btn := map_option key_setup (agile_btn_create True (heap_ok (store s)) PIN_LOW 0),
          key_off_btn := map_option key_setup (agile_btn_create True (heap_ok (store s)) PIN_LOW 0)\<rparr>\<rparr>"

text \<open>The callbacks \<open>button_init\<close> registers.\<close>

fun key_on_callback :: "agile_btn_event \<Rightarrow> sys \<Rightarrow> sys" where
  "key_on_callback BTN_PRESS_UP_EVENT s = key_on_click_handle s"
| "key_on_callback BTN_HOLD_EVENT s = key_on_long_hold_handle s"
| "key_on_callback BTN_HOLD_FREE_EVENT s = key_on_long_free_handle s"
| "key_on_callback _ s = s"

fun key_off_callback :: "agile_btn_event \<Rightarrow> sys \<Rightarrow> sys" where
  "key_off_callback BTN_PRESS_UP_EVENT s = key_off_click_handle s"
| "key_off_callback BTN_HOLD_EVENT s = key_off_long_hold_handle s"
| "key_off_callback BTN_HOLD_FREE_EVENT s = key_off_long_free_handle s"
| "key_off_callback _ s = s"

text \<open>The calls for the events of one scan; after a reset nothing runs.\<close>

definition run_events :: "(agile_btn_event \<Rightarrow> sys \<Rightarrow> sys) \<Rightarrow> agile_btn_event list \<Rightarrow> sys \<Rightarrow> sys" where
  "run_events f es s = fold (\<lambda>e s. if cpu_reset s then s else f e s) es s"

definition key_on_scan :: "u32 \<Rightarrow> sys \<Rightarrow> sys" where
  "key_on_scan now s =
     (case key_on_btn (keys s) of
        Some b \<Rightarrow>
          if btn_active b
          then let (es, b1) = agile_btn_scan now (rt_pin_read KEY_ON_PIN s) b
               in run_events key_on_callback (filter (event_cb b) es)
                    (s\<lparr>keys := (keys s)\<lparr>key_on_btn := Some b1\<rparr>\<rparr>)
          else s
      | None \<Rightarrow> s)"

definition key_off_scan :: "u32 \<Rightarrow> sys \<Rightarrow> sys" where
  "key_off_scan now s =
     (case key_off_btn (keys s) of
        Some b \<Rightarrow>
          if btn_active b
          then let (es, b1) = agile_btn_scan now (rt_pin_read KEY_OFF_PIN s) b
               in run_events key_off_callback (filter (event_cb b) es)
                    (s\<lparr>keys := (keys s)\<lparr>key_off_btn := Some b1\<rparr>\<rparr>)
          else s
      | None \<Rightarrow> s)"

text \<open>\<open>agile_btn_process\<close>: the list holds the two keys in the order they were started.\<close>

definition agile_btn_process :: "u32 \<Rightarrow> sys \<Rightarrow> sys" where
  "agile_btn_process now s =
     (let s1 = key_on_scan now s in if cpu_reset s1 then s1 else key_off_scan now s1)"

lemma button_init_simps [simp]:
  "store (button_init s) = store s" "valve (button_init s) = valve s" "warn (button_init s) = warn s"
  "radio (button_init s) = radio s" "timer (button_init s) = timer s" "cpu_reset (button_init s) = cpu_reset s"
  "pin_in (button_init s) = pin_in s" "pin_out (button_init s) = pin_out s"
  by (simp_all add: button_init_def)

section \<open>The invariant\<close>

lemma good_keys [keep]:
  "good s \<Longrightarrow> good (key_on_click_handle s)" "good s \<Longrightarrow> good (key_off_click_handle s)"
  "good s \<Longrightarrow> good (key_off_long_free_handle s)" "good s \<Longrightarrow> good (key_on_long_free_handle s)"
  by (auto simp: key_on_click_handle_def key_off_click_handle_def key_off_long_free_handle_def
      key_on_long_free_handle_def intro!: keep split: device_status.split)

section \<open>What a click can do\<close>

text \<open>
  The open key opens the valve exactly when the status allows it (closed, sensor lost, or low
  battery with the valve closed), the valve is not locked and not faulty; in every other case
  position, lock and motor pins stay as they are. In particular no alarm that locks the valve can be
  overridden at the unit.
\<close>

theorem on_key_opens:
  "let opens = (status s \<in> {ValveClose, SlaverSensorLost, MasterSensorLost} \<or>
         status s = SlaverLowPower \<and> valve_status (valve s) = VALVE_STATUS_CLOSE) \<and>
       lock_status (valve s) \<noteq> 1 \<and> valve_valid (valve s);
       s' = key_on_click_handle s
   in (if opens then valve_status (valve s') = VALVE_STATUS_OPEN \<and> status s' = ValveOpen \<and>
                     \<not> pin_out s' MOTO_LEFT_CONTROL_PIN \<and> \<not> pin_out s' MOTO_RIGHT_CONTROL_PIN
       else valve s' = valve s \<and> pin_out s' = pin_out s \<and> status s' = status s \<and> timer s' = timer s) \<and>
      lock_status (valve s') = lock_status (valve s)"
proof -
  have refused: "lock_status (valve s) = 1 \<or> \<not> valve_valid (valve s) \<Longrightarrow>
      open_and_report s = lamps led_valve_fail s"
    by (auto simp: open_and_report_def valve_open_def)
  have opened: "\<not> (lock_status (valve s) = 1 \<or> \<not> valve_valid (valve s)) \<Longrightarrow>
      valve_status (valve (open_and_report s)) = VALVE_STATUS_OPEN \<and> status (open_and_report s) = ValveOpen \<and>
      \<not> pin_out (open_and_report s) MOTO_LEFT_CONTROL_PIN \<and> \<not> pin_out (open_and_report s) MOTO_RIGHT_CONTROL_PIN \<and>
      lock_status (valve (open_and_report s)) = lock_status (valve s)"
    by (simp add: open_and_report_def valve_open_def valve_turn_control_def)
  show ?thesis
    using refused opened
    by (cases "status s"; cases "lock_status (valve s) = 1 \<or> \<not> valve_valid (valve s)")
      (auto simp: key_on_click_handle_def get_valve_status_def Let_def)
qed

lemma on_key_opens_witness:
  "valve_status (valve (key_on_click_handle new_unit)) = VALVE_STATUS_OPEN \<and>
   valve (key_on_click_handle (valve_lock new_unit)) = valve (valve_lock new_unit)"
  using on_key_opens [of new_unit] on_key_opens [of "valve_lock new_unit"] by (simp add: Let_def)

end
