(* ===== verification/Modbus_Slave.thy ===== *)
theory Modbus_Slave
  imports Dry_Contact Keys
begin

text \<open>
  The Modbus slave (\<open>packages/freemodbus-latest/samples/sample_mb_slave.c\<close>): what it copies
  into the register images before each poll and what a written coil or register triggers.
\<close>

text \<open>\<open>WRITE_BIT\<close> and \<open>BIT_GET\<close>.\<close>

definition WRITE_BIT :: "byte \<Rightarrow> nat \<Rightarrow> byte \<Rightarrow> byte" where
  "WRITE_BIT number pos v =
     (if v > 0 then number OR push_bit pos 1 else number AND NOT (push_bit pos 1))"

definition BIT_GET :: "byte \<Rightarrow> nat \<Rightarrow> byte" where
  "BIT_GET x b = drop_bit b (x AND push_bit b 1)"

definition disc_bit :: "nat \<Rightarrow> nat \<Rightarrow> byte \<Rightarrow> mb_st \<Rightarrow> mb_st" where
  "disc_bit i pos v m = m\<lparr>ucSDiscInBuf := (ucSDiscInBuf m)[i := WRITE_BIT (ucSDiscInBuf m ! i) pos v]\<rparr>"

definition on_mb :: "(mb_st \<Rightarrow> mb_st) \<Rightarrow> sys \<Rightarrow> sys" where
  "on_mb f s = s\<lparr>mb := f (mb s)\<rparr>"

definition mb_valve_data_copy :: "sys \<Rightarrow> sys" where
  "mb_valve_data_copy s =
     on_mb (disc_bit 4 1 (bool_byte (rt_pin_read MOTO_RIGHT_FULLY_CLOSE_PIN s)) \<circ>
            disc_bit 4 0 (bool_byte (rt_pin_read MOTO_LEFT_FULLY_CLOSE_PIN s)) \<circ>
            disc_bit 3 1 (bool_byte (rt_pin_read MOTO_RIGHT_FULLY_OPEN_PIN s)) \<circ>
            disc_bit 3 0 (bool_byte (rt_pin_read MOTO_LEFT_FULLY_OPEN_PIN s)) \<circ>
            disc_bit 2 1 (mb_valve_control_right (valve s)) \<circ>
            disc_bit 2 0 (mb_valve_control_left (valve s))) s"

definition mb_input_dry_contact_data_copy :: "sys \<Rightarrow> sys" where
  "mb_input_dry_contact_data_copy s = on_mb (disc_bit 0 0 (dry_contact_input_state (dry s) ! 0)) s"

definition mb_output_dry_contact_data_copy :: "sys \<Rightarrow> sys" where
  "mb_output_dry_contact_data_copy s =
     on_mb (fold (\<lambda>i. disc_bit 1 i (dry_contact_output_state (dry s) ! i)) [0..<3]) s"

definition mb_adc_value_data_copy :: "sys \<Rightarrow> sys" where
  "mb_adc_value_data_copy s = on_mb (\<lambda>m. m\<lparr>usSRegInBuf := (usSRegInBuf m)[0 := 0]\<rparr>) s"

definition mb_coils_data_copy :: "sys \<Rightarrow> sys" where
  "mb_coils_data_copy s =
     on_mb (\<lambda>m. m\<lparr>ucSCoilBuf :=
       (ucSCoilBuf m)[0 := WRITE_BIT (ucSCoilBuf m ! 0) 0 (position_code (get_valve_status s))]\<rparr>) s"

definition mb_holding_data_copy :: "sys \<Rightarrow> sys" where
  "mb_holding_data_copy s =
     on_mb (\<lambda>m. m\<lparr>usSRegHoldBuf := (usSRegHoldBuf m)[0 := ucast (status_code (warning_status_get s))]\<rparr>) s"

definition mb_valve_single_control_write_callback :: "sys \<Rightarrow> sys" where
  "mb_valve_single_control_write_callback s =
     (if BIT_GET (ucSCoilBuf (mb s) ! 0) 0 \<noteq> 0 then key_on_click_handle s else key_off_click_handle s)"

definition mb_holding_write_callback :: "sys \<Rightarrow> sys" where
  "mb_holding_write_callback s = key_off_click_handle s"

text \<open>One turn of \<open>mb_slave_poll\<close> up to \<open>eMBPoll\<close>.\<close>

definition mb_slave_copy :: "sys \<Rightarrow> sys" where
  "mb_slave_copy s =
     mb_holding_data_copy (mb_coils_data_copy (mb_adc_value_data_copy
       (mb_output_dry_contact_data_copy (mb_input_dry_contact_data_copy (mb_valve_data_copy s)))))"

section \<open>The invariant\<close>

lemma on_mb_good [simp]: "good (on_mb f s) = good s"
  by (simp add: on_mb_def)

lemma good_modbus [keep]:
  "good s \<Longrightarrow> good (mb_slave_copy s)"
  "good s \<Longrightarrow> good (mb_valve_single_control_write_callback s)"
  "good s \<Longrightarrow> good (mb_holding_write_callback s)"
  by (simp_all add: mb_slave_copy_def mb_holding_data_copy_def mb_coils_data_copy_def
      mb_adc_value_data_copy_def mb_output_dry_contact_data_copy_def mb_input_dry_contact_data_copy_def
      mb_valve_data_copy_def mb_valve_single_control_write_callback_def mb_holding_write_callback_def keep)

section \<open>What a master reads\<close>

lemma BIT_GET_bit: "b < 8 \<Longrightarrow> BIT_GET x b = (if bit x b then 1 else 0)"
proof -
  assume b: "b < 8"
  have "BIT_GET x b = of_bool (bit x b)"
  proof (rule bit_word_eqI)
    fix n assume "n < LENGTH(8)"
    show "bit (BIT_GET x b) n = bit (of_bool (bit x b) :: byte) n"
      using b unfolding BIT_GET_def
      by (cases "n = 0") (auto simp: bit_simps simp del: push_bit_of_1 push_bit_eq_mult)
  qed
  then show ?thesis by simp
qed

lemma WRITE_BIT_bit: "p < 8 \<Longrightarrow> bit (WRITE_BIT x p v) q = (if q = p then v \<noteq> 0 else bit x q)"
  unfolding WRITE_BIT_def
  by (auto simp: bit_simps word_neq_0_conv dest: bit_imp_le_length
      simp del: push_bit_of_1 push_bit_eq_mult)

lemma BIT_GET_WRITE_BIT:
  "\<lbrakk>p < 8; q < 8\<rbrakk> \<Longrightarrow> BIT_GET (WRITE_BIT x p v) q =
     (if q = p then if v \<noteq> 0 then 1 else 0 else BIT_GET x q)"
  by (simp add: BIT_GET_bit WRITE_BIT_bit)

text \<open>
  Before each poll the register images hold the current state: coil 0 is the valve position, the
  holding register the status code, the discrete inputs the commanded motors, the four end
  switches, the dry-contact input and the three dry-contact outputs; no other bit of the coils
  changes.
\<close>

theorem modbus_images:
  assumes "length (ucSDiscInBuf (mb s)) = 8" "length (ucSCoilBuf (mb s)) = 4"
    and "length (usSRegHoldBuf (mb s)) = 32" "length (usSRegInBuf (mb s)) = 32"
  shows "let m = mb (mb_slave_copy s); disc = (\<lambda>i b. BIT_GET (ucSDiscInBuf m ! i) b \<noteq> 0) in
    BIT_GET (ucSCoilBuf m ! 0) 0 = position_code (valve_status (valve s)) \<and>
    (\<forall>b \<in> {1..<8}. BIT_GET (ucSCoilBuf m ! 0) b = BIT_GET (ucSCoilBuf (mb s) ! 0) b) \<and>
    usSRegHoldBuf m ! 0 = ucast (status_code (status s)) \<and>
    disc 2 0 = (mb_valve_control_left (valve s) \<noteq> 0) \<and> disc 2 1 = (mb_valve_control_right (valve s) \<noteq> 0) \<and>
    disc 3 0 = pin_in s MOTO_LEFT_FULLY_OPEN_PIN \<and> disc 3 1 = pin_in s MOTO_RIGHT_FULLY_OPEN_PIN \<and>
    disc 4 0 = pin_in s MOTO_LEFT_FULLY_CLOSE_PIN \<and> disc 4 1 = pin_in s MOTO_RIGHT_FULLY_CLOSE_PIN \<and>
    disc 0 0 = (dry_contact_input_state (dry s) ! 0 \<noteq> 0) \<and>
    (\<forall>i \<in> {0..<3}. disc 1 i = (dry_contact_output_state (dry s) ! i \<noteq> 0))"
proof -
  have pos: "position_code p = (if position_code p \<noteq> 0 then 1 else 0)" for p
    by (cases p) (simp_all add: position_code_def)
  have code: "status_code d < 14" for d by (cases d) (simp_all add: status_code_def)
  have three: "[0..<3] = [0, 1, 2]" "{0..<3} = {0, 1, 2 :: nat}" by (auto simp: upt_rec)
  show ?thesis
    using assms pos [of "valve_status (valve s)"]
    by (simp add: mb_slave_copy_def mb_holding_data_copy_def mb_coils_data_copy_def
        mb_adc_value_data_copy_def mb_output_dry_contact_data_copy_def mb_input_dry_contact_data_copy_def
        mb_valve_data_copy_def on_mb_def disc_bit_def Let_def three BIT_GET_WRITE_BIT nth_list_update
        get_valve_status_def warning_status_get_def rt_pin_read_def bool_byte_def)
qed

lemma modbus_images_witness:
  "BIT_GET (ucSCoilBuf (mb (mb_slave_copy new_unit)) ! 0) 0 = 0"
proof -
  have "length (ucSDiscInBuf (mb new_unit)) = 8" "length (ucSCoilBuf (mb new_unit)) = 4"
    "length (usSRegHoldBuf (mb new_unit)) = 32" "length (usSRegInBuf (mb new_unit)) = 32"
    by (simp_all add: new_unit_def)
  from modbus_images [OF this] show ?thesis by (simp add: Let_def position_code_def)
qed

end
