(* ===== verification/Modbus_Requests.thy ===== *)
theory Modbus_Requests
  imports Modbus_Slave Modbus_Rtu
begin

text \<open>
  Serving a Modbus request: the bit utilities (\<open>modbus/functions/mbutils.c\<close>), the register callbacks with
  the firmware's own hooks (\<open>port/user_mb_app.c\<close>), the function handlers
  (\<open>modbus/functions/mbfunccoils.c\<close>, \<open>mbfuncdisc.c\<close>, \<open>mbfuncholding.c\<close>, \<open>mbfuncinput.c\<close>) and the execution
  step of \<open>eMBPoll\<close> (\<open>modbus/mb.c\<close>).

  The utilities read and write one byte further than the bits they need, so they can touch
  memory behind an array. \<open>arr xs behind\<close> is the memory from the start of an array with content \<open>xs\<close>; what
  lies behind it is an argument of the callbacks and, where they write, a result.
\<close>

definition arr :: "byte list \<Rightarrow> mem \<Rightarrow> mem" where
  "arr xs behind i = (if i < length xs then xs ! i else behind i)"

section \<open>Bits\<close>

text \<open>Both take the buffer from the pointer on; at most eight bits at a time.\<close>

definition xMBUtilGetBits :: "mem \<Rightarrow> nat \<Rightarrow> nat \<Rightarrow> byte" where
  "xMBUtilGetBits ucByteBuf usBitOffset ucNBits =
     (let usByteOffset = usBitOffset div 8;
          usNPreBits = usBitOffset - usByteOffset * 8;
          usMask = push_bit ucNBits 1 - 1 :: u16;
          usWordBuf = ucast (ucByteBuf usByteOffset) OR push_bit 8 (ucast (ucByteBuf (usByteOffset + 1))) :: u16
      in ucast (drop_bit usNPreBits usWordBuf AND usMask))"

definition xMBUtilSetBits :: "mem \<Rightarrow> nat \<Rightarrow> nat \<Rightarrow> byte \<Rightarrow> mem" where
  "xMBUtilSetBits ucByteBuf usBitOffset ucNBits ucValue =
     (let usByteOffset = usBitOffset div 8;
          usNPreBits = usBitOffset - usByteOffset * 8;
          usValue = push_bit usNPreBits (ucast ucValue) :: u16;
          usMask = push_bit (usBitOffset - usByteOffset * 8) (push_bit ucNBits 1 - 1) :: u16;
          usWordBuf = ucast (ucByteBuf usByteOffset) OR push_bit 8 (ucast (ucByteBuf (usByteOffset + 1))) :: u16;
          usWordBuf1 = (usWordBuf AND NOT usMask) OR usValue
      in ucByteBuf(usByteOffset := ucast (usWordBuf1 AND 0xFF),
                   usByteOffset + 1 := ucast (drop_bit 8 usWordBuf1)))"

text \<open>Bit \<open>p\<close> of a memory, counted from its start.\<close>

definition mem_bit :: "mem \<Rightarrow> nat \<Rightarrow> bool" where
  "mem_bit m p = bit (m (p div 8)) (p mod 8)"

lemma bit_low_mask: "bit (push_bit k 1 - 1 :: u16) n \<longleftrightarrow> n < 16 \<and> n < k"
proof -
  have "push_bit k 1 - 1 = (mask k :: u16)" by (simp add: mask_eq_decr_exp)
  then show ?thesis by (simp add: bit_mask_iff)
qed

text \<open>The two bytes at \<open>k\<close> as one word.\<close>

definition pair_at :: "mem \<Rightarrow> nat \<Rightarrow> u16" where
  "pair_at m k = ucast (m k) OR push_bit 8 (ucast (m (k + 1)))"

lemma bit_pair_at: "n < 16 \<Longrightarrow> bit (pair_at m k) n = mem_bit m (8 * k + n)"
proof -
  assume n: "n < 16"
  show ?thesis
  proof (cases "n < 8")
    case True
    then show ?thesis
      by (simp add: pair_at_def mem_bit_def bit_simps del: push_bit_of_1 push_bit_eq_mult)
  next
    case False
    define j where "j = n - 8"
    have j: "n = 8 + j" "j < 8" using False n by (simp_all add: j_def)
    have "\<not> bit (m k) (8 + j)" using bit_imp_le_length [of "m k" "8 + j"] by auto
    moreover have "8 * k + n = 8 * (k + 1) + j" using j by simp
    then have "(8 * k + n) div 8 = k + 1" "(8 * k + n) mod 8 = j" using j(2) by simp_all
    ultimately show ?thesis
      using j by (simp add: pair_at_def mem_bit_def bit_simps del: push_bit_of_1 push_bit_eq_mult)
  qed
qed

lemma get_bits:
  assumes "n \<le> 8" "i < 8"
  shows "bit (xMBUtilGetBits m off n) i \<longleftrightarrow> i < n \<and> mem_bit m (off + i)"
proof -
  define k where "k = off div 8"
  have off: "off = 8 * k + off mod 8" by (simp add: k_def)
  have lt: "i + off mod 8 < 16" using assms(2) mod_less_divisor [of 8 off] by linarith
  have "xMBUtilGetBits m off n = ucast (drop_bit (off mod 8) (pair_at m k) AND (push_bit n 1 - 1))"
    by (simp only: xMBUtilGetBits_def Let_def k_def pair_at_def minus_div_mult_eq_mod)
  then have "bit (xMBUtilGetBits m off n) i \<longleftrightarrow> bit (pair_at m k) (i + off mod 8) \<and> i < n"
    using assms by (auto simp: bit_and_iff bit_drop_bit_eq bit_unsigned_iff bit_low_mask add.commute
        simp del: push_bit_of_1 push_bit_eq_mult)
  also have "bit (pair_at m k) (i + off mod 8) = mem_bit m (off + i)"
  proof -
    have e: "off + i = 8 * k + (i + off mod 8)" using off by linarith
    show ?thesis unfolding e by (rule bit_pair_at [OF lt])
  qed
  finally show ?thesis by blast
qed

text \<open>
  Setting bits: the \<open>n\<close> bits of the value arrive, the value's bits above \<open>n\<close> are added to what follows
  (the code does not mask the value), and nothing else changes.
\<close>

lemma set_bits:
  assumes "n \<le> 8"
  shows "mem_bit (xMBUtilSetBits m off n v) p =
    (if off \<le> p \<and> p < off + n then bit v (p - off)
     else if off + n \<le> p \<and> p < off + 8 then mem_bit m p \<or> bit v (p - off)
     else mem_bit m p)"
proof -
  define k r where "k = off div 8" and "r = off mod 8"
  have off: "off = 8 * k + r" and r: "r < 8" by (simp_all add: k_def r_def)
  define w where "w = (pair_at m k AND NOT (push_bit r (push_bit n 1 - 1))) OR push_bit r (ucast v)"
  have set: "xMBUtilSetBits m off n v = m(k := ucast (w AND 0xFF), k + 1 := ucast (drop_bit 8 w))"
    by (simp only: xMBUtilSetBits_def Let_def k_def r_def pair_at_def minus_div_mult_eq_mod w_def)
  have wbit: "bit w j = (if off \<le> 8 * k + j \<and> 8 * k + j < off + n then bit v (8 * k + j - off)
      else if off + n \<le> 8 * k + j \<and> 8 * k + j < off + 8 then mem_bit m (8 * k + j) \<or> bit v (8 * k + j - off)
      else mem_bit m (8 * k + j))" if j: "j < 16" for j
  proof -
    have v: "bit v i \<Longrightarrow> i < 8" for i using bit_imp_le_length [of v i] by simp
    have "bit w j = (bit (pair_at m k) j \<and> \<not> (r \<le> j \<and> j - r < n) \<or> r \<le> j \<and> bit v (j - r))"
      using j by (auto simp: w_def bit_or_iff bit_and_iff bit_not_iff bit_push_bit_iff bit_low_mask
          bit_unsigned_iff simp del: push_bit_of_1 push_bit_eq_mult)
    then show ?thesis using bit_pair_at [OF j, of m k] assms v [of "j - r"] by (auto simp: off)
  qed
  have ff: "(0xFF :: u16) = mask 8" by (simp add: mask_eq_exp_minus_1)
  consider "p div 8 = k" | "p div 8 = k + 1" | "p div 8 \<noteq> k" "p div 8 \<noteq> k + 1" by blast
  then show ?thesis
  proof cases
    case 1
    then have p: "p = 8 * k + p mod 8" by (metis mult_div_mod_eq)
    have "mem_bit (xMBUtilSetBits m off n v) p = bit w (p mod 8)"
      unfolding set mem_bit_def 1 ff using mod_less_divisor [of 8 p] by (simp add: bit_simps) linarith
    with wbit [of "p mod 8"] p show ?thesis by simp
  next
    case 2
    then have p: "p = 8 * k + (8 + p mod 8)" by (metis add.assoc distrib_left mult.right_neutral mult_div_mod_eq)
    have "mem_bit (xMBUtilSetBits m off n v) p = bit w (8 + p mod 8)"
      unfolding set mem_bit_def 2 by (simp add: bit_simps)
    with wbit [of "8 + p mod 8"] p show ?thesis by simp
  next
    case 3
    then have "mem_bit (xMBUtilSetBits m off n v) p = mem_bit m p" by (simp add: set mem_bit_def)
    moreover have "\<not> (off \<le> p \<and> p < off + 8)"
    proof
      assume "off \<le> p \<and> p < off + 8"
      then have "8 * k \<le> p" "p < 8 * k + 16" using off r by linarith+
      then have "k \<le> p div 8" "p div 8 < k + 2" by linarith+
      with 3 show False by linarith
    qed
    ultimately show ?thesis using assms by auto
  qed
qed

section \<open>The register callbacks\<close>

datatype eMBErrorCode =
    MB_ENOERR | MB_ENOREG | MB_EINVAL | MB_EPORTERR | MB_ENORES | MB_EIO | MB_EILLSTATE | MB_ETIMEDOUT

datatype eMBRegisterMode = MB_REG_READ | MB_REG_WRITE

definition S_DISCRETE_INPUT_START :: nat where "S_DISCRETE_INPUT_START = 0"
definition S_DISCRETE_INPUT_NDISCRETES :: nat where "S_DISCRETE_INPUT_NDISCRETES = 64"
definition S_COIL_START :: nat where "S_COIL_START = 0"
definition S_COIL_NCOILS :: nat where "S_COIL_NCOILS = 32"
definition S_REG_INPUT_START :: nat where "S_REG_INPUT_START = 0"
definition S_REG_INPUT_NREGS :: nat where "S_REG_INPUT_NREGS = 32"
definition S_REG_HOLDING_START :: nat where "S_REG_HOLDING_START = 0"
definition S_REG_HOLDING_NREGS :: nat where "S_REG_HOLDING_NREGS = 32"

lemmas reg_consts =
  S_DISCRETE_INPUT_START_def S_DISCRETE_INPUT_NDISCRETES_def S_COIL_START_def S_COIL_NCOILS_def
  S_REG_INPUT_START_def S_REG_INPUT_NREGS_def S_REG_HOLDING_START_def S_REG_HOLDING_NREGS_def

text \<open>The loops over registers: index \<open>i\<close> of the registers, position \<open>p\<close> of \<open>pucRegBuffer\<close>.\<close>

fun reg_read :: "u16 list \<Rightarrow> nat \<Rightarrow> nat \<Rightarrow> nat \<Rightarrow> mem \<Rightarrow> mem" where
  "reg_read regs i p 0 buf = buf"
| "reg_read regs i p (Suc n) buf =
     reg_read regs (i + 1) (p + 2) n
       (buf(p := ucast (drop_bit 8 (regs ! i)), p + 1 := ucast (regs ! i AND 0xFF)))"

fun reg_write :: "u16 list \<Rightarrow> nat \<Rightarrow> nat \<Rightarrow> nat \<Rightarrow> mem \<Rightarrow> u16 list" where
  "reg_write regs i p 0 buf = regs"
| "reg_write regs i p (Suc n) buf =
     reg_write (regs[i := push_bit 8 (ucast (buf p)) OR ucast (buf (p + 1))]) (i + 1) (p + 2) n buf"

definition eMBRegInputCB :: "nat \<Rightarrow> u16 \<Rightarrow> u16 \<Rightarrow> mem \<Rightarrow> sys \<Rightarrow> eMBErrorCode \<times> mem" where
  "eMBRegInputCB p usAddress usNRegs buf s =
     (let a = unat (usAddress - 1) in
      if a \<ge> S_REG_INPUT_START \<and> a + unat usNRegs \<le> S_REG_INPUT_START + S_REG_INPUT_NREGS
      then (MB_ENOERR, reg_read (usSRegInBuf (mb s)) (a - S_REG_INPUT_START) p (unat usNRegs) buf)
      else (MB_ENOREG, buf))"

definition eMBRegHoldingCB ::
  "nat \<Rightarrow> u16 \<Rightarrow> u16 \<Rightarrow> eMBRegisterMode \<Rightarrow> mem \<Rightarrow> sys \<Rightarrow> eMBErrorCode \<times> mem \<times> sys" where
  "eMBRegHoldingCB p usAddress usNRegs eMode buf s =
     (let a = unat (usAddress - 1) in
      if a \<ge> S_REG_HOLDING_START \<and> a + unat usNRegs \<le> S_REG_HOLDING_START + S_REG_HOLDING_NREGS
      then let iRegIndex = a - S_REG_HOLDING_START in
        (case eMode of
           MB_REG_READ \<Rightarrow> (MB_ENOERR, reg_read (usSRegHoldBuf (mb s)) iRegIndex p (unat usNRegs) buf, s)
         | MB_REG_WRITE \<Rightarrow>
             let s1 = on_mb (\<lambda>m. m\<lparr>usSRegHoldBuf := reg_write (usSRegHoldBuf m) iRegIndex p (unat usNRegs) buf\<rparr>) s
             in (MB_ENOERR, buf,
                 if iRegIndex + unat usNRegs = 1 then mb_holding_write_callback s1 else s1))
      else (MB_ENOREG, buf, s))"

text \<open>The loops over bytes of bits, with \<open>k\<close> turns left.\<close>

fun bits_read :: "mem \<Rightarrow> nat \<Rightarrow> nat \<Rightarrow> nat \<Rightarrow> nat \<Rightarrow> mem \<Rightarrow> mem" where
  "bits_read m iRegIndex iRegBitIndex p 0 buf = buf"
| "bits_read m iRegIndex iRegBitIndex p (Suc k) buf =
     bits_read m (iRegIndex + 1) iRegBitIndex (p + 1) k
       (buf(p := xMBUtilGetBits (\<lambda>j. m (iRegIndex + j)) iRegBitIndex 8))"

text \<open>Writing at \<open>&pucCoilBuf[iRegIndex]\<close>.\<close>

definition set_bits_at :: "mem \<Rightarrow> nat \<Rightarrow> nat \<Rightarrow> nat \<Rightarrow> byte \<Rightarrow> mem" where
  "set_bits_at m iRegIndex iRegBitIndex n v =
     (\<lambda>i. if iRegIndex \<le> i then xMBUtilSetBits (\<lambda>j. m (iRegIndex + j)) iRegBitIndex n v (i - iRegIndex) else m i)"

fun bits_write :: "mem \<Rightarrow> nat \<Rightarrow> nat \<Rightarrow> nat \<Rightarrow> nat \<Rightarrow> mem \<Rightarrow> mem" where
  "bits_write m iRegIndex iRegBitIndex p 0 buf = m"
| "bits_write m iRegIndex iRegBitIndex p (Suc k) buf =
     bits_write (set_bits_at m iRegIndex iRegBitIndex 8 (buf p)) (iRegIndex + 1) iRegBitIndex (p + 1) k buf"

text \<open>After the read loop: the pointer is one past the last byte, which keeps only its low bits.\<close>

definition last_bits :: "nat \<Rightarrow> nat \<Rightarrow> mem \<Rightarrow> mem" where
  "last_bits p n buf = buf(p := drop_bit (8 - n mod 8) (push_bit (8 - n mod 8) (buf p)))"

definition eMBRegCoilsCB ::
  "nat \<Rightarrow> u16 \<Rightarrow> u16 \<Rightarrow> eMBRegisterMode \<Rightarrow> mem \<Rightarrow> mem \<Rightarrow> sys \<Rightarrow> eMBErrorCode \<times> mem \<times> mem \<times> sys" where
  "eMBRegCoilsCB p usAddress usNCoils eMode buf behind s =
     (let n = unat usNCoils; iNReg = n div 8 + 1; a = unat (usAddress - 1);
          coils = arr (ucSCoilBuf (mb s)) behind in
      if a \<ge> S_COIL_START \<and> a + n \<le> S_COIL_START + S_COIL_NCOILS
      then let iRegIndex = (a - S_COIL_START) div 8; iRegBitIndex = (a - S_COIL_START) mod 8 in
        (case eMode of
           MB_REG_READ \<Rightarrow>
             (MB_ENOERR, last_bits (p + iNReg - 1) n (bits_read coils iRegIndex iRegBitIndex p iNReg buf), behind, s)
         | MB_REG_WRITE \<Rightarrow>
             let m1 = bits_write coils iRegIndex iRegBitIndex p (iNReg - 1) buf;
                 i1 = iRegIndex + (iNReg - 1);
                 (m2, i2) = (if n mod 8 \<noteq> 0
                             then (set_bits_at m1 i1 iRegBitIndex (n mod 8) (buf (p + (iNReg - 1))), i1 + 1)
                             else (m1, i1));
                 len = length (ucSCoilBuf (mb s));
                 s1 = on_mb (\<lambda>m. m\<lparr>ucSCoilBuf := map m2 [0..<len]\<rparr>) s
             in (MB_ENOERR, buf, (\<lambda>i. if i < len then behind i else m2 i),
                 if i2 = 1 then mb_valve_single_control_write_callback s1 else s1))
      else (MB_ENOREG, buf, behind, s))"

definition eMBRegDiscreteCB :: "nat \<Rightarrow> u16 \<Rightarrow> u16 \<Rightarrow> mem \<Rightarrow> mem \<Rightarrow> sys \<Rightarrow> eMBErrorCode \<times> mem" where
  "eMBRegDiscreteCB p usAddress usNDiscrete buf behind s =
     (let n = unat usNDiscrete; iNReg = n div 8 + 1; a = unat (usAddress - 1);
          discrete = arr (ucSDiscInBuf (mb s)) behind in
      if a \<ge> S_DISCRETE_INPUT_START \<and> a + n \<le> S_DISCRETE_INPUT_START + S_DISCRETE_INPUT_NDISCRETES
      then (MB_ENOERR, last_bits (p + iNReg - 1) n
              (bits_read discrete ((a - S_DISCRETE_INPUT_START) div 8) ((a - S_DISCRETE_INPUT_START) mod 8) p iNReg buf))
      else (MB_ENOREG, buf))"

section \<open>What the loops compute\<close>

lemma mem_bit_shift: "mem_bit (\<lambda>j. m (k + j)) p = mem_bit m (8 * k + p)"
  by (simp add: mem_bit_def)

lemma set_bits_at:
  assumes "n \<le> 8"
  shows "mem_bit (set_bits_at m k b n v) q =
    (if 8 * k + b \<le> q \<and> q < 8 * k + b + n then bit v (q - (8 * k + b))
     else if 8 * k + b + n \<le> q \<and> q < 8 * k + b + 8 then mem_bit m q \<or> bit v (q - (8 * k + b))
     else mem_bit m q)"
proof (cases "k \<le> q div 8")
  case True
  define p where "p = q - 8 * k"
  have q: "q = 8 * k + p" using True by (simp add: p_def less_eq_div_iff_mult_less_eq mult.commute)
  have "mem_bit (set_bits_at m k b n v) q = mem_bit (xMBUtilSetBits (\<lambda>j. m (k + j)) b n v) p"
    by (simp add: set_bits_at_def mem_bit_def q)
  then show ?thesis unfolding set_bits [OF assms] mem_bit_shift by (simp add: q)
next
  case False
  then have "q < 8 * k" by linarith
  with False show ?thesis by (simp add: set_bits_at_def mem_bit_def)
qed

lemma mem_bit_byte: "i < 8 \<Longrightarrow> mem_bit m (8 * p + i) = bit (m p) i"
  by (simp add: mem_bit_def)

lemma bits_write:
  "mem_bit (bits_write m r b p k buf) q =
     (if 8 * r + b \<le> q \<and> q < 8 * r + b + 8 * k then mem_bit buf (8 * p + (q - (8 * r + b))) else mem_bit m q)"
proof (induction k arbitrary: m r p)
  case (Suc k)
  have step: "mem_bit (set_bits_at m r b 8 (buf p)) q =
      (if 8 * r + b \<le> q \<and> q < 8 * r + b + 8 then mem_bit buf (8 * p + (q - (8 * r + b))) else mem_bit m q)"
    using mem_bit_byte [of "q - (8 * r + b)" buf p] by (auto simp: set_bits_at)
  show ?case
  proof (cases "8 * r + b + 8 \<le> q")
    case True
    then have "8 * (p + 1) + (q - (8 * (r + 1) + b)) = 8 * p + (q - (8 * r + b))" by simp
    with True show ?thesis by (simp only: bits_write.simps Suc.IH step) auto
  next
    case False
    then show ?thesis by (simp only: bits_write.simps Suc.IH step) auto
  qed
qed auto

lemma get_bits_byte: "i < 8 \<Longrightarrow> bit (xMBUtilGetBits m b 8) i = mem_bit m (b + i)"
  by (simp add: get_bits)

lemma bits_read:
  "mem_bit (bits_read m r b p k buf) q =
     (if 8 * p \<le> q \<and> q < 8 * (p + k) then mem_bit m (8 * r + b + (q - 8 * p)) else mem_bit buf q)"
proof (induction k arbitrary: buf r p)
  case (Suc k)
  let ?v = "xMBUtilGetBits (\<lambda>j. m (r + j)) b 8"
  have step: "mem_bit (buf(p := ?v)) q =
      (if 8 * p \<le> q \<and> q < 8 * p + 8 then mem_bit m (8 * r + b + (q - 8 * p)) else mem_bit buf q)"
  proof (cases "q div 8 = p")
    case True
    then have "q = 8 * p + q mod 8" by (metis mult_div_mod_eq)
    moreover have "mem_bit (buf(p := ?v)) q = mem_bit m (8 * r + (b + q mod 8))"
      using True mem_bit_shift [of m r "b + q mod 8"]
      by (simp only: mem_bit_def fun_upd_same get_bits_byte mod_less_divisor zero_less_numeral)
    moreover have "8 * r + (b + q mod 8) = 8 * r + b + (q - 8 * p)" "8 * p \<le> q" "q < 8 * p + 8"
      using \<open>q = 8 * p + q mod 8\<close> mod_less_divisor [of 8 q] by linarith+
    ultimately show ?thesis by (simp only: simp_thms if_True)
  next
    case False
    then have "\<not> (8 * p \<le> q \<and> q < 8 * p + 8)" by linarith
    moreover have "mem_bit (buf(p := ?v)) q = mem_bit buf q" using False by (simp add: mem_bit_def)
    ultimately show ?thesis by (simp only: if_False)
  qed
  show ?case
  proof (cases "8 * (p + 1) \<le> q")
    case True
    then have "8 * (r + 1) + b + (q - 8 * (p + 1)) = 8 * r + b + (q - 8 * p)" by simp
    with True show ?thesis by (simp only: bits_read.simps Suc.IH step) auto
  next
    case False
    then show ?thesis by (simp only: bits_read.simps Suc.IH step) auto
  qed
qed auto

lemma last_bits:
  "mem_bit (last_bits p n buf) q = (mem_bit buf q \<and> \<not> (q div 8 = p \<and> n mod 8 \<le> q mod 8))"
proof (cases "q div 8 = p")
  case True
  have i: "q mod 8 < 8" and n: "n mod 8 < 8" by simp_all
  define c where "c = 8 - n mod 8"
  have c: "c \<le> 8" "n mod 8 = 8 - c" using n by (simp_all add: c_def)
  have "bit (drop_bit c (push_bit c (buf p))) (q mod 8) = (bit (buf p) (q mod 8) \<and> q mod 8 < 8 - c)"
    using i by (auto simp: bit_simps simp del: push_bit_of_1 push_bit_eq_mult)
  with True c show ?thesis by (auto simp: last_bits_def mem_bit_def c_def [symmetric])
qed (simp add: last_bits_def mem_bit_def)

text \<open>Reading \<open>n\<close> bits from bit \<open>a\<close> on: they arrive in order, the rest of the last byte is 0.\<close>

lemma read_bits:
  assumes "q < 8 * (n div 8 + 1)"
  shows "mem_bit (last_bits (p + n div 8) n (bits_read m (a div 8) (a mod 8) p (n div 8 + 1) buf)) (8 * p + q) =
    (q < n \<and> mem_bit m (a + q))"
proof -
  have a: "8 * (a div 8) + a mod 8 = a" by simp
  have "((8 * p + q) div 8 = p + n div 8 \<and> n mod 8 \<le> (8 * p + q) mod 8) = (n \<le> q)"
  proof
    assume "n \<le> q"
    then have "n div 8 \<le> q div 8" by (rule div_le_mono)
    moreover have "q div 8 < n div 8 + 1" using assms by (intro less_mult_imp_div_less) (simp add: mult.commute)
    ultimately have "q div 8 = n div 8" by linarith
    moreover from this \<open>n \<le> q\<close> have "n mod 8 \<le> q mod 8"
      using mult_div_mod_eq [of 8 q] mult_div_mod_eq [of 8 n] by linarith
    ultimately show "(8 * p + q) div 8 = p + n div 8 \<and> n mod 8 \<le> (8 * p + q) mod 8" by simp
  next
    assume "(8 * p + q) div 8 = p + n div 8 \<and> n mod 8 \<le> (8 * p + q) mod 8"
    then have "q div 8 = n div 8" "n mod 8 \<le> q mod 8" by simp_all
    then show "n \<le> q" using mult_div_mod_eq [of 8 q] mult_div_mod_eq [of 8 n] by linarith
  qed
  then show ?thesis using assms unfolding last_bits bits_read by (auto simp: a)
qed

lemma read_bits_frame:
  "i < p \<Longrightarrow> last_bits (p + k) n (bits_read m r b p c buf) i = buf i"
proof -
  have "i < p \<Longrightarrow> bits_read m r b p c buf i = buf i" by (induction c arbitrary: p r buf) simp_all
  then show "i < p \<Longrightarrow> last_bits (p + k) n (bits_read m r b p c buf) i = buf i" by (simp add: last_bits_def)
qed

section \<open>The callbacks on the unit\<close>

text \<open>Coil and discrete input number \<open>i\<close>.\<close>

definition coil :: "sys \<Rightarrow> nat \<Rightarrow> bool" where
  "coil s i = bit (ucSCoilBuf (mb s) ! (i div 8)) (i mod 8)"

definition discrete_input :: "sys \<Rightarrow> nat \<Rightarrow> bool" where
  "discrete_input s i = bit (ucSDiscInBuf (mb s) ! (i div 8)) (i mod 8)"

lemma arr_bit: "q < 8 * length xs \<Longrightarrow> mem_bit (arr xs b) q = bit (xs ! (q div 8)) (q mod 8)"
  by (simp add: mem_bit_def arr_def less_mult_imp_div_less mult.commute)

lemma keys_mb [simp]: "mb (key_on_click_handle s) = mb s" "mb (key_off_click_handle s) = mb s"
proof -
  have "mb (open_and_report s) = mb s" "mb (close_and_report s) = mb s"
    by (simp_all add: open_and_report_def close_and_report_def valve_open_def valve_close_def
        valve_turn_control_def set_status_def rt_pin_write_def stop_timers_def)
  moreover have "mb (warning_all_clear s) = mb s"
    by (simp add: warning_all_clear_def set_status_def set_now_def Let_def)
  ultimately show "mb (key_on_click_handle s) = mb s" "mb (key_off_click_handle s) = mb s"
    by (simp_all add: key_on_click_handle_def key_off_click_handle_def split: device_status.split)
qed

lemma callbacks_mb [simp]:
  "mb (mb_valve_single_control_write_callback s) = mb s" "mb (mb_holding_write_callback s) = mb s"
  by (simp_all add: mb_valve_single_control_write_callback_def mb_holding_write_callback_def)

lemma coils_read_eq:
  assumes "unat a + unat n \<le> 32"
  shows "eMBRegCoilsCB p (a + 1) n MB_REG_READ buf behind s =
    (MB_ENOERR, last_bits (p + unat n div 8) (unat n)
       (bits_read (arr (ucSCoilBuf (mb s)) behind) (unat a div 8) (unat a mod 8) p (unat n div 8 + 1) buf), behind, s)"
  using assms by (simp add: eMBRegCoilsCB_def Let_def reg_consts del: bits_read.simps)

lemma discrete_read_eq:
  assumes "unat a + unat n \<le> 64"
  shows "eMBRegDiscreteCB p (a + 1) n buf behind s =
    (MB_ENOERR, last_bits (p + unat n div 8) (unat n)
       (bits_read (arr (ucSDiscInBuf (mb s)) behind) (unat a div 8) (unat a mod 8) p (unat n div 8 + 1) buf))"
  using assms by (simp add: eMBRegDiscreteCB_def Let_def reg_consts del: bits_read.simps)

text \<open>The memory after the write loop, and its bits.\<close>

definition coils_written :: "nat \<Rightarrow> nat \<Rightarrow> nat \<Rightarrow> mem \<Rightarrow> mem \<Rightarrow> mem" where
  "coils_written p a n buf m =
     (let m1 = bits_write m (a div 8) (a mod 8) p (n div 8) buf
      in if n mod 8 \<noteq> 0 then set_bits_at m1 (a div 8 + n div 8) (a mod 8) (n mod 8) (buf (p + n div 8)) else m1)"

lemma coils_written:
  "mem_bit (coils_written p a n buf m) q =
     (if a \<le> q \<and> q < a + n then mem_bit buf (8 * p + (q - a))
      else if a + n \<le> q \<and> q < a + 8 * ((n + 7) div 8) then mem_bit m q \<or> mem_bit buf (8 * p + (q - a))
      else mem_bit m q)"
proof -
  define k r where "k = n div 8" and "r = n mod 8"
  have n: "n = 8 * k + r" and r: "r < 8" by (simp_all add: k_def r_def)
  have a: "8 * (a div 8) + a mod 8 = a" by simp
  have a2: "8 * (a div 8 + k) + a mod 8 = a + 8 * k" by simp
  have whole: "mem_bit (bits_write m (a div 8) (a mod 8) p k buf) q =
      (if a \<le> q \<and> q < a + 8 * k then mem_bit buf (8 * p + (q - a)) else mem_bit m q)"
    by (simp add: bits_write a)
  have up: "(n + 7) div 8 = (if r = 0 then k else k + 1)"
  proof (cases "r = 0")
    case True
    then have "(n + 7) div 8 = k" unfolding n by (intro div_nat_eqI) simp_all
    with True show ?thesis by (simp only: simp_thms if_True)
  next
    case False
    then have "(n + 7) div 8 = k + 1" unfolding n using r by (intro div_nat_eqI) simp_all
    with False show ?thesis by (simp only: simp_thms if_False)
  qed
  have last: "bit (buf (p + k)) (q - (a + 8 * k)) = mem_bit buf (8 * p + (q - a))" if "a + 8 * k \<le> q" "q < a + 8 * k + 8"
  proof -
    have e: "8 * p + (q - a) = 8 * (p + k) + (q - (a + 8 * k))" using that by simp
    have "q - (a + 8 * k) < 8" using that by linarith
    then show ?thesis unfolding e by (rule mem_bit_byte [symmetric])
  qed
  have w: "coils_written p a n buf m = (if r \<noteq> 0 then set_bits_at (bits_write m (a div 8) (a mod 8) p k buf) (a div 8 + k) (a mod 8) r (buf (p + k))
      else bits_write m (a div 8) (a mod 8) p k buf)"
    by (simp add: coils_written_def k_def r_def Let_def)
  show ?thesis
  proof (cases "r = 0")
    case True
    then show ?thesis unfolding w up using whole n by auto
  next
    case False
    have "r \<le> 8" using r by simp
    from set_bits_at [OF this] show ?thesis
      unfolding w up using False whole last n r by (auto simp: a2)
  qed
qed

lemma coils_write_eq:
  fixes a n :: u16 and s :: sys and buf behind :: mem and p :: nat
  assumes "unat a + unat n \<le> 32"
  defines "m \<equiv> coils_written p (unat a) (unat n) buf (arr (ucSCoilBuf (mb s)) behind)"
  shows "fst (eMBRegCoilsCB p (a + 1) n MB_REG_WRITE buf behind s) = MB_ENOERR"
    "fst (snd (eMBRegCoilsCB p (a + 1) n MB_REG_WRITE buf behind s)) = buf"
    "fst (snd (snd (eMBRegCoilsCB p (a + 1) n MB_REG_WRITE buf behind s))) =
       (\<lambda>i. if i < length (ucSCoilBuf (mb s)) then behind i else m i)"
    "mb (snd (snd (snd (eMBRegCoilsCB p (a + 1) n MB_REG_WRITE buf behind s)))) =
       (mb s)\<lparr>ucSCoilBuf := map m [0..<length (ucSCoilBuf (mb s))]\<rparr>"
  using assms(1)
  by (auto simp: m_def eMBRegCoilsCB_def Let_def reg_consts coils_written_def on_mb_def simp del: upt_Suc split: prod.split)

text \<open>Outside the valid ranges nothing is touched.\<close>

lemma out_of_range:
  "32 < unat a + unat n \<Longrightarrow> eMBRegCoilsCB p (a + 1) n mode buf behind s = (MB_ENOREG, buf, behind, s)"
  "64 < unat a + unat n \<Longrightarrow> eMBRegDiscreteCB p (a + 1) n buf behind s = (MB_ENOREG, buf)"
  "32 < unat a + unat n \<Longrightarrow> eMBRegHoldingCB p (a + 1) n mode buf s = (MB_ENOREG, buf, s)"
  "32 < unat a + unat n \<Longrightarrow> eMBRegInputCB p (a + 1) n buf s = (MB_ENOREG, buf)"
  by (auto simp: eMBRegCoilsCB_def eMBRegDiscreteCB_def eMBRegHoldingCB_def eMBRegInputCB_def Let_def reg_consts)

end
