(* ===== verification/Modbus_Poll.thy ===== *)
theory Modbus_Poll
  imports Modbus_Requests
begin

text \<open>
  The function handlers (\<open>modbus/functions/mbfunccoils.c\<close>, \<open>mbfuncdisc.c\<close>, \<open>mbfuncholding.c\<close>,
  \<open>mbfuncinput.c\<close>, \<open>mbfuncother.c\<close>), the events of the port (\<open>port/portevent.c\<close>) and the poll that takes an
  event, finds the handler and sends the reply (\<open>modbus/mb.c\<close>), with the thread around it
  (\<open>samples/sample_mb_slave.c\<close>). The unit's address is 1.
\<close>

section \<open>Exceptions\<close>

datatype eMBException =
    MB_EX_NONE | MB_EX_ILLEGAL_FUNCTION | MB_EX_ILLEGAL_DATA_ADDRESS | MB_EX_ILLEGAL_DATA_VALUE
  | MB_EX_SLAVE_DEVICE_FAILURE | MB_EX_SLAVE_BUSY

definition exception_code :: "eMBException \<Rightarrow> byte" where
  "exception_code e =
     (case e of MB_EX_NONE \<Rightarrow> 0x00 | MB_EX_ILLEGAL_FUNCTION \<Rightarrow> 0x01 | MB_EX_ILLEGAL_DATA_ADDRESS \<Rightarrow> 0x02
      | MB_EX_ILLEGAL_DATA_VALUE \<Rightarrow> 0x03 | MB_EX_SLAVE_DEVICE_FAILURE \<Rightarrow> 0x04 | MB_EX_SLAVE_BUSY \<Rightarrow> 0x06)"

definition prveMBError2Exception :: "eMBErrorCode \<Rightarrow> eMBException" where
  "prveMBError2Exception eErrorCode =
     (case eErrorCode of MB_ENOERR \<Rightarrow> MB_EX_NONE | MB_ENOREG \<Rightarrow> MB_EX_ILLEGAL_DATA_ADDRESS
      | MB_ETIMEDOUT \<Rightarrow> MB_EX_SLAVE_BUSY | _ \<Rightarrow> MB_EX_SLAVE_DEVICE_FAILURE)"

lemma no_exception [simp]: "prveMBError2Exception e = MB_EX_NONE \<longleftrightarrow> e = MB_ENOERR"
  by (cases e) (simp_all add: prveMBError2Exception_def)

section \<open>The function handlers\<close>

text \<open>
  What a handler works on: \<open>pucFrame\<close> and \<open>*usLen\<close>, the memory behind the bit arrays (of coils and of
  inputs) and the unit.
\<close>

record request =
  pucFrame :: mem
  usLen :: nat
  behind_coils :: mem
  behind_inputs :: mem
  served :: sys

text \<open>A 16-bit field, high byte first; the address is counted from 1 in the handlers.\<close>

definition be16 :: "mem \<Rightarrow> nat \<Rightarrow> u16" where
  "be16 f k = push_bit 8 (ucast (f k)) OR ucast (f (k + 1))"

text \<open>\<open>ucNBytes\<close>: the bytes that many bits take.\<close>

definition bit_bytes :: "u16 \<Rightarrow> byte" where
  "bit_bytes n = (if n AND 7 \<noteq> 0 then ucast (n div 8 + 1) else ucast (n div 8))"

definition eMBFuncReadCoils :: "request \<Rightarrow> eMBException \<times> request" where
  "eMBFuncReadCoils q =
     (if usLen q = 5
      then let usRegAddress = be16 (pucFrame q) 1 + 1; usCoilCount = be16 (pucFrame q) 3 in
        if usCoilCount \<ge> 1 \<and> usCoilCount < 0x7D0
        then let ucNBytes = bit_bytes usCoilCount;
                 f = (pucFrame q)(0 := 1, 1 := ucNBytes);
                 (eRegStatus, f1, behind, s) =
                   eMBRegCoilsCB 2 usRegAddress usCoilCount MB_REG_READ f (behind_coils q) (served q);
                 q1 = q\<lparr>pucFrame := f1, usLen := 2, behind_coils := behind, served := s\<rparr>
             in if eRegStatus \<noteq> MB_ENOERR then (prveMBError2Exception eRegStatus, q1)
                else (MB_EX_NONE, q1\<lparr>usLen := 2 + unat ucNBytes\<rparr>)
        else (MB_EX_ILLEGAL_DATA_VALUE, q)
      else (MB_EX_ILLEGAL_DATA_VALUE, q))"

definition eMBFuncWriteCoil :: "request \<Rightarrow> eMBException \<times> request" where
  "eMBFuncWriteCoil q =
     (if usLen q = 5
      then let usRegAddress = be16 (pucFrame q) 1 + 1 in
        if pucFrame q 4 = 0x00 \<and> (pucFrame q 3 = 0xFF \<or> pucFrame q 3 = 0x00)
        then let ucBuf = (\<lambda>i. if i = 0 \<and> pucFrame q 3 = 0xFF then 1 else 0);
                 (eRegStatus, _, behind, s) =
                   eMBRegCoilsCB 0 usRegAddress 1 MB_REG_WRITE ucBuf (behind_coils q) (served q)
             in (prveMBError2Exception eRegStatus, q\<lparr>behind_coils := behind, served := s\<rparr>)
        else (MB_EX_ILLEGAL_DATA_VALUE, q)
      else (MB_EX_ILLEGAL_DATA_VALUE, q))"

definition eMBFuncWriteMultipleCoils :: "request \<Rightarrow> eMBException \<times> request" where
  "eMBFuncWriteMultipleCoils q =
     (if usLen q > 5
      then let usRegAddress = be16 (pucFrame q) 1 + 1; usCoilCnt = be16 (pucFrame q) 3;
               ucByteCount = pucFrame q 5; ucByteCountVerify = bit_bytes usCoilCnt in
        if usCoilCnt \<ge> 1 \<and> usCoilCnt \<le> 0x7B0 \<and> ucByteCountVerify = ucByteCount
        then let (eRegStatus, f, behind, s) =
                   eMBRegCoilsCB 6 usRegAddress usCoilCnt MB_REG_WRITE (pucFrame q) (behind_coils q) (served q);
                 q1 = q\<lparr>pucFrame := f, behind_coils := behind, served := s\<rparr>
             in if eRegStatus \<noteq> MB_ENOERR then (prveMBError2Exception eRegStatus, q1)
                else (MB_EX_NONE, q1\<lparr>usLen := 5\<rparr>)
        else (MB_EX_ILLEGAL_DATA_VALUE, q)
      else (MB_EX_ILLEGAL_DATA_VALUE, q))"

definition eMBFuncReadDiscreteInputs :: "request \<Rightarrow> eMBException \<times> request" where
  "eMBFuncReadDiscreteInputs q =
     (if usLen q = 5
      then let usRegAddress = be16 (pucFrame q) 1 + 1; usDiscreteCnt = be16 (pucFrame q) 3 in
        if usDiscreteCnt \<ge> 1 \<and> usDiscreteCnt < 0x7D0
        then let ucNBytes = bit_bytes usDiscreteCnt;
                 f = (pucFrame q)(0 := 2, 1 := ucNBytes);
                 (eRegStatus, f1) = eMBRegDiscreteCB 2 usRegAddress usDiscreteCnt f (behind_inputs q) (served q);
                 q1 = q\<lparr>pucFrame := f1, usLen := 2\<rparr>
             in if eRegStatus \<noteq> MB_ENOERR then (prveMBError2Exception eRegStatus, q1)
                else (MB_EX_NONE, q1\<lparr>usLen := 2 + unat ucNBytes\<rparr>)
        else (MB_EX_ILLEGAL_DATA_VALUE, q)
      else (MB_EX_ILLEGAL_DATA_VALUE, q))"

definition eMBFuncWriteHoldingRegister :: "request \<Rightarrow> eMBException \<times> request" where
  "eMBFuncWriteHoldingRegister q =
     (if usLen q = 5
      then let usRegAddress = be16 (pucFrame q) 1 + 1;
               (eRegStatus, f, s) = eMBRegHoldingCB 3 usRegAddress 1 MB_REG_WRITE (pucFrame q) (served q)
           in (prveMBError2Exception eRegStatus, q\<lparr>pucFrame := f, served := s\<rparr>)
      else (MB_EX_ILLEGAL_DATA_VALUE, q))"

definition eMBFuncWriteMultipleHoldingRegister :: "request \<Rightarrow> eMBException \<times> request" where
  "eMBFuncWriteMultipleHoldingRegister q =
     (if usLen q \<ge> 6
      then let usRegAddress = be16 (pucFrame q) 1 + 1; usRegCount = be16 (pucFrame q) 3;
               ucRegByteCount = pucFrame q 5 in
        if usRegCount \<ge> 1 \<and> usRegCount \<le> 0x78 \<and> ucRegByteCount = ucast (2 * usRegCount)
        then let (eRegStatus, f, s) =
                   eMBRegHoldingCB 6 usRegAddress usRegCount MB_REG_WRITE (pucFrame q) (served q);
                 q1 = q\<lparr>pucFrame := f, served := s\<rparr>
             in if eRegStatus \<noteq> MB_ENOERR then (prveMBError2Exception eRegStatus, q1)
                else (MB_EX_NONE, q1\<lparr>usLen := 5\<rparr>)
        else (MB_EX_ILLEGAL_DATA_VALUE, q)
      else (MB_EX_ILLEGAL_DATA_VALUE, q))"

definition eMBFuncReadHoldingRegister :: "request \<Rightarrow> eMBException \<times> request" where
  "eMBFuncReadHoldingRegister q =
     (if usLen q = 5
      then let usRegAddress = be16 (pucFrame q) 1 + 1; usRegCount = be16 (pucFrame q) 3 in
        if usRegCount \<ge> 1 \<and> usRegCount \<le> 0x7D
        then let f = (pucFrame q)(0 := 3, 1 := ucast (usRegCount * 2));
                 (eRegStatus, f1, s) = eMBRegHoldingCB 2 usRegAddress usRegCount MB_REG_READ f (served q);
                 q1 = q\<lparr>pucFrame := f1, usLen := 2, served := s\<rparr>
             in if eRegStatus \<noteq> MB_ENOERR then (prveMBError2Exception eRegStatus, q1)
                else (MB_EX_NONE, q1\<lparr>usLen := 2 + unat usRegCount * 2\<rparr>)
        else (MB_EX_ILLEGAL_DATA_VALUE, q)
      else (MB_EX_ILLEGAL_DATA_VALUE, q))"

text \<open>A request that is too short for this function gets no exception and is left as it is.\<close>

definition eMBFuncReadWriteMultipleHoldingRegister :: "request \<Rightarrow> eMBException \<times> request" where
  "eMBFuncReadWriteMultipleHoldingRegister q =
     (if usLen q \<ge> 10
      then let usRegReadAddress = be16 (pucFrame q) 1 + 1; usRegReadCount = be16 (pucFrame q) 3;
               usRegWriteAddress = be16 (pucFrame q) 5 + 1; usRegWriteCount = be16 (pucFrame q) 7;
               ucRegWriteByteCount = pucFrame q 9 in
        if usRegReadCount \<ge> 1 \<and> usRegReadCount \<le> 0x7D \<and> usRegWriteCount \<ge> 1 \<and> usRegWriteCount \<le> 0x79 \<and>
           2 * unat usRegWriteCount = unat ucRegWriteByteCount
        then let (eRegStatus, f, s) =
                   eMBRegHoldingCB 10 usRegWriteAddress usRegWriteCount MB_REG_WRITE (pucFrame q) (served q);
                 q1 = q\<lparr>pucFrame := f, served := s\<rparr>
             in if eRegStatus = MB_ENOERR
                then let f1 = f(0 := 23, 1 := ucast (usRegReadCount * 2));
                         (eRegStatus1, f2, s2) =
                           eMBRegHoldingCB 2 usRegReadAddress usRegReadCount MB_REG_READ f1 s;
                         q2 = q1\<lparr>pucFrame := f2, usLen := 2, served := s2\<rparr>
                     in if eRegStatus1 = MB_ENOERR
                        then (MB_EX_NONE, q2\<lparr>usLen := 2 + 2 * unat usRegReadCount\<rparr>)
                        else (prveMBError2Exception eRegStatus1, q2)
                else (prveMBError2Exception eRegStatus, q1)
        else (MB_EX_ILLEGAL_DATA_VALUE, q)
      else (MB_EX_NONE, q))"

definition eMBFuncReadInputRegister :: "request \<Rightarrow> eMBException \<times> request" where
  "eMBFuncReadInputRegister q =
     (if usLen q = 5
      then let usRegAddress = be16 (pucFrame q) 1 + 1; usRegCount = be16 (pucFrame q) 3 in
        if usRegCount \<ge> 1 \<and> usRegCount < 0x7D
        then let f = (pucFrame q)(0 := 4, 1 := ucast (usRegCount * 2));
                 (eRegStatus, f1) = eMBRegInputCB 2 usRegAddress usRegCount f (served q);
                 q1 = q\<lparr>pucFrame := f1, usLen := 2\<rparr>
             in if eRegStatus \<noteq> MB_ENOERR then (prveMBError2Exception eRegStatus, q1)
                else (MB_EX_NONE, q1\<lparr>usLen := 2 + unat usRegCount * 2\<rparr>)
        else (MB_EX_ILLEGAL_DATA_VALUE, q)
      else (MB_EX_ILLEGAL_DATA_VALUE, q))"

text \<open>The unit never sets an identification: nothing is copied.\<close>

definition eMBFuncReportSlaveID :: "request \<Rightarrow> eMBException \<times> request" where
  "eMBFuncReportSlaveID q = (MB_EX_NONE, q\<lparr>usLen := 1\<rparr>)"

text \<open>The table of handlers, in its order.\<close>

definition xFuncHandlers :: "(byte \<times> (request \<Rightarrow> eMBException \<times> request)) list" where
  "xFuncHandlers =
     [(17, eMBFuncReportSlaveID), (4, eMBFuncReadInputRegister), (3, eMBFuncReadHoldingRegister),
      (16, eMBFuncWriteMultipleHoldingRegister), (6, eMBFuncWriteHoldingRegister),
      (23, eMBFuncReadWriteMultipleHoldingRegister), (1, eMBFuncReadCoils), (5, eMBFuncWriteCoil),
      (15, eMBFuncWriteMultipleCoils), (2, eMBFuncReadDiscreteInputs)]"

definition call_handler :: "request \<Rightarrow> eMBException \<times> request" where
  "call_handler q =
     (case map_of xFuncHandlers (pucFrame q 0) of
        Some h \<Rightarrow> h q | None \<Rightarrow> (MB_EX_ILLEGAL_FUNCTION, q))"

section \<open>The poll\<close>

definition on_rtu :: "(rtu_st \<Rightarrow> rtu_st) \<Rightarrow> sys \<Rightarrow> sys" where
  "on_rtu f = on_mb (\<lambda>m. m\<lparr>rtu := f (rtu m)\<rparr>)"

definition xMBPortEventPost :: "eMBEventType \<Rightarrow> rtu_st \<Rightarrow> rtu_st" where
  "xMBPortEventPost e r = r\<lparr>mb_events := mb_events r @ [e]\<rparr>"

text \<open>
  The event set is a set of flags, all taken at once: posting twice is posting once. When two different
  events are pending, no case of the switch applies and \<open>*eEvent\<close> keeps what the caller's variable
  holds: \<open>stale\<close>, \<open>None\<close> for a value that is no event.
\<close>

definition xMBPortEventGet :: "eMBEventType option \<Rightarrow> rtu_st \<Rightarrow> eMBEventType option \<times> rtu_st" where
  "xMBPortEventGet stale r =
     (case remdups (mb_events r) of
        [e] \<Rightarrow> (Some e, r\<lparr>mb_events := []\<rparr>)
      | _ \<Rightarrow> (stale, r\<lparr>mb_events := []\<rparr>))"

text \<open>\<open>EV_EXECUTE\<close>: the PDU starts at index 1 of the buffer.\<close>

definition mb_execute :: "mem \<Rightarrow> mem \<Rightarrow> sys \<Rightarrow> mem \<times> sys" where
  "mb_execute coils_end inputs_end s =
     (let r = rtu (mb s);
          frame = (\<lambda>i. ucRTUBuf r (i + 1));
          ucFunctionCode = frame 0;
          (eException, q) = call_handler \<lparr>pucFrame = frame, usLen = usLength r,
             behind_coils = coils_end, behind_inputs = inputs_end, served = s\<rparr>;
          (frame1, len) = (if ucRcvAddress r \<noteq> 0 \<and> eException \<noteq> MB_EX_NONE
             then ((pucFrame q)(0 := ucFunctionCode OR 0x80, 1 := exception_code eException), 2)
             else (pucFrame q, usLen q));
          s1 = on_rtu (\<lambda>r. r\<lparr>ucRTUBuf := (\<lambda>i. if i = 0 then ucRTUBuf r 0 else frame1 (i - 1)), usLength := len\<rparr>)
             (served q)
      in (behind_coils q,
          if ucRcvAddress r \<noteq> 0 then on_rtu (\<lambda>r. snd (eMBRTUSend 1 len r)) s1 else s1))"

definition mb_frame_received :: "rtu_st \<Rightarrow> rtu_st" where
  "mb_frame_received r =
     (case eMBRTUReceive r of
        Some (a, n) \<Rightarrow>
          let r1 = r\<lparr>ucRcvAddress := a, usLength := n\<rparr>
          in if a = 1 \<or> a = 0 then xMBPortEventPost EV_EXECUTE r1 else r1
      | None \<Rightarrow> r)"

text \<open>It waits for an event; the model calls it when there is one.\<close>

definition eMBPoll :: "eMBEventType option \<Rightarrow> mem \<Rightarrow> mem \<Rightarrow> sys \<Rightarrow> mem \<times> sys" where
  "eMBPoll stale coils_end inputs_end s =
     (let (eEvent, r) = xMBPortEventGet stale (rtu (mb s)); s1 = on_rtu (\<lambda>_. r) s in
      case eEvent of
        Some EV_FRAME_RECEIVED \<Rightarrow> (coils_end, on_rtu mb_frame_received s1)
      | Some EV_EXECUTE \<Rightarrow> mb_execute coils_end inputs_end s1
      | _ \<Rightarrow> (coils_end, s1))"

lemma on_rtu_frames [simp]:
  "pin_in (on_rtu f s) = pin_in s" "pin_out (on_rtu f s) = pin_out s" "timer (on_rtu f s) = timer s"
  "leds (on_rtu f s) = leds s" "store (on_rtu f s) = store s" "radio (on_rtu f s) = radio s"
  "valve (on_rtu f s) = valve s" "warn (on_rtu f s) = warn s" "heart (on_rtu f s) = heart s"
  "keys (on_rtu f s) = keys s" "dry (on_rtu f s) = dry s" "rtc (on_rtu f s) = rtc s" "ota (on_rtu f s) = ota s"
  "cpu_reset (on_rtu f s) = cpu_reset s"
  by (simp_all add: on_rtu_def on_mb_def)

text \<open>
  The thread: after \<open>eMBInit\<close> with address 1 (the UART is taken to exist) and \<open>eMBEnable\<close> it copies and polls. The
  poll may wait between the copying and the event, so the two are steps of their own.
\<close>

definition mb_slave_start :: "sys \<Rightarrow> sys" where
  "mb_slave_start s = on_rtu eMBRTUStart s"

section \<open>What a request can do to the unit\<close>

text \<open>
  A request reaches the unit only through the coils, the holding registers and the two click handlers: whatever
  does not depend on these registers and survives a click survives every request; if it does not
  depend on the state of the stack either, it survives every poll.
\<close>

locale modbus_requests =
  fixes inv :: "sys \<Rightarrow> bool"
  assumes coils_image [simp]: "inv (on_mb (\<lambda>m. m\<lparr>ucSCoilBuf := c m\<rparr>) s) = inv s"
    and holding_image [simp]: "inv (on_mb (\<lambda>m. m\<lparr>usSRegHoldBuf := d m\<rparr>) s) = inv s"
    and on: "inv s \<Longrightarrow> inv (key_on_click_handle s)"
    and off: "inv s \<Longrightarrow> inv (key_off_click_handle s)"
begin

lemma callbacks: "inv s \<Longrightarrow> inv (mb_valve_single_control_write_callback s)" "inv s \<Longrightarrow> inv (mb_holding_write_callback s)"
  by (simp_all add: mb_valve_single_control_write_callback_def mb_holding_write_callback_def on off)

lemma coils: "eMBRegCoilsCB p a n mode buf behind s = (e, f, b, s') \<Longrightarrow> inv s \<Longrightarrow> inv s'"
  by (auto simp: eMBRegCoilsCB_def Let_def callbacks split: if_splits eMBRegisterMode.splits)

lemma holding: "eMBRegHoldingCB p a n mode buf s = (e, f, s') \<Longrightarrow> inv s \<Longrightarrow> inv s'"
  by (auto simp: eMBRegHoldingCB_def Let_def callbacks split: if_splits eMBRegisterMode.splits)

lemma handler:
  assumes "map_of xFuncHandlers c = Some h" "inv (served q)"
  shows "inv (served (snd (h q)))"
proof -
  note [dest] = coils holding
  have "inv (served (snd (eMBFuncReadCoils q)))" "inv (served (snd (eMBFuncWriteCoil q)))"
    "inv (served (snd (eMBFuncWriteMultipleCoils q)))" "inv (served (snd (eMBFuncReadDiscreteInputs q)))"
    "inv (served (snd (eMBFuncWriteHoldingRegister q)))" "inv (served (snd (eMBFuncWriteMultipleHoldingRegister q)))"
    "inv (served (snd (eMBFuncReadHoldingRegister q)))"
    "inv (served (snd (eMBFuncReadWriteMultipleHoldingRegister q)))"
    "inv (served (snd (eMBFuncReadInputRegister q)))" "inv (served (snd (eMBFuncReportSlaveID q)))"
    using assms(2)
    by (auto simp: eMBFuncReadCoils_def eMBFuncWriteCoil_def eMBFuncWriteMultipleCoils_def
        eMBFuncReadDiscreteInputs_def eMBFuncWriteHoldingRegister_def eMBFuncWriteMultipleHoldingRegister_def
        eMBFuncReadHoldingRegister_def eMBFuncReadWriteMultipleHoldingRegister_def eMBFuncReadInputRegister_def
        eMBFuncReportSlaveID_def Let_def split: prod.splits)
  then show ?thesis using assms(1) by (auto simp: xFuncHandlers_def split: if_splits)
qed

lemma served: "inv (served q) \<Longrightarrow> inv (served (snd (call_handler q)))"
  using handler by (auto simp: call_handler_def split: option.split)

end

locale modbus_served = modbus_requests +
  assumes stack [simp]: "inv (on_rtu f s) = inv s"
begin

lemma execute: "inv s \<Longrightarrow> inv (snd (mb_execute b c s))"
  using served [of "\<lparr>pucFrame = \<lambda>i. ucRTUBuf (rtu (mb s)) (i + 1), usLen = usLength (rtu (mb s)),
             behind_coils = b, behind_inputs = c, served = s\<rparr>"]
  by (simp add: mb_execute_def Let_def case_prod_beta)

lemma poll: "inv s \<Longrightarrow> inv (snd (eMBPoll stale b c s))"
  by (auto simp: eMBPoll_def Let_def execute split: prod.split option.split eMBEventType.split)

end

section \<open>Reading and writing coils\<close>

lemma bit_bytes:
  assumes "unat n < 2032"
  shows "unat (bit_bytes n) = (unat n + 7) div 8"
proof -
  have seven: "(7 :: nat) = mask 3" by (simp add: mask_eq_exp_minus_1)
  have "unat (n AND 7) = unat n AND 7" by (simp add: unsigned_and_eq)
  also have "\<dots> = unat n mod 8" unfolding seven by (simp flip: take_bit_eq_mask add: take_bit_eq_mod)
  finally have m: "n AND 7 \<noteq> 0 \<longleftrightarrow> unat n mod 8 \<noteq> 0" by (simp flip: unat_eq_0)
  have d: "unat (n div 8) = unat n div 8" by (simp add: unat_div_distrib)
  then have "unat (n div 8 + 1) = unat n div 8 + 1"
    using assms by (subst unat_add_lem [THEN iffD1]) simp_all
  moreover have "0 < r \<Longrightarrow> r < 8 \<Longrightarrow> (8 * k + r + 7) div 8 = Suc k" for k r :: nat
    by (intro div_nat_eqI) simp_all
  from this [of "unat n mod 8" "unat n div 8"]
  have "unat n mod 8 \<noteq> 0 \<Longrightarrow> (unat n + 7) div 8 = Suc (unat n div 8)" by simp
  moreover have "unat n mod 8 = 0 \<Longrightarrow> (unat n + 7) div 8 = unat n div 8" by auto
  ultimately show ?thesis
    using assms m d unfolding bit_bytes_def by (auto simp: unsigned_ucast_eq take_bit_nat_eq_self)
qed

text \<open>The bits of a reply follow its two first bytes, those of a request its six first bytes.\<close>

lemma counted: "1 \<le> unat n \<longleftrightarrow> 1 \<le> (n :: u16)" "unat n \<le> 32 \<Longrightarrow> n < 0x7D0" "unat n \<le> 64 \<Longrightarrow> n < 0x7D0"
    "unat n \<le> 32 \<Longrightarrow> n \<le> 0x7B0" "unat n \<le> 32 \<Longrightarrow> n \<le> 0x78" "unat n \<le> 32 \<Longrightarrow> n \<le> 0x7D"
  by (simp_all add: word_le_nat_alt word_less_nat_alt)

text \<open>
  A read request for coils that exist is answered with the number of data bytes and, bit by bit and
  in order, the state of the coils asked for; the bits left over in the last byte are 0. Nothing in the
  unit changes.
\<close>

theorem read_coils_reply:
  fixes q :: request
  defines "a \<equiv> unat (be16 (pucFrame q) 1)" and "n \<equiv> unat (be16 (pucFrame q) 3)"
  assumes "usLen q = 5" "1 \<le> n" "a + n \<le> 32" "length (ucSCoilBuf (mb (served q))) = 4"
  shows "let (e, r) = eMBFuncReadCoils q; bytes = (n + 7) div 8 in
    e = MB_EX_NONE \<and> usLen r = 2 + bytes \<and> pucFrame r 0 = 1 \<and> unat (pucFrame r 1) = bytes \<and>
    (\<forall>i < 8 * bytes. mem_bit (\<lambda>j. pucFrame r (2 + j)) i = (i < n \<and> coil (served q) (a + i))) \<and>
    served r = served q \<and> behind_coils r = behind_coils q"
proof -
  let ?a = "be16 (pucFrame q) 1" and ?n = "be16 (pucFrame q) 3"
  let ?f = "(pucFrame q)(0 := 1, 1 := bit_bytes ?n)"
  let ?m = "arr (ucSCoilBuf (mb (served q))) (behind_coils q)"
  define g where "g = last_bits (2 + n div 8) n (bits_read ?m (a div 8) (a mod 8) 2 (n div 8 + 1) ?f)"
  have range: "unat ?a + unat ?n \<le> 32" using assms(5) by (simp add: a_def n_def)
  have cb: "eMBRegCoilsCB 2 (?a + 1) ?n MB_REG_READ ?f (behind_coils q) (served q) =
      (MB_ENOERR, g, behind_coils q, served q)"
    unfolding coils_read_eq [OF range] g_def a_def n_def by simp
  have ok: "?n \<ge> 1 \<and> ?n < 0x7D0" using assms(4,5) counted(1,2) [of ?n] by (simp add: n_def)
  have fn: "eMBFuncReadCoils q = (MB_EX_NONE, q\<lparr>pucFrame := g, behind_coils := behind_coils q,
      served := served q, usLen := 2 + unat (bit_bytes ?n)\<rparr>)"
    using ok assms(3) cb by (simp add: eMBFuncReadCoils_def Let_def)
  have bytes: "unat (bit_bytes ?n) = (n + 7) div 8" using bit_bytes [of ?n] assms(5) by (simp add: n_def)
  have "g 0 = 1" "g 1 = bit_bytes ?n" unfolding g_def by (subst read_bits_frame; simp)+
  moreover have "mem_bit (\<lambda>j. g (2 + j)) i = (i < n \<and> coil (served q) (a + i))" if "i < 8 * ((n + 7) div 8)" for i
  proof -
    have "(n + 7) div 8 \<le> n div 8 + 1" using div_le_mono [of "n + 7" "n + 8" 8] by simp
    then have "8 * ((n + 7) div 8) \<le> 8 * (n div 8 + 1)" by (rule mult_le_mono2)
    with that have i: "i < 8 * (n div 8 + 1)" by (rule less_le_trans)
    have "mem_bit (\<lambda>j. g (2 + j)) i = (i < n \<and> mem_bit ?m (a + i))"
      unfolding mem_bit_shift g_def by (rule read_bits [OF i])
    then show ?thesis using assms(5,6) arr_bit [of "a + i" "ucSCoilBuf (mb (served q))"] by (auto simp: coil_def)
  qed
  ultimately show ?thesis by (simp add: fn Let_def bytes)
qed

text \<open>A unit with one coil set and a request for coils 0 to 9.\<close>

definition coil_request :: request where
  "coil_request = \<lparr>pucFrame = (\<lambda>_. 0)(0 := 1, 4 := 10), usLen = 5, behind_coils = \<lambda>_. 0, behind_inputs = \<lambda>_. 0,
     served = on_mb (\<lambda>m. m\<lparr>ucSCoilBuf := [1, 0, 0, 0]\<rparr>) new_unit\<rparr>"

lemma read_coils_reply_witness:
  "fst (eMBFuncReadCoils coil_request) = MB_EX_NONE \<and> usLen (snd (eMBFuncReadCoils coil_request)) = 4"
proof -
  have "usLen coil_request = 5" "1 \<le> unat (be16 (pucFrame coil_request) 3)"
    "unat (be16 (pucFrame coil_request) 1) + unat (be16 (pucFrame coil_request) 3) \<le> 32"
    "length (ucSCoilBuf (mb (served coil_request))) = 4" "unat (be16 (pucFrame coil_request) 3) = 10"
    by (simp_all add: coil_request_def be16_def on_mb_def)
  with read_coils_reply [of coil_request] show ?thesis by (simp add: Let_def split: prod.splits)
qed

text \<open>What a valid write request does, in bits.\<close>

lemma write_coils:
  fixes q :: request
  defines "a \<equiv> unat (be16 (pucFrame q) 1)" and "n \<equiv> unat (be16 (pucFrame q) 3)"
    and "data \<equiv> mem_bit (\<lambda>j. pucFrame q (6 + j))" and "r \<equiv> snd (eMBFuncWriteMultipleCoils q)"
  assumes "5 < usLen q" "1 \<le> n" "a + n \<le> 32" "unat (pucFrame q 5) = (n + 7) div 8"
    and len: "length (ucSCoilBuf (mb (served q))) = 4"
  shows "fst (eMBFuncWriteMultipleCoils q) = MB_EX_NONE" "usLen r = 5" "pucFrame r = pucFrame q"
    "i < 32 \<Longrightarrow> coil (served r) i =
      (if a \<le> i \<and> i < a + n then data (i - a)
       else coil (served q) i \<or> a + n \<le> i \<and> i < a + 8 * ((n + 7) div 8) \<and> data (i - a))"
    "32 \<le> i \<Longrightarrow> mem_bit (behind_coils r) i =
      (mem_bit (behind_coils q) i \<or> i < a + 8 * ((n + 7) div 8) \<and> data (i - a))"
    "i < 32 \<Longrightarrow> mem_bit (behind_coils r) i = mem_bit (behind_coils q) i"
proof -
  let ?a = "be16 (pucFrame q) 1" and ?n = "be16 (pucFrame q) 3"
  let ?m = "arr (ucSCoilBuf (mb (served q))) (behind_coils q)"
  define w where "w = coils_written 6 a n (pucFrame q) ?m"
  have range: "unat ?a + unat ?n \<le> 32" using assms(7) by (simp add: a_def n_def)
  obtain e f b s where cb: "eMBRegCoilsCB 6 (?a + 1) ?n MB_REG_WRITE (pucFrame q) (behind_coils q) (served q) = (e, f, b, s)"
    by (metis prod_cases4)
  note eq = coils_write_eq [OF range, of 6 "pucFrame q" "behind_coils q" "served q", unfolded cb fst_conv snd_conv]
  have b: "b = (\<lambda>i. if i < 4 then behind_coils q i else w i)" and s: "ucSCoilBuf (mb s) = map w [0..<4]"
    by (simp_all only: eq(3,4) len w_def a_def n_def) simp
  have "unat (bit_bytes ?n) = unat (pucFrame q 5)" using bit_bytes [of ?n] assms(7,8) by (simp add: n_def)
  then have "bit_bytes ?n = pucFrame q 5" by (simp only: word_unat_eq_iff)
  moreover have "?n \<ge> 1 \<and> ?n \<le> 0x7B0" using assms(6,7) counted(1,4) [of ?n] by (simp add: n_def)
  ultimately have fn: "eMBFuncWriteMultipleCoils q =
      (MB_EX_NONE, q\<lparr>pucFrame := pucFrame q, behind_coils := b, served := s, usLen := 5\<rparr>)"
    using assms(5) cb eq(1,2) by (simp add: eMBFuncWriteMultipleCoils_def Let_def)
  then show "fst (eMBFuncWriteMultipleCoils q) = MB_EX_NONE" "usLen r = 5" "pucFrame r = pucFrame q"
    by (simp_all add: r_def)
  have byte: "i div 8 < 4 \<longleftrightarrow> i < 32" by auto
  have old: "mem_bit ?m i = (if i < 32 then coil (served q) i else mem_bit (behind_coils q) i)"
    by (simp add: mem_bit_def arr_def coil_def byte len)
  have data: "mem_bit (pucFrame q) (8 * 6 + j) = data j" for j unfolding data_def mem_bit_shift ..
  have new: "mem_bit w i = (if a \<le> i \<and> i < a + n then data (i - a)
       else mem_bit ?m i \<or> a + n \<le> i \<and> i < a + 8 * ((n + 7) div 8) \<and> data (i - a))"
    unfolding w_def coils_written data by auto
  have "coil s i = mem_bit w i" if "i < 32"
  proof -
    have "i div 8 < 4" using that by auto
    then show ?thesis by (simp add: coil_def s mem_bit_def del: upt_Suc)
  qed
  then show "i < 32 \<Longrightarrow> coil (served r) i =
      (if a \<le> i \<and> i < a + n then data (i - a)
       else coil (served q) i \<or> a + n \<le> i \<and> i < a + 8 * ((n + 7) div 8) \<and> data (i - a))"
    using new old by (simp add: r_def fn)
  have "mem_bit b i = (if i < 32 then mem_bit (behind_coils q) i else mem_bit w i)"
    by (simp add: b mem_bit_def byte)
  then show "32 \<le> i \<Longrightarrow> mem_bit (behind_coils r) i =
      (mem_bit (behind_coils q) i \<or> i < a + 8 * ((n + 7) div 8) \<and> data (i - a))"
    "i < 32 \<Longrightarrow> mem_bit (behind_coils r) i = mem_bit (behind_coils q) i"
    using new old assms(7) by (auto simp: r_def fn)
qed

text \<open>
  A write of several coils whose leftover bits are 0 sets exactly the coils it names to the bits it
  carries: every other coil and the memory behind the coils stay, and the reply repeats the request's
  first five bytes.
\<close>

theorem write_coils_exact:
  fixes q :: request
  defines "a \<equiv> unat (be16 (pucFrame q) 1)" and "n \<equiv> unat (be16 (pucFrame q) 3)"
    and "data \<equiv> mem_bit (\<lambda>j. pucFrame q (6 + j))"
  assumes "5 < usLen q" "1 \<le> n" "a + n \<le> 32" "unat (pucFrame q 5) = (n + 7) div 8"
    and "length (ucSCoilBuf (mb (served q))) = 4"
    and leftover: "\<And>i. \<lbrakk>n \<le> i; i < 8 * ((n + 7) div 8)\<rbrakk> \<Longrightarrow> \<not> data i"
  shows "let (e, r) = eMBFuncWriteMultipleCoils q in
    e = MB_EX_NONE \<and> usLen r = 5 \<and> pucFrame r = pucFrame q \<and>
    (\<forall>i < 32. coil (served r) i = (if a \<le> i \<and> i < a + n then data (i - a) else coil (served q) i)) \<and>
    (\<forall>i. mem_bit (behind_coils r) i = mem_bit (behind_coils q) i)"
proof -
  note w = write_coils [of q, folded a_def n_def data_def, OF assms(4-8)]
  have no: "\<not> (a + n \<le> i \<and> i < a + 8 * ((n + 7) div 8) \<and> data (i - a))" for i
    using leftover [of "i - a"] by auto
  have "mem_bit (behind_coils (snd (eMBFuncWriteMultipleCoils q))) i = mem_bit (behind_coils q) i" for i
  proof (cases "i < 32")
    case False
    then have "a + n \<le> i" "32 \<le> i" using assms(6) by simp_all
    with no [of i] w(5) [of i] show ?thesis by blast
  qed (rule w(6))
  then show ?thesis
    using w(1-4) no by (simp add: case_prod_beta) blast
qed

definition write_request :: "byte list \<Rightarrow> request" where
  "write_request pdu = \<lparr>pucFrame = arr pdu (\<lambda>_. 0), usLen = length pdu, behind_coils = \<lambda>_. 0,
     behind_inputs = \<lambda>_. 0, served = new_unit\<rparr>"

lemma write_coils_exact_witness:
  "fst (eMBFuncWriteMultipleCoils (write_request [15, 0, 3, 0, 2, 1, 3])) = MB_EX_NONE \<and>
   coil (served (snd (eMBFuncWriteMultipleCoils (write_request [15, 0, 3, 0, 2, 1, 3])))) 4"
proof -
  let ?q = "write_request [15, 0, 3, 0, 2, 1, 3]"
  have q: "5 < usLen ?q" "unat (be16 (pucFrame ?q) 1) = 3" "unat (be16 (pucFrame ?q) 3) = 2"
    "unat (pucFrame ?q 5) = (2 + 7) div 8" "length (ucSCoilBuf (mb (served ?q))) = 4" "pucFrame ?q 6 = 3"
    by (simp_all add: write_request_def arr_def be16_def new_unit_def)
  have bits: "mem_bit (\<lambda>j. pucFrame ?q (6 + j)) i = (i < 2)" if "i < 8" for i
  proof -
    have m: "(3 :: byte) = mask 2" by (simp add: mask_eq_exp_minus_1)
    have "bit (3 :: byte) i = (i < 2)" unfolding m by (auto simp: bit_mask_iff)
    then show ?thesis unfolding mem_bit_shift mem_bit_byte [OF that] q(6) .
  qed
  have "let (e, r) = eMBFuncWriteMultipleCoils ?q in
    e = MB_EX_NONE \<and> usLen r = 5 \<and> pucFrame r = pucFrame ?q \<and>
    (\<forall>i < 32. coil (served r) i = (if unat (be16 (pucFrame ?q) 1) \<le> i \<and> i < unat (be16 (pucFrame ?q) 1) + unat (be16 (pucFrame ?q) 3)
       then mem_bit (\<lambda>j. pucFrame ?q (6 + j)) (i - unat (be16 (pucFrame ?q) 1)) else coil (served ?q) i)) \<and>
    (\<forall>i. mem_bit (behind_coils r) i = mem_bit (behind_coils ?q) i)"
    by (rule write_coils_exact) (simp_all add: q q(2) [unfolded One_nat_def] bits)
  then have r: "fst (eMBFuncWriteMultipleCoils ?q) = MB_EX_NONE"
    "\<forall>i < 32. coil (served (snd (eMBFuncWriteMultipleCoils ?q))) i =
      (if 3 \<le> i \<and> i < 3 + 2 then mem_bit (\<lambda>j. pucFrame ?q (6 + j)) (i - 3) else coil (served ?q) i)"
    unfolding q Let_def case_prod_beta by blast+
  show ?thesis using r(1) r(2) [rule_format, of 4] bits [of 1] by simp
qed

text \<open>
  C40. The leftover bits of the last byte are not ignored: a write of the 31 coils from coil 1 on whose
  leftover bit is set is accepted and changes the byte behind the array of coils, whatever the unit's
  state.
\<close>

theorem leftover_bit_overruns:
  fixes s :: sys
  assumes "length (ucSCoilBuf (mb s)) = 4"
  shows "let q = (write_request [15, 0, 1, 0, 31, 4, 0, 0, 0, 0x80])\<lparr>served := s\<rparr>;
             (e, r) = eMBFuncWriteMultipleCoils q
    in e = MB_EX_NONE \<and> \<not> bit (behind_coils q 4) 0 \<and> bit (behind_coils r 4) 0"
proof -
  let ?q = "(write_request [15, 0, 1, 0, 31, 4, 0, 0, 0, 0x80])\<lparr>served := s\<rparr>"
  have q: "5 < usLen ?q" "unat (be16 (pucFrame ?q) 1) = 1" "unat (be16 (pucFrame ?q) 3) = 31"
    "unat (pucFrame ?q 5) = (31 + 7) div 8" "pucFrame ?q 9 = 0x80" "length (ucSCoilBuf (mb (served ?q))) = 4"
    using assms by (simp_all add: write_request_def arr_def be16_def)
  have "mem_bit (pucFrame ?q) (8 * 9 + 7) = bit (pucFrame ?q 9) 7" by (rule mem_bit_byte) simp
  then have "mem_bit (pucFrame ?q) (8 * 6 + 31)" unfolding q(5) by simp
  then have "mem_bit (\<lambda>j. pucFrame ?q (6 + j)) 31" unfolding mem_bit_shift .
  then have "mem_bit (behind_coils (snd (eMBFuncWriteMultipleCoils ?q))) 32"
    using write_coils(5) [of ?q 32] q by simp
  moreover have "fst (eMBFuncWriteMultipleCoils ?q) = MB_EX_NONE" using write_coils(1) [of ?q] q by simp
  ultimately show ?thesis by (simp add: case_prod_beta mem_bit_def write_request_def)
qed

lemma leftover_bit_overruns_witness:
  "bit (behind_coils (snd (eMBFuncWriteMultipleCoils (write_request [15, 0, 1, 0, 31, 4, 0, 0, 0, 0x80]))) 4) 0"
proof -
  have "length (ucSCoilBuf (mb new_unit)) = 4" "(write_request p)\<lparr>served := new_unit\<rparr> = write_request p" for p
    by (simp_all add: new_unit_def write_request_def)
  then show ?thesis using leftover_bit_overruns [of new_unit] by (simp only: Let_def case_prod_beta)
qed

section \<open>Holding registers\<close>

lemma reg_write:
  assumes "i + n \<le> length regs"
  shows "length (reg_write regs i p n buf) = length regs"
    "reg_write regs i p n buf ! j =
       (if i \<le> j \<and> j < i + n then be16 buf (p + 2 * (j - i)) else regs ! j)"
proof -
  have "length (reg_write regs i p n buf) = length regs \<and> reg_write regs i p n buf ! j =
       (if i \<le> j \<and> j < i + n then be16 buf (p + 2 * (j - i)) else regs ! j)"
    using assms
  proof (induction n arbitrary: regs i p)
    case (Suc n)
    let ?regs = "regs[i := be16 buf p]"
    have shift: "p + 2 + 2 * (j - Suc i) = p + 2 * (j - i)" if "Suc i \<le> j" using that by simp
    have step: "reg_write regs i p (Suc n) buf = reg_write ?regs (Suc i) (p + 2) n buf"
      by (simp add: be16_def)
    have ih: "length (reg_write ?regs (Suc i) (p + 2) n buf) = length regs"
      "reg_write ?regs (Suc i) (p + 2) n buf ! j =
        (if Suc i \<le> j \<and> j < Suc i + n then be16 buf (p + 2 + 2 * (j - Suc i)) else ?regs ! j)"
      using Suc.IH [of "Suc i" ?regs "p + 2"] Suc.prems by simp_all
    consider "j < i" | "j = i" | "Suc i \<le> j" by linarith
    then show ?case
      unfolding step using ih(1) ih(2) Suc.prems by cases (simp_all only: shift if_True simp_thms, auto)
  qed auto
  then show "length (reg_write regs i p n buf) = length regs"
    "reg_write regs i p n buf ! j = (if i \<le> j \<and> j < i + n then be16 buf (p + 2 * (j - i)) else regs ! j)"
    by blast+
qed

lemma be16_bytes:
  "ucast (drop_bit 8 (be16 f k)) = f k" "ucast (be16 f k AND 0xFF) = f (k + 1)"
proof -
  have ff: "(0xFF :: u16) = mask 8" by (simp add: mask_eq_exp_minus_1)
  show "ucast (drop_bit 8 (be16 f k)) = f k"
    by (rule bit_word_eqI) (auto simp: be16_def bit_simps dest: bit_imp_le_length simp del: push_bit_of_1 push_bit_eq_mult)
  show "ucast (be16 f k AND 0xFF) = f (k + 1)" unfolding ff
    by (rule bit_word_eqI) (auto simp: be16_def bit_simps simp del: push_bit_of_1 push_bit_eq_mult)
qed

lemma reg_read:
  "reg_read regs i p n buf j =
     (if p \<le> j \<and> j < p + 2 * n
      then if even (j - p) then ucast (drop_bit 8 (regs ! (i + (j - p) div 2)))
           else ucast (regs ! (i + (j - p) div 2) AND 0xFF)
      else buf j)"
proof (induction n arbitrary: i p buf j)
  case (Suc n)
  consider "j < p" | "j = p" | "j = p + 1" | "p + 2 \<le> j" by linarith
  then show ?case
  proof cases
    case 4
    then obtain d where "j = p + 2 + d" by (metis le_iff_add)
    then show ?thesis by (simp add: Suc.IH)
  qed (simp_all add: Suc.IH)
qed auto

lemma holding_range:
  assumes "unat a + unat n \<le> 32"
  shows "eMBRegHoldingCB p (a + 1) n MB_REG_READ buf s =
      (MB_ENOERR, reg_read (usSRegHoldBuf (mb s)) (unat a) p (unat n) buf, s)"
    "fst (eMBRegHoldingCB p (a + 1) n MB_REG_WRITE buf s) = MB_ENOERR"
    "fst (snd (eMBRegHoldingCB p (a + 1) n MB_REG_WRITE buf s)) = buf"
    "usSRegHoldBuf (mb (snd (snd (eMBRegHoldingCB p (a + 1) n MB_REG_WRITE buf s)))) =
      reg_write (usSRegHoldBuf (mb s)) (unat a) p (unat n) buf"
  using assms by (simp_all add: eMBRegHoldingCB_def Let_def reg_consts on_mb_def)

lemma reg_read_write:
  assumes "a + n \<le> length regs" "i < 2 * n"
  shows "reg_read (reg_write regs a p n f) a r n g (r + i) = f (p + i)"
proof -
  have "i div 2 < n" using assms(2) by auto
  then have w: "reg_write regs a p n f ! (a + i div 2) = be16 f (p + 2 * (i div 2))"
    using reg_write(2) [OF assms(1), of p f "a + i div 2"] by simp
  note b = be16_bytes [of f "p + 2 * (i div 2)"]
  show ?thesis
  proof (cases "even i")
    case True
    then have "2 * (i div 2) = i" by simp
    with True assms(2) w b(1) show ?thesis by (simp add: reg_read)
  next
    case False
    then have "p + 2 * (i div 2) + 1 = p + i" by presburger
    with False assms(2) w b(2) show ?thesis by (simp add: reg_read)
  qed
qed

text \<open>
  What a master writes to holding registers it can read back: after a valid write of \<open>n\<close> registers a
  read of the same registers answers with the same \<open>2 n\<close> data bytes, and the write's reply repeats its
  first five bytes.
\<close>

theorem holding_write_read:
  fixes q p :: request
  defines "a \<equiv> be16 (pucFrame q) 1" and "n \<equiv> be16 (pucFrame q) 3"
  assumes "6 \<le> usLen q" "1 \<le> unat n" "unat a + unat n \<le> 32" "unat (pucFrame q 5) = 2 * unat n"
    and "length (usSRegHoldBuf (mb (served q))) = 32"
    and "usLen p = 5" "be16 (pucFrame p) 1 = a" "be16 (pucFrame p) 3 = n"
  shows "let (e, r) = eMBFuncWriteMultipleHoldingRegister q;
             (e', t) = eMBFuncReadHoldingRegister (p\<lparr>served := served r\<rparr>)
    in e = MB_EX_NONE \<and> usLen r = 5 \<and> pucFrame r = pucFrame q \<and>
       e' = MB_EX_NONE \<and> usLen t = 2 + 2 * unat n \<and> unat (pucFrame t 1) = 2 * unat n \<and>
       (\<forall>i < 2 * unat n. pucFrame t (2 + i) = pucFrame q (6 + i))"
proof -
  have two: "unat (2 * n) = 2 * unat n"
    using assms(5) by (subst unat_mult_lem [THEN iffD1]) simp_all
  have count: "unat (ucast (2 * n) :: byte) = 2 * unat n"
    using assms(5) by (simp add: unsigned_ucast_eq two take_bit_nat_eq_self)
  then have bytes: "pucFrame q 5 = ucast (2 * n)" using assms(6) by (simp only: word_unat_eq_iff)
  have n: "n \<ge> 1 \<and> n \<le> 0x78" "n \<ge> 1 \<and> n \<le> 0x7D" using assms(4,5) counted(1,5,6) [of n] by simp_all
  obtain e f s where cb: "eMBRegHoldingCB 6 (a + 1) n MB_REG_WRITE (pucFrame q) (served q) = (e, f, s)"
    by (metis prod_cases3)
  note w = holding_range [OF assms(5), of 6 "pucFrame q" "served q", unfolded cb fst_conv snd_conv]
  have stored: "eMBFuncWriteMultipleHoldingRegister q = (MB_EX_NONE, q\<lparr>pucFrame := pucFrame q, served := s, usLen := 5\<rparr>)"
    using assms(3) n(1) bytes cb w(2,3)
    by (simp add: eMBFuncWriteMultipleHoldingRegister_def Let_def a_def n_def)
  let ?f = "(pucFrame p)(0 := 3, 1 := ucast (n * 2))"
  let ?g = "reg_read (usSRegHoldBuf (mb s)) (unat a) 2 (unat n) ?f"
  have read: "eMBFuncReadHoldingRegister (p\<lparr>served := s\<rparr>) =
      (MB_EX_NONE, p\<lparr>pucFrame := ?g, served := s, usLen := 2 + unat n * 2\<rparr>)"
    using assms(8-10) n(2) holding_range(1) [OF assms(5), of 2 ?f s]
    by (simp add: eMBFuncReadHoldingRegister_def Let_def)
  have "?g 1 = ucast (n * 2)" by (simp add: reg_read)
  then have "unat (?g 1) = 2 * unat n" using count by (simp add: mult.commute)
  moreover have "\<forall>i < 2 * unat n. ?g (2 + i) = pucFrame q (6 + i)"
    unfolding w(4) using assms(5,7) by (intro allI impI reg_read_write) simp_all
  ultimately show ?thesis by (simp add: stored read del: add_2_eq_Suc')
qed

lemma holding_write_read_witness:
  "let r = snd (eMBFuncWriteMultipleHoldingRegister (write_request [16, 0, 5, 0, 1, 2, 0xAB, 0xCD]));
       t = snd (eMBFuncReadHoldingRegister ((write_request [3, 0, 5, 0, 1])\<lparr>served := served r\<rparr>))
   in pucFrame t 2 = 0xAB \<and> pucFrame t 3 = 0xCD"
proof -
  let ?q = "write_request [16, 0, 5, 0, 1, 2, 0xAB, 0xCD]" and ?p = "write_request [3, 0, 5, 0, 1]"
  have "6 \<le> usLen ?q" "1 \<le> unat (be16 (pucFrame ?q) 3)" "unat (be16 (pucFrame ?q) 1) + unat (be16 (pucFrame ?q) 3) \<le> 32"
    "unat (pucFrame ?q 5) = 2 * unat (be16 (pucFrame ?q) 3)" "length (usSRegHoldBuf (mb (served ?q))) = 32"
    "usLen ?p = 5" "be16 (pucFrame ?p) 1 = be16 (pucFrame ?q) 1" "be16 (pucFrame ?p) 3 = be16 (pucFrame ?q) 3"
    and "unat (be16 (pucFrame ?q) 3) = 1" "pucFrame ?q 6 = 0xAB" "pucFrame ?q 7 = 0xCD"
    by (simp_all add: write_request_def arr_def be16_def new_unit_def)
  note facts = this
  let ?r = "snd (eMBFuncWriteMultipleHoldingRegister ?q)"
  let ?t = "snd (eMBFuncReadHoldingRegister (?p\<lparr>served := served ?r\<rparr>))"
  have "\<forall>i < 2 * unat (be16 (pucFrame ?q) 3). pucFrame ?t (2 + i) = pucFrame ?q (6 + i)"
    using holding_write_read [of ?q ?p, OF facts(1-8)] unfolding case_prod_beta Let_def by blast
  from this [rule_format, of 0] this [rule_format, of 1] show ?thesis
    unfolding facts(9) using facts(10,11) by (simp add: Let_def)
qed

section \<open>Errors\<close>

lemma refused:
  "eMBRegCoilsCB p a n mode buf behind s = (e, f, b, s') \<Longrightarrow> e \<noteq> MB_ENOERR \<Longrightarrow> b = behind \<and> s' = s"
  "eMBRegHoldingCB p a n rmode buf s = (e, f, s') \<Longrightarrow> e \<noteq> MB_ENOERR \<Longrightarrow> s' = s"
  by (auto simp: eMBRegCoilsCB_def eMBRegHoldingCB_def Let_def split: if_splits eMBRegisterMode.splits prod.splits)

lemma reading:
  "eMBRegCoilsCB p a n MB_REG_READ buf behind s = (e, f, b, s') \<Longrightarrow> b = behind \<and> s' = s"
  "eMBRegHoldingCB p a n MB_REG_READ buf s = (e, f, s') \<Longrightarrow> s' = s"
  by (auto simp: eMBRegCoilsCB_def eMBRegHoldingCB_def Let_def split: if_splits)

lemma never_illegal: "prveMBError2Exception x \<noteq> MB_EX_ILLEGAL_FUNCTION"
  by (cases x) (simp_all add: prveMBError2Exception_def)

text \<open>The writing half of function 23 is done before the reading half is checked.\<close>

lemma read_write_refused:
  fixes q :: request
  defines "ra \<equiv> be16 (pucFrame q) 1" and "rn \<equiv> be16 (pucFrame q) 3"
    and "wa \<equiv> be16 (pucFrame q) 5" and "wn \<equiv> be16 (pucFrame q) 7"
  assumes h: "eMBFuncReadWriteMultipleHoldingRegister q = (e, r)" and e: "e \<noteq> MB_EX_NONE"
  shows "behind_coils r = behind_coils q \<and> e \<noteq> MB_EX_ILLEGAL_FUNCTION \<and>
    (if 1 \<le> rn \<and> rn \<le> 0x7D \<and> 1 \<le> wn \<and> 2 * unat wn = unat (pucFrame q 9) \<and> unat wa + unat wn \<le> 32
     then e = MB_EX_ILLEGAL_DATA_ADDRESS \<and> 32 < unat ra + unat rn \<and>
       served r = snd (snd (eMBRegHoldingCB 10 (wa + 1) wn MB_REG_WRITE (pucFrame q) (served q)))
     else served r = served q)"
proof (cases "usLen q \<ge> 10 \<and> rn \<ge> 1 \<and> rn \<le> 0x7D \<and> wn \<ge> 1 \<and> wn \<le> 0x79 \<and> 2 * unat wn = unat (pucFrame q 9)")
  case False
  have "wn \<le> 0x79" if "unat wa + unat wn \<le> 32" using that by (simp add: word_le_nat_alt)
  moreover have "usLen q \<ge> 10" using h e by (auto simp: eMBFuncReadWriteMultipleHoldingRegister_def split: if_splits)
  ultimately show ?thesis
    using False h by (auto simp: eMBFuncReadWriteMultipleHoldingRegister_def Let_def ra_def rn_def wa_def wn_def)
next
  case True
  obtain er f s where w: "eMBRegHoldingCB 10 (wa + 1) wn MB_REG_WRITE (pucFrame q) (served q) = (er, f, s)"
    by (metis prod_cases3)
  show ?thesis
  proof (cases "unat wa + unat wn \<le> 32")
    case False
    then have "er = MB_ENOREG" "s = served q" using w out_of_range(3) [of wa wn] by simp_all
    with False True w h show ?thesis
      by (auto simp: eMBFuncReadWriteMultipleHoldingRegister_def Let_def ra_def rn_def wa_def wn_def never_illegal)
  next
    case ok: True
    then have er: "er = MB_ENOERR" using w holding_range(2) [OF ok, of 10 "pucFrame q" "served q"] by simp
    let ?f1 = "f(0 := 23, 1 := ucast (rn * 2))"
    have bad: "32 < unat ra + unat rn"
    proof (rule ccontr)
      assume "\<not> 32 < unat ra + unat rn"
      then have "fst (eMBRegHoldingCB 2 (ra + 1) rn MB_REG_READ ?f1 s) = MB_ENOERR" by (simp add: holding_range(1))
      with h e True w er show False
        by (auto simp: eMBFuncReadWriteMultipleHoldingRegister_def Let_def ra_def rn_def wa_def wn_def
            case_prod_beta split: if_splits)
    qed
    then have "eMBRegHoldingCB 2 (ra + 1) rn MB_REG_READ ?f1 s = (MB_ENOREG, ?f1, s)" by (rule out_of_range)
    with h e True w er ok bad show ?thesis
      by (auto simp: eMBFuncReadWriteMultipleHoldingRegister_def Let_def ra_def rn_def wa_def wn_def
          prveMBError2Exception_def)
  qed
qed

text \<open>
  C23. What a request changes that is answered with an exception. A function the unit does not know changes nothing
  and is answered with exception 1. Every other request so answered changes nothing either (unit, register images and
  the memory behind the coils are as before), but for one: function 23 (read and write holding registers) whose
  counts and range to write are right and whose range to read is not. It is answered with exception 2, yet its registers
  have been written just as by a successful write, which for the first register alone includes a click of the key.
\<close>

theorem exception_effects:
  fixes q r :: request
  defines "ra \<equiv> be16 (pucFrame q) 1" and "rn \<equiv> be16 (pucFrame q) 3"
    and "wa \<equiv> be16 (pucFrame q) 5" and "wn \<equiv> be16 (pucFrame q) 7"
  assumes run: "call_handler q = (e, r)" "e \<noteq> MB_EX_NONE"
  shows "behind_coils r = behind_coils q \<and>
    (if pucFrame q 0 \<notin> {1, 2, 3, 4, 5, 6, 15, 16, 17, 23} then e = MB_EX_ILLEGAL_FUNCTION \<and> r = q
     else e \<noteq> MB_EX_ILLEGAL_FUNCTION \<and>
       (if pucFrame q 0 = 23 \<and> 1 \<le> rn \<and> rn \<le> 0x7D \<and> 1 \<le> wn \<and> 2 * unat wn = unat (pucFrame q 9) \<and>
           unat wa + unat wn \<le> 32
        then e = MB_EX_ILLEGAL_DATA_ADDRESS \<and> 32 < unat ra + unat rn \<and>
          usSRegHoldBuf (mb (served r)) = reg_write (usSRegHoldBuf (mb (served q))) (unat wa) 10 (unat wn) (pucFrame q) \<and>
          served r = snd (snd (eMBRegHoldingCB 10 (wa + 1) wn MB_REG_WRITE (pucFrame q) (served q)))
        else served r = served q))"
proof (cases "pucFrame q 0 = 23")
  case True
  then have "eMBFuncReadWriteMultipleHoldingRegister q = (e, r)"
    using run(1) by (simp add: call_handler_def xFuncHandlers_def)
  from read_write_refused [OF this run(2)] holding_range(4) [of wa wn 10 "pucFrame q" "served q"] True show ?thesis
    unfolding ra_def rn_def wa_def wn_def by (auto split: if_splits)
next
  case False
  define harmless where "harmless = (\<lambda>(e, t :: request). e = MB_EX_NONE \<or>
    served t = served q \<and> behind_coils t = behind_coils q \<and> e \<noteq> MB_EX_ILLEGAL_FUNCTION)"
  note [simp] = harmless_def Let_def never_illegal and [split] = prod.split and [dest!] = refused reading
  have "harmless (eMBFuncReadCoils q)" by (auto simp: eMBFuncReadCoils_def)
  moreover have "harmless (eMBFuncWriteCoil q)" by (auto simp: eMBFuncWriteCoil_def)
  moreover have "harmless (eMBFuncWriteMultipleCoils q)" by (auto simp: eMBFuncWriteMultipleCoils_def)
  moreover have "harmless (eMBFuncReadDiscreteInputs q)" by (auto simp: eMBFuncReadDiscreteInputs_def)
  moreover have "harmless (eMBFuncWriteHoldingRegister q)" by (auto simp: eMBFuncWriteHoldingRegister_def)
  moreover have "harmless (eMBFuncWriteMultipleHoldingRegister q)"
    by (auto simp: eMBFuncWriteMultipleHoldingRegister_def)
  moreover have "harmless (eMBFuncReadHoldingRegister q)" by (auto simp: eMBFuncReadHoldingRegister_def)
  moreover have "harmless (eMBFuncReadInputRegister q)" by (auto simp: eMBFuncReadInputRegister_def)
  moreover have "harmless (eMBFuncReportSlaveID q)" by (simp add: eMBFuncReportSlaveID_def)
  ultimately have "map_of xFuncHandlers (pucFrame q 0) = Some h \<Longrightarrow> harmless (h q)" for h
    using False by (simp only: xFuncHandlers_def) (auto simp del: harmless_def split: if_splits)
  then show ?thesis
    using run False by (auto simp: call_handler_def split: option.splits) (auto simp: xFuncHandlers_def split: if_splits)
qed

text \<open>Function 23 for one register to write at address 5 and one to read at address 40, which does not exist.\<close>

lemma exception_effects_witness:
  "let (e, r) = call_handler (write_request [23, 0, 40, 0, 1, 0, 5, 0, 1, 2, 0xAB, 0xCD])
   in e = MB_EX_ILLEGAL_DATA_ADDRESS \<and> usSRegHoldBuf (mb (served r)) ! 5 = 0xABCD"
proof -
  let ?q = "write_request [23, 0, 40, 0, 1, 0, 5, 0, 1, 2, 0xAB, 0xCD]"
  obtain e r where run: "call_handler ?q = (e, r)" by fastforce
  have f: "pucFrame ?q 0 = 23" "pucFrame ?q 9 = 2" "be16 (pucFrame ?q) 1 = 40" "be16 (pucFrame ?q) 3 = 1"
    "be16 (pucFrame ?q) 5 = 5" "be16 (pucFrame ?q) 7 = 1" "usLen ?q = 12" "be16 (pucFrame ?q) 10 = 0xABCD"
    "length (usSRegHoldBuf (mb (served ?q))) = 32"
    by (simp_all add: write_request_def arr_def be16_def new_unit_def)
  have "call_handler ?q = eMBFuncReadWriteMultipleHoldingRegister ?q"
    using f(1) by (simp add: call_handler_def xFuncHandlers_def)
  also have "fst \<dots> = MB_EX_ILLEGAL_DATA_ADDRESS"
    using f(2-7) out_of_range(3) [of 40 1] holding_range(2) [of 5 1 10 "pucFrame ?q" "served ?q"]
    by (auto simp: eMBFuncReadWriteMultipleHoldingRegister_def Let_def case_prod_beta prveMBError2Exception_def)
  finally have "e \<noteq> MB_EX_NONE" using run by simp
  note effects = exception_effects [OF run this]
  have w: "usSRegHoldBuf (mb (served r)) = reg_write (usSRegHoldBuf (mb (served ?q))) 5 10 1 (pucFrame ?q)"
    and "e = MB_EX_ILLEGAL_DATA_ADDRESS"
    using effects holding_range(4) [of 5 1 10 "pucFrame ?q" "served ?q"] unfolding f(1-6) by simp_all
  moreover have "usSRegHoldBuf (mb (served r)) ! 5 = 0xABCD"
    unfolding w using reg_write(2) [of 5 1 "usSRegHoldBuf (mb (served ?q))" 10 "pucFrame ?q" 5] f(8,9) by simp
  ultimately show ?thesis unfolding run by simp
qed

section \<open>The lock\<close>

interpretation good_served: modbus_served good
  by unfold_locales (simp_all add: good_keys on_rtu_def)

lemmas good_poll [keep] = good_served.poll and good_stack [simp] = good_served.stack

lemma clicks_locked:
  "lock_status (valve (key_on_click_handle s)) = lock_status (valve s)"
  "lock_status (valve (key_off_click_handle s)) = lock_status (valve s)"
proof -
  have "lock_status (valve (open_and_report s)) = lock_status (valve s)"
    "lock_status (valve (close_and_report s)) = lock_status (valve s)"
    by (simp_all add: open_and_report_def close_and_report_def valve_open_def valve_close_def valve_turn_control_def)
  moreover have "lock_status (valve (warning_all_clear s)) = lock_status (valve s)"
    by (simp add: warning_all_clear_def set_status_def set_now_def Let_def)
  ultimately show "lock_status (valve (key_on_click_handle s)) = lock_status (valve s)"
    "lock_status (valve (key_off_click_handle s)) = lock_status (valve s)"
    by (simp_all add: key_on_click_handle_def key_off_click_handle_def split: device_status.split)
qed

lemma clicks_closed:
  "\<lbrakk>lock_status (valve s) = 1; valve_status (valve s) = VALVE_STATUS_CLOSE\<rbrakk> \<Longrightarrow>
     valve_status (valve (key_on_click_handle s)) = VALVE_STATUS_CLOSE"
  "valve_status (valve s) = VALVE_STATUS_CLOSE \<Longrightarrow>
     valve_status (valve (key_off_click_handle s)) = VALVE_STATUS_CLOSE"
proof -
  assume "lock_status (valve s) = 1" "valve_status (valve s) = VALVE_STATUS_CLOSE"
  moreover from this have "open_and_report s = lamps led_valve_fail s"
    by (simp add: open_and_report_def valve_open_def)
  ultimately show "valve_status (valve (key_on_click_handle s)) = VALVE_STATUS_CLOSE"
    by (simp add: key_on_click_handle_def split: device_status.split)
next
  assume "valve_status (valve s) = VALVE_STATUS_CLOSE"
  moreover from this have "valve_status (valve (close_and_report s)) = VALVE_STATUS_CLOSE"
    "valve_status (valve (warning_all_clear s)) = VALVE_STATUS_CLOSE"
    by (simp_all add: close_and_report_def valve_close_def valve_turn_control_def
        warning_all_clear_def set_status_def set_now_def Let_def)
  ultimately show "valve_status (valve (key_off_click_handle s)) = VALVE_STATUS_CLOSE"
    by (simp add: key_off_click_handle_def split: device_status.split)
qed

interpretation locked_served: modbus_served "\<lambda>s. lock_status (valve s) = 1"
  by unfold_locales (simp_all add: clicks_locked on_rtu_def on_mb_def)

interpretation closed_served:
  modbus_served "\<lambda>s. lock_status (valve s) = 1 \<and> valve_status (valve s) = VALVE_STATUS_CLOSE"
  by unfold_locales (auto simp: clicks_locked on_rtu_def on_mb_def intro: clicks_closed)

interpretation leak_served:
  modbus_served "\<lambda>s. status s \<in> {SlaverSensorLeak, MasterSensorLeak} \<and>
     valve s = valve z \<and> pin_out s = pin_out z \<and> warn s = warn z \<and> store s = store z \<and> timer s = timer z" for z
  by unfold_locales (auto simp: key_on_click_handle_def key_off_click_handle_def on_rtu_def on_mb_def)

text \<open>
  C12. A Modbus master cannot override the lock: whatever request is executed, in whatever state of the
  stack, a locked valve stays locked and, when it is closed, stays closed; during a leak alarm valve,
  motors, alarm, timers and flash do not change at all.
\<close>

theorem modbus_respects_lock:
  assumes "lock_status (valve s) = 1"
  shows "let s' = snd (eMBPoll stale b c s) in
    lock_status (valve s') = 1 \<and>
    (valve_status (valve s) = VALVE_STATUS_CLOSE \<longrightarrow> valve_status (valve s') = VALVE_STATUS_CLOSE) \<and>
    (status s \<in> {SlaverSensorLeak, MasterSensorLeak} \<longrightarrow>
       valve s' = valve s \<and> pin_out s' = pin_out s \<and> warn s' = warn s \<and> store s' = store s \<and> timer s' = timer s)"
  using locked_served.poll [OF assms, of stale b c] closed_served.poll [of s stale b c]
    leak_served.poll [of s s stale b c] assms by (simp add: Let_def)

text \<open>A master's request to open the valve, received and about to be executed, on a unit with a leak.\<close>

definition open_request :: sys where
  "open_request = (let s = set_status SlaverSensorLeak (valve_lock new_unit) in
     on_rtu (\<lambda>r. r\<lparr>ucRTUBuf := arr [1, 5, 0, 0, 0xFF, 0] (\<lambda>_. 0), usLength := 5, ucRcvAddress := 1,
        mb_events := [EV_EXECUTE]\<rparr>) s)"

lemma modbus_respects_lock_witness:
  "valve (snd (eMBPoll None (\<lambda>_. 0) (\<lambda>_. 0) open_request)) = valve open_request"
proof -
  have "lock_status (valve open_request) = 1" "status open_request = SlaverSensorLeak"
    by (simp_all add: open_request_def on_rtu_def on_mb_def set_status_def valve_lock_def set_lock_def)
  with modbus_respects_lock [of open_request None "\<lambda>_. 0" "\<lambda>_. 0"] show ?thesis by (simp add: Let_def)
qed

section \<open>From the line to the handler and back\<close>

lemma on_rtu_simps [simp]:
  "rtu (mb (on_rtu f s)) = f (rtu (mb s))" "on_rtu f (on_rtu g s) = on_rtu (\<lambda>r. f (g r)) s"
  by (simp_all add: on_rtu_def on_mb_def)

lemma on_rtu_cong: "f (rtu (mb s)) = g (rtu (mb s)) \<Longrightarrow> on_rtu f s = on_rtu g s"
  by (simp add: on_rtu_def on_mb_def)

lemma frame_received:
  assumes "eRcvState r = STATE_RX_IDLE" "bs \<noteq> []" "length bs \<le> 256"
  shows "eMBRTUReceive (xMBRTUTimerT35Expired (fold xMBRTUReceiveFSM bs r)) =
    (if 4 \<le> length bs \<and> usMBCRC16 bs = 0 then Some (bs ! 0, length bs - 3) else None)"
proof -
  let ?r = "xMBRTUTimerT35Expired (fold xMBRTUReceiveFSM bs r)"
  note c = captured(1,2) [OF assms]
  have "ucRTUBuf ?r 0 = map (ucRTUBuf ?r) [0..<length bs] ! 0" using assms(2) by simp
  also have "\<dots> = bs ! 0" unfolding c(1) ..
  finally show ?thesis unfolding eMBRTUReceive_def c by (simp add: MB_SER_PDU_SIZE_MIN_def numeral_3_eq_3)
qed

text \<open>
  C21. What arrives on the line is executed only when it is a frame for this unit: at least four bytes, a
  correct check sum, and address 1 or the broadcast address. Then, and only then, the poll posts an
  execution; the frame reaches the poll complete, and up to here nothing but the stack's own
  state has changed.
\<close>

theorem only_own_frames_execute:
  assumes "eRcvState (rtu (mb s)) = STATE_RX_IDLE" "mb_events (rtu (mb s)) = []" "bs \<noteq> []" "length bs \<le> 256"
  shows "let s1 = on_rtu (\<lambda>r. xMBRTUTimerT35Expired (fold xMBRTUReceiveFSM bs r)) s;
             (b', s2) = eMBPoll stale b c s1; r = rtu (mb s2)
    in mb_events r = (if 4 \<le> length bs \<and> usMBCRC16 bs = 0 \<and> bs ! 0 \<in> {0, 1} then [EV_EXECUTE] else []) \<and>
       (mb_events r = [EV_EXECUTE] \<longrightarrow> ucRcvAddress r = bs ! 0 \<and> usLength r = length bs - 3) \<and>
       map (ucRTUBuf r) [0..<length bs] = bs \<and> eRcvState r = STATE_RX_IDLE \<and>
       b' = b \<and> s2 = s\<lparr>mb := (mb s)\<lparr>rtu := r\<rparr>\<rparr>"
proof -
  let ?r = "xMBRTUTimerT35Expired (fold xMBRTUReceiveFSM bs (rtu (mb s)))"
  let ?s1 = "on_rtu (\<lambda>r. xMBRTUTimerT35Expired (fold xMBRTUReceiveFSM bs r)) s"
  note c = captured [OF assms(1,3,4)] and f = frame_received [OF assms(1,3,4)]
  have keep: "ucRTUBuf (mb_frame_received r) = ucRTUBuf r" "eRcvState (mb_frame_received r) = eRcvState r" for r
    by (simp_all add: mb_frame_received_def xMBPortEventPost_def Let_def split: option.split)
  have poll: "eMBPoll stale b c ?s1 = (b, on_rtu (\<lambda>_. mb_frame_received (?r\<lparr>mb_events := []\<rparr>)) s)"
    using c(3) assms(2) by (simp add: eMBPoll_def xMBPortEventGet_def)
  have "eMBRTUReceive (?r\<lparr>mb_events := []\<rparr>) = eMBRTUReceive ?r" by (simp add: eMBRTUReceive_def)
  then have "mb_frame_received (?r\<lparr>mb_events := []\<rparr>) =
      (if 4 \<le> length bs \<and> usMBCRC16 bs = 0
       then ?r\<lparr>ucRcvAddress := bs ! 0, usLength := length bs - 3,
               mb_events := (if bs ! 0 \<in> {0, 1} then [EV_EXECUTE] else [])\<rparr>
       else ?r\<lparr>mb_events := []\<rparr>)"
    using f by (auto simp: mb_frame_received_def xMBPortEventPost_def Let_def)
  then show ?thesis using c(1,4)
    by (simp add: poll Let_def) (simp add: on_rtu_def on_mb_def)
qed

lemma only_own_frames_execute_witness:
  "mb_events (rtu (mb (snd (eMBPoll None (\<lambda>_. 0) (\<lambda>_. 0)
     (on_rtu (\<lambda>r. xMBRTUTimerT35Expired (fold xMBRTUReceiveFSM [9, 5, 0] r))
        (on_rtu (\<lambda>_. idle_port) new_unit)))))) = []"
proof -
  let ?s = "on_rtu (\<lambda>_. idle_port) new_unit"
  have "eRcvState (rtu (mb ?s)) = STATE_RX_IDLE" "mb_events (rtu (mb ?s)) = []" "[9 :: byte, 5, 0] \<noteq> []"
    "length [9 :: byte, 5, 0] \<le> 256"
    by (simp_all add: idle_port_def)
  from only_own_frames_execute [OF this, of None "\<lambda>_. 0" "\<lambda>_. 0"]
  show ?thesis unfolding Let_def case_prod_beta by simp
qed

interpretation stack_served: modbus_requests "\<lambda>s. rtu (mb s) = z" for z
  by unfold_locales (simp_all add: on_mb_def)

text \<open>
  C22. Every executed request gets its answer: none for a broadcast; otherwise one frame from address 1
  with a correct check sum that holds the handler's reply or, for an exception, the function code with
  the top bit set and the exception code.
\<close>

theorem request_answered:
  fixes s :: sys
  assumes "eRcvState (rtu (mb s)) = STATE_RX_IDLE"
  shows "let r = rtu (mb s); (e, t) = call_handler \<lparr>pucFrame = \<lambda>i. ucRTUBuf r (i + 1), usLen = usLength r,
             behind_coils = b, behind_inputs = c, served = s\<rparr>;
             (b', s') = mb_execute b c s; r' = rtu (mb s');
             pdu = (if e = MB_EX_NONE then map (pucFrame t) [0..<usLen t]
                    else [ucRTUBuf r 1 OR 0x80, exception_code e])
    in b' = behind_coils t \<and>
       (if ucRcvAddress r = 0 then eSndState r' = eSndState r \<and> usSndBufferCount r' = usSndBufferCount r
        else eSndState r' = STATE_TX_XMIT \<and> pucSndBufferCur r' = 0 \<and> usSndBufferCount r' = length pdu + 3 \<and>
             map (ucRTUBuf r') [0..<length pdu + 1] = 1 # pdu \<and>
             usMBCRC16 (map (ucRTUBuf r') [0..<length pdu + 3]) = 0)"
proof -
  let ?r = "rtu (mb s)"
  let ?q = "\<lparr>pucFrame = \<lambda>i. ucRTUBuf ?r (i + 1), usLen = usLength ?r,
             behind_coils = b, behind_inputs = c, served = s\<rparr>"
  obtain e t where h: "call_handler ?q = (e, t)" by fastforce
  have stack: "rtu (mb (served t)) = ?r"
    using stack_served.served [of ?q ?r] h by simp
  define pdu where "pdu = (if e = MB_EX_NONE then map (pucFrame t) [0..<usLen t] else [ucRTUBuf ?r 1 OR 0x80, exception_code e])"
  define f where "f = (if e = MB_EX_NONE then pucFrame t else (pucFrame t)(0 := ucRTUBuf ?r 1 OR 0x80, 1 := exception_code e))"
  have pdu: "map f [0..<length pdu] = pdu" 
    by (cases "e = MB_EX_NONE") (simp_all add: pdu_def f_def upt_conv_Cons del: upt_Suc)
  define r1 where "r1 = ?r\<lparr>ucRTUBuf := (\<lambda>i. if i = 0 then ucRTUBuf ?r 0 else f (i - 1)), usLength := length pdu\<rparr>"
  have r1: "eRcvState r1 = STATE_RX_IDLE" "map (\<lambda>i. ucRTUBuf r1 (i + 1)) [0..<length pdu] = pdu"
    using assms pdu by (simp_all add: r1_def)
  show ?thesis
  proof (cases "ucRcvAddress ?r = 0")
    case True
    then show ?thesis by (simp add: mb_execute_def h [simplified] Let_def stack)
  next
    case False
    have "mb_execute b c s = (behind_coils t, on_rtu (\<lambda>_. snd (eMBRTUSend 1 (length pdu) r1)) (served t))"
      using False by (simp add: mb_execute_def h [simplified] Let_def stack) (auto intro!: on_rtu_cong simp: stack r1_def f_def pdu_def numeral_2_eq_2 cong: if_cong)
    then show ?thesis
      using False sent_frame [OF r1(1), of 1 "length pdu"] r1(2)
      unfolding h Let_def prod.case pdu_def [symmetric] by (simp del: upt_Suc)
  qed
qed

lemma request_answered_witness:
  "usSndBufferCount (rtu (mb (snd (mb_execute (\<lambda>_. 0) (\<lambda>_. 0)
     (on_rtu (\<lambda>_. idle_port\<lparr>ucRTUBuf := arr [1, 0x2B] (\<lambda>_. 0), ucRcvAddress := 1, usLength := 1\<rparr>) new_unit))))) = 5"
proof -
  let ?s = "on_rtu (\<lambda>_. idle_port\<lparr>ucRTUBuf := arr [1, 0x2B] (\<lambda>_. 0), ucRcvAddress := 1, usLength := 1\<rparr>) new_unit"
  have "eRcvState (rtu (mb ?s)) = STATE_RX_IDLE" by (simp add: idle_port_def)
  from request_answered [OF this, of "\<lambda>_. 0" "\<lambda>_. 0"] show ?thesis
    by (simp add: Let_def case_prod_beta call_handler_def xFuncHandlers_def arr_def)
qed

section \<open>The valve's coil\<close>

lemma coils_write_one:
  fixes s :: sys and b :: byte and behind :: mem
  defines "m \<equiv> coils_written 0 0 1 (\<lambda>i. if i = 0 then b else 0) (arr (ucSCoilBuf (mb s)) behind)"
  defines "s1 \<equiv> on_mb (\<lambda>x. x\<lparr>ucSCoilBuf := map m [0..<length (ucSCoilBuf (mb s))]\<rparr>) s"
  shows "eMBRegCoilsCB 0 (0 + 1) 1 MB_REG_WRITE (\<lambda>i. if i = 0 then b else 0) behind s =
    (MB_ENOERR, \<lambda>i. if i = 0 then b else 0, \<lambda>i. if i < length (ucSCoilBuf (mb s)) then behind i else m i,
     mb_valve_single_control_write_callback s1)"
  by (simp add: eMBRegCoilsCB_def Let_def reg_consts m_def s1_def coils_written_def cong: if_cong)

text \<open>
  Writing coil 0 is the remote key: 0xFF00 acts as a click on the open key, 0x0000 as a click on the
  close key, after the coil has taken the value; the other coils and the memory behind them keep theirs and
  the request is echoed.
\<close>

theorem coil_is_remote_key:
  fixes q :: request
  assumes "usLen q = 5" "be16 (pucFrame q) 1 = 0" "pucFrame q 4 = 0" "pucFrame q 3 = (if on then 0xFF else 0)"
    and "length (ucSCoilBuf (mb (served q))) = 4"
  shows "\<exists>s1. let (e, r) = eMBFuncWriteCoil q in
    e = MB_EX_NONE \<and> pucFrame r = pucFrame q \<and> usLen r = 5 \<and> behind_coils r = behind_coils q \<and>
    served r = (if on then key_on_click_handle s1 else key_off_click_handle s1) \<and>
    s1\<lparr>mb := mb (served q)\<rparr> = served q \<and> (\<forall>i < 32. coil s1 i = (if i = 0 then on else coil (served q) i))"
proof -
  let ?b = "if on then 1 else 0 :: byte"
  let ?buf = "\<lambda>i. if i = 0 then ?b else 0"
  let ?arr = "arr (ucSCoilBuf (mb (served q))) (behind_coils q)"
  define m where "m = coils_written 0 0 1 ?buf ?arr"
  define s1 where "s1 = on_mb (\<lambda>x. x\<lparr>ucSCoilBuf := map m [0..<4]\<rparr>) (served q)"
  have buf: "(\<lambda>i. if i = 0 \<and> pucFrame q 3 = 0xFF then 1 else 0) = ?buf" using assms(4) by (auto simp: fun_eq_iff)
  have fn: "eMBFuncWriteCoil q = (MB_EX_NONE, q\<lparr>behind_coils := \<lambda>i. if i < 4 then behind_coils q i else m i,
      served := mb_valve_single_control_write_callback s1\<rparr>)"
    using coils_write_one [of ?b "behind_coils q" "served q", folded m_def, unfolded assms(5), folded s1_def] assms(1-4)
    unfolding eMBFuncWriteCoil_def buf by (simp add: Let_def)
  have bits: "mem_bit m i = (if i = 0 then on else mem_bit ?arr i)" for i
  proof -
    have d: "mem_bit ?buf (8 * 0 + (i - 0)) = (i = 0 \<and> on)" if "i < 8"
      using that mem_bit_byte [of i ?buf 0] by (simp add: bit_1_iff)
    show ?thesis
    proof (cases "i < 8")
      case True
      show ?thesis unfolding m_def coils_written d [OF True] by auto
    qed (auto simp: m_def coils_written)
  qed
  have byte: "i div 8 < 4 \<longleftrightarrow> i < 32" for i :: nat by auto
  have coils: "coil s1 i = (if i = 0 then on else coil (served q) i)" if "i < 32" for i
  proof -
    have "coil s1 i = mem_bit m i" using that by (simp add: coil_def s1_def on_mb_def mem_bit_def byte del: upt_Suc)
    then show ?thesis using that assms(5) arr_bit [of i "ucSCoilBuf (mb (served q))" "behind_coils q"]
      by (simp add: bits coil_def)
  qed
  have "m i = behind_coils q i" if "4 \<le> i" for i
  proof (rule bit_word_eqI)
    fix n assume "n < LENGTH(8)"
    then have n: "n < 8" by simp
    show "bit (m i) n = bit (behind_coils q i) n"
      using bits [of "8 * i + n"] that assms(5) unfolding mem_bit_byte [OF n] by (simp add: arr_def)
  qed
  then have "(\<lambda>i. if i < 4 then behind_coils q i else m i) = behind_coils q" by (auto simp: fun_eq_iff)
  moreover have "mb_valve_single_control_write_callback s1 = (if on then key_on_click_handle s1 else key_off_click_handle s1)"
    using coils [of 0] by (simp add: mb_valve_single_control_write_callback_def BIT_GET_bit coil_def)
  moreover have "s1\<lparr>mb := mb (served q)\<rparr> = served q" by (simp add: s1_def on_mb_def)
  ultimately show ?thesis using coils assms(1) by (intro exI [of _ s1]) (simp add: fn)
qed

lemma coil_is_remote_key_witness:
  "fst (eMBFuncWriteCoil (write_request [5, 0, 0, 0xFF, 0])) = MB_EX_NONE"
proof -
  let ?q = "write_request [5, 0, 0, 0xFF, 0]"
  have "usLen ?q = 5" "be16 (pucFrame ?q) 1 = 0" "pucFrame ?q 4 = 0" "pucFrame ?q 3 = (if True then 0xFF else 0)"
    "length (ucSCoilBuf (mb (served ?q))) = 4"
    by (simp_all add: write_request_def arr_def be16_def new_unit_def)
  from coil_is_remote_key [OF this] show ?thesis by (auto simp: Let_def case_prod_beta)
qed

end
