(* ===== verification/Alarm.thy ===== *)
theory Alarm
  imports Radio_Protocol Hours Modbus_Poll
begin

text \<open>
  The promise behind the leak alarm: while the table has a sensor that reports water, the
  unit is in the leak alarm. Every handler keeps it, except the learn timer.
\<close>

definition leaky :: "sys \<Rightarrow> bool" where
  "leaky s \<longleftrightarrow> (\<exists>d \<in> set (device_list (store s)). waterleak d \<noteq> 0)"

definition alarm_ok :: "sys \<Rightarrow> bool" where
  "alarm_ok s \<longleftrightarrow> good s \<and> (leaky s \<longrightarrow> status s = SlaverSensorLeak)"

named_theorems alarm \<open>an operation keeps the promise\<close>

lemma alarm_good: "alarm_ok s \<Longrightarrow> good s"
  by (simp add: alarm_ok_def)

lemma leaky_find: "leaky s = aq_device_waterleak_find (store s)"
  by (simp add: leaky_def aq_device_waterleak_find_def)

lemma leaky_cong: "device_list (store s') = device_list (store s) \<Longrightarrow> leaky s' = leaky s"
  by (simp add: leaky_def)

lemma alarm_cong:
  "\<lbrakk>good s' = good s; device_list (store s') = device_list (store s); status s' = status s\<rbrakk>
   \<Longrightarrow> alarm_ok s' = alarm_ok s"
  by (simp add: alarm_ok_def leaky_def)

lemma alarm_frame [simp]:
  "alarm_ok (s\<lparr>leds := l\<rparr>) = alarm_ok s" "alarm_ok (s\<lparr>timer := t\<rparr>) = alarm_ok s"
  "alarm_ok (s\<lparr>heart := h\<rparr>) = alarm_ok s" "alarm_ok (s\<lparr>keys := k\<rparr>) = alarm_ok s"
  "alarm_ok (s\<lparr>dry := d\<rparr>) = alarm_ok s" "alarm_ok (s\<lparr>rtc := c\<rparr>) = alarm_ok s"
  "alarm_ok (s\<lparr>ota := u\<rparr>) = alarm_ok s" "alarm_ok (s\<lparr>factory := f\<rparr>) = alarm_ok s"
  "alarm_ok (s\<lparr>mb := m\<rparr>) = alarm_ok s" "alarm_ok (s\<lparr>pin_in := i\<rparr>) = alarm_ok s"
  "alarm_ok (s\<lparr>pin_out := q\<rparr>) = alarm_ok s" "alarm_ok (s\<lparr>cpu_reset := b\<rparr>) = alarm_ok s"
  "alarm_ok (rt_pin_write p v s) = alarm_ok s" "alarm_ok (stop_timers ts s) = alarm_ok s"
  "alarm_ok (set_allow a s) = alarm_ok s" "alarm_ok (led_resume s) = alarm_ok s"
  "alarm_ok (on_ota f1 s) = alarm_ok s" "alarm_ok (on_mb f2 s) = alarm_ok s"
  "alarm_ok (set_output n v1 s) = alarm_ok s"
  by (rule alarm_cong; simp add: on_ota_def on_mb_def set_output_def)+

context sending_report
begin

lemma alarm_op [alarm]: "alarm_ok s \<Longrightarrow> alarm_ok (op s)"
  by (simp add: alarm_ok_def leaky_def good_op)

end

section \<open>The valve and the warnings\<close>

text \<open>When no sensor leaks any operation may change the status.\<close>

lemma dry_alarm: "\<lbrakk>good s; \<not> leaky s\<rbrakk> \<Longrightarrow> alarm_ok s"
  by (simp add: alarm_ok_def)

lemma idle_dry: "\<lbrakk>alarm_ok s; idle s\<rbrakk> \<Longrightarrow> \<not> leaky s"
  by (auto simp: alarm_ok_def idle_def)

lemma other_dry: "\<lbrakk>alarm_ok s; status s \<noteq> SlaverSensorLeak\<rbrakk> \<Longrightarrow> \<not> leaky s"
  by (auto simp: alarm_ok_def)

lemma leaky_same [simp]:
  "leaky (snd (valve_close s)) = leaky s" "leaky (snd (valve_open s)) = leaky s"
  "leaky (valve_lock s) = leaky s" "leaky (valve_unlock s) = leaky s"
  "leaky (warning_all_clear s) = leaky s" "leaky (close_and_report s) = leaky s"
  "leaky (open_and_report s) = leaky s" "leaky (warning_enable e s) = leaky s"
  "leaky (gateway_connect_start s) = leaky s" "leaky (set_status d s) = leaky s"
  "leaky (on_radio f s) = leaky s"
  by (rule leaky_cong; simp)+

lemma alarm_leaf [alarm]:
  assumes "alarm_ok s"
  shows "alarm_ok (gateway_connect_start s)"
    and "radio_ok (f (radio s)) \<Longrightarrow> alarm_ok (on_radio f s)"
    and "alarm_ok (valve_check_start s)"
    and "alarm_ok (radio_refresh_learn_device s)"
    and "alarm_ok (valve_delay_control v s)"
  using assms by (auto simp: alarm_ok_def leaky_def intro!: keep)
    (simp_all add: radio_refresh_learn_device_def valve_delay_control_def split: if_splits)

lemma alarm_enable [alarm]:
  assumes "alarm_ok s" "e \<in> set app_events"
  shows "alarm_ok (warning_enable e s)"
proof -
  obtain cb where cb: "callback e = Some cb" "priority e \<le> 8"
      "alarm_priority (alarm_status cb) = Some (priority e)"
    using app_event_callback [OF assms(2)] by auto
  have "status (warning_enable e s) = SlaverSensorLeak" if l: "status s = SlaverSensorLeak"
  proof (cases "priority (NowEvent (warn s)) \<le> priority e")
    case True
    have "priority (NowEvent (warn s)) = 8"
      using assms(1) l by (simp add: alarm_ok_def good_def core_ok_def)
    with True cb(2) have "priority e = 8" by simp
    with cb(3) have "alarm_status cb = SlaverSensorLeak" by (cases cb) (simp_all add: alarm_status_def)
    with True show ?thesis using warning_enable_status [OF assms(2) cb(1), of s] by simp
  next
    case False
    with l show ?thesis using warning_enable_status [OF assms(2) cb(1), of s] by simp
  qed
  with assms show ?thesis by (auto simp: alarm_ok_def intro!: keep)
qed

text \<open>Raising the leak event makes good the promise after a sensor has been marked.\<close>

lemma alarm_leak_event [alarm]: "good s \<Longrightarrow> alarm_ok (warning_enable SlaverSensorLeakEvent s)"
proof -
  assume g: "good s"
  then have "status (warning_enable SlaverSensorLeakEvent s) = SlaverSensorLeak"
    using warning_enable_leak_status [of s] by (simp add: good_def)
  then show ?thesis using g by (simp add: alarm_ok_def good_ops(8))
qed

lemma alarm_dry_ops [alarm]:
  assumes "good s" "\<not> leaky s"
  shows "alarm_ok (snd (valve_close s))" "alarm_ok (snd (valve_open s))"
    "alarm_ok (snd (valve_close (valve_lock s)))"
    "idle s \<Longrightarrow> alarm_ok (snd (valve_open (valve_unlock s)))"
    "alarm_ok (warning_all_clear s)" "alarm_ok (close_and_report s)" "alarm_ok (open_and_report s)"
    "alarm_ok (snd (valve_close (warning_all_clear s)))"
  using assms by (auto intro!: dry_alarm keep)

lemma alarm_idle [alarm]:
  assumes "alarm_ok s" "idle s"
  shows "alarm_ok (snd (valve_close s))" "alarm_ok (snd (valve_open s))"
    "alarm_ok (snd (valve_close (valve_lock s)))" "alarm_ok (snd (valve_open (valve_unlock s)))"
    "alarm_ok (close_and_report s)" "alarm_ok (open_and_report s)"
  using assms alarm_dry_ops [OF alarm_good [OF assms(1)] idle_dry [OF assms]] by simp_all

lemma alarm_other [alarm]:
  assumes "alarm_ok s" "status s \<noteq> SlaverSensorLeak"
  shows "alarm_ok (warning_all_clear s)" "alarm_ok (close_and_report s)" "alarm_ok (open_and_report s)"
  using alarm_dry_ops [OF alarm_good [OF assms(1)] other_dry [OF assms]] by simp_all

section \<open>The table\<close>

lemma alarm_store:
  assumes "alarm_ok s" "good (on_store f s)"
    and "(\<exists>d \<in> set (device_list (f (store s))). waterleak d \<noteq> 0) \<Longrightarrow> leaky s"
  shows "alarm_ok (on_store f s)"
  using assms by (auto simp: alarm_ok_def leaky_def)

lemma walk_waterleak:
  assumes "\<And>d e. waterleak (fst (f d e)) = waterleak d"
  shows "map waterleak (fst (walk f ds e)) = map waterleak ds"
  using assms by (induction ds arbitrary: e) (auto simp: case_prod_beta Let_def)

lemma each_waterleak:
  "(\<And>d e. waterleak (fst (f d e)) = waterleak d) \<Longrightarrow>
   map waterleak (device_list (for_each_device f st)) = map waterleak (device_list st)"
  using walk_waterleak [of f "device_list st" "ef_env st"]
  by (simp add: for_each_device_def case_prod_beta)

lemma waterleak_exists:
  "map waterleak ds = map waterleak ds' \<Longrightarrow>
   (\<exists>d \<in> set ds. waterleak d \<noteq> 0) = (\<exists>d \<in> set ds'. waterleak d \<noteq> 0)"
  by (drule arg_cong [of _ _ set], simp add: set_eq_iff image_iff) metis

lemma setters_waterleak:
  "map waterleak (device_list (aq_device_battery_set did v st)) = map waterleak (device_list st)"
  "map waterleak (device_list (aq_device_wirelost_set did v st)) = map waterleak (device_list st)"
  "map waterleak (device_list (aq_device_online_set did v st)) = map waterleak (device_list st)"
  "map waterleak (device_list (aq_device_rssi_level_set did v st)) = map waterleak (device_list st)"
  "map waterleak (device_list (aq_device_recv_set did v st)) = map waterleak (device_list st)"
  "map waterleak (device_list (aq_device_heart_recv_clear st)) = map waterleak (device_list st)"
  unfolding setter_defs set_and_save_def aq_device_recv_set_def aq_device_heart_recv_clear_def
  by (rule each_waterleak, simp add: save_node_def)+

lemma write_waterleak:
  "(\<And>d. waterleak (f d) = waterleak d) \<Longrightarrow>
   map waterleak (device_list (write_device did f st)) = map waterleak (device_list st)"
  by (simp add: write_device_def map_upd_first)

lemma heart_waterleak:
  "map waterleak (device_list (snd (aq_device_heart_recv src rl st))) = map waterleak (device_list st)"
  by (simp add: aq_device_heart_recv_def setters_waterleak write_waterleak split: option.split)

lemma check_loop_waterleak:
  "map waterleak (device_list (heart_check_loop st)) = map waterleak (device_list st)"
proof -
  have "map waterleak (device_list (heart_check_node i st)) = map waterleak (device_list st)" for i st
  proof (cases "i < length (device_list st)")
    case True
    then show ?thesis
      by (simp add: heart_check_node_def Let_def setters_waterleak map_update list_update_same_conv)
  next
    case False
    then have "(device_list st)[i := d] = device_list st" for d
      by (intro list_update_beyond) simp
    then show ?thesis by (simp add: heart_check_node_def Let_def setters_waterleak)
  qed
  then show ?thesis unfolding heart_check_loop_def by (rule fold_same)
qed

text \<open>Operations that leave the leak marks as they are.\<close>

lemma alarm_same_marks:
  "\<lbrakk>alarm_ok s; good (on_store f s);
    map waterleak (device_list (f (store s))) = map waterleak (device_list (store s))\<rbrakk>
   \<Longrightarrow> alarm_ok (on_store f s)"
  using alarm_store [of s f] waterleak_exists [of "device_list (f (store s))" "device_list (store s)"]
  by (auto simp only: leaky_def)

lemma alarm_stores [alarm]:
  assumes "alarm_ok s"
  shows "alarm_ok (on_store (aq_device_battery_set did v) s)"
    "alarm_ok (on_store (aq_device_wirelost_set did v) s)"
    "alarm_ok (on_store (aq_device_recv_set did v) s)"
    "alarm_ok (on_store aq_device_heart_recv_clear s)"
    "alarm_ok (on_store heart_check_loop s)"
    "alarm_ok (on_store (\<lambda>st. snd (aq_device_heart_recv src rl st)) s)"
    "alarm_ok (on_store (write_device did (\<lambda>d. d\<lparr>rssi_level := v\<rparr>)) s)"
proof -
  note g = alarm_good [OF assms] and t = good_parts(1) [OF alarm_good [OF assms]]
  have keep_marks: "alarm_ok (on_store f s)"
    if "table_ok (f (store s))" "lock_key (f (store s)) = lock_key (store s)"
      "heap_ok (f (store s)) = heap_ok (store s)"
      "map waterleak (device_list (f (store s))) = map waterleak (device_list (store s))" for f
    using alarm_same_marks [OF assms good_on_store [OF g]] that by simp
  show "alarm_ok (on_store (aq_device_battery_set did v) s)"
    "alarm_ok (on_store (aq_device_wirelost_set did v) s)"
    "alarm_ok (on_store (aq_device_recv_set did v) s)"
    "alarm_ok (on_store aq_device_heart_recv_clear s)"
    "alarm_ok (on_store heart_check_loop s)"
    "alarm_ok (on_store (\<lambda>st. snd (aq_device_heart_recv src rl st)) s)"
    by (rule keep_marks; simp add: setters_waterleak heart_waterleak check_loop_waterleak keep t)+
  show "alarm_ok (on_store (write_device did (\<lambda>d. d\<lparr>rssi_level := v\<rparr>)) s)"
    by (rule keep_marks) (simp_all add: write_waterleak write_device_table_ok t persist_def)
qed

text \<open>Deleting a device or clearing its mark removes leaks only.\<close>

lemma filter_leak:
  "(\<exists>d \<in> set (device_list (snd (aq_device_delete did st))). waterleak d \<noteq> 0) \<Longrightarrow>
   (\<exists>d \<in> set (device_list st). waterleak d \<noteq> 0)"
  using set_del_first_subset [of "\<lambda>d. device_id d = did" "device_list st"]
  by (auto simp: aq_device_delete_def Let_def delete_select_device_slot_def split: option.splits)

lemma alarm_delete [alarm]: "alarm_ok s \<Longrightarrow> alarm_ok (on_store (\<lambda>st. snd (aq_device_delete did st)) s)"
  by (rule alarm_store) (auto simp: leaky_def alarm_good intro!: keep good_parts dest!: filter_leak)

lemma alarm_unmark [alarm]: "alarm_ok s \<Longrightarrow> alarm_ok (on_store (aq_device_waterleak_set did 0) s)"
proof (rule alarm_store)
  assume a: "alarm_ok s"
  show "good (on_store (aq_device_waterleak_set did 0) s)"
    using alarm_good [OF a] good_parts(1) [OF alarm_good [OF a]]
    by (intro good_on_store) (simp_all add: keep)
  show "\<exists>d \<in> set (device_list (aq_device_waterleak_set did 0 (store s))). waterleak d \<noteq> 0 \<Longrightarrow> leaky s"
    by (auto simp: leaky_def setter_defs waterleak_field.set_list split: if_splits)
qed

lemma alarm_gateway_delete [alarm]: "alarm_ok s \<Longrightarrow> alarm_ok (on_store aq_gateway_delete s)"
proof (rule alarm_store)
  assume a: "alarm_ok s"
  show "good (on_store aq_gateway_delete s)"
    using alarm_good [OF a] good_parts(1) [OF alarm_good [OF a]]
    by (intro good_on_store) (simp_all add: keep)
  show "\<exists>d \<in> set (device_list (aq_gateway_delete (store s))). waterleak d \<noteq> 0 \<Longrightarrow> leaky s"
    using aq_gateway_delete_list [OF good_parts(1) [OF alarm_good [OF a]]] by (auto simp: leaky_def)
qed

lemma alarm_doorunit_delete [alarm]: "alarm_ok s \<Longrightarrow> alarm_ok (aq_doorunit_delete s)"
  unfolding aq_doorunit_delete_def by (rule fold_keep) (auto intro!: alarm)

lemma alarm_create:
  "\<lbrakk>aq_device_create rl ty did s = (r, s'); alarm_ok s\<rbrakk> \<Longrightarrow> alarm_ok s'"
proof -
  assume c: "aq_device_create rl ty did s = (r, s')" and a: "alarm_ok s"
  have "good s'" using good_create [of s rl ty did] alarm_good [OF a] c by (simp add: good_parts)
  moreover have "leaky s' = leaky s"
  proof -
    have "set (device_list (snd (device_create rl ty did st))) \<subseteq>
        insert (new_device i rl ty did) (set (device_list st)) \<and>
        set (device_list st) \<subseteq> set (device_list (snd (device_create rl ty did st)))"
      if "i = fst (get_free_device_slot st)" for i st
      using that by (auto simp: device_create_def get_free_device_slot_def Let_def split: option.splits if_splits)
    moreover have "store s' = snd (device_create rl ty did (store s))"
      using c by (auto simp: aq_device_create_def Let_def case_prod_beta split: if_splits)
    moreover have "waterleak (new_device i rl ty did) = 0" for i by (simp add: new_device_def)
    ultimately show ?thesis unfolding leaky_def by (metis (no_types, lifting) insertE subsetD)
  qed
  moreover have "status s' = status s"
    using c by (auto simp: aq_device_create_def Let_def case_prod_beta split: if_splits)
  ultimately show ?thesis using a by (simp add: alarm_ok_def)
qed

section \<open>The handlers\<close>

lemma alarm_learn [alarm]: "alarm_ok s \<Longrightarrow> alarm_ok (radio_start_learn_device s)"
proof (cases "status s = SlaverSensorLeak")
  case True
  then show "alarm_ok s \<Longrightarrow> ?thesis" by (simp add: radio_start_learn_device_def idle_def)
next
  case False
  assume a: "alarm_ok s"
  have "leaky (radio_start_learn_device s) = leaky s"
    by (rule leaky_cong) (simp add: radio_start_learn_device_def)
  with a False show ?thesis
    by (intro dry_alarm good_start_learn) (auto simp: alarm_ok_def)
qed

lemma alarm_offline_check [alarm]: "alarm_ok s \<Longrightarrow> alarm_ok (warning_offline_check s)"
  by (auto simp: warning_offline_check_def intro!: alarm)

lemma alarm_heart_check [alarm]: "alarm_ok s \<Longrightarrow> alarm_ok (aq_device_heart_check s)"
  by (auto simp: aq_device_heart_check_def Let_def intro!: alarm)

lemma alarm_endunit_heart [alarm]: "alarm_ok s \<Longrightarrow> alarm_ok (radio_frame_endunit_parse_heart rx did s)"
  by (auto simp: radio_frame_endunit_parse_heart_def Let_def intro!: alarm keep good_parts alarm_good)

lemma alarm_endunit_learn [alarm]: "alarm_ok s \<Longrightarrow> alarm_ok (radio_frame_endunit_parse_learn rx s)"
  by (auto simp: radio_frame_endunit_parse_learn_def Let_def
      intro!: alarm keep good_parts alarm_good dest!: alarm_create split: prod.split option.split)

lemma alarm_endunit_valve [alarm]:
  assumes "alarm_ok s"
  shows "alarm_ok (radio_frame_endunit_parse_valve rx did s)"
proof -
  define s0 where "s0 = on_store (write_device did (\<lambda>d. d\<lparr>rssi_level := rx_rssi_level rx\<rparr>)) s"
  define s1 where "s1 = on_radio (radio_endunit_command_send
      (reply rx CONTROL_VALVE_CMD [rx_data rx 2] s0)) s0"
  define s2 where "s2 = on_store (aq_device_waterleak_set did 0) s1"
  have a0: "alarm_ok s0" unfolding s0_def using assms by (rule alarm)
  have a1: "alarm_ok s1"
    unfolding s1_def using a0 good_parts(2) [OF alarm_good [OF a0]] by (intro alarm_leaf keep)
  have a2: "alarm_ok s2" unfolding s2_def using a1 by (rule alarm_unmark)
  have "\<not> aq_device_waterleak_find (store s2) \<Longrightarrow> alarm_ok (warning_all_clear s2)"
    using alarm_dry_ops(5) [OF alarm_good [OF a2]] by (simp add: leaky_find)
  then show ?thesis
    unfolding radio_frame_endunit_parse_valve_def Let_def s0_def [symmetric] s1_def [symmetric]
      s2_def [symmetric]
    using a1 a2 by (auto intro!: alarm)
qed

lemma alarm_warn_leak [alarm]:
  assumes "alarm_ok s"
  shows "alarm_ok (endunit_warn_leak level did s)"
proof -
  define s1 where "s1 = on_store (aq_device_waterleak_set did level) s"
  have g: "good s1"
    unfolding s1_def using alarm_good [OF assms] good_parts(1) [OF alarm_good [OF assms]]
    by (intro good_on_store) (simp_all add: keep)
  have clear: "\<not> aq_device_waterleak_find (store s1) \<Longrightarrow> alarm_ok (snd (valve_close (warning_all_clear s1)))"
    using alarm_dry_ops(8) [OF g] by (simp add: leaky_find)
  have same: "level = 0 \<Longrightarrow> alarm_ok s1" unfolding s1_def using assms by (auto intro: alarm)
  show ?thesis
    unfolding endunit_warn_leak_def Let_def s1_def [symmetric]
    using g clear same alarm_leak_event [OF g] by (auto intro!: gw_warning_slaver_leak.alarm_op)
qed

lemma alarm_warn_lost [alarm]: "alarm_ok s \<Longrightarrow> alarm_ok (endunit_warn_lost level did s)"
  by (auto simp: endunit_warn_lost_def Let_def intro!: alarm)

lemma alarm_endunit_warn [alarm]: "alarm_ok s \<Longrightarrow> alarm_ok (radio_frame_endunit_parse_warn rx did s)"
  by (auto simp: radio_frame_endunit_parse_warn_def Let_def intro!: alarm keep good_parts alarm_good)

lemma alarm_endunit [alarm]: "alarm_ok s \<Longrightarrow> alarm_ok (radio_frame_endunit_parse rx s)"
  by (auto simp: radio_frame_endunit_parse_def Let_def intro!: alarm split: option.split)

lemma alarm_doorunit_learn [alarm]: "alarm_ok s \<Longrightarrow> alarm_ok (radio_frame_doorunit_parse_learn rx s)"
  by (auto simp: radio_frame_doorunit_parse_learn_def Let_def
      intro!: alarm keep good_parts alarm_good dest!: alarm_create split: prod.split option.split)

lemma alarm_motion_learn [alarm]: "alarm_ok s \<Longrightarrow> alarm_ok (radio_frame_motion_parse_learn rx s)"
  by (auto simp: radio_frame_motion_parse_learn_def Let_def
      intro!: alarm keep good_parts alarm_good dest!: alarm_create split: prod.split option.split)

lemma alarm_doorunit_parts [alarm]:
  assumes "alarm_ok s"
  shows "alarm_ok (radio_frame_doorunit_parse_heart rx did s)"
    and "alarm_ok (radio_frame_doorunit_parse_valve rx did s)"
proof -
  show "alarm_ok (radio_frame_doorunit_parse_heart rx did s)"
    using assms
    by (auto simp: radio_frame_doorunit_parse_heart_def Let_def intro!: alarm keep good_parts alarm_good)
  define s0 where "s0 = on_store (write_device did (\<lambda>d. d\<lparr>rssi_level := rx_rssi_level rx\<rparr>)) s"
  define s1 where "s1 = on_radio (radio_doorunit_command_send
      (reply rx CONTROL_VALVE_CMD [rx_data rx 2] s0)) s0"
  have a0: "alarm_ok s0" unfolding s0_def using assms by (rule alarm)
  have a1: "alarm_ok s1"
    unfolding s1_def using a0 good_parts(2) [OF alarm_good [OF a0]] by (intro alarm_leaf keep)
  show "alarm_ok (radio_frame_doorunit_parse_valve rx did s)"
    unfolding radio_frame_doorunit_parse_valve_def Let_def s0_def [symmetric] s1_def [symmetric]
    using a1 by (auto intro!: alarm)
qed

lemma alarm_motion_parts [alarm]:
  assumes "alarm_ok s"
  shows "alarm_ok (radio_frame_motion_parse_heart rx did s)"
    and "alarm_ok (radio_frame_motion_parse_control rx did s)"
proof -
  show "alarm_ok (radio_frame_motion_parse_heart rx did s)"
    using assms
    by (auto simp: radio_frame_motion_parse_heart_def Let_def intro!: alarm keep good_parts alarm_good)
  define s0 where "s0 = on_store (write_device did (\<lambda>d. d\<lparr>rssi_level := rx_rssi_level rx\<rparr>)) s"
  define s1 where "s1 = on_radio (radio_endunit_command_send
      (reply rx CONTROL_VALVE_CMD [rx_data rx 2] s0)) s0"
  have a0: "alarm_ok s0" unfolding s0_def using assms by (rule alarm)
  have a1: "alarm_ok s1"
    unfolding s1_def using a0 good_parts(2) [OF alarm_good [OF a0]] by (intro alarm_leaf keep)
  show "alarm_ok (radio_frame_motion_parse_control rx did s)"
    unfolding radio_frame_motion_parse_control_def Let_def s0_def [symmetric] s1_def [symmetric]
    using a1 by (auto intro!: alarm)
qed

lemma alarm_units [alarm]:
  "alarm_ok s \<Longrightarrow> alarm_ok (radio_frame_doorunit_parse rx s)"
  "alarm_ok s \<Longrightarrow> alarm_ok (radio_frame_motion_parse rx s)"
  by (auto simp: radio_frame_doorunit_parse_def radio_frame_motion_parse_def Let_def intro!: alarm
      split: option.split)

lemma alarm_ota [alarm]:
  "alarm_ok s \<Longrightarrow> alarm_ok (lora_ota_begin n s)" "alarm_ok s \<Longrightarrow> alarm_ok (lora_ota_receive buf off k s)"
  "alarm_ok s \<Longrightarrow> alarm_ok (lora_ota_end s)"
  by (auto simp: lora_ota_begin_def lora_ota_receive_def lora_ota_end_def Let_def case_prod_beta
      intro!: alarm split: option.split)

lemma alarm_gateway_parts [alarm]:
  "alarm_ok s \<Longrightarrow> alarm_ok (radio_frame_gateway_parse_sync rx s)"
  "alarm_ok s \<Longrightarrow> alarm_ok (radio_frame_gateway_parse_heart rx s)"
  "alarm_ok s \<Longrightarrow> alarm_ok (radio_frame_gateway_parse_ack rx s)"
  "alarm_ok s \<Longrightarrow> alarm_ok (radio_frame_gateway_parse_ota rx s)"
  "alarm_ok s \<Longrightarrow> alarm_ok (radio_frame_gateway_parse_control rx s)"
  by (auto simp: radio_frame_gateway_parse_sync_def radio_frame_gateway_parse_heart_def
      radio_frame_gateway_parse_ack_def radio_frame_gateway_parse_ota_def
      radio_frame_gateway_parse_control_def Let_def intro!: alarm keep good_parts alarm_good)

lemma alarm_gateway_learn [alarm]: "alarm_ok s \<Longrightarrow> alarm_ok (radio_frame_gateway_parse_learn rx s)"
proof -
  assume a: "alarm_ok s"
  obtain r s1 where c: "aq_device_create 0 DEVICE_TYPE_GATEWAY (rx_source_addr rx)
      (on_store aq_gateway_delete s) = (r, s1)" by fastforce
  have "alarm_ok s1" using alarm_create [OF c alarm_gateway_delete [OF a]] .
  with a show ?thesis
    by (auto simp: radio_frame_gateway_parse_learn_def c intro!: alarm split: option.split)
qed

lemma alarm_gateway [alarm]:
  assumes "alarm_ok s"
  shows "alarm_ok (radio_frame_gateway_parse rx s)"
proof -
  define s1 where "s1 = (if rx_data rx 0 = LEARN_DEVICE_CMD then radio_frame_gateway_parse_learn rx s else s)"
  define s2 where "s2 = on_store (aq_device_recv_set (rx_source_addr rx) 1) (lamps (wifi_led 1) s1)"
  have s1: "alarm_ok s1" using assms by (simp add: s1_def alarm_gateway_learn)
  then have s2: "alarm_ok s2" unfolding s2_def by (intro alarm_stores) simp
  show ?thesis
    unfolding radio_frame_gateway_parse_def Let_def s1_def [symmetric] s2_def [symmetric]
    using s1 alarm_gateway_parts [OF s2, of rx] s2 by (simp split: option.split)
qed

lemma alarm_receive [alarm]: "alarm_ok s \<Longrightarrow> alarm_ok (OnRxDone payload n rssi g s)"
proof -
  assume a: "alarm_ok s"
  have r: "alarm_ok (on_radio radio_recv_start s)"
    using a good_parts(2) [OF alarm_good [OF a]] by (intro alarm_leaf keep)
  then have "alarm_ok (radio_frame_factory_parse rx (on_radio radio_recv_start s))" for rx
    by (simp add: radio_frame_factory_parse_def radio_frame_factory_parse_heart_def)
  with r show ?thesis
    by (auto simp: OnRxDone_def radio_protocol_parse_def radio_dispatch_def intro!: alarm split: option.split)
qed

section \<open>Panel and valve timers\<close>

lemma alarm_keys [alarm]:
  "alarm_ok s \<Longrightarrow> alarm_ok (key_on_click_handle s)" "alarm_ok s \<Longrightarrow> alarm_ok (key_off_click_handle s)"
  "alarm_ok s \<Longrightarrow> alarm_ok (key_off_long_free_handle s)" "alarm_ok s \<Longrightarrow> alarm_ok (key_on_long_free_handle s)"
  by (auto simp: key_on_click_handle_def key_off_click_handle_def key_off_long_free_handle_def
      key_on_long_free_handle_def intro!: alarm split: device_status.split)

lemma alarm_valve_timers [alarm]:
  "alarm_ok s \<Longrightarrow> alarm_ok (valve_delay_close_timer_callback s)"
  "alarm_ok s \<Longrightarrow> alarm_ok (valve_dry_contact_control l s)"
  "alarm_ok s \<Longrightarrow> alarm_ok (valvefail_warning_disable s)"
  by (auto simp: valve_delay_close_timer_callback_def valve_dry_contact_control_def
      valvefail_warning_disable_def idle_def intro!: alarm)

lemma alarm_dry [alarm]: "alarm_ok s \<Longrightarrow> alarm_ok (dry_contact_polling_timer_callback s)"
proof -
  assume a: "alarm_ok s"
  have set: "alarm_ok (dry_contact_tech_alarm_set l s) = alarm_ok s"
    "alarm_ok (dry_contact_leak_alarm_set l s) = alarm_ok s"
    "alarm_ok (dry_contact_valve_status_set l s) = alarm_ok s" for l s
    by (simp_all add: dry_contact_tech_alarm_set_def dry_contact_leak_alarm_set_def
        dry_contact_valve_status_set_def)
  have "alarm_ok (dry_contact_input s)"
    using a by (auto simp: dry_contact_input_def Let_def intro!: alarm)
  then show ?thesis
    by (simp add: dry_contact_polling_timer_callback_def dry_contact_alarms_def Let_def set
        split: device_status.split)
qed

lemma alarm_rtc [alarm]: "alarm_ok s \<Longrightarrow> alarm_ok (rtc_thread_entry s)"
proof -
  have check: "alarm_ok s \<Longrightarrow> alarm_ok (gateway_heart_check s)" for s
    using alarm_stores(3) [of s] by (auto simp: gateway_heart_check_def Let_def on_store_def)
  show "alarm_ok s \<Longrightarrow> ?thesis"
    unfolding rtc_thread_entry_def Let_def by (intro check) (auto intro!: alarm)
qed

lemma alarm_modbus [alarm]:
  "alarm_ok s \<Longrightarrow> alarm_ok (mb_slave_copy s)"
  "alarm_ok s \<Longrightarrow> alarm_ok (mb_valve_single_control_write_callback s)"
  "alarm_ok s \<Longrightarrow> alarm_ok (mb_holding_write_callback s)"
  by (simp_all add: mb_slave_copy_def mb_holding_data_copy_def mb_coils_data_copy_def
      mb_adc_value_data_copy_def mb_output_dry_contact_data_copy_def mb_input_dry_contact_data_copy_def
      mb_valve_data_copy_def mb_valve_single_control_write_callback_def mb_holding_write_callback_def alarm)

interpretation alarm_served: modbus_served alarm_ok
  by unfold_locales (simp_all add: alarm on_rtu_def)

lemmas alarm_poll [alarm] = alarm_served.poll and alarm_stack [simp] = alarm_served.stack

lemma alarm_heart [alarm]:
  "alarm_ok s \<Longrightarrow> alarm_ok (heart_connect_timer_callback s)"
  "alarm_ok s \<Longrightarrow> alarm_ok (snd (heart_thread_entry v s))"
  by (auto simp: heart_connect_timer_callback_def heart_thread_entry_def heart_goto_def Let_def
      intro!: alarm split: heart_pc.split)

lemma alarm_status_only:
  "\<lbrakk>alarm_ok s; good s'; device_list (store s') = device_list (store s);
    status s = SlaverSensorLeak \<Longrightarrow> status s' = SlaverSensorLeak\<rbrakk> \<Longrightarrow> alarm_ok s'"
  by (auto simp: alarm_ok_def leaky_def)

lemma alarm_check [alarm]:
  assumes "alarm_ok s"
  shows "alarm_ok (valve_left_turn_back_timer_callback s)" "alarm_ok (valve_right_turn_back_timer_callback s)"
    "alarm_ok (valve_left_turn_check_timer_callback s)" "alarm_ok (valve_right_turn_check_timer_callback s)"
proof -
  have leak: "status (warning_enable e t) = SlaverSensorLeak"
    if "status s = SlaverSensorLeak" "status t = status s" "NowEvent (warn t) = NowEvent (warn s)"
      "e = ValveLeftFailEvent \<or> e = ValveRightFailEvent" for e t
  proof -
    have "priority (NowEvent (warn t)) = 8"
      using alarm_good [OF assms] that by (simp add: good_def core_ok_def)
    then show ?thesis using that by (auto simp: warning_enable_def event_defs Let_def)
  qed
  have dis: "status t \<noteq> ValveLeftFail \<and> status t \<noteq> ValveRightFail \<Longrightarrow> valvefail_warning_disable t = t"
    for t by (simp add: valvefail_warning_disable_def)
  note g = good_check_callbacks [OF alarm_good [OF assms]]
  have dl: "device_list (store (valvefail_warning_disable t)) = device_list (store t)" for t by simp
  show "alarm_ok (valve_left_turn_back_timer_callback s)"
    by (rule alarm_status_only [OF assms g(1)])
      (auto simp: valve_left_turn_back_timer_callback_def leak)
  show "alarm_ok (valve_right_turn_back_timer_callback s)"
    by (rule alarm_status_only [OF assms g(2)])
      (auto simp: valve_right_turn_back_timer_callback_def leak)
  show "alarm_ok (valve_left_turn_check_timer_callback s)"
    by (rule alarm_status_only [OF assms g(3)])
      (auto simp: valve_left_turn_check_timer_callback_def Let_def leak dis)
  show "alarm_ok (valve_right_turn_check_timer_callback s)"
    by (rule alarm_status_only [OF assms g(4)])
      (auto simp: valve_right_turn_check_timer_callback_def Let_def leak dis)
qed

end
