(* ===== verification/System.thy ===== *)
theory System
  imports Alarm
begin

text \<open>
  The unit as a whole: what happens at power-on (\<open>main\<close> of \<open>applications/main.c\<close>), the events
  after that, each handled to its end, and the states that can be reached. Timers that
  expire, frames, keys, the threads' turns and the environment come in any order.
\<close>

section \<open>Power-on\<close>

text \<open>The variables of the program at reset; flash, partition and pins keep their contents.\<close>

definition ram_reset :: "sys \<Rightarrow> sys" where
  "ram_reset s = new_unit
     \<lparr>pin_in := pin_in s, pin_out := pin_out s,
      store := (store s)\<lparr>total_slot := 0, device_list := []\<rparr>,
      ota := (ota s)\<lparr>update_file_total_size := 0, update_file_cur_size := 0, dl_part := False\<rparr>\<rparr>"

lemmas reset_defs = ram_reset_def new_unit_def

definition radio_init :: "u32 \<Rightarrow> sys \<Rightarrow> sys" where
  "radio_init word s = on_radio (radio_recv_start \<circ> radio_encode_queue_init word) s"

text \<open>\<open>main\<close>: the start of the hourly thread is its clearing of the received flags.\<close>

definition main :: "u32 \<Rightarrow> sys \<Rightarrow> sys" where
  "main word s =
     mb_slave_start (dry_contact_init (valve_init (radio_init word (rtc_thread_start (warning_init
       (button_init (heart_init (storage_init (lamps led_init s)))))))))"

definition power_on :: "u32 \<Rightarrow> sys \<Rightarrow> sys" where
  "power_on word s = main word (ram_reset s)"

section \<open>The radio's pause\<close>

definition radio_csma_pause_set :: "sys \<Rightarrow> sys" where
  "radio_csma_pause_set s =
     (let s1 = (if init_tick (timer s csma_pause_timer) = 0
                then s\<lparr>timer := rt_timer_create csma_pause_timer 15000 False (timer s)\<rparr> else s)
      in timer_start csma_pause_timer (on_radio (\<lambda>r. r\<lparr>csma_pause := 1\<rparr>) s1))"

section \<open>Events\<close>

datatype event =
    Receive mem nat int int
  | Expire timer_id
  | Elapse nat
  | ButtonTurn u32
  | RtcAlarm
  | HeartTurn u32
  | RadioTurn "nat \<Rightarrow> rf_answer" nat
  | PinChange pin bool
  | LampTick
  | ModbusByte byte
  | ModbusPause
  | ModbusTransmit
  | ModbusCopy
  | ModbusPoll "eMBEventType option" mem mem
  | PowerOn u32

definition timer_callback :: "timer_id \<Rightarrow> sys \<Rightarrow> sys" where
  "timer_callback t =
     (case t of
        radio_learn_timer \<Rightarrow> radio_learn_timer_callback
      | valve_delay_close_timer \<Rightarrow> valve_delay_close_timer_callback
      | valve_detect_once_timer \<Rightarrow> valve_detect_once_timer_callback
      | valve_left_turn_back_timer \<Rightarrow> valve_left_turn_back_timer_callback
      | valve_right_turn_back_timer \<Rightarrow> valve_right_turn_back_timer_callback
      | valve_left_turn_check_timer \<Rightarrow> valve_left_turn_check_timer_callback
      | valve_right_turn_check_timer \<Rightarrow> valve_right_turn_check_timer_callback
      | dry_contact_valve_input_timer \<Rightarrow> dry_contact_polling_timer_callback
      | heart_connect_timer \<Rightarrow> heart_connect_timer_callback
      | csma_pause_timer \<Rightarrow> on_radio csma_pause_timer_callback)"

definition handle :: "event \<Rightarrow> sys \<Rightarrow> sys" where
  "handle ev s =
     (case ev of
        Receive payload n rssi g \<Rightarrow> OnRxDone payload n rssi g s
      | Expire t \<Rightarrow> timer_callback t (s\<lparr>timer := rt_timer_expire t (timer s)\<rparr>)
      | Elapse n \<Rightarrow> s\<lparr>timer := elapse n (timer s)\<rparr>
      | ButtonTurn now \<Rightarrow> agile_btn_process now s
      | RtcAlarm \<Rightarrow> rtc_thread_entry s
      | HeartTurn v \<Rightarrow> snd (heart_thread_entry v s)
      | RadioTurn env n \<Rightarrow> on_radio (\<lambda>r. snd (rf_encode_entry env n r)) s
      | PinChange p b \<Rightarrow> s\<lparr>pin_in := (pin_in s)(p := b)\<rparr>
      | LampTick \<Rightarrow> lamps led_run_tick s
      | ModbusByte b \<Rightarrow> on_rtu (xMBRTUReceiveFSM b) s
      | ModbusPause \<Rightarrow> on_rtu xMBRTUTimerT35Expired s
      | ModbusTransmit \<Rightarrow> on_rtu xMBRTUTransmitFSM s
      | ModbusCopy \<Rightarrow> mb_slave_copy s
      | ModbusPoll stale coils_end inputs_end \<Rightarrow> snd (eMBPoll stale coils_end inputs_end s)
      | PowerOn word \<Rightarrow> power_on word s)"

text \<open>
  After \<open>rt_hw_cpu_reset\<close> only power-on follows; a timer expires when its time is up. The port receives while it
  does not transmit and polls when an event is pending. The memory behind the two bit arrays is not
  part of the state: a poll that would change it (see \<open>leftover_bit_overruns\<close>) is not a step of this
  model, so what follows holds as long as no master sends such a request. No event changes \<open>heap_ok\<close> either:
  a run that starts with memory is one in which no allocation fails.
\<close>

definition enabled :: "event \<Rightarrow> sys \<Rightarrow> bool" where
  "enabled ev s \<longleftrightarrow>
     (case ev of
        PowerOn word \<Rightarrow> True
      | Expire t \<Rightarrow> \<not> cpu_reset s \<and> remaining (timer s t) = Some 0
      | Elapse n \<Rightarrow> \<not> cpu_reset s \<and> can_elapse n (timer s)
      | ModbusByte b \<Rightarrow> \<not> cpu_reset s \<and> eSndState (rtu (mb s)) = STATE_TX_IDLE
      | ModbusPause \<Rightarrow> \<not> cpu_reset s \<and> t35 (rtu (mb s))
      | ModbusPoll stale coils_end inputs_end \<Rightarrow>
          \<not> cpu_reset s \<and> mb_events (rtu (mb s)) \<noteq> [] \<and> fst (eMBPoll stale coils_end inputs_end s) = coils_end
      | _ \<Rightarrow> \<not> cpu_reset s)"

inductive step :: "sys \<Rightarrow> event \<Rightarrow> sys \<Rightarrow> bool" where
  happens: "enabled ev s \<Longrightarrow> step s ev (handle ev s)"

inductive_simps step_iff: "step s ev s'"

text \<open>Sequences of steps of any system.\<close>

inductive run :: "('s \<Rightarrow> 'e \<Rightarrow> 's \<Rightarrow> bool) \<Rightarrow> 's \<Rightarrow> 'e list \<Rightarrow> 's \<Rightarrow> bool"
  for stp :: "'s \<Rightarrow> 'e \<Rightarrow> 's \<Rightarrow> bool" where
  run_nil: "run stp s [] s"
| run_cons: "\<lbrakk>stp s e t; run stp t es u\<rbrakk> \<Longrightarrow> run stp s (e # es) u"

inductive_cases run_consE: "run stp s (e # es) u"

locale invariant_system =
  fixes stp :: "'s \<Rightarrow> 'e \<Rightarrow> 's \<Rightarrow> bool" and inv :: "'s \<Rightarrow> bool" and allowed :: "'e \<Rightarrow> bool"
  assumes step_inv: "\<lbrakk>stp s e t; allowed e; inv s\<rbrakk> \<Longrightarrow> inv t"
begin

lemma run_inv: "\<lbrakk>run stp s es t; \<forall>e \<in> set es. allowed e; inv s\<rbrakk> \<Longrightarrow> inv t"
  by (induction rule: run.induct) (auto intro: step_inv)

end

section \<open>The invariant of the unit\<close>

text \<open>What flash must hold for the next power-on.\<close>

definition boot_ok :: "sys \<Rightarrow> bool" where
  "boot_ok s \<longleftrightarrow> table_ok (reset_storage (store s)) \<and> heap_ok (store s) \<and>
     (lock_key (store s) = 0 \<or> lock_key (store s) = 1)"

definition unit_ok :: "sys \<Rightarrow> bool" where
  "unit_ok s \<longleftrightarrow> boot_ok s \<and> (\<not> cpu_reset s \<longrightarrow> good s)"

lemma good_boot: "good s \<Longrightarrow> boot_ok s"
  using reset_storage_table_ok [of "store s"]
  by (auto simp: boot_ok_def good_def core_ok_def lock_flag_def lock_key_def)

lemma good_unit: "good s \<Longrightarrow> unit_ok s"
  by (simp add: unit_ok_def good_boot)

lemma reset_storage_twice: "reset_storage (st\<lparr>total_slot := 0, device_list := []\<rparr>) = reset_storage st"
  by (simp add: reset_storage_def)

lemma reset_storage_simps:
  "ef_env (reset_storage st) = ef_env st" "heap_ok (reset_storage st) = heap_ok st"
  by (simp_all add: reset_storage_def read_device_from_flash_def fold_load_slot Let_def)

text \<open>The state in which \<open>valve_init\<close> runs.\<close>

lemma before_valve_init:
  fixes s :: sys and w :: u32
  defines "t \<equiv> radio_init w (rtc_thread_start (warning_init (button_init (heart_init (storage_init
     (lamps led_init (ram_reset s)))))))"
  assumes "boot_ok s"
  shows "table_ok (store t)" "radio_ok (radio t)" "heap_ok (store t)"
    "valve t = valve (ram_reset s)" "status t = ValveClose" "NowEvent (warn t) = no_event"
    "lock_key (store t) = lock_key (store s)" "leaky t = aq_device_waterleak_find (reset_storage (store s))"
    "cpu_reset t = False"
proof -
  have st: "store t = aq_device_heart_recv_clear (reset_storage (store s))"
    by (simp add: t_def radio_init_def rtc_thread_start_def warning_init_def heart_init_def
        storage_init_def reset_defs reset_storage_twice)
  show "table_ok (store t)" using assms(2) by (simp add: st boot_ok_def keep)
  show "heap_ok (store t)" using assms(2) by (simp add: st boot_ok_def reset_storage_simps)
  show "lock_key (store t) = lock_key (store s)"
    by (simp add: st) (simp add: lock_key_def reset_storage_simps)
  show "radio_ok (radio t)"
    by (simp add: t_def radio_init_def radio_ok_def radio_recv_start_def radio_encode_queue_init_def)
  show "valve t = valve (ram_reset s)" "status t = ValveClose" "NowEvent (warn t) = no_event"
    "cpu_reset t = False"
    by (simp_all add: t_def radio_init_def rtc_thread_start_def warning_init_def heart_init_def
        storage_init_def reset_defs warning_event_bind_def no_event_def)
  show "leaky t = aq_device_waterleak_find (reset_storage (store s))"
    using waterleak_exists [OF setters_waterleak(6)] by (simp add: leaky_def st aq_device_waterleak_find_def)
qed

lemma power_on_alarm_ok: "boot_ok s \<Longrightarrow> alarm_ok (power_on w s)"
proof -
  assume b: "boot_ok s"
  let ?t = "radio_init w (rtc_thread_start (warning_init (button_init (heart_init (storage_init
     (lamps led_init (ram_reset s)))))))"
  note t = before_valve_init [OF b, of w]
  let ?l = "ucast (flash_get_key ''valve_lock'' (ef_env (store ?t))) :: byte"
  let ?s1 = "?t\<lparr>valve := (valve ?t)\<lparr>lock_status := ?l\<rparr>\<rparr>"
  have lock: "flash_get_key ''valve_lock'' (ef_env (store ?t)) = 0 \<or>
      flash_get_key ''valve_lock'' (ef_env (store ?t)) = 1"
    using b t(7) by (simp add: boot_ok_def lock_key_def)
  have g: "good ?s1"
    using t lock by (auto simp: good_def core_ok_def lock_flag_def reset_defs no_event_def)
  define s3 where "s3 = (rt_pin_write MOTO_RIGHT_CONTROL_PIN PIN_HIGH (rt_pin_write MOTO_LEFT_CONTROL_PIN PIN_HIGH ?s1))
      \<lparr>timer := valve_timers_create (timer ?t)\<rparr>"
  have v: "valve_init ?t = (if aq_device_waterleak_find (store s3)
      then warning_enable SlaverSensorLeakEvent s3 else s3)"
    by (simp add: valve_init_def s3_def Let_def)
  have g3: "good s3" using g by (simp add: s3_def)
  have "alarm_ok (valve_init ?t)"
    unfolding v using g3 alarm_leak_event [OF g3] dry_alarm [OF g3] by (simp add: leaky_find)
  then show ?thesis
    by (simp add: power_on_def main_def mb_slave_start_def dry_contact_init_def Let_def)
qed

lemma power_on_running [simp]: "boot_ok s \<Longrightarrow> cpu_reset (power_on w s) = False"
  using before_valve_init(9) [of s w]
  by (simp add: power_on_def main_def mb_slave_start_def dry_contact_init_def valve_init_def Let_def)

lemma fold_load_nothing: "total_slot st = 0 \<Longrightarrow> fold load_slot is st = st"
proof -
  have "\<not> slot_used 0 i" for i by (simp add: slot_used_def)
  then show "total_slot st = 0 \<Longrightarrow> fold load_slot is st = st"
    by (induction "is") (simp_all add: load_slot_def)
qed

lemma empty_store_key: "flash_get_key k Map.empty = 0"
  by (simp add: flash_get_key_def ef_get_env_blob_def decode_number_def)

lemma default_store_key: "k \<noteq> ''boot_times'' \<Longrightarrow> flash_get_key k ef_env_set_default = 0"
  by (simp add: flash_get_key_def ef_get_env_blob_def ef_env_set_default_def decode_number_def)

text \<open>From a store without a slot bitmap nothing is loaded.\<close>

lemma loads_nothing:
  "flash_get_key ''slot'' (ef_env st) = 0 \<Longrightarrow>
   reset_storage st = st\<lparr>total_slot := 0, device_list := []\<rparr>"
  by (simp add: reset_storage_def read_device_from_flash_def Let_def fold_load_nothing)

lemma empty_boot:
  assumes "flash_get_key ''slot'' (ef_env (store s)) = 0" "lock_key (store s) = 0" "heap_ok (store s)"
  shows "boot_ok s"
proof -
  have "\<not> slot_used 0 i" for i by (simp add: slot_used_def)
  then show ?thesis
    using assms by (simp add: boot_ok_def loads_nothing table_ok_def slots_ok_def saved_def)
qed

lemma factory_default_boot: "boot_ok s \<Longrightarrow> boot_ok (on_store (\<lambda>st. st\<lparr>ef_env := ef_env_set_default\<rparr>) s)"
  by (rule empty_boot) (simp_all add: lock_key_def default_store_key boot_ok_def)

section \<open>Every step keeps the invariants\<close>

lemma reset_handle:
  assumes "good s"
  shows "boot_ok (key_on_off_long_click_handle s)"
    "\<not> cpu_reset (key_on_off_long_click_handle s) \<Longrightarrow> key_on_off_long_click_handle s = s"
proof -
  let ?s1 = "gateway_sync_device_reset (s\<lparr>keys := (keys s)\<lparr>key_on_off_flag := True\<rparr>\<rparr>)"
  have "good ?s1" using assms by (intro gw_sync_device_reset.good_op) simp
  then have b: "boot_ok (on_store (\<lambda>st. st\<lparr>ef_env := ef_env_set_default\<rparr>) ?s1)"
    by (intro factory_default_boot good_boot)
  then have "boot_ok ((lamps led_factory_start (on_store (\<lambda>st. st\<lparr>ef_env := ef_env_set_default\<rparr>) ?s1))
      \<lparr>cpu_reset := True\<rparr>)"
    by (simp add: boot_ok_def)
  then show "boot_ok (key_on_off_long_click_handle s)"
    using good_boot [OF assms] by (simp add: key_on_off_long_click_handle_def Let_def)
  show "\<not> cpu_reset (key_on_off_long_click_handle s) \<Longrightarrow> key_on_off_long_click_handle s = s"
    by (auto simp: key_on_off_long_click_handle_def Let_def)
qed

lemma boot_ok_keys [simp]: "boot_ok (s\<lparr>keys := k\<rparr>) = boot_ok s"
  by (simp add: boot_ok_def)

lemma hold_handles:
  assumes "good s"
  shows "boot_ok (key_on_long_hold_handle s)" "boot_ok (key_off_long_hold_handle s)"
    "\<not> cpu_reset (key_on_long_hold_handle s) \<Longrightarrow> good (key_on_long_hold_handle s)"
    "\<not> cpu_reset (key_off_long_hold_handle s) \<Longrightarrow> good (key_off_long_hold_handle s)"
    "\<lbrakk>\<not> cpu_reset (key_on_long_hold_handle s); alarm_ok s\<rbrakk> \<Longrightarrow> alarm_ok (key_on_long_hold_handle s)"
    "\<lbrakk>\<not> cpu_reset (key_off_long_hold_handle s); alarm_ok s\<rbrakk> \<Longrightarrow> alarm_ok (key_off_long_hold_handle s)"
  using assms reset_handle [OF assms] good_boot
  by (auto simp: key_on_long_hold_handle_def key_off_long_hold_handle_def intro!: keep alarm good_boot)

text \<open>
  The button thread calls the handlers one after the other, as long as no reset is under way; whatever
  each handler keeps while the unit runs, the whole turn keeps.
\<close>

locale key_handlers =
  fixes inv :: "sys \<Rightarrow> bool"
  assumes keys: "inv (s\<lparr>keys := k\<rparr>) = inv s"
    and on: "\<lbrakk>inv s; \<not> cpu_reset s\<rbrakk> \<Longrightarrow> inv (key_on_callback e s)"
    and off: "\<lbrakk>inv s; \<not> cpu_reset s\<rbrakk> \<Longrightarrow> inv (key_off_callback e s)"
begin

lemma run_events:
  "\<lbrakk>\<And>e s. \<lbrakk>inv s; \<not> cpu_reset s\<rbrakk> \<Longrightarrow> inv (f e s); inv s\<rbrakk> \<Longrightarrow> inv (run_events f es s)"
  unfolding run_events_def by (rule fold_keep) auto

lemma process: "inv s \<Longrightarrow> inv (agile_btn_process now s)"
  using run_events [of key_on_callback] run_events [of key_off_callback]
  by (auto simp: agile_btn_process_def key_on_scan_def key_off_scan_def Let_def keys on off
      split: option.split prod.split)

end

lemma good_heart [keep]:
  "good s \<Longrightarrow> good (heart_connect_timer_callback s)" "good s \<Longrightarrow> good (snd (heart_thread_entry v s))"
  by (auto simp: heart_connect_timer_callback_def heart_thread_entry_def heart_goto_def Let_def
      intro!: keep split: heart_pc.split)

lemma detect_once_keep [keep, alarm]:
  "good s \<Longrightarrow> good (valve_detect_once_timer_callback s)"
  "alarm_ok s \<Longrightarrow> alarm_ok (valve_detect_once_timer_callback s)"
  by (auto simp: valve_detect_once_timer_callback_def intro!: keep alarm)

lemma good_timer_callback: "good s \<Longrightarrow> good (timer_callback t s)"
  using good_parts(2)
  by (auto simp: timer_callback_def radio_ok_def csma_pause_timer_callback_def
      intro!: keep good_check_callbacks good_on_radio split: timer_id.split)

lemma alarm_timer_callback:
  "\<lbrakk>alarm_ok s; t \<noteq> radio_learn_timer\<rbrakk> \<Longrightarrow> alarm_ok (timer_callback t s)"
  using good_parts(2) [OF alarm_good]
  by (auto simp: timer_callback_def radio_ok_def csma_pause_timer_callback_def
      intro!: alarm split: timer_id.split)

lemma unit_ok_keys: "unit_ok (s\<lparr>keys := k\<rparr>) = unit_ok s"
  by (simp add: unit_ok_def)

lemma unit_ok_callbacks:
  assumes "unit_ok s" "\<not> cpu_reset s"
  shows "unit_ok (key_on_callback e s)" "unit_ok (key_off_callback e s)"
proof -
  have g: "good s" using assms by (simp add: unit_ok_def)
  show "unit_ok (key_on_callback e s)" "unit_ok (key_off_callback e s)"
    using assms g hold_handles [OF g] by (cases e; auto simp: unit_ok_def intro!: keep good_boot)+
qed

interpretation unit_keys: key_handlers unit_ok
  by unfold_locales (simp_all add: unit_ok_keys unit_ok_callbacks)

lemma handle_unit_ok:
  assumes "enabled ev s" "unit_ok s"
  shows "unit_ok (handle ev s)"
proof (cases "\<exists>w. ev = PowerOn w")
  case True
  then show ?thesis
    using assms alarm_good [OF power_on_alarm_ok] by (auto simp: handle_def unit_ok_def intro: good_boot)
next
  case False
  then have "good s" using assms by (cases ev) (auto simp: enabled_def unit_ok_def)
  then show ?thesis
    using False unit_keys.process [OF assms(2)]
    by (cases ev) (auto simp: handle_def unit_ok_def good_timer_callback
        intro!: good_unit keep good_on_radio good_boot good_parts)
qed

text \<open>As long as the learn timer does not run out, the leak promise holds too.\<close>

definition leak_safe :: "sys \<Rightarrow> bool" where
  "leak_safe s \<longleftrightarrow> boot_ok s \<and> (\<not> cpu_reset s \<longrightarrow> alarm_ok s)"

lemma leak_safe_keys: "leak_safe (s\<lparr>keys := k\<rparr>) = leak_safe s"
  by (simp add: leak_safe_def)

lemma leak_safe_callbacks:
  assumes "leak_safe s" "\<not> cpu_reset s"
  shows "leak_safe (key_on_callback e s)" "leak_safe (key_off_callback e s)"
proof -
  have a: "alarm_ok s" using assms by (simp add: leak_safe_def)
  note g = alarm_good [OF a]
  have u: "unit_ok s" using g by (rule good_unit)
  show "leak_safe (key_on_callback e s)" "leak_safe (key_off_callback e s)"
    using assms a hold_handles [OF g] unit_ok_callbacks [OF u assms(2), of e]
    by (cases e; auto simp: leak_safe_def unit_ok_def intro!: alarm)+
qed

interpretation leak_keys: key_handlers leak_safe
  by unfold_locales (simp_all add: leak_safe_keys leak_safe_callbacks)

lemma handle_leak_safe:
  assumes "enabled ev s" "ev \<noteq> Expire radio_learn_timer" "leak_safe s"
  shows "leak_safe (handle ev s)"
proof (cases "\<exists>w. ev = PowerOn w")
  case True
  then show ?thesis
    using assms power_on_alarm_ok
    by (auto simp: handle_def leak_safe_def intro!: good_boot [OF alarm_good])
next
  case False
  then have a: "alarm_ok s" using assms by (cases ev) (auto simp: enabled_def leak_safe_def)
  note g = alarm_good [OF a]
  have "unit_ok (handle ev s)" using handle_unit_ok assms(1) good_unit [OF g] by blast
  moreover have "\<not> cpu_reset (handle ev s) \<Longrightarrow> alarm_ok (handle ev s)"
    using False a g assms(2) leak_keys.process [OF assms(3)] good_parts(2) [OF g]
    by (cases ev) (auto simp: handle_def leak_safe_def alarm_timer_callback intro!: alarm keep)
  ultimately show ?thesis by (simp add: leak_safe_def unit_ok_def)
qed

interpretation unit: invariant_system step unit_ok "\<lambda>_. True"
  by unfold_locales (auto simp: step_iff handle_unit_ok)

interpretation leak: invariant_system step leak_safe "\<lambda>e. e \<noteq> Expire radio_learn_timer"
  by unfold_locales (auto simp: step_iff handle_leak_safe)

section \<open>Reachable states\<close>

lemma new_unit_boot: "boot_ok new_unit"
  by (rule empty_boot) (simp_all add: lock_key_def empty_store_key)

lemma power_on_unit_ok: "boot_ok s \<Longrightarrow> unit_ok (power_on w s)"
  by (intro good_unit alarm_good power_on_alarm_ok)

lemma power_on_leak_safe: "boot_ok s \<Longrightarrow> leak_safe (power_on w s)"
  using power_on_alarm_ok [of s w] good_boot [OF alarm_good] by (simp add: leak_safe_def)

lemma reach_unit_ok: "run step (power_on w new_unit) es t \<Longrightarrow> unit_ok t"
  using unit.run_inv power_on_unit_ok [OF new_unit_boot] by blast

lemma reach_good: "\<lbrakk>run step (power_on w new_unit) es t; \<not> cpu_reset t\<rbrakk> \<Longrightarrow> good t"
  using reach_unit_ok by (auto simp: unit_ok_def)

lemma reach_alarm_ok:
  "\<lbrakk>run step (power_on w new_unit) es t; \<forall>e \<in> set es. e \<noteq> Expire radio_learn_timer; \<not> cpu_reset t\<rbrakk>
   \<Longrightarrow> alarm_ok t"
  using leak.run_inv power_on_leak_safe [OF new_unit_boot] by (auto simp: leak_safe_def)

lemma run_one: "enabled e s \<Longrightarrow> run step s [e] (handle e s)"
  by (rule run_cons [where t = "handle e s"]) (auto intro: step.intros run.intros)

end
