(* ===== verification/Guarantees.thy ===== *)
theory Guarantees
  imports System
begin

text \<open>
  What the unit as a whole promises: frames followed from the antenna to the table, the alarm and the
  valve, and statements about every state that a sequence of events can reach after power-on.
\<close>

section \<open>From the antenna to the valve\<close>

lemma good_recv_start: "good s \<Longrightarrow> good (on_radio radio_recv_start s)"
  using good_parts(2) by (intro good_on_radio radio_recv_start_ok)

lemma receive_endunit:
  assumes "frame_accept rssi g data n = Some rx" "rx_device_type rx = DEVICE_TYPE_ENDUNIT"
  shows "OnRxDone data n rssi g s = radio_frame_endunit_parse rx (on_radio radio_recv_start s)"
  using assms by (simp add: OnRxDone_def radio_protocol_parse_def radio_dispatch_def device_type_defs)

lemma mark_makes_leaky:
  assumes "aq_device_find did (store s) = Some d" "level \<noteq> 0"
  shows "leaky (on_store (aq_device_waterleak_set did level) s)"
proof -
  have "d \<in> set (device_list (store s))" "device_id d = did"
    using assms(1) by (auto simp: aq_device_find_def find_Some_iff)
  then show ?thesis
    using assms(2) unfolding leaky_def
    by (intro bexI [of _ "d\<lparr>waterleak := level\<rparr>"]) (force simp: setter_defs waterleak_field.set_list)+
qed

lemma leaky_offline_check [simp]: "leaky (warning_offline_check s) = leaky s"
  by (rule leaky_cong) (simp add: warning_offline_check_def)

lemma leaky_heart_recv [simp]:
  "leaky (on_store (\<lambda>st. snd (aq_device_heart_recv src rl st)) s) = leaky s"
  using waterleak_exists [OF heart_waterleak [of src rl "store s"]] by (simp add: leaky_def)

lemma leak_frame:
  assumes g: "good s" and acc: "frame_accept rssi g0 data n = Some rx"
    and ty: "rx_device_type rx = DEVICE_TYPE_ENDUNIT" and dest: "rx_dest_addr rx = local_addr s"
    and known: "aq_device_find (rx_source_addr rx) (store s) = Some d"
    and cmd: "rx_data rx 0 = WARNING_UPLOAD_CMD" "rx_data rx 2 = 0" "rx_data rx 3 \<noteq> 0"
  shows "alarm_ok (OnRxDone data n rssi g0 s) \<and> leaky (OnRxDone data n rssi g0 s)"
proof -
  define s0 where "s0 = on_radio radio_recv_start s"
  define s1 where "s1 = on_radio (radio_endunit_command_send
      (reply rx WARNING_UPLOAD_CMD [rx_data rx 2, rx_data rx 3] s0)) s0"
  define s2 where "s2 = on_store (aq_device_waterleak_set (device_id d) (rx_data rx 3)) s1"
  define s3 where "s3 = endunit_warn_leak (rx_data rx 3) (device_id d) s1"
  have did: "device_id d = rx_source_addr rx" using known by (auto simp: aq_device_find_def find_Some_iff)
  have g0: "good s0" unfolding s0_def using g by (rule good_recv_start)
  have g1: "good s1" unfolding s1_def using g0 good_parts(2) [OF g0] by (intro good_on_radio keep)
  have g2: "good s2"
    unfolding s2_def using g1 good_parts(1) [OF g1] by (intro good_on_store) (simp_all add: keep)
  have st: "store s1 = store s" by (simp add: s1_def s0_def)
  have l2: "leaky s2" unfolding s2_def using known cmd(3) did st by (intro mark_makes_leaky) auto
  have s3: "s3 = gateway_warning_slaver_leak (device_id d) (rx_data rx 3)
      (dev_field rssi_level (device_id d) (warning_enable SlaverSensorLeakEvent s2))
      (warning_enable SlaverSensorLeakEvent s2)"
    using cmd(3) by (simp add: s3_def endunit_warn_leak_def s2_def Let_def)
  have a3: "alarm_ok s3"
    unfolding s3 using alarm_leak_event [OF g2] by (rule gw_warning_slaver_leak.alarm_op)
  have "leaky s3" unfolding s3 using l2 by (subst leaky_cong) auto
  moreover have "OnRxDone data n rssi g0 s = warning_offline_check
      (on_store (\<lambda>st. snd (aq_device_heart_recv (rx_source_addr rx) (rx_rssi_level rx) st)) s3)"
  proof -
    have "aq_device_find (rx_source_addr rx) (store s0) = Some d" "rx_dest_addr rx = local_addr s0"
      using known dest by (simp_all add: s0_def local_addr_def radio_recv_start_def)
    moreover have "radio_frame_endunit_parse_warn rx (device_id d) s0 = s3"
      by (simp add: radio_frame_endunit_parse_warn_def Let_def cmd s3_def s1_def)
    ultimately show ?thesis
      unfolding receive_endunit [OF acc ty] s0_def [symmetric]
      by (simp add: radio_frame_endunit_parse_def Let_def cmd(1) command_consts)
  qed
  ultimately show ?thesis using a3 by (auto intro!: alarm)
qed

lemma learn_frame:
  assumes g: "good s" and acc: "frame_accept rssi g0 data n = Some rx"
    and ty: "rx_device_type rx = DEVICE_TYPE_ENDUNIT"
    and dest: "rx_dest_addr rx = local_addr s" "local_addr s \<noteq> 0xFFFFFFFF"
    and cmd: "rx_data rx 0 = LEARN_DEVICE_CMD" "rx_data rx 2 = 1"
    and new: "aq_device_find (rx_source_addr rx) (store s) = None"
    and room: "length (device_list (store s)) < MAX_SLAVER_DEVICE"
  obtains d where "device_list (store (OnRxDone data n rssi g0 s)) = device_list (store s) @ [d]"
    "device_id d = rx_source_addr rx" "dev_type d = DEVICE_TYPE_ENDUNIT" "online d = 1" "waterleak d = 0"
    "aq_device_find (rx_source_addr rx) (store (OnRxDone data n rssi g0 s)) = Some d"
    "timer (OnRxDone data n rssi g0 s) = rt_timer_start radio_learn_timer (timer s)"
    "warn (OnRxDone data n rssi g0 s) = warn s" "valve (OnRxDone data n rssi g0 s) = valve s"
    "local_addr (OnRxDone data n rssi g0 s) = local_addr s"
proof -
  define s0 where "s0 = on_radio radio_recv_start s"
  define s1 where "s1 = on_radio (radio_endunit_command_send (reply rx LEARN_DEVICE_CMD [rx_data rx 2] s0)) s0"
  have st: "store s1 = store s" by (simp add: s1_def s0_def)
  have la: "local_addr s0 = local_addr s" "local_addr s1 = local_addr s"
    by (simp_all add: s1_def s0_def local_addr_def radio_recv_start_def radio_endunit_command_send_def)
  obtain i where i: "i < MAX_SLAVER_DEVICE"
      "device_create (rx_rssi_level rx) DEVICE_TYPE_ENDUNIT (rx_source_addr rx) (store s) =
       ((Some (new_device (int i) (rx_rssi_level rx) DEVICE_TYPE_ENDUNIT (rx_source_addr rx)), True),
        with_device i (rx_rssi_level rx) DEVICE_TYPE_ENDUNIT (rx_source_addr rx) (store s))"
    by (rule create_fresh [OF good_parts(1,4) [OF g] new room])
  define d where "d = new_device (int i) (rx_rssi_level rx) DEVICE_TYPE_ENDUNIT (rx_source_addr rx)"
  define st' where "st' = with_device i (rx_rssi_level rx) DEVICE_TYPE_ENDUNIT (rx_source_addr rx) (store s)"
  define s3 where "s3 = gateway_sync_device_add DEVICE_TYPE_ENDUNIT (rx_source_addr rx) (rx_rssi_level rx)
      (radio_refresh_learn_device (lamps beep_once (lamps beep_once (s1\<lparr>store := st'\<rparr>))))"
  have create: "aq_device_create (rx_rssi_level rx) DEVICE_TYPE_ENDUNIT (rx_source_addr rx) s1 =
      (Some d, lamps beep_once (s1\<lparr>store := st'\<rparr>))"
    by (simp add: aq_device_create_def st i(2) d_def st'_def Let_def)
  have "radio_frame_endunit_parse_learn rx s0 = s3"
    unfolding radio_frame_endunit_parse_learn_def Let_def s1_def [symmetric] create
    using dest cmd(2) la by (simp add: s3_def)
  moreover have "aq_device_find (rx_source_addr rx) (store s0) = None" using new by (simp add: s0_def)
  ultimately have run: "OnRxDone data n rssi g0 s = s3"
    unfolding receive_endunit [OF acc ty] s0_def [symmetric]
    by (simp add: radio_frame_endunit_parse_def Let_def cmd(1))
  have s3: "store s3 = st'" "warn s3 = warn s" "valve s3 = valve s"
    "timer s3 = rt_timer_start radio_learn_timer (timer s)" "local_addr s3 = local_addr s"
    using la by (simp_all add: s3_def radio_refresh_learn_device_def s1_def s0_def local_addr_def)
  have l: "device_list st' = device_list (store s) @ [d]" by (simp add: st'_def d_def with_device_def Let_def)
  have f: "aq_device_find (rx_source_addr rx) st' = Some d"
  proof -
    have "table_ok st'"
      using device_create_table_ok [OF good_parts(1,4) [OF g], of "rx_rssi_level rx" DEVICE_TYPE_ENDUNIT "rx_source_addr rx"] i(2)
      by (simp add: st'_def)
    then show ?thesis
      using aq_device_find_member [of st' "rx_source_addr rx" d]
      by (simp add: table_ok_def slots_ok_def l d_def new_device_def)
  qed
  show thesis
    by (rule that [of d]) (simp_all add: run s3 l f, simp_all add: d_def new_device_def)
qed

section \<open>A sensor in use\<close>

text \<open>The bytes of a water sensor's frame, and two of them: learning and a leak.\<close>

definition sensor_head :: "u32 \<Rightarrow> u32 \<Rightarrow> byte list \<Rightarrow> byte list" where
  "sensor_head src dst p = [0xEF, 0x31, 0x81] @ split32 dst @ split32 src @ p"

definition sensor_frame :: "u32 \<Rightarrow> u32 \<Rightarrow> byte list \<Rightarrow> mem" where
  "sensor_frame src dst p i =
     (let h = sensor_head src dst p in if i < length h then h ! i else crc8 h)"

lemma sensor_frame_accept:
  assumes "2 \<le> length p"
  obtains rx where "frame_accept (-60) 0 (sensor_frame src dst p) (length p + 12) = Some rx"
    "rx_device_type rx = DEVICE_TYPE_ENDUNIT" "rx_dest_addr rx = dst" "rx_source_addr rx = src"
    "\<And>i. i < length p \<Longrightarrow> rx_data rx i = p ! i"
proof -
  let ?d = "sensor_frame src dst p" and ?h = "sensor_head src dst p"
  have len: "length ?h = length p + 11" by (simp add: sensor_head_def)
  have at: "?d i = ?h ! i" if "i < length p + 11" for i using that by (simp add: sensor_frame_def len Let_def)
  have pos: "?d 0 = 0xEF" "?d 1 = 0x31" "?d 2 = 0x81"
    "?d 3 = split32 dst ! 0" "?d 4 = split32 dst ! 1" "?d 5 = split32 dst ! 2" "?d 6 = split32 dst ! 3"
    "?d 7 = split32 src ! 0" "?d 8 = split32 src ! 1" "?d 9 = split32 src ! 2" "?d 10 = split32 src ! 3"
    by (simp_all add: at) (simp_all add: sensor_head_def split32_def)
  have data: "?d (11 + i) = p ! i" if "i < length p" for i
    using that by (simp add: at) (simp add: sensor_head_def nth_append)
  have "map ?d [0..<length p + 11] = ?h" by (rule nth_equalityI) (simp_all add: len at)
  then have crc: "?d (length p + 11) = get_check_crc ?d (length p + 11)"
    by (simp add: get_check_crc_def sensor_frame_def len Let_def)
  have head: "?d 0 = FRAME_START" "drop_bit 4 (?d (Suc 0)) = NET_REGION_SELECT" "\<not> 0x0F < NETWORK_VERSION"
    "?d 2 = 0x81"
    "be32 (?d 3) (?d 4) (?d 5) (?d 6) = dst" "be32 (?d 7) (?d 8) (?d 9) (?d 10) = src"
    using pos(1-3) unfolding pos(4-11) be32_split32 by (simp_all add: frame_consts)
  show thesis
  proof (rule that)
    show "frame_accept (-60) 0 ?d (length p + 12) = Some
        \<lparr>rx_rssi = -60, rx_snr = 0, rx_rssi_level = rssi_level_of (-60), rx_msg_type = 0x81 AND 0x07,
         calc_crc = get_check_crc ?d (length p + 11), src_crc = get_check_crc ?d (length p + 11),
         rx_device_type = drop_bit 3 (0x81 AND 0x78), rx_dest_addr = dst, rx_source_addr = src,
         rx_data = (\<lambda>i. ?d (11 + i)), rx_len = length p + 1\<rparr>"
      using assms crc head
      by (simp add: frame_accept_def be32_split32 [unfolded One_nat_def] add.commute Let_def)
  qed (simp_all add: device_type_defs data)
qed

text \<open>A fresh unit that was switched on; it learns a sensor; the sensor reports water.\<close>

definition booted :: sys where "booted = power_on 0 new_unit"

definition learn_event :: event where
  "learn_event = Receive (sensor_frame 0x12345678 10000000 [0x02, 0x01, 0x01]) 15 (-60) 0"

definition leak_event :: event where
  "leak_event = Receive (sensor_frame 0x12345678 10000000 [0x04, 0x02, 0x00, 0x01]) 16 (-60) 0"

definition learned :: sys where "learned = handle learn_event booted"

definition flooded :: sys where "flooded = handle leak_event learned"

lemma booted_ok: "alarm_ok booted" "good booted" "cpu_reset booted = False"
  unfolding booted_def
  using power_on_alarm_ok [OF new_unit_boot, of 0] power_on_running [OF new_unit_boot, of 0]
  by (simp_all add: alarm_good)

lemma new_unit_loads: "reset_storage (store new_unit) = store new_unit"
  by (subst loads_nothing) (simp_all add: empty_store_key new_unit_def)

lemma booted_simps:
  "device_list (store booted) = []" "local_addr booted = 10000000" "status booted = ValveClose"
  "lock_status (valve booted) = 0"
proof -
  have st: "store (radio_init w (rtc_thread_start (warning_init (button_init (heart_init (storage_init
     (lamps led_init (ram_reset new_unit)))))))) = store new_unit" for w
    using new_unit_loads reset_storage_twice [of "store new_unit"]
    by (simp add: radio_init_def rtc_thread_start_def warning_init_def heart_init_def
        storage_init_def reset_defs aq_device_heart_recv_clear_def for_each_device_def)
  show "device_list (store booted) = []" "local_addr booted = 10000000" "status booted = ValveClose"
    "lock_status (valve booted) = 0"
    by (simp_all add: booted_def power_on_def main_def mb_slave_start_def valve_init_def st aq_device_waterleak_find_def
        dry_contact_init_def local_addr_def Let_def empty_store_key)
      (simp_all add: radio_init_def rtc_thread_start_def warning_init_def heart_init_def
        storage_init_def reset_defs radio_recv_start_def radio_encode_queue_init_def)
qed

lemma learn_event_accept:
  obtains rx where "frame_accept (-60) 0 (sensor_frame 0x12345678 10000000 [0x02, 0x01, 0x01]) 15 = Some rx"
    "rx_device_type rx = DEVICE_TYPE_ENDUNIT" "rx_dest_addr rx = 10000000" "rx_source_addr rx = 0x12345678"
    "rx_data rx 0 = LEARN_DEVICE_CMD" "rx_data rx 2 = 1"
proof -
  obtain rx where rx: "frame_accept (-60) 0 (sensor_frame 0x12345678 10000000 [0x02, 0x01, 0x01])
        (length [0x02 :: byte, 0x01, 0x01] + 12) = Some rx"
      "rx_device_type rx = DEVICE_TYPE_ENDUNIT" "rx_dest_addr rx = 10000000" "rx_source_addr rx = 0x12345678"
      "\<And>i. i < length [0x02 :: byte, 0x01, 0x01] \<Longrightarrow> rx_data rx i = [0x02, 0x01, 0x01] ! i"
    by (rule sensor_frame_accept [where p = "[0x02, 0x01, 0x01]" and src = "0x12345678" and dst = "10000000"]) auto
  show thesis
    by (rule that [of rx]) (use rx(1-4) rx(5) [of 0] rx(5) [of 2] in \<open>simp_all add: command_consts\<close>)
qed

lemma leak_event_accept:
  obtains rx where "frame_accept (-60) 0 (sensor_frame 0x12345678 10000000 [0x04, 0x02, 0x00, 0x01]) 16 = Some rx"
    "rx_device_type rx = DEVICE_TYPE_ENDUNIT" "rx_dest_addr rx = 10000000" "rx_source_addr rx = 0x12345678"
    "rx_data rx 0 = WARNING_UPLOAD_CMD" "rx_data rx 2 = 0" "rx_data rx 3 = 1"
proof -
  obtain rx where rx: "frame_accept (-60) 0 (sensor_frame 0x12345678 10000000 [0x04, 0x02, 0x00, 0x01])
        (length [0x04 :: byte, 0x02, 0x00, 0x01] + 12) = Some rx"
      "rx_device_type rx = DEVICE_TYPE_ENDUNIT" "rx_dest_addr rx = 10000000" "rx_source_addr rx = 0x12345678"
      "\<And>i. i < length [0x04 :: byte, 0x02, 0x00, 0x01] \<Longrightarrow> rx_data rx i = [0x04, 0x02, 0x00, 0x01] ! i"
    by (rule sensor_frame_accept [where p = "[0x04, 0x02, 0x00, 0x01]" and src = "0x12345678" and dst = "10000000"]) auto
  show thesis
    by (rule that [of rx]) (use rx(1-4) rx(5) [of 0] rx(5) [of 2] rx(5) [of 3] in \<open>simp_all add: command_consts numeral_3_eq_3\<close>)
qed

lemma run_two: "\<lbrakk>enabled e s; enabled f (handle e s)\<rbrakk> \<Longrightarrow> run step s [e, f] (handle f (handle e s))"
  by (rule run_cons [where t = "handle e s"]) (auto intro: step.intros run_one)

lemma learned_simps:
  "good learned" "local_addr learned = 10000000" "cpu_reset learned = False"
  "\<exists>d. device_list (store learned) = [d] \<and> aq_device_find 0x12345678 (store learned) = Some d \<and>
     device_id d = 0x12345678 \<and> waterleak d = 0"
proof -
  obtain rx where rx: "frame_accept (-60) 0 (sensor_frame 0x12345678 10000000 [0x02, 0x01, 0x01]) 15 = Some rx"
    "rx_device_type rx = DEVICE_TYPE_ENDUNIT" "rx_dest_addr rx = 10000000" "rx_source_addr rx = 0x12345678"
    "rx_data rx 0 = LEARN_DEVICE_CMD" "rx_data rx 2 = 1" by (rule learn_event_accept)
  have l: "learned = OnRxDone (sensor_frame 0x12345678 10000000 [0x02, 0x01, 0x01]) 15 (-60) 0 booted"
    by (simp add: learned_def learn_event_def handle_def)
  have dest: "rx_dest_addr rx = local_addr booted" "local_addr booted \<noteq> 0xFFFFFFFF"
    by (simp_all add: rx booted_simps)
  have new: "aq_device_find (rx_source_addr rx) (store booted) = None"
    "length (device_list (store booted)) < MAX_SLAVER_DEVICE"
    by (simp_all add: aq_device_find_def booted_simps MAX_SLAVER_DEVICE_def)
  obtain d where d: "device_list (store learned) = [d]" "device_id d = 0x12345678" "waterleak d = 0"
      "aq_device_find 0x12345678 (store learned) = Some d" "local_addr learned = 10000000"
    by (rule learn_frame [OF booted_ok(2) rx(1,2) dest rx(5,6) new]) (use rx booted_simps l in auto)
  then show "\<exists>d. device_list (store learned) = [d] \<and> aq_device_find 0x12345678 (store learned) = Some d \<and>
     device_id d = 0x12345678 \<and> waterleak d = 0" "local_addr learned = 10000000" by auto
  show "good learned" unfolding l using booted_ok(2) by (intro keep good_parts)
  show "cpu_reset learned = False" unfolding l receive_endunit [OF rx(1,2)]
    using booted_ok(3) new(1) rx(6)
    by (simp add: radio_frame_endunit_parse_def Let_def radio_frame_endunit_parse_learn_def
        aq_device_create_def case_prod_beta radio_refresh_learn_device_def
        split: option.split)
qed

lemma learn_enabled: "enabled learn_event booted" "enabled leak_event learned"
  by (simp_all add: enabled_def learn_event_def leak_event_def booted_ok learned_simps)

lemma flooded_simps: "alarm_ok flooded" "leaky flooded"
proof -
  obtain rx where rx: "frame_accept (-60) 0 (sensor_frame 0x12345678 10000000 [0x04, 0x02, 0x00, 0x01]) 16 = Some rx"
    "rx_device_type rx = DEVICE_TYPE_ENDUNIT" "rx_dest_addr rx = 10000000" "rx_source_addr rx = 0x12345678"
    "rx_data rx 0 = WARNING_UPLOAD_CMD" "rx_data rx 2 = 0" "rx_data rx 3 = 1" by (rule leak_event_accept)
  obtain d where d: "aq_device_find (rx_source_addr rx) (store learned) = Some d"
    using learned_simps(4) rx by auto
  have "flooded = OnRxDone (sensor_frame 0x12345678 10000000 [0x04, 0x02, 0x00, 0x01]) 16 (-60) 0 learned"
    by (simp add: flooded_def leak_event_def handle_def)
  then show "alarm_ok flooded" "leaky flooded"
    using leak_frame [OF learned_simps(1) rx(1,2) _ d rx(5,6)] rx learned_simps(2) by simp_all
qed

lemma flooded_run: "run step (power_on 0 new_unit) [learn_event, leak_event] flooded"
  using run_two [OF learn_enabled(1)] learn_enabled(2)
  unfolding booted_def [symmetric] learned_def flooded_def by simp

section \<open>One frame\<close>

lemma flooded_state:
  assumes "alarm_ok s" "leaky s"
  shows "status s = SlaverSensorLeak" "valve_status (valve s) = VALVE_STATUS_CLOSE" "lock_status (valve s) = 1"
    "flash_get_key ''valve_lock'' (ef_env (store s)) = 1" "priority (NowEvent (warn s)) = 8"
  using assms by (auto simp: alarm_ok_def good_def core_ok_def lock_flag_def)

text \<open>
  C2. A leak report reaches the valve: when a water sensor of the table sends a leak frame to the unit,
  then after its reception the unit is in the leak alarm at the highest priority, the valve is closed and
  locked, the lock is in flash, and the table marks a leak, whatever the state was before.
\<close>

theorem leak_frame_closes_valve:
  assumes "good s" "frame_accept rssi g data n = Some rx" "rx_device_type rx = DEVICE_TYPE_ENDUNIT"
    and "rx_dest_addr rx = local_addr s" "aq_device_find (rx_source_addr rx) (store s) \<noteq> None"
    and "rx_data rx 0 = WARNING_UPLOAD_CMD" "rx_data rx 2 = 0" "rx_data rx 3 \<noteq> 0"
  shows "let s' = OnRxDone data n rssi g s in
    status s' = SlaverSensorLeak \<and> priority (NowEvent (warn s')) = 8 \<and>
    valve_status (valve s') = VALVE_STATUS_CLOSE \<and> lock_status (valve s') = 1 \<and>
    flash_get_key ''valve_lock'' (ef_env (store s')) = 1 \<and> aq_device_waterleak_find (store s')"
proof -
  obtain d where "aq_device_find (rx_source_addr rx) (store s) = Some d" using assms(5) by blast
  note f = leak_frame [OF assms(1-4) this assms(6-8)]
  then show ?thesis using flooded_state f by (auto simp: Let_def leaky_find [symmetric])
qed

lemma leak_frame_closes_valve_witness:
  "status flooded = SlaverSensorLeak \<and> lock_status (valve flooded) = 1"
proof -
  obtain rx where rx: "frame_accept (-60) 0 (sensor_frame 0x12345678 10000000 [0x04, 0x02, 0x00, 0x01]) 16 = Some rx"
    "rx_device_type rx = DEVICE_TYPE_ENDUNIT" "rx_dest_addr rx = 10000000" "rx_source_addr rx = 0x12345678"
    "rx_data rx 0 = WARNING_UPLOAD_CMD" "rx_data rx 2 = 0" "rx_data rx 3 = 1" by (rule leak_event_accept)
  have known: "aq_device_find (rx_source_addr rx) (store learned) \<noteq> None" using learned_simps(4) rx by auto
  have "flooded = OnRxDone (sensor_frame 0x12345678 10000000 [0x04, 0x02, 0x00, 0x01]) 16 (-60) 0 learned"
    by (simp add: flooded_def leak_event_def handle_def)
  then show ?thesis
    using leak_frame_closes_valve [OF learned_simps(1) rx(1,2) _ known rx(5,6)] rx learned_simps(2)
    by (simp add: Let_def)
qed

text \<open>
  C35. Learning over the air: a frame by which an unknown sensor asks the unit itself to be added puts
  it at the end of the table, online and dry, findable under its address, restarts the learn timer,
  and changes neither alarm nor valve. It is accepted in every status, also outside the learn mode.
\<close>

theorem learn_frame_adds_device:
  assumes "good s" "frame_accept rssi g data n = Some rx" "rx_device_type rx = DEVICE_TYPE_ENDUNIT"
    and "rx_dest_addr rx = local_addr s" "local_addr s \<noteq> 0xFFFFFFFF"
    and "rx_data rx 0 = LEARN_DEVICE_CMD" "rx_data rx 2 = 1"
    and "aq_device_find (rx_source_addr rx) (store s) = None" "length (device_list (store s)) < MAX_SLAVER_DEVICE"
  shows "let s' = OnRxDone data n rssi g s in
    \<exists>d. device_list (store s') = device_list (store s) @ [d] \<and>
      aq_device_find (rx_source_addr rx) (store s') = Some d \<and> dev_type d = DEVICE_TYPE_ENDUNIT \<and>
      online d = 1 \<and> waterleak d = 0 \<and> warn s' = warn s \<and> valve s' = valve s \<and>
      timer s' = rt_timer_start radio_learn_timer (timer s) \<and> good s'"
proof -
  obtain d where "device_list (store (OnRxDone data n rssi g s)) = device_list (store s) @ [d]"
    "device_id d = rx_source_addr rx" "dev_type d = DEVICE_TYPE_ENDUNIT" "online d = 1" "waterleak d = 0"
    "aq_device_find (rx_source_addr rx) (store (OnRxDone data n rssi g s)) = Some d"
    "timer (OnRxDone data n rssi g s) = rt_timer_start radio_learn_timer (timer s)"
    "warn (OnRxDone data n rssi g s) = warn s" "valve (OnRxDone data n rssi g s) = valve s"
    by (rule learn_frame [OF assms])
  moreover have "good (OnRxDone data n rssi g s)" using assms(1) by (intro keep good_parts)
  ultimately show ?thesis by (simp add: Let_def)
qed

lemma learn_frame_adds_device_witness:
  "\<exists>d. device_list (store learned) = [d] \<and> dev_type d = DEVICE_TYPE_ENDUNIT \<and> valve learned = valve booted"
proof -
  obtain rx where rx: "frame_accept (-60) 0 (sensor_frame 0x12345678 10000000 [0x02, 0x01, 0x01]) 15 = Some rx"
    "rx_device_type rx = DEVICE_TYPE_ENDUNIT" "rx_dest_addr rx = 10000000" "rx_source_addr rx = 0x12345678"
    "rx_data rx 0 = LEARN_DEVICE_CMD" "rx_data rx 2 = 1" by (rule learn_event_accept)
  have "rx_dest_addr rx = local_addr booted" "local_addr booted \<noteq> 0xFFFFFFFF"
    "aq_device_find (rx_source_addr rx) (store booted) = None"
    "length (device_list (store booted)) < MAX_SLAVER_DEVICE"
    by (simp_all add: rx booted_simps aq_device_find_def MAX_SLAVER_DEVICE_def)
  from learn_frame_adds_device [OF booted_ok(2) rx(1,2) this(1,2) rx(5,6) this(3,4)] show ?thesis
    by (auto simp: Let_def learned_def learn_event_def handle_def booted_simps)
qed

section \<open>Every reachable state\<close>

text \<open>
  C1. The leak promise: in every state reached from power-on by events of any kind and in any order,
  except that the learn timer has not run out, a marked sensor means the leak alarm, with the valve
  closed and locked, in flash too. Neither keys, Modbus, the gateway, other sensors, weaker alarms nor the
  anti-jam check can break it.
\<close>

theorem leak_promise:
  assumes "run step (power_on w new_unit) es t" "\<forall>e \<in> set es. e \<noteq> Expire radio_learn_timer"
    and "\<not> cpu_reset t" "aq_device_waterleak_find (store t)"
  shows "status t = SlaverSensorLeak \<and> priority (NowEvent (warn t)) = 8 \<and>
    valve_status (valve t) = VALVE_STATUS_CLOSE \<and> lock_status (valve t) = 1 \<and>
    flash_get_key ''valve_lock'' (ef_env (store t)) = 1"
  using flooded_state [OF reach_alarm_ok [OF assms(1-3)]] assms(4) by (simp add: leaky_find)

lemma flooded_running: "cpu_reset flooded = False"
proof -
  obtain rx where rx: "frame_accept (-60) 0 (sensor_frame 0x12345678 10000000 [0x04, 0x02, 0x00, 0x01]) 16 = Some rx"
    "rx_device_type rx = DEVICE_TYPE_ENDUNIT" "rx_dest_addr rx = 10000000" "rx_source_addr rx = 0x12345678"
    "rx_data rx 0 = WARNING_UPLOAD_CMD" "rx_data rx 2 = 0" "rx_data rx 3 = 1" by (rule leak_event_accept)
  obtain d where d: "aq_device_find (rx_source_addr rx) (store learned) = Some d"
    using learned_simps(4) rx by auto
  have fl: "flooded = OnRxDone (sensor_frame 0x12345678 10000000 [0x04, 0x02, 0x00, 0x01]) 16 (-60) 0 learned"
    by (simp add: flooded_def leak_event_def handle_def)
  show ?thesis
    unfolding fl receive_endunit [OF rx(1,2)]
    using d rx(5-7) learned_simps(3)
    by (simp add: radio_frame_endunit_parse_def Let_def command_consts
        radio_frame_endunit_parse_warn_def endunit_warn_leak_def warning_offline_check_def)
qed

lemma leak_promise_witness:
  "status flooded = SlaverSensorLeak \<and> aq_device_waterleak_find (store flooded)"
  using leak_promise [OF flooded_run _ _] flooded_simps(2) flooded_running
  by (simp add: leaky_find learn_event_def leak_event_def)

text \<open>
  C3. In every reachable state, whatever has happened (the learn timer included): a locked valve is closed; each
  alarm that closes has the valve closed and each that locks has it locked; the lock in flash is the
  lock in use; the recorded priority is that of the alarm shown.
\<close>

theorem alarms_hold_valve:
  assumes "run step (power_on w new_unit) es t" "\<not> cpu_reset t"
  shows "(lock_status (valve t) = 1 \<longrightarrow> valve_status (valve t) = VALVE_STATUS_CLOSE) \<and>
    (closing_alarm (status t) \<longrightarrow> valve_status (valve t) = VALVE_STATUS_CLOSE) \<and>
    (locking_alarm (status t) \<longrightarrow> lock_status (valve t) = 1) \<and>
    flash_get_key ''valve_lock'' (ef_env (store t)) = ucast (lock_status (valve t)) \<and>
    (\<forall>p. alarm_priority (status t) = Some p \<longrightarrow> priority (NowEvent (warn t)) = p)"
  using good_parts(3) [OF reach_good [OF assms]] by (simp add: core_ok_def lock_flag_def)

lemma alarms_hold_valve_witness:
  "lock_status (valve flooded) = 1 \<and> valve_status (valve flooded) = VALVE_STATUS_CLOSE"
  using alarms_hold_valve [OF flooded_run] flooded_running flooded_state [OF flooded_simps] by simp





section \<open>Power loss and factory reset\<close>

text \<open>
  C7. The leak alarm of a marked sensor survives a loss of power between two events: if in a reachable state a sensor
  of the table is marked and the power goes, then after the next power-on the unit is in the leak alarm with the valve
  closed and locked and a sensor still marked. Between two events every save a handler has made is complete and
  the store is in order; a loss inside a save is the subject of \<open>Ef_Promise.interrupted_change_restored\<close>, which does not
  cover all of it. An alarm without a mark (of a sensor deleted since, or the leak simulated by the factory test) does
  not come back with the power.
\<close>

theorem leak_survives_power_loss:
  assumes "run step (power_on w new_unit) es t" "\<not> cpu_reset t" "aq_device_waterleak_find (store t)"
  shows "let t' = power_on w' t in
    status t' = SlaverSensorLeak \<and> valve_status (valve t') = VALVE_STATUS_CLOSE \<and>
    lock_status (valve t') = 1 \<and> aq_device_waterleak_find (store t')"
proof -
  have b: "boot_ok t" using reach_unit_ok [OF assms(1)] by (simp add: unit_ok_def)
  have "aq_device_waterleak_find (reset_storage (store t))"
    using reset_storage_answers(1) [OF good_parts(1) [OF reach_good [OF assms(1,2)]]] assms(3) by simp
  then have l: "leaky (radio_init w' (rtc_thread_start (warning_init (button_init (heart_init (storage_init
     (lamps led_init (ram_reset t))))))))"
    using before_valve_init(8) [OF b] by simp
  then have "leaky (power_on w' t)"
    unfolding power_on_def main_def mb_slave_start_def dry_contact_init_def valve_init_def Let_def
    by (simp add: leaky_def)
  then show ?thesis
    using flooded_state [OF power_on_alarm_ok [OF b]] by (auto simp: Let_def leaky_find)
qed

lemma leak_survives_power_loss_witness: "status (power_on 77 flooded) = SlaverSensorLeak"
  using leak_survives_power_loss [OF flooded_run, of 77] flooded_running flooded_simps(2)
  by (simp add: Let_def leaky_find)



end
