(* ===== verification/Background.thy ===== *)
theory Background
  imports Guarantees
begin

text \<open>
  What goes on beside the valve and the alarms in every reachable state: the lamps, whose counters stay in their fields,
  and the heartbeat, whose period no other event disturbs. Both rest on one contract: everything the unit does
  changes the lamps only through the functions of \<open>led.c\<close>, and the variables of \<open>heart.c\<close> only in its
  thread and in the connection to the gateway.
\<close>

section \<open>What leaves the heartbeat's times alone\<close>

text \<open>Only the thread of the heartbeat and the connection to the gateway touch the variables of \<open>heart.c\<close>.\<close>

lemma heart_report [simp]: "heart (gateway_report a ty dst cmd bytes s) = heart s"
  by (simp add: gateway_report_def radio_gateway_command_send_def)

lemma heart_services [simp]:
  "heart (on_store f s) = heart s" "heart (on_radio g s) = heart s" "heart (on_mb m s) = heart s"
  "heart (on_ota p s) = heart s" "heart (set_output i l s) = heart s"
  "heart (snd (aq_device_create rl ty did s)) = heart s" "heart (aq_doorunit_delete s) = heart s"
  "heart (aq_device_heart_check s) = heart s" "heart (gateway_heart_check s) = heart s"
  "heart (radio_refresh_learn_device s) = heart s"
proof -
  show o: "heart (on_store f s) = heart s" for f s by (simp add: on_store_def)
  show "heart (on_radio g s) = heart s" "heart (on_mb m s) = heart s" "heart (on_ota p s) = heart s"
    "heart (set_output i l s) = heart s"
    by (simp_all add: on_radio_def on_mb_def on_ota_def set_output_def)
  show "heart (snd (aq_device_create rl ty did s)) = heart s"
    by (simp add: aq_device_create_def Let_def case_prod_beta)
  show "heart (aq_doorunit_delete s) = heart s"
    unfolding aq_doorunit_delete_def by (rule fold_same) (simp add: o)
  show "heart (aq_device_heart_check s) = heart s" by (simp add: aq_device_heart_check_def Let_def o)
  show "heart (gateway_heart_check s) = heart s" by (simp add: gateway_heart_check_def Let_def)
  show "heart (radio_refresh_learn_device s) = heart s" by (simp add: radio_refresh_learn_device_def)
qed

lemma heart_valve [simp]:
  "heart (valve_check_start s) = heart s" "heart (valve_delay_control v s) = heart s"
  "heart (close_and_report s) = heart s" "heart (open_and_report s) = heart s"
  "heart (valve_dry_contact_control l s) = heart s" "heart (valvefail_warning_disable s) = heart s"
  "heart (warning_offline_check s) = heart s"
  by (simp_all add: valve_check_start_def valve_left_check_start_def valve_right_check_start_def
      valve_delay_control_def close_and_report_def open_and_report_def valve_dry_contact_control_def
      valvefail_warning_disable_def warning_offline_check_def case_prod_beta Let_def)

lemma heart_create: "aq_device_create rl ty did s = (r, s') \<Longrightarrow> heart s' = heart s"
  using heart_services(6) [of rl ty did s] by simp

lemma heart_warn [simp]:
  "heart (endunit_warn_leak l did s) = heart s" "heart (endunit_warn_lost l did s) = heart s"
  "heart (lora_ota_begin n s) = heart s" "heart (lora_ota_receive buf off k s) = heart s"
  "heart (lora_ota_end s) = heart s"
  by (simp_all add: endunit_warn_leak_def endunit_warn_lost_def lora_ota_begin_def lora_ota_receive_def
      lora_ota_end_def Let_def case_prod_beta split: option.split)

lemma heart_dry [simp]:
  "heart (dry_contact_tech_alarm_set l s) = heart s" "heart (dry_contact_leak_alarm_set l s) = heart s"
  "heart (dry_contact_valve_status_set l s) = heart s" "heart (dry_contact_input s) = heart s"
  by (simp_all add: dry_contact_tech_alarm_set_def dry_contact_leak_alarm_set_def dry_contact_valve_status_set_def
      dry_contact_input_def Let_def)

section \<open>What the lamps are told\<close>

lemmas gateway_report_defs =
  gateway_warning_master_leak_def gateway_warning_master_lost_def gateway_warning_master_valve_check_def
  gateway_warning_master_low_temp_def gateway_warning_endunit_heart_def gateway_warning_slaver_leak_def
  gateway_warning_slaver_lost_def gateway_control_master_control_def gateway_control_slaver_control_def
  gateway_control_door_control_def gateway_control_door_delay_def gateway_control_motion_sensor_control_def
  gateway_learn_broacast_confirm_def gateway_learn_add_upload_def gateway_heart_upload_poweron_def
  gateway_heart_upload_master_def gateway_heart_doorunit_upload_def gateway_heart_motion_sensor_upload_def
  gateway_sync_device_add_def gateway_sync_device_del_def gateway_sync_device_reset_def
  gateway_ota_resp_start_def gateway_ota_ack_transfer_def gateway_ota_resp_end_def

text \<open>
  A predicate of the lamps and of the variables of the heartbeat that every call of a function of \<open>led.c\<close> keeps and that
  does not look at the counter of the calls to the gateway is kept by every handler but the heartbeat's thread.
\<close>

locale lamps_heart =
  fixes inv :: "led_bank \<Rightarrow> heart_st \<Rightarrow> bool"
  assumes lamp_call: "\<lbrakk>inv b h; led_call f\<rbrakk> \<Longrightarrow> inv (f b) h"
    and retry: "inv b (h\<lparr>gateway_heart_retry := k\<rparr>) = inv b h"
begin

lemma call: "\<lbrakk>led_call f; inv b h\<rbrakk> \<Longrightarrow> inv (f b) h"
  by (rule lamp_call)

lemmas calls = led_call.intros [THEN call]

lemma send: "inv (leds s) h \<Longrightarrow> inv (leds (radio_gateway_command_send tx s)) h"
  by (auto simp: radio_gateway_command_send_def intro: calls)

lemma report: "inv (leds s) h \<Longrightarrow> inv (leds (gateway_report a ty dst cmd bytes s)) h"
  by (simp add: gateway_report_def send)

lemma reports:
  assumes "inv (leds s) h"
  shows "inv (leds (gateway_warning_master_leak v s)) h" "inv (leds (gateway_warning_master_lost v s)) h"
    "inv (leds (gateway_warning_master_valve_check v s)) h" "inv (leds (gateway_warning_master_low_temp v s)) h"
    "inv (leds (gateway_warning_endunit_heart a b c d s)) h" "inv (leds (gateway_warning_slaver_leak a b c s)) h"
    "inv (leds (gateway_warning_slaver_lost a b c s)) h" "inv (leds (gateway_control_master_control v s)) h"
    "inv (leds (gateway_control_slaver_control a b c s)) h" "inv (leds (gateway_control_door_control a b c s)) h"
    "inv (leds (gateway_control_door_delay a b c s)) h"
    "inv (leds (gateway_control_motion_sensor_control a b c d e f s)) h"
    "inv (leds (gateway_learn_broacast_confirm a s)) h" "inv (leds (gateway_learn_add_upload a s)) h"
    "inv (leds (gateway_heart_upload_poweron s)) h" "inv (leds (gateway_heart_upload_master s)) h"
    "inv (leds (gateway_heart_doorunit_upload a b c s)) h"
    "inv (leds (gateway_heart_motion_sensor_upload a b c d e s)) h"
    "inv (leds (gateway_sync_device_add g a b s)) h" "inv (leds (gateway_sync_device_del a s)) h"
    "inv (leds (gateway_sync_device_reset s)) h" "inv (leds (gateway_ota_resp_start s)) h"
    "inv (leds (gateway_ota_ack_transfer s)) h" "inv (leds (gateway_ota_resp_end s)) h"
    "inv (leds (gateway_warning_slaver_offline s)) h" "inv (leds (gateway_sync_device_upload s)) h"
  unfolding gateway_report_defs using assms
  by (auto simp: gateway_warning_slaver_offline_def gateway_sync_device_upload_def Let_def case_prod_beta
      intro!: send report)

lemma connect_start:
  "inv (leds s) (heart s) \<Longrightarrow> inv (leds (gateway_connect_start s)) (heart (gateway_connect_start s))"
  by (auto simp: gateway_connect_start_def retry intro!: reports)

lemma plain [simp]:
  "leds (on_store f s) = leds s" "leds (on_radio g s) = leds s" "leds (on_mb m s) = leds s"
  "leds (on_ota p s) = leds s" "leds (set_output i l s) = leds s" "leds (rt_pin_write q v s) = leds s"
  "leds (stop_timers ts s) = leds s" "leds (set_status d s) = leds s" "leds (set_now e s) = leds s"
  "leds (set_lock k s) = leds s" "leds (valve_turn_control z s) = leds s" "leds (set_allow k s) = leds s"
  "leds (valve_check_start s) = leds s" "leds (valve_delay_control k s) = leds s"
  by (simp_all add: on_store_def on_radio_def on_mb_def on_ota_def set_output_def
      rt_pin_write_def stop_timers_def set_status_def set_now_def set_lock_def valve_turn_control_def set_allow_def
      valve_check_start_def valve_left_check_start_def valve_right_check_start_def valve_delay_control_def)

lemma locks [simp]: "leds (valve_lock s) = leds s" "leds (valve_unlock s) = leds s"
  by (simp_all add: valve_lock_def valve_unlock_def)

lemma valve:
  assumes "inv (leds s) h"
  shows "inv (leds (snd (valve_open s))) h" "inv (leds (snd (valve_close s))) h"
    "inv (leds (close_and_report s)) h" "inv (leds (open_and_report s)) h"
    "inv (leds (valve_dry_contact_control l s)) h" "inv (leds (valve_delay_close_timer_callback s)) h"
proof -
  have o: "inv (leds (snd (valve_open s))) h" if "inv (leds s) h" for s
    using that by (auto simp: valve_open_def intro!: calls)
  have c: "inv (leds (snd (valve_close s))) h" if "inv (leds s) h" for s
    using that by (auto simp: valve_close_def intro!: calls)
  have oc: "inv (leds (close_and_report s)) h" "inv (leds (open_and_report s)) h"
    using assms c [of s] o [of s]
    by (auto simp: close_and_report_def open_and_report_def case_prod_beta Let_def intro!: reports)
  show "inv (leds (snd (valve_open s))) h" "inv (leds (snd (valve_close s))) h"
    "inv (leds (close_and_report s)) h" "inv (leds (open_and_report s)) h"
    using assms o c oc by auto
  show "inv (leds (valve_dry_contact_control l s)) h" "inv (leds (valve_delay_close_timer_callback s)) h"
    using oc assms by (auto simp: valve_dry_contact_control_def valve_delay_close_timer_callback_def intro!: reports c)
qed

lemma warning:
  assumes "inv (leds s) h"
  shows "inv (leds (led_resume s)) h" "inv (leds (warning_all_clear s)) h" "inv (leds (run_callback cb s)) h"
    "inv (leds (warning_enable e s)) h" "inv (leds (valvefail_warning_disable s)) h"
    "inv (leds (warning_offline_check s)) h" "inv (leds (radio_refresh_learn_device s)) h"
proof -
  have r: "inv (leds (led_resume s)) h" if "inv (leds s) h" for s
    using that by (auto simp: led_resume_def intro!: calls)
  have a: "inv (leds (warning_all_clear s)) h"
    using assms by (auto simp: warning_all_clear_def Let_def intro!: calls r)
  have cb: "inv (leds (run_callback cb s)) h" if "inv (leds s) h" for cb s
    using that
    by (cases cb) (auto simp: run_callback_def valve_left_fail_callback_def valve_right_fail_callback_def
        slaver_low_power_callback_def slaver_ultra_low_power_callback_def slaver_sensor_leak_callback_def
        slaver_sensor_lost_callback_def slaver_offline_callback_def master_sensor_lost_callback_def
        master_sensor_leak_callback_def master_low_temp_callback_def intro!: calls reports valve)
  show "inv (leds (led_resume s)) h" "inv (leds (warning_all_clear s)) h" "inv (leds (run_callback cb s)) h"
    using assms r a cb by auto
  show "inv (leds (warning_enable e s)) h"
    using assms by (auto simp: warning_enable_def Let_def intro!: cb split: option.split)
  show "inv (leds (valvefail_warning_disable s)) h" "inv (leds (warning_offline_check s)) h"
    "inv (leds (radio_refresh_learn_device s)) h"
    using assms a
    by (auto simp: valvefail_warning_disable_def warning_offline_check_def radio_refresh_learn_device_def intro!: calls)
qed

lemma learn:
  assumes "inv (leds s) (heart s)"
  shows "inv (leds (radio_learn_timer_callback s)) (heart (radio_learn_timer_callback s))"
    "inv (leds (radio_start_learn_device s)) (heart (radio_start_learn_device s))"
  using assms
  by (auto simp: radio_learn_timer_callback_def radio_start_learn_device_def Let_def intro!: connect_start calls warning)

end

context lamps_heart
begin

abbreviation ok :: "sys \<Rightarrow> bool" where
  "ok s \<equiv> inv (leds s) (heart s)"

lemma devices:
  assumes "inv (leds s) h"
  shows "inv (leds (snd (aq_device_create rl ty did s))) h" "inv (leds (aq_doorunit_delete s)) h"
    "inv (leds (aq_device_heart_check s)) h" "inv (leds (gateway_heart_check s)) h"
proof -
  show "inv (leds (snd (aq_device_create rl ty did s))) h"
    using assms by (auto simp: aq_device_create_def Let_def case_prod_beta intro!: calls)
  show "inv (leds (aq_doorunit_delete s)) h"
    unfolding aq_doorunit_delete_def by (rule fold_keep) (use assms in \<open>auto intro!: reports\<close>)
  show "inv (leds (aq_device_heart_check s)) h"
    using assms by (auto simp: aq_device_heart_check_def Let_def intro!: reports warning)
  show "inv (leds (gateway_heart_check s)) h"
    using assms by (auto simp: gateway_heart_check_def Let_def intro!: calls)
qed

lemma endunit_parts:
  assumes "ok s"
  shows "ok (radio_frame_endunit_parse_heart rx did s)" "ok (radio_frame_endunit_parse_learn rx s)"
    "ok (radio_frame_endunit_parse_valve rx did s)" "ok (radio_frame_endunit_parse_warn rx did s)"
proof -
  show "ok (radio_frame_endunit_parse_heart rx did s)" "ok (radio_frame_endunit_parse_valve rx did s)"
    using assms
    by (auto simp: radio_frame_endunit_parse_heart_def radio_frame_endunit_parse_valve_def Let_def
        intro!: reports warning valve)
  show "ok (radio_frame_endunit_parse_learn rx s)"
    using assms
    by (auto simp: radio_frame_endunit_parse_learn_def Let_def case_prod_beta intro!: reports warning calls learn devices
        split: option.split)
  show "ok (radio_frame_endunit_parse_warn rx did s)"
    using assms
    by (auto simp: radio_frame_endunit_parse_warn_def endunit_warn_leak_def endunit_warn_lost_def Let_def
        intro!: reports warning valve)
qed

lemma endunit: "ok s \<Longrightarrow> ok (radio_frame_endunit_parse rx s)"
  by (auto simp: radio_frame_endunit_parse_def Let_def intro!: endunit_parts warning split: option.split)

lemma doorunit:
  assumes "ok s"
  shows "ok (radio_frame_doorunit_parse rx s)"
proof -
  have "ok (radio_frame_doorunit_parse_heart rx did s)" "ok (radio_frame_doorunit_parse_valve rx did s)"
    if "ok s" for did s
    using that by (auto simp: radio_frame_doorunit_parse_heart_def radio_frame_doorunit_parse_valve_def Let_def
        intro!: reports warning valve)
  moreover have "ok (radio_frame_doorunit_parse_learn rx s)"
    using assms by (auto simp: radio_frame_doorunit_parse_learn_def Let_def case_prod_beta
        intro!: reports warning calls devices split: option.split)
  ultimately show ?thesis
    using assms by (auto simp: radio_frame_doorunit_parse_def Let_def split: option.split)
qed

lemma motion:
  assumes "ok s"
  shows "ok (radio_frame_motion_parse rx s)"
proof -
  have "ok (radio_frame_motion_parse_heart rx did s)" "ok (radio_frame_motion_parse_control rx did s)"
    if "ok s" for did s
    using that by (auto simp: radio_frame_motion_parse_heart_def radio_frame_motion_parse_control_def Let_def
        intro!: reports warning valve)
  moreover have "ok (radio_frame_motion_parse_learn rx s)"
    using assms by (auto simp: radio_frame_motion_parse_learn_def Let_def case_prod_beta
        intro!: reports warning calls devices split: option.split)
  ultimately show ?thesis
    using assms by (auto simp: radio_frame_motion_parse_def Let_def split: option.split)
qed

lemma download:
  assumes "inv (leds s) h"
  shows "inv (leds (lora_ota_begin n s)) h" "inv (leds (lora_ota_receive buf off k s)) h"
    "inv (leds (lora_ota_end s)) h"
  using assms
  by (auto simp: lora_ota_begin_def lora_ota_receive_def lora_ota_end_def Let_def case_prod_beta
      intro!: reports split: option.split)

lemma gateway:
  assumes "ok s"
  shows "ok (radio_frame_gateway_parse rx s)"
proof -
  have parts: "ok (radio_frame_gateway_parse_sync rx s)" "ok (radio_frame_gateway_parse_heart rx s)"
    "ok (radio_frame_gateway_parse_ack rx s)" "ok (radio_frame_gateway_parse_ota rx s)"
    "ok (radio_frame_gateway_parse_control rx s)" if "ok s" for s
    using that by (auto simp: radio_frame_gateway_parse_sync_def radio_frame_gateway_parse_heart_def
        radio_frame_gateway_parse_ack_def radio_frame_gateway_parse_ota_def radio_frame_gateway_parse_control_def
        Let_def intro!: reports valve download)
  have "ok (radio_frame_gateway_parse_learn rx s)"
    using assms by (auto simp: radio_frame_gateway_parse_learn_def case_prod_beta
        intro!: reports warning calls devices split: option.split)
  moreover define s1 where "s1 = (if rx_data rx 0 = LEARN_DEVICE_CMD then radio_frame_gateway_parse_learn rx s else s)"
  ultimately have s1: "ok s1" using assms by simp
  define s2 where "s2 = on_store (aq_device_recv_set (rx_source_addr rx) 1) (lamps (wifi_led 1) s1)"
  have "ok s2" using s1 by (simp add: s2_def calls)
  from parts [OF this] show ?thesis
    unfolding radio_frame_gateway_parse_def Let_def s1_def [symmetric] s2_def [symmetric]
    using s1 \<open>ok s2\<close> by (simp split: option.split)
qed

lemma receive: "ok s \<Longrightarrow> ok (OnRxDone payload n rssi g s)"
  by (auto simp: OnRxDone_def radio_protocol_parse_def radio_dispatch_def radio_frame_factory_parse_def
      radio_frame_factory_parse_heart_def intro!: motion endunit doorunit gateway split: option.split)

lemma check_callbacks:
  assumes "ok s"
  shows "ok (valve_left_turn_back_timer_callback s)" "ok (valve_right_turn_back_timer_callback s)"
    "ok (valve_left_turn_check_timer_callback s)" "ok (valve_right_turn_check_timer_callback s)"
  using assms by (auto simp: check_callback_defs Let_def intro!: warning reports)

lemma dry:
  assumes "ok s"
  shows "ok (dry_contact_polling_timer_callback s)"
proof -
  have sets: "inv (leds (dry_contact_tech_alarm_set l s)) h" "inv (leds (dry_contact_leak_alarm_set l s)) h"
    "inv (leds (dry_contact_valve_status_set l s)) h" if "inv (leds s) h" for l s h
    using that by (auto simp: dry_contact_tech_alarm_set_def dry_contact_leak_alarm_set_def
        dry_contact_valve_status_set_def intro!: calls)
  have "ok (dry_contact_input s)"
    using assms by (auto simp: dry_contact_input_def Let_def intro!: calls valve)
  then show ?thesis
    by (auto simp: dry_contact_polling_timer_callback_def dry_contact_alarms_def Let_def
        intro!: sets split: device_status.split)
qed

lemma timer:
  assumes "ok s"
  shows "ok (timer_callback t s)"
proof -
  have "ok (heart_connect_timer_callback s)"
    using assms by (auto simp: heart_connect_timer_callback_def retry intro!: reports calls)
  then show ?thesis
    using assms by (cases t) (auto simp: timer_callback_def valve_detect_once_timer_callback_def
        valve_delay_close_timer_callback_def intro!: learn check_callbacks dry valve reports)
qed

lemma hourly: "ok s \<Longrightarrow> ok (rtc_thread_entry s)"
  by (auto simp: rtc_thread_entry_def Let_def intro!: devices)

lemma clicks:
  assumes "ok s"
  shows "ok (key_on_click_handle s)" "ok (key_off_click_handle s)"
  using assms
  by (auto simp: key_on_click_handle_def key_off_click_handle_def intro!: calls valve warning reports
      split: device_status.split)

lemma holds:
  assumes "ok s"
  shows "ok (key_on_long_hold_handle s)" "ok (key_off_long_hold_handle s)"
    "ok (key_on_long_free_handle s)" "ok (key_off_long_free_handle s)"
proof -
  have "ok (key_on_off_long_click_handle s)"
    using assms by (auto simp: key_on_off_long_click_handle_def Let_def intro!: calls reports)
  then show "ok (key_on_long_hold_handle s)" "ok (key_off_long_hold_handle s)"
    "ok (key_on_long_free_handle s)" "ok (key_off_long_free_handle s)"
    using assms by (auto simp: key_on_long_hold_handle_def key_off_long_hold_handle_def key_on_long_free_handle_def
        key_off_long_free_handle_def intro!: learn)
qed

lemma callbacks:
  assumes "ok s"
  shows "ok (key_on_callback e s)" "ok (key_off_callback e s)"
  using clicks [OF assms] holds [OF assms] assms by (cases e; simp)+

lemma buttons: "ok s \<Longrightarrow> ok (agile_btn_process now s)"
  by (rule key_handlers.process, unfold_locales) (simp_all add: callbacks)

lemma poll: "ok s \<Longrightarrow> ok (snd (eMBPoll stale b c s))"
  by (rule modbus_served.poll, unfold_locales) (simp_all add: clicks on_rtu_def)

lemma event:
  assumes "ok s" "\<forall>v. ev \<noteq> HeartTurn v" "\<forall>w. ev \<noteq> PowerOn w"
  shows "ok (handle ev s)"
proof -
  have "inv (led_run_tick (leds s)) (heart s)" using assms(1) by (intro calls)
  then show ?thesis
    using assms receive timer buttons hourly poll
    by (cases ev) (simp_all add: handle_def mb_slave_copy_def mb_holding_data_copy_def mb_coils_data_copy_def
        mb_adc_value_data_copy_def mb_output_dry_contact_data_copy_def mb_input_dry_contact_data_copy_def
        mb_valve_data_copy_def on_rtu_def)
qed

end

section \<open>The lamps of every reachable state\<close>

interpretation lamps: lamps_heart "\<lambda>b h. bank_ok app_times b"
  by unfold_locales (simp_all add: led_call_ok)

lemma lamps_power_on: "bank_ok app_times (leds (power_on w s))"
proof -
  have "bank_ok app_times (leds (ram_reset s))"
    by (simp add: ram_reset_def new_unit_def bank_ok_def app_times_def lamp_ok_zero)
  then have "bank_ok app_times (led_init (leds (ram_reset s)))" by (rule lamps.calls)
  then show ?thesis
    by (auto simp: power_on_def main_def mb_slave_start_def dry_contact_init_def valve_init_def radio_init_def
        rtc_thread_start_def warning_init_def button_init_def heart_init_def storage_init_def on_rtu_def Let_def
        intro!: lamps.warning)
qed

lemma lamps_heart_turn:
  "bank_ok app_times (leds s) \<Longrightarrow> bank_ok app_times (leds (snd (heart_thread_entry v s)))"
  by (auto simp: heart_thread_entry_def heart_goto_def Let_def intro!: lamps.reports lamps.connect_start lamps.calls
      split: heart_pc.split)

interpretation lamp_system: invariant_system step "\<lambda>s. bank_ok app_times (leds s)" "\<lambda>_. True"
proof unfold_locales
  fix s e t assume "step s e t" "bank_ok app_times (leds s)"
  then show "bank_ok app_times (leds t)"
    using lamps.event [of s e] lamps_power_on lamps_heart_turn
    by (cases e) (auto simp: step_iff handle_def)
qed

text \<open>
  C38. The counters of the lamps never leave their C fields: in every reachable state, whatever lamps have been
  started, stopped in the middle of a pattern, restarted or given another pattern, the counters of each lamp fit
  the 16 bits of \<open>handle_cnt\<close> (with room for the increment of the next tick), \<open>mode_cnt\<close>, \<open>loop\<close> and \<open>loop_temp\<close>,
  the 8 of \<open>mode_pointer\<close> and the 32 of \<open>blink_point\<close>.
\<close>

theorem led_counters_fit:
  assumes "run step (power_on w new_unit) es t"
  shows "handle_cnt (lamp (leds t) x) + 1 < 2 ^ 16 \<and> mode_pointer (lamp (leds t) x) < 2 ^ 8 \<and>
    mode_cnt (lamp (leds t) x) < 2 ^ 16 \<and> blink_point (lamp (leds t) x) < 2 ^ 32 \<and>
    led_loop (lamp (leds t) x) < 2 ^ 16 \<and> loop_temp (lamp (leds t) x) < 2 ^ 16"
proof -
  have "lamp_ok app_times (lamp (leds t) x)"
    using lamp_system.run_inv [OF assms] lamps_power_on by (simp add: bank_ok_def)
  from lamp_ok_bounds [OF this, of "2 ^ 8" "2 ^ 16 - 1"] app_times_fit show ?thesis
    by (auto simp: LOOP_PERMANENT_def)
qed

lemma led_counters_fit_witness:
  "handle_cnt (lamp (leds flooded) beep_obj) + 1 < 2 ^ 16 \<and> status flooded = SlaverSensorLeak"
  using led_counters_fit [OF flooded_run] flooded_state(1) [OF flooded_simps] by blast

section \<open>The period of the heartbeat\<close>

interpretation clock: lamps_heart "\<lambda>b h. heart_pc h = p \<and> before_wait_time h = x \<and> after_wait_time h = y" for p x y
  by unfold_locales simp_all

lemma sleeping:
  assumes "run step s es t" "\<forall>e \<in> set es. (\<forall>v. e \<noteq> HeartTurn v) \<and> (\<forall>w. e \<noteq> PowerOn w)"
  shows "heart_pc (heart t) = heart_pc (heart s)" "after_wait_time (heart t) = after_wait_time (heart s)"
proof -
  have "heart_pc (heart t) = p \<and> before_wait_time (heart t) = x \<and> after_wait_time (heart t) = y"
    if "heart_pc (heart s) = p \<and> before_wait_time (heart s) = x \<and> after_wait_time (heart s) = y" for p x y
    using assms that
  proof (induction rule: run.induct)
    case (run_cons s e t es u)
    from run_cons.prems run_cons.hyps(1) clock.event [of s p x y e]
    have "heart_pc (heart t) = p \<and> before_wait_time (heart t) = x \<and> after_wait_time (heart t) = y"
      by (simp add: step_iff)
    with run_cons show ?case by simp
  qed simp
  then show "heart_pc (heart t) = heart_pc (heart s)" "after_wait_time (heart t) = after_wait_time (heart s)"
    by blast+
qed

lemma heartbeat_queued:
  assumes "aq_gateway_find (store s) \<noteq> 0"
  shows "\<exists>tx. rf_en_mq (radio (gateway_heart_upload_master s)) =
      (if length (rf_en_mq (radio s)) < RF_MQ_SIZE then rf_en_mq (radio s) @ [queued 0 tx] else rf_en_mq (radio s)) \<and>
    dest_addr tx = aq_gateway_find (store s) \<and> tx_command tx = HEART_UPLOAD_CMD \<and>
    tx_msg_type tx = MSG_UNCONFIRMED_UPLINK \<and> tx_len tx = 5 \<and> tx_fits tx \<and>
    tx_data tx = [1, status_code (status s), position_code (valve_status (valve s)), fw_main_ver, fw_sub_ver]"
proof -
  let ?tx = "tx_zero\<lparr>msg_ack := 1, tx_msg_type := MSG_UNCONFIRMED_UPLINK, dest_addr := aq_gateway_find (store s),
      source_addr := local_address (radio s), tx_command := HEART_UPLOAD_CMD,
      tx_data := [1, status_code (status s), position_code (valve_status (valve s)), fw_main_ver, fw_sub_ver],
      tx_len := 5\<rparr>"
  have fits: "tx_fits ?tx" "tx_len ?tx \<le> 239" by (simp_all add: tx_fits_def)
  have "radio (gateway_heart_upload_master s) = command_send 0 ?tx (radio s)"
    using assms by (simp add: gateway_heart_upload_master_def gateway_report_def radio_gateway_command_send_def
        warning_status_get_def get_valve_status_def numeral_eq_Suc)
  then show ?thesis
    using command_send_queued [OF fits, of 0 "radio s"] fits
    by (intro exI [of _ ?tx]) (simp add: rt_mq_send_def)
qed

text \<open>
  C37. The heartbeat: once the thread is in its loop and a gateway is in the table, the two delays of a period add up
  to 900 seconds, the first between 60 and 780, whatever else happens to the unit while the thread sleeps. In
  a period the thread queues one frame for the gateway, not before the first delay is over: the report of the unit's
  status and valve as they are then, without a request for acknowledgement; it queues none when by then the gateway is
  gone from the table or the queue is full. Then it is where it began.
\<close>

theorem heart_period:
  assumes start: "heart_pc (heart s) = heart_loop" "aq_gateway_find (store s) \<noteq> 0" "heart_thread_entry v s = (d1, s1)"
    and sleep: "run step s1 es t" "\<forall>e \<in> set es. (\<forall>v. e \<noteq> HeartTurn v) \<and> (\<forall>w. e \<noteq> PowerOn w)"
    and send: "heart_thread_entry v' t = (d2, t')"
  shows "d1 + d2 = 900000 \<and> 60000 \<le> d1 \<and> d1 \<le> 780000 \<and> heart_pc (heart t') = heart_loop \<and>
    radio s1 = radio s \<and>
    (if aq_gateway_find (store t) \<noteq> 0 \<and> length (rf_en_mq (radio t)) < RF_MQ_SIZE
     then \<exists>tx. rf_en_mq (radio t') = rf_en_mq (radio t) @ [queued 0 tx] \<and>
       dest_addr tx = aq_gateway_find (store t) \<and> tx_command tx = HEART_UPLOAD_CMD \<and>
       tx_msg_type tx = MSG_UNCONFIRMED_UPLINK \<and> tx_len tx = 5 \<and> tx_fits tx \<and>
       tx_data tx = [1, status_code (status t), position_code (valve_status (valve t)), fw_main_ver, fw_sub_ver]
     else rf_en_mq (radio t') = rf_en_mq (radio t))"
proof -
  define b where "b = random_second_get v 60 780"
  have b: "60 \<le> unat b" "unat b \<le> 780"
    using random_second_bounds [of 60 780 v] by (simp_all add: b_def word_le_nat_alt)
  have s1: "d1 = unat (b * 1000)" "heart_pc (heart s1) = heart_send" "after_wait_time (heart s1) = 900 - b"
    "radio s1 = radio s"
    using start by (auto simp: heart_thread_entry_def b_def Let_def heart_goto_def)
  then have t': "d2 = unat ((900 - b) * 1000)" "t' = heart_goto heart_loop (gateway_heart_upload_master t)"
    using send sleeping [OF sleep] by (simp_all add: heart_thread_entry_def)
  have "unat (900 - b) = 900 - unat b" using b by (simp add: unat_sub word_le_nat_alt)
  moreover have ms: "unat (c * 1000) = unat c * 1000" if "unat c \<le> 900" for c :: u32
    using that by (simp add: unat_mult_lem [THEN iffD1])
  ultimately have "unat (b * 1000) = unat b * 1000" "unat ((900 - b) * 1000) = (900 - unat b) * 1000"
    using b ms [of b] ms [of "900 - b"] by simp_all
  then have times: "d1 + d2 = 900000" "60000 \<le> d1" "d1 \<le> 780000" using b s1 t' by simp_all
  have q: "rf_en_mq (radio t') = rf_en_mq (radio (gateway_heart_upload_master t))" by (simp add: t' heart_goto_def)
  have none: "aq_gateway_find (store t) = 0 \<Longrightarrow> gateway_heart_upload_master t = t"
    by (simp add: gateway_heart_upload_master_def gateway_report_def radio_gateway_command_send_def)
  have pc: "heart_pc (heart t') = heart_loop" by (simp add: t' heart_goto_def)
  show ?thesis
  proof (cases "aq_gateway_find (store t) = 0")
    case True
    with times s1(4) q none pc show ?thesis by simp
  next
    case False
    with times s1(4) q heartbeat_queued [OF False] pc show ?thesis by auto
  qed
qed

text \<open>The period of a unit with a gateway: the first turn, a tick of the lamps, the second turn.\<close>

lemma heart_period_witness:
  "let s = paired_unit\<lparr>heart := (heart paired_unit)\<lparr>heart_pc := heart_loop\<rparr>\<rparr>;
       s1 = snd (heart_thread_entry 1000 s); t = handle LampTick s1
   in fst (heart_thread_entry 1000 s) + fst (heart_thread_entry 5 t) = 900000 \<and>
     length (rf_en_mq (radio (snd (heart_thread_entry 5 t)))) = 1"
proof -
  define s where "s = paired_unit\<lparr>heart := (heart paired_unit)\<lparr>heart_pc := heart_loop\<rparr>\<rparr>"
  define s1 where "s1 = snd (heart_thread_entry 1000 s)"
  have s: "heart_pc (heart s) = heart_loop" "aq_gateway_find (store s) \<noteq> 0" "cpu_reset s = False" "rf_en_mq (radio s) = []"
    by (simp_all add: s_def) (simp add: paired_unit_def)
  have s1: "store s1 = store s" "radio s1 = radio s" "cpu_reset s1 = False"
    using s by (simp_all add: s1_def heart_thread_entry_def heart_goto_def Let_def)
  have tick: "store (handle LampTick s1) = store s1" "radio (handle LampTick s1) = radio s1" by (simp_all add: handle_def)
  have r: "run step s1 [LampTick] (handle LampTick s1)" by (rule run_one) (simp add: enabled_def s1)
  have e: "heart_thread_entry 1000 s = (fst (heart_thread_entry 1000 s), s1)" by (simp add: s1_def)
  note p = heart_period [OF s(1,2) e r _ prod.collapse [symmetric], of 5]
  have "aq_gateway_find (store (handle LampTick s1)) \<noteq> 0 \<and> length (rf_en_mq (radio (handle LampTick s1))) < RF_MQ_SIZE"
    using s by (simp add: tick s1 RF_MQ_SIZE_def)
  with p s show ?thesis
    unfolding Let_def s_def [symmetric] s1_def [symmetric] by (auto simp: tick s1)
qed

end
