(* ===== verification/Ef_Flash.thy ===== *)
theory Ef_Flash
  imports Crc "HOL-Library.Monad_Syntax"
begin

text \<open>
  The lowest layer of the key-value store EasyFlash (\<open>packages/EasyFlash-v4.1.0\<close>): the flash memory seen
  through the port (\<open>storage/ef_fal_port.c\<close> over the partition \<open>easyflash\<close>, the first megabyte of the
  chip), the check sum of \<open>ef_utils.c\<close>, and the status tables of \<open>ef_env.c\<close>.

  Programming a byte of the chip can only clear bits; erasing sets them. A program or erase operation may
  fail: the field \<open>fault\<close> says for each operation, counted by \<open>ops\<close>, whether it fails and how many bytes
  it has changed by then. \<open>stale\<close> is what a buffer holds that a refused read leaves unwritten.

  A function that may not return (\<open>EF_ASSERT\<close> ends in an endless loop, and some loops over the sectors have
  no bound) has an \<open>option\<close> result, and not returning is \<open>None\<close>.
\<close>



section \<open>Errors and states\<close>

datatype EfErrCode = EF_NO_ERR | EF_ERASE_ERR | EF_READ_ERR | EF_WRITE_ERR
  | EF_ENV_NAME_ERR | EF_ENV_NAME_EXIST | EF_ENV_FULL | EF_ENV_INIT_FAILED

datatype env_status = ENV_UNUSED | ENV_PRE_WRITE | ENV_WRITE | ENV_PRE_DELETE | ENV_DELETED | ENV_ERR_HDR
datatype sector_store_status = SECTOR_STORE_UNUSED | SECTOR_STORE_EMPTY | SECTOR_STORE_USING | SECTOR_STORE_FULL
datatype sector_dirty_status = SECTOR_DIRTY_UNUSED | SECTOR_DIRTY_FALSE | SECTOR_DIRTY_TRUE | SECTOR_DIRTY_GC

text \<open>The numbers behind the enumerations, and back.\<close>

fun env_no :: "env_status \<Rightarrow> nat" where
  "env_no ENV_UNUSED = 0" | "env_no ENV_PRE_WRITE = 1" | "env_no ENV_WRITE = 2"
| "env_no ENV_PRE_DELETE = 3" | "env_no ENV_DELETED = 4" | "env_no ENV_ERR_HDR = 5"

fun store_no :: "sector_store_status \<Rightarrow> nat" where
  "store_no SECTOR_STORE_UNUSED = 0" | "store_no SECTOR_STORE_EMPTY = 1"
| "store_no SECTOR_STORE_USING = 2" | "store_no SECTOR_STORE_FULL = 3"

fun dirty_no :: "sector_dirty_status \<Rightarrow> nat" where
  "dirty_no SECTOR_DIRTY_UNUSED = 0" | "dirty_no SECTOR_DIRTY_FALSE = 1"
| "dirty_no SECTOR_DIRTY_TRUE = 2" | "dirty_no SECTOR_DIRTY_GC = 3"

definition env_of :: "nat \<Rightarrow> env_status" where
  "env_of n = [ENV_UNUSED, ENV_PRE_WRITE, ENV_WRITE, ENV_PRE_DELETE, ENV_DELETED, ENV_ERR_HDR] ! n"

definition store_of :: "nat \<Rightarrow> sector_store_status" where
  "store_of n = [SECTOR_STORE_UNUSED, SECTOR_STORE_EMPTY, SECTOR_STORE_USING, SECTOR_STORE_FULL] ! n"

definition dirty_of :: "nat \<Rightarrow> sector_dirty_status" where
  "dirty_of n = [SECTOR_DIRTY_UNUSED, SECTOR_DIRTY_FALSE, SECTOR_DIRTY_TRUE, SECTOR_DIRTY_GC] ! n"

definition ENV_STATUS_NUM :: nat where "ENV_STATUS_NUM = 6"
definition SECTOR_STORE_STATUS_NUM :: nat where "SECTOR_STORE_STATUS_NUM = 4"
definition SECTOR_DIRTY_STATUS_NUM :: nat where "SECTOR_DIRTY_STATUS_NUM = 4"

lemma env_of_no [simp]: "env_of (env_no s) = s"
  by (cases s) (simp_all add: env_of_def)

lemma store_of_no [simp]: "store_of (store_no s) = s"
  by (cases s) (simp_all add: store_of_def)

lemma dirty_of_no [simp]: "dirty_of (dirty_no s) = s"
  by (cases s) (simp_all add: dirty_of_def)

lemma env_no_less: "env_no s < ENV_STATUS_NUM"
  by (cases s) (simp_all add: ENV_STATUS_NUM_def)

section \<open>The state\<close>

record env_cache_node =
  name_crc :: u16
  active :: u16
  node_addr :: u32

record sector_cache_node =
  sec_addr :: u32
  empty_addr :: u32

record ef_st =
  chip :: "nat \<Rightarrow> byte"
  ops :: nat
  fault :: "nat \<Rightarrow> nat option"
  stale :: "nat \<Rightarrow> byte"
  env_cache_table :: "env_cache_node list"
  sector_cache_table :: "sector_cache_node list"
  gc_request :: bool
  in_recovery_check :: bool
  init_ok :: bool
  last_is_complete_del :: bool

definition FAILED_ADDR :: u32 where "FAILED_ADDR = 0xFFFFFFFF"
definition SECTOR_SIZE :: u32 where "SECTOR_SIZE = 4096"
definition ENV_AREA_SIZE :: u32 where "ENV_AREA_SIZE = SECTOR_SIZE * 4"
definition part_len :: u32 where "part_len = 1024 * 1024"

section \<open>The port\<close>

text \<open>What programming the bytes \<open>bs\<close> at \<open>a\<close> makes of the memory.\<close>

definition program :: "(nat \<Rightarrow> byte) \<Rightarrow> nat \<Rightarrow> byte list \<Rightarrow> nat \<Rightarrow> byte" where
  "program m a bs x = (if a \<le> x \<and> x < a + length bs then m x AND bs ! (x - a) else m x)"

definition erased :: "(nat \<Rightarrow> byte) \<Rightarrow> nat \<Rightarrow> nat \<Rightarrow> nat \<Rightarrow> byte" where
  "erased m a n x = (if a \<le> x \<and> x < a + n then 0xFF else m x)"

definition bytes_at :: "(nat \<Rightarrow> byte) \<Rightarrow> nat \<Rightarrow> nat \<Rightarrow> byte list" where
  "bytes_at m a n = map m [a..<a + n]"

text \<open>The result of the partition's read is dropped, so a refused read leaves the buffer as it was.\<close>

definition ef_port_read :: "ef_st \<Rightarrow> u32 \<Rightarrow> nat \<Rightarrow> byte list" where
  "ef_port_read e addr n =
     (if addr + of_nat n > part_len then map (stale e) [0..<n] else bytes_at (chip e) (unat addr) n)"

definition ef_port_write :: "u32 \<Rightarrow> byte list \<Rightarrow> ef_st \<Rightarrow> EfErrCode \<times> ef_st" where
  "ef_port_write addr bs e =
     (if addr + of_nat (length bs) > part_len then (EF_WRITE_ERR, e)
      else case fault e (ops e) of
          None \<Rightarrow> (EF_NO_ERR, e\<lparr>ops := ops e + 1, chip := program (chip e) (unat addr) bs\<rparr>)
        | Some k \<Rightarrow> (EF_WRITE_ERR, e\<lparr>ops := ops e + 1, chip := program (chip e) (unat addr) (take k bs)\<rparr>))"

definition ef_port_erase :: "u32 \<Rightarrow> nat \<Rightarrow> ef_st \<Rightarrow> (EfErrCode \<times> ef_st) option" where
  "ef_port_erase addr n e =
     (if addr mod SECTOR_SIZE \<noteq> 0 then None
      else Some (if addr + of_nat n > part_len then (EF_ERASE_ERR, e)
        else case fault e (ops e) of
            None \<Rightarrow> (EF_NO_ERR, e\<lparr>ops := ops e + 1, chip := erased (chip e) (unat addr) n\<rparr>)
          | Some k \<Rightarrow> (EF_ERASE_ERR, e\<lparr>ops := ops e + 1, chip := erased (chip e) (unat addr) (min k n)\<rparr>)))"

section \<open>The check sum\<close>

definition crc32_table :: "u32 list" where
  "crc32_table =
    [0x00000000, 0x77073096, 0xee0e612c, 0x990951ba, 0x076dc419, 0x706af48f, 0xe963a535, 0x9e6495a3,
     0x0edb8832, 0x79dcb8a4, 0xe0d5e91e, 0x97d2d988, 0x09b64c2b, 0x7eb17cbd, 0xe7b82d07, 0x90bf1d91,
     0x1db71064, 0x6ab020f2, 0xf3b97148, 0x84be41de, 0x1adad47d, 0x6ddde4eb, 0xf4d4b551, 0x83d385c7,
     0x136c9856, 0x646ba8c0, 0xfd62f97a, 0x8a65c9ec, 0x14015c4f, 0x63066cd9, 0xfa0f3d63, 0x8d080df5,
     0x3b6e20c8, 0x4c69105e, 0xd56041e4, 0xa2677172, 0x3c03e4d1, 0x4b04d447, 0xd20d85fd, 0xa50ab56b,
     0x35b5a8fa, 0x42b2986c, 0xdbbbc9d6, 0xacbcf940, 0x32d86ce3, 0x45df5c75, 0xdcd60dcf, 0xabd13d59,
     0x26d930ac, 0x51de003a, 0xc8d75180, 0xbfd06116, 0x21b4f4b5, 0x56b3c423, 0xcfba9599, 0xb8bda50f,
     0x2802b89e, 0x5f058808, 0xc60cd9b2, 0xb10be924, 0x2f6f7c87, 0x58684c11, 0xc1611dab, 0xb6662d3d,
     0x76dc4190, 0x01db7106, 0x98d220bc, 0xefd5102a, 0x71b18589, 0x06b6b51f, 0x9fbfe4a5, 0xe8b8d433,
     0x7807c9a2, 0x0f00f934, 0x9609a88e, 0xe10e9818, 0x7f6a0dbb, 0x086d3d2d, 0x91646c97, 0xe6635c01,
     0x6b6b51f4, 0x1c6c6162, 0x856530d8, 0xf262004e, 0x6c0695ed, 0x1b01a57b, 0x8208f4c1, 0xf50fc457,
     0x65b0d9c6, 0x12b7e950, 0x8bbeb8ea, 0xfcb9887c, 0x62dd1ddf, 0x15da2d49, 0x8cd37cf3, 0xfbd44c65,
     0x4db26158, 0x3ab551ce, 0xa3bc0074, 0xd4bb30e2, 0x4adfa541, 0x3dd895d7, 0xa4d1c46d, 0xd3d6f4fb,
     0x4369e96a, 0x346ed9fc, 0xad678846, 0xda60b8d0, 0x44042d73, 0x33031de5, 0xaa0a4c5f, 0xdd0d7cc9,
     0x5005713c, 0x270241aa, 0xbe0b1010, 0xc90c2086, 0x5768b525, 0x206f85b3, 0xb966d409, 0xce61e49f,
     0x5edef90e, 0x29d9c998, 0xb0d09822, 0xc7d7a8b4, 0x59b33d17, 0x2eb40d81, 0xb7bd5c3b, 0xc0ba6cad,
     0xedb88320, 0x9abfb3b6, 0x03b6e20c, 0x74b1d29a, 0xead54739, 0x9dd277af, 0x04db2615, 0x73dc1683,
     0xe3630b12, 0x94643b84, 0x0d6d6a3e, 0x7a6a5aa8, 0xe40ecf0b, 0x9309ff9d, 0x0a00ae27, 0x7d079eb1,
     0xf00f9344, 0x8708a3d2, 0x1e01f268, 0x6906c2fe, 0xf762575d, 0x806567cb, 0x196c3671, 0x6e6b06e7,
     0xfed41b76, 0x89d32be0, 0x10da7a5a, 0x67dd4acc, 0xf9b9df6f, 0x8ebeeff9, 0x17b7be43, 0x60b08ed5,
     0xd6d6a3e8, 0xa1d1937e, 0x38d8c2c4, 0x4fdff252, 0xd1bb67f1, 0xa6bc5767, 0x3fb506dd, 0x48b2364b,
     0xd80d2bda, 0xaf0a1b4c, 0x36034af6, 0x41047a60, 0xdf60efc3, 0xa867df55, 0x316e8eef, 0x4669be79,
     0xcb61b38c, 0xbc66831a, 0x256fd2a0, 0x5268e236, 0xcc0c7795, 0xbb0b4703, 0x220216b9, 0x5505262f,
     0xc5ba3bbe, 0xb2bd0b28, 0x2bb45a92, 0x5cb36a04, 0xc2d7ffa7, 0xb5d0cf31, 0x2cd99e8b, 0x5bdeae1d,
     0x9b64c2b0, 0xec63f226, 0x756aa39c, 0x026d930a, 0x9c0906a9, 0xeb0e363f, 0x72076785, 0x05005713,
     0x95bf4a82, 0xe2b87a14, 0x7bb12bae, 0x0cb61b38, 0x92d28e9b, 0xe5d5be0d, 0x7cdcefb7, 0x0bdbdf21,
     0x86d3d2d4, 0xf1d4e242, 0x68ddb3f8, 0x1fda836e, 0x81be16cd, 0xf6b9265b, 0x6fb077e1, 0x18b74777,
     0x88085ae6, 0xff0f6a70, 0x66063bca, 0x11010b5c, 0x8f659eff, 0xf862ae69, 0x616bffd3, 0x166ccf45,
     0xa00ae278, 0xd70dd2ee, 0x4e048354, 0x3903b3c2, 0xa7672661, 0xd06016f7, 0x4969474d, 0x3e6e77db,
     0xaed16a4a, 0xd9d65adc, 0x40df0b66, 0x37d83bf0, 0xa9bcae53, 0xdebb9ec5, 0x47b2cf7f, 0x30b5ffe9,
     0xbdbdf21c, 0xcabac28a, 0x53b39330, 0x24b4a3a6, 0xbad03605, 0xcdd70693, 0x54de5729, 0x23d967bf,
     0xb3667a2e, 0xc4614ab8, 0x5d681b02, 0x2a6f2b94, 0xb40bbe37, 0xc30c8ea1, 0x5a05df1b, 0x2d02ef8d]"

definition ef_calc_crc32 :: "u32 \<Rightarrow> byte list \<Rightarrow> u32" where
  "ef_calc_crc32 crc buf =
     NOT (foldl (\<lambda>crc p. crc32_table ! unat ((crc XOR ucast p) AND 0xFF) XOR drop_bit 8 crc) (NOT crc) buf)"

text \<open>The CRC-32 of a message bit by bit: the polynomial 0xEDB88320, least significant bit first.\<close>

definition crc32_bits :: "u32 \<Rightarrow> byte list \<Rightarrow> u32" where
  "crc32_bits crc bs = NOT (rcrc_bytes 0xEDB88320 (NOT crc) bs)"

lemma crc32_table_holds: "holds_crcs 0xEDB88320 8 crc32_table"
proof -
  have "crc32_table = fold xor_double
      [0x77073096, 0xee0e612c, 0x076dc419, 0x0edb8832, 0x1db71064, 0x3b6e20c8, 0x76dc4190, 0xedb88320] [0]"
    by (simp add: crc32_table_def xor_double_def)
  then show ?thesis
    using table_right [of "0xEDB88320 :: u32" "[0x77073096, 0xee0e612c, 0x076dc419, 0x0edb8832, 0x1db71064, 0x3b6e20c8, 0x76dc4190, 0xedb88320]"]
    by (simp add: upt_rec funpow_8 rcrc_shift_def)
qed

lemma low_byte_index: "unat (w AND 0xFF :: u32) = unat (ucast w :: byte)"
proof -
  have "(0xFF :: u32) = mask 8" by (simp add: mask_eq_exp_minus_1)
  then show ?thesis by (simp only:) (transfer, simp add: take_bit_take_bit flip: take_bit_eq_mask)
qed

lemma ef_calc_crc32_bits: "ef_calc_crc32 crc buf = crc32_bits crc buf"
proof -
  have "crc32_table ! unat ((c XOR ucast p) AND 0xFF) XOR drop_bit 8 c = rcrc_byte 0xEDB88320 c p" for c p
    by (simp add: rcrc_byte_by_table [OF crc32_table_holds] low_byte_index)
  then show ?thesis by (simp add: ef_calc_crc32_def crc32_bits_def rcrc_bytes_def)
qed

lemma ef_calc_crc32_append: "ef_calc_crc32 (ef_calc_crc32 c xs) ys = ef_calc_crc32 c (xs @ ys)"
  by (simp add: ef_calc_crc32_def)

lemma ef_calc_crc32_Nil [simp]: "ef_calc_crc32 c [] = c"
  by (simp add: ef_calc_crc32_def)

section \<open>Addresses\<close>

lemma unat_add_small: "unat a + n < 2 ^ 32 \<Longrightarrow> unat (a + of_nat n :: u32) = unat a + n"
  by (simp add: unat_word_ariths unat_of_nat)

lemma unat_add_word: "unat a + unat b < 2 ^ 32 \<Longrightarrow> unat (a + b :: u32) = unat a + unat b"
  by (simp add: unat_word_ariths)

lemma unat_part_len [simp]: "unat part_len = 1048576"
  by (simp add: part_len_def)

lemma in_part: "unat a + n \<le> 1048576 \<Longrightarrow> \<not> part_len < a + of_nat n"
  by (simp add: word_less_nat_alt unat_add_small)

lemma length_bytes_at [simp]: "length (bytes_at m a n) = n"
  by (simp add: bytes_at_def)

lemma nth_bytes_at [simp]: "i < n \<Longrightarrow> bytes_at m a n ! i = m (a + i)"
  by (simp add: bytes_at_def)

lemma bytes_at_cong: "(\<And>x. \<lbrakk>a \<le> x; x < a + n\<rbrakk> \<Longrightarrow> m x = m' x) \<Longrightarrow> bytes_at m a n = bytes_at m' a n"
  by (simp add: bytes_at_def)

lemma bytes_at_append: "bytes_at m a (n + k) = bytes_at m a n @ bytes_at m (a + n) k"
  by (rule nth_equalityI) (auto simp: nth_append)

lemma bytes_at_0 [simp]: "bytes_at m a 0 = []"
  by (simp add: bytes_at_def)

lemma take_bytes_at: "k \<le> n \<Longrightarrow> take k (bytes_at m a n) = bytes_at m a k"
  by (simp add: bytes_at_def take_map)

lemma drop_bytes_at: "drop k (bytes_at m a n) = bytes_at m (a + k) (n - k)"
  by (rule nth_equalityI) (simp_all add: add.assoc)

lemma ef_port_read_in: "unat a + n \<le> 1048576 \<Longrightarrow> ef_port_read e a n = bytes_at (chip e) (unat a) n"
  by (simp add: ef_port_read_def in_part)

lemma length_ef_port_read [simp]: "length (ef_port_read e a n) = n"
  by (simp add: ef_port_read_def)

text \<open>Programming clears bits of the bytes it covers and touches no other; onto erased memory it stores.\<close>

lemma program_outside: "x < a \<or> a + length bs \<le> x \<Longrightarrow> program m a bs x = m x"
  by (auto simp: program_def)

lemma program_other: "b + n \<le> a \<or> a + length bs \<le> b \<Longrightarrow> bytes_at (program m a bs) b n = bytes_at m b n"
  by (rule bytes_at_cong) (auto simp: program_def)

lemma byte_ff [simp]: "(0xFF :: byte) AND w = w"
proof -
  have "(0xFF :: byte) = - 1" by simp
  then show ?thesis by (simp only: and.left_neutral)
qed

lemma program_fresh:
  assumes "\<And>x. \<lbrakk>a \<le> x; x < a + length bs\<rbrakk> \<Longrightarrow> m x = 0xFF"
  shows "bytes_at (program m a bs) a (length bs) = bs"
proof (rule nth_equalityI)
  fix i assume "i < length (bytes_at (program m a bs) a (length bs))"
  then show "bytes_at (program m a bs) a (length bs) ! i = bs ! i"
    using assms [of "a + i"] by (simp add: program_def)
qed simp

lemma program_Nil [simp]: "program m a [] = m"
  by (rule ext) (auto simp: program_def)

lemma program_append: "program (program m a xs) (a + length xs) ys = program m a (xs @ ys)"
  by (rule ext) (auto simp: program_def nth_append)

lemma bit_program: "bit (program m a bs x) n \<Longrightarrow> bit (m x) n"
  by (simp add: program_def bit_and_iff split: if_splits)

text \<open>No operation fails from here on.\<close>

definition sound :: "ef_st \<Rightarrow> bool" where
  "sound e \<longleftrightarrow> (\<forall>n. fault e n = None)"

lemma ef_port_write_sound:
  "\<lbrakk>sound e; unat a + length bs \<le> 1048576\<rbrakk> \<Longrightarrow>
   ef_port_write a bs e = (EF_NO_ERR, e\<lparr>ops := ops e + 1, chip := program (chip e) (unat a) bs\<rparr>)"
  by (simp add: ef_port_write_def in_part sound_def)

lemma sound_ops [simp]: "sound (e\<lparr>ops := n\<rparr>) = sound e"
  by (simp add: sound_def)

lemma sound_chip [simp]: "sound (e\<lparr>chip := c\<rparr>) = sound e"
  by (simp add: sound_def)

section \<open>A unit as it is switched on\<close>

text \<open>A chip with any content, and the caches as they are cleared at start-up.\<close>

definition raw_unit :: "(nat \<Rightarrow> byte) \<Rightarrow> ef_st" where
  "raw_unit m = \<lparr>chip = m, ops = 0, fault = (\<lambda>_. None), stale = (\<lambda>_. 0),
     env_cache_table = replicate 16 \<lparr>name_crc = 0, active = 0, node_addr = FAILED_ADDR\<rparr>,
     sector_cache_table = replicate 4 \<lparr>sec_addr = FAILED_ADDR, empty_addr = 0\<rparr>,
     gc_request = False, in_recovery_check = False, init_ok = True, last_is_complete_del = False\<rparr>"

lemma raw_unit_sound: "sound (raw_unit m)"
  by (simp add: sound_def raw_unit_def)

end
