(* ===== verification/Ef_Status.thy ===== *)
theory Ef_Status
  imports Ef_Flash
begin

text \<open>
  The status tables of \<open>ef_env.c\<close>, with the write granularity of one bit (\<open>EF_WRITE_GRAN\<close> = 1):
  the status of a sector or an entry is the number of leading bits of a small table that have been cleared,
  so it only moves forward between two erasures, and every write leaves either the old or the new status,
  even when the chip fails in between.
\<close>



section \<open>Status tables\<close>

text \<open>With the write granularity of one bit a status is the number of leading bits that have been cleared.\<close>

definition STATUS_TABLE_SIZE :: "nat \<Rightarrow> nat" where
  "STATUS_TABLE_SIZE status_number = (status_number + 7) div 8"

definition status_bit :: "nat \<Rightarrow> byte" where
  "status_bit i = drop_bit (i mod 8) 0x80"

text \<open>\<open>None\<close> is the byte index \<open>~0UL\<close>: nothing to write.\<close>

definition set_status :: "nat \<Rightarrow> nat \<Rightarrow> byte list \<times> nat option" where
  "set_status status_num status_index =
     (let table = replicate (STATUS_TABLE_SIZE status_num) 0xFF in
      if status_index > 0 then
        let byte_index = (status_index - 1) div 8 in
        (table[byte_index := table ! byte_index AND NOT (status_bit (status_index - 1))], Some byte_index)
      else (table, None))"

fun get_status_loop :: "byte list \<Rightarrow> nat \<Rightarrow> nat \<Rightarrow> nat \<Rightarrow> nat" where
  "get_status_loop table bak 0 i = bak - i"
| "get_status_loop table bak (Suc k) i =
     (if table ! (k div 8) AND status_bit k = 0 then bak - i else get_status_loop table bak k (i + 1))"

definition get_status :: "byte list \<Rightarrow> nat \<Rightarrow> nat" where
  "get_status table status_num = get_status_loop table (status_num - 1) (status_num - 1) 0"

definition write_status :: "u32 \<Rightarrow> nat \<Rightarrow> nat \<Rightarrow> ef_st \<Rightarrow> (EfErrCode \<times> ef_st) option" where
  "write_status addr status_num status_index e =
     (if \<not> status_index < status_num then None
      else case set_status status_num status_index of
          (table, None) \<Rightarrow> Some (EF_NO_ERR, e)
        | (table, Some byte_index) \<Rightarrow>
            Some (ef_port_write (addr + of_nat byte_index) [table ! byte_index] e))"

definition read_status :: "ef_st \<Rightarrow> u32 \<Rightarrow> nat \<Rightarrow> nat" where
  "read_status e addr total_num = get_status (ef_port_read e addr (STATUS_TABLE_SIZE total_num)) total_num"

text \<open>The status is the highest position whose bit is cleared.\<close>

primrec top_cleared :: "(nat \<Rightarrow> bool) \<Rightarrow> nat \<Rightarrow> nat" where
  "top_cleared cleared 0 = 0"
| "top_cleared cleared (Suc k) = (if cleared k then Suc k else top_cleared cleared k)"

definition cleared :: "byte list \<Rightarrow> nat \<Rightarrow> bool" where
  "cleared table k \<longleftrightarrow> table ! (k div 8) AND status_bit k = 0"

lemma get_status_top: "get_status table n = top_cleared (cleared table) (n - 1)"
proof -
  have "i + k = bak \<Longrightarrow> get_status_loop table bak k i = top_cleared (cleared table) k" for bak k i
    by (induction k arbitrary: i) (auto simp: cleared_def)
  from this [of 0 "n - 1" "n - 1"] show ?thesis by (simp add: get_status_def)
qed

lemma top_cleared_le: "top_cleared p k \<le> k"
  by (induction k) auto

lemma get_status_le: "get_status table n \<le> n - 1"
  by (simp add: get_status_top top_cleared_le)

lemma top_cleared_more:
  "\<lbrakk>\<And>j. j < k \<Longrightarrow> q j \<longleftrightarrow> p j \<or> j = m\<rbrakk> \<Longrightarrow> top_cleared q k = (if m < k then max (top_cleared p k) (Suc m) else top_cleared p k)"
proof (induction k)
  case (Suc k)
  from top_cleared_le [of p k] Suc show ?case by (auto simp: max_def less_Suc_eq)
qed simp

lemma top_cleared_cong: "(\<And>j. j < k \<Longrightarrow> p j = q j) \<Longrightarrow> top_cleared p k = top_cleared q k"
  by (induction k) auto

lemma status_bit_exp: "status_bit k = 2 ^ (7 - k mod 8)"
proof -
  have "k mod 8 \<le> 7" using mod_less_divisor [of 8 k] by simp
  moreover have "(0x80 :: byte) = 2 ^ 7" by simp
  ultimately show ?thesis unfolding status_bit_def by (simp only: drop_bit_exp_eq) (simp add: possible_bit_word)
qed

lemma cleared_bit: "cleared table k \<longleftrightarrow> \<not> bit (table ! (k div 8)) (7 - k mod 8)"
  by (simp add: cleared_def status_bit_exp and_exp_eq_0_iff_not_bit)

lemma set_status_byte:
  "\<lbrakk>0 < s; s < n\<rbrakk> \<Longrightarrow>
   fst (set_status n s) ! ((s - 1) div 8) = NOT (status_bit (s - 1)) \<and> snd (set_status n s) = Some ((s - 1) div 8)"
proof -
  assume "0 < s" "s < n"
  then have "(s - 1) div 8 < STATUS_TABLE_SIZE n" by (simp add: STATUS_TABLE_SIZE_def div_le_mono less_Suc_eq_le)
  then show ?thesis using \<open>0 < s\<close> by (simp add: set_status_def Let_def)
qed

section \<open>What a write does to a status\<close>

lemma table_index: "j < n - 1 \<Longrightarrow> j div 8 < STATUS_TABLE_SIZE n"
  by (simp add: STATUS_TABLE_SIZE_def)

lemma cleared_programmed:
  assumes s: "0 < s" "s < n" and j: "j < n - 1"
  defines "k \<equiv> (s - 1) div 8"
  shows "cleared (bytes_at (program m (a + k) [NOT (status_bit (s - 1))]) a (STATUS_TABLE_SIZE n)) j
    \<longleftrightarrow> cleared (bytes_at m a (STATUS_TABLE_SIZE n)) j \<or> j = s - 1"
proof -
  have idx: "j div 8 < STATUS_TABLE_SIZE n" using j by (rule table_index)
  have eq: "j = s - 1 \<longleftrightarrow> j div 8 = k \<and> j mod 8 = (s - 1) mod 8"
    unfolding k_def by (metis div_mult_mod_eq)
  show ?thesis
  proof (cases "j div 8 = k")
    case True
    have "j mod 8 < 8" "(s - 1) mod 8 < 8" by simp_all
    then have "7 - j mod 8 = 7 - (s - 1) mod 8 \<longleftrightarrow> j mod 8 = (s - 1) mod 8" by linarith
    with True idx show ?thesis unfolding eq
      by (auto simp: cleared_bit program_def bit_and_iff bit_not_iff status_bit_exp bit_exp_iff)
  next
    case False
    with idx show ?thesis unfolding eq by (auto simp: cleared_bit program_def)
  qed
qed

lemma read_status_in:
  "unat a + STATUS_TABLE_SIZE n \<le> 1048576 \<Longrightarrow>
   read_status e a n = get_status (bytes_at (chip e) (unat a) (STATUS_TABLE_SIZE n)) n"
  by (simp add: read_status_def ef_port_read_in)

lemma get_status_programmed:
  assumes "0 < s" "s < n"
  shows "get_status (bytes_at (program m (a + (s - 1) div 8) [NOT (status_bit (s - 1))]) a (STATUS_TABLE_SIZE n)) n
    = max (get_status (bytes_at m a (STATUS_TABLE_SIZE n)) n) s"
proof -
  have "s - 1 < n - 1" "Suc (s - 1) = s" using assms by linarith+
  with top_cleared_more [OF cleared_programmed [OF assms]] show ?thesis by (simp add: get_status_top)
qed

lemma write_status_sound:
  assumes "sound e" "0 < s" "s < n" "unat a + STATUS_TABLE_SIZE n \<le> 1048576"
  shows "write_status a n s e = Some (EF_NO_ERR, e\<lparr>ops := ops e + 1,
    chip := program (chip e) (unat a + (s - 1) div 8) [NOT (status_bit (s - 1))]\<rparr>)"
proof -
  have "(s - 1) div 8 < STATUS_TABLE_SIZE n" using assms by (intro table_index) simp
  with assms have "unat (a + of_nat ((s - 1) div 8) :: u32) = unat a + (s - 1) div 8" "unat a + (s - 1) div 8 + 1 \<le> 1048576"
    by (simp_all add: unat_add_small)
  with assms set_status_byte [of s n] show ?thesis
    by (auto simp: write_status_def ef_port_write_sound case_prod_beta split: option.split)
qed

text \<open>
  C33. A status only moves forward, and a write is atomic: whatever happens to the chip, the status read afterwards
  is the old one or the greater of old and new, it is the latter when the write reports success, and no byte
  outside the table changes.
\<close>

theorem status_write_atomic:
  assumes s: "s < n" and a: "unat a + STATUS_TABLE_SIZE n \<le> 1048576"
  shows "\<exists>r e'. write_status a n s e = Some (r, e') \<and>
    (if r = EF_NO_ERR then read_status e' a n = max (read_status e a n) s
     else read_status e' a n \<in> {read_status e a n, max (read_status e a n) s}) \<and>
    (\<forall>x. x < unat a \<or> unat a + STATUS_TABLE_SIZE n \<le> x \<longrightarrow> chip e' x = chip e x)"
proof (cases "s = 0")
  case True
  with s show ?thesis by (simp add: write_status_def set_status_def)
next
  case False
  define k where "k = (s - 1) div 8"
  define b where "b = NOT (status_bit (s - 1))"
  have k: "k < STATUS_TABLE_SIZE n" using s False by (auto simp: k_def intro: table_index)
  with a have ua: "unat (a + of_nat k :: u32) = unat a + k" by (simp add: unat_add_small)
  have w: "write_status a n s e = Some (ef_port_write (a + of_nat k) [b] e)"
    using s False set_status_byte [of s n] by (auto simp: write_status_def k_def b_def case_prod_beta split: option.split)
  have one: "get_status (bytes_at (program (chip e) (unat a + k) [b]) (unat a) (STATUS_TABLE_SIZE n)) n
      = max (read_status e a n) s"
    using get_status_programmed [of s n] s False a by (simp add: k_def b_def read_status_in)
  have out: "program (chip e) (unat a + k) [b] x = chip e x" if "x < unat a \<or> unat a + STATUS_TABLE_SIZE n \<le> x" for x
    using that k by (intro program_outside) auto
  have rd: "read_status e' a n = get_status (bytes_at (chip e') (unat a) (STATUS_TABLE_SIZE n)) n" for e'
    using a by (rule read_status_in)
  have "unat (a + of_nat k :: u32) + 1 \<le> 1048576" using ua k a by simp
  then have in_p: "\<not> part_len < (a + of_nat k) + of_nat (1 :: nat)" by (rule in_part)
  show ?thesis
  proof (cases "fault e (ops e)")
    case None
    with w one out in_p show ?thesis by (simp add: rd ef_port_write_def ua)
  next
    case (Some q)
    have "take q [b] = [] \<or> take q [b] = [b]" by (cases q) auto
    with Some w one out in_p show ?thesis
      by (auto simp: rd ef_port_write_def ua)
  qed
qed

lemma status_write_atomic_witness:
  "\<exists>r e'. write_status 8 6 2 ((raw_unit (\<lambda>_. 0x7F))\<lparr>fault := (\<lambda>_. Some 0)\<rparr>) = Some (r, e') \<and>
    read_status e' 8 6 \<in> {1, 2}"
proof -
  define e where "e = (raw_unit (\<lambda>_. 0x7F))\<lparr>fault := (\<lambda>_. Some 0)\<rparr>"
  have small: "unat (8 :: u32) + STATUS_TABLE_SIZE 6 \<le> 1048576" by (simp add: STATUS_TABLE_SIZE_def)
  have "get_status [0x7F] 6 = 1" by code_simp
  then have rd: "read_status e 8 6 = 1"
    by (simp add: read_status_in STATUS_TABLE_SIZE_def bytes_at_def e_def raw_unit_def)
  have "(2 :: nat) < 6" by simp
  from status_write_atomic [OF this small, of e] obtain r e' where w: "write_status 8 6 2 e = Some (r, e')"
    "if r = EF_NO_ERR then read_status e' 8 6 = max 1 2 else read_status e' 8 6 \<in> {1, max 1 2}"
    unfolding rd by blast
  then have "read_status e' 8 6 \<in> {1, 2}" by (auto split: if_splits)
  with w(1) show ?thesis unfolding e_def by blast
qed

end
