(* ===== verification/Ef_Cache.thy ===== *)
theory Ef_Cache
  imports Ef_Status
begin

text \<open>
  The two caches of \<open>ef_env.c\<close>: where the free space of a sector in use begins, and where the entry of a
  name lies. The first is a map on sectors that always has room for all of them; the second is keyed by 16 bits
  of the check sum of the name and evicts the least active entry. A name is a list of bytes.
\<close>

definition EF_SECTOR_CACHE_TABLE_SIZE :: nat where "EF_SECTOR_CACHE_TABLE_SIZE = 4"
definition EF_ENV_CACHE_TABLE_SIZE :: nat where "EF_ENV_CACHE_TABLE_SIZE = 16"
definition EF_ENV_NAME_MAX :: nat where "EF_ENV_NAME_MAX = 32"

section \<open>The sector cache\<close>

text \<open>The loop returns early when it finds the sector; \<open>empty_index\<close> is the first free place, or the size.\<close>

function update_sector_loop ::
    "u32 \<Rightarrow> u32 \<Rightarrow> nat \<Rightarrow> nat \<Rightarrow> sector_cache_node list \<Rightarrow> sector_cache_node list" where
  "update_sector_loop sec emp i empty_index table =
     (if i < EF_SECTOR_CACHE_TABLE_SIZE then
        if emp > sec \<and> emp < sec + SECTOR_SIZE then
          if sec_addr (table ! i) = sec then table[i := \<lparr>sec_addr = sec, empty_addr = emp\<rparr>]
          else if sec_addr (table ! i) = FAILED_ADDR \<and> empty_index = EF_SECTOR_CACHE_TABLE_SIZE
          then update_sector_loop sec emp (i + 1) i table
          else update_sector_loop sec emp (i + 1) empty_index table
        else if sec_addr (table ! i) = sec then table[i := (table ! i)\<lparr>sec_addr := FAILED_ADDR\<rparr>]
        else update_sector_loop sec emp (i + 1) empty_index table
      else if empty_index < EF_SECTOR_CACHE_TABLE_SIZE
      then table[empty_index := \<lparr>sec_addr = sec, empty_addr = emp\<rparr>]
      else table)"
  by pat_completeness auto
termination by (relation "measure (\<lambda>(sec, emp, i, ei, t). EF_SECTOR_CACHE_TABLE_SIZE - i)") auto

declare update_sector_loop.simps [simp del]

definition update_sector_cache :: "u32 \<Rightarrow> u32 \<Rightarrow> ef_st \<Rightarrow> ef_st" where
  "update_sector_cache sec emp e =
     e\<lparr>sector_cache_table := update_sector_loop sec emp 0 EF_SECTOR_CACHE_TABLE_SIZE (sector_cache_table e)\<rparr>"

definition get_sector_from_cache :: "ef_st \<Rightarrow> u32 \<Rightarrow> u32 option" where
  "get_sector_from_cache e sec =
     map_option empty_addr (List.find (\<lambda>n. sec_addr n = sec) (sector_cache_table e))"

section \<open>The cache of entries\<close>

text \<open>The high half of the check sum of the name.\<close>

definition name_hash :: "byte list \<Rightarrow> u16" where
  "name_hash name = ucast (drop_bit 16 (ef_calc_crc32 0 name))"

record cache_scan =
  empty_index :: nat
  min_activity_index :: nat
  min_activity :: u16

text \<open>One turn of the loop of \<open>update_env_cache\<close>: \<open>Inl\<close> is the early return.\<close>

definition age :: "env_cache_node \<Rightarrow> env_cache_node" where
  "age n = (if active n > 0 then n\<lparr>active := active n - 1\<rparr> else n)"

fun update_env_loop ::
    "u16 \<Rightarrow> u32 \<Rightarrow> nat list \<Rightarrow> cache_scan \<Rightarrow> env_cache_node list \<Rightarrow> env_cache_node list" where
  "update_env_loop crc addr (i # is) s table =
     (if addr \<noteq> FAILED_ADDR then
        if name_crc (table ! i) = crc then table[i := (table ! i)\<lparr>node_addr := addr\<rparr>]
        else if node_addr (table ! i) = FAILED_ADDR \<and> empty_index s = EF_ENV_CACHE_TABLE_SIZE
        then update_env_loop crc addr is (s\<lparr>empty_index := i\<rparr>) table
        else if node_addr (table ! i) \<noteq> FAILED_ADDR then
          let n = age (table ! i);
              s = (if active n < min_activity s then s\<lparr>min_activity_index := i, min_activity := active n\<rparr> else s)
          in update_env_loop crc addr is s (table[i := n])
        else update_env_loop crc addr is s table
      else if name_crc (table ! i) = crc then table[i := (table ! i)\<lparr>node_addr := FAILED_ADDR, active := 0\<rparr>]
      else update_env_loop crc addr is s table)"
| "update_env_loop crc addr [] s table =
     (let new = \<lparr>name_crc = crc, active = 0, node_addr = addr\<rparr> in
      if empty_index s < EF_ENV_CACHE_TABLE_SIZE then table[empty_index s := new]
      else if min_activity_index s < EF_ENV_CACHE_TABLE_SIZE then table[min_activity_index s := new]
      else table)"

definition update_env_cache :: "byte list \<Rightarrow> u32 \<Rightarrow> ef_st \<Rightarrow> ef_st" where
  "update_env_cache name addr e =
     e\<lparr>env_cache_table := update_env_loop (name_hash name) addr [0..<EF_ENV_CACHE_TABLE_SIZE]
        \<lparr>empty_index = EF_ENV_CACHE_TABLE_SIZE, min_activity_index = EF_ENV_CACHE_TABLE_SIZE, min_activity = 0xFFFF\<rparr>
        (env_cache_table e)\<rparr>"

definition ENV_HDR_DATA_SIZE :: u32 where "ENV_HDR_DATA_SIZE = 24"

definition more_active :: "env_cache_node \<Rightarrow> env_cache_node" where
  "more_active n = n\<lparr>active := (if active n \<ge> 0xFFFF - 16 then 0xFFFF else active n + 16)\<rparr>"

text \<open>Only as many characters as the searched name has are compared.\<close>

definition cache_hit :: "ef_st \<Rightarrow> byte list \<Rightarrow> env_cache_node \<Rightarrow> bool" where
  "cache_hit e name n \<longleftrightarrow> node_addr n \<noteq> FAILED_ADDR \<and> name_crc n = name_hash name \<and>
     take (length name) (ef_port_read e (node_addr n + ENV_HDR_DATA_SIZE) EF_ENV_NAME_MAX) = name"

definition get_env_from_cache :: "byte list \<Rightarrow> ef_st \<Rightarrow> u32 option \<times> ef_st" where
  "get_env_from_cache name e =
     (case List.find (\<lambda>i. cache_hit e name (env_cache_table e ! i)) [0..<EF_ENV_CACHE_TABLE_SIZE] of
        Some i \<Rightarrow> (Some (node_addr (env_cache_table e ! i)),
          e\<lparr>env_cache_table := (env_cache_table e)[i := more_active (env_cache_table e ! i)]\<rparr>)
      | None \<Rightarrow> (None, e))"

section \<open>The sector cache is a map on sectors\<close>

definition sectors :: "u32 list" where
  "sectors = [0, 4096, 8192, 12288]"

abbreviation SEC_NUM :: nat where "SEC_NUM \<equiv> EF_SECTOR_CACHE_TABLE_SIZE"

text \<open>Every place is free or holds a sector of its own.\<close>

definition sector_cache_ok :: "sector_cache_node list \<Rightarrow> bool" where
  "sector_cache_ok t \<longleftrightarrow> length t = SEC_NUM \<and>
     (\<forall>i < SEC_NUM. sec_addr (t ! i) \<in> insert FAILED_ADDR (set sectors)) \<and>
     (\<forall>i < SEC_NUM. \<forall>j < SEC_NUM. sec_addr (t ! i) = sec_addr (t ! j) \<longrightarrow> i = j \<or> sec_addr (t ! i) = FAILED_ADDR)"

definition cached_sector :: "sector_cache_node list \<Rightarrow> u32 \<Rightarrow> u32 option" where
  "cached_sector t s = map_option empty_addr (List.find (\<lambda>n. sec_addr n = s) t)"

lemma sector_not_failed: "s \<in> set sectors \<Longrightarrow> s \<noteq> FAILED_ADDR"
  by (auto simp: sectors_def FAILED_ADDR_def)

lemma find_upt_Some: "List.find P [i..<n] = Some j \<longleftrightarrow> i \<le> j \<and> j < n \<and> P j \<and> (\<forall>k. i \<le> k \<and> k < j \<longrightarrow> \<not> P k)"
proof (induction "n - i" arbitrary: i)
  case (Suc d)
  then have "i < n" "d = n - Suc i" by simp_all
  with Suc.hyps(1) [of "Suc i"] show ?case
    by (auto simp: upt_conv_Cons Suc_le_eq) (metis le_neq_implies_less not_less_eq_eq Suc_le_eq)+
qed auto

lemma find_upt_None: "List.find P [i..<n] = None \<longleftrightarrow> (\<forall>k. i \<le> k \<and> k < n \<longrightarrow> \<not> P k)"
  by (auto simp: find_None_iff)

lemma cached_sector_nth:
  assumes "sector_cache_ok t" "s \<noteq> FAILED_ADDR"
  shows "cached_sector t s = Some x \<longleftrightarrow> (\<exists>i < SEC_NUM. sec_addr (t ! i) = s \<and> empty_addr (t ! i) = x)"
proof -
  have "List.find (\<lambda>n. sec_addr n = s) t = Some n \<longleftrightarrow> (\<exists>i < SEC_NUM. sec_addr (t ! i) = s \<and> t ! i = n)" for n
    using assms by (auto simp: find_Some_iff sector_cache_ok_def) (metis less_trans nat_neq_iff)+
  then show ?thesis by (auto simp: cached_sector_def)
qed

text \<open>A sector that is missing leaves a place free.\<close>

lemma place_left:
  assumes "sector_cache_ok t" "s \<in> set sectors" "\<forall>i < SEC_NUM. sec_addr (t ! i) \<noteq> s"
  shows "\<exists>i < SEC_NUM. sec_addr (t ! i) = FAILED_ADDR"
proof (rule ccontr)
  assume no: "\<not> (\<exists>i < SEC_NUM. sec_addr (t ! i) = FAILED_ADDR)"
  then have "inj_on (\<lambda>i. sec_addr (t ! i)) {..<SEC_NUM}" "(\<lambda>i. sec_addr (t ! i)) ` {..<SEC_NUM} \<subseteq> set sectors - {s}"
    using assms by (auto simp: inj_on_def sector_cache_ok_def)
  then have "card {..<SEC_NUM} \<le> card (set sectors - {s})" by (metis card_inj_on_le List.finite_set finite_Diff)
  with assms(2) show False by (auto simp: sectors_def card_insert_if EF_SECTOR_CACHE_TABLE_SIZE_def)
qed

text \<open>Changing one place.\<close>

lemma place_update:
  assumes "sector_cache_ok t" "i < SEC_NUM" "sec_addr n \<in> insert FAILED_ADDR (set sectors)"
    "\<forall>j < SEC_NUM. j \<noteq> i \<longrightarrow> sec_addr (t ! j) \<noteq> sec_addr n \<or> sec_addr n = FAILED_ADDR"
  shows "sector_cache_ok (t[i := n])"
    "s \<noteq> FAILED_ADDR \<Longrightarrow> cached_sector (t[i := n]) s =
      (if s = sec_addr n then Some (empty_addr n) else if s = sec_addr (t ! i) then None else cached_sector t s)"
proof -
  show ok: "sector_cache_ok (t[i := n])" using assms by (auto simp: sector_cache_ok_def nth_list_update)
  assume s: "s \<noteq> FAILED_ADDR"
  have nth: "t[i := n] ! j = (if j = i then n else t ! j)" for j
    using assms(1,2) by (simp add: sector_cache_ok_def nth_list_update)
  have mine: "sec_addr (t ! j) \<noteq> s" if "s = sec_addr (t ! i)" "j \<noteq> i" "j < SEC_NUM" for j
    using that assms(1,2) s by (auto simp: sector_cache_ok_def)
  have new: "sec_addr (t ! j) \<noteq> s" if "s = sec_addr n" "j \<noteq> i" "j < SEC_NUM" for j
    using that assms(4) s by auto
  have "cached_sector (t[i := n]) s = Some x \<longleftrightarrow>
      (\<exists>j < SEC_NUM. j \<noteq> i \<and> sec_addr (t ! j) = s \<and> empty_addr (t ! j) = x) \<or> sec_addr n = s \<and> empty_addr n = x" for x
    unfolding cached_sector_nth [OF ok s] nth using assms(2) by auto
  then have "cached_sector (t[i := n]) s = Some x \<longleftrightarrow>
      (if s = sec_addr n then Some (empty_addr n) else if s = sec_addr (t ! i) then None else cached_sector t s) = Some x" for x
    using new mine cached_sector_nth [OF assms(1) s, of x] by (cases "s = sec_addr n"; cases "s = sec_addr (t ! i)") auto
  then show "cached_sector (t[i := n]) s =
      (if s = sec_addr n then Some (empty_addr n) else if s = sec_addr (t ! i) then None else cached_sector t s)"
    by (metis option.exhaust)
qed

text \<open>What the loop does: it changes the sector's place, or else takes the first free one.\<close>

lemma update_sector_in:
  assumes "emp > sec \<and> emp < sec + SECTOR_SIZE" "i \<le> SEC_NUM" "e0 \<le> SEC_NUM"
  shows "update_sector_loop sec emp i e0 t =
    (let new = \<lparr>sec_addr = sec, empty_addr = emp\<rparr> in
     case List.find (\<lambda>i. sec_addr (t ! i) = sec) [i..<SEC_NUM] of
       Some j \<Rightarrow> t[j := new]
     | None \<Rightarrow> (case (if e0 < SEC_NUM then Some e0 else List.find (\<lambda>i. sec_addr (t ! i) = FAILED_ADDR) [i..<SEC_NUM]) of
         Some j \<Rightarrow> t[j := new] | None \<Rightarrow> t))"
  using assms(2,3)
proof (induction i arbitrary: e0 rule: inc_induct)
  case base
  then show ?case using assms(1) by (simp add: update_sector_loop.simps [of _ _ SEC_NUM])
next
  case (step i)
  have up: "[i..<SEC_NUM] = i # [Suc i..<SEC_NUM]" using step.hyps by (simp add: upt_conv_Cons)
  show ?case
    using step.IH [of e0] step.IH [of i] step.hyps step.prems assms(1)
    unfolding up by (subst update_sector_loop.simps) (auto simp: Let_def split: option.split)
qed

lemma update_sector_out:
  assumes "\<not> (emp > sec \<and> emp < sec + SECTOR_SIZE)" "i \<le> SEC_NUM"
  shows "update_sector_loop sec emp i SEC_NUM t =
    (case List.find (\<lambda>i. sec_addr (t ! i) = sec) [i..<SEC_NUM] of
       Some j \<Rightarrow> t[j := (t ! j)\<lparr>sec_addr := FAILED_ADDR\<rparr>] | None \<Rightarrow> t)"
  using assms(2)
proof (induction i rule: inc_induct)
  case base
  then show ?case using assms(1) by (simp add: update_sector_loop.simps [of _ _ SEC_NUM])
next
  case (step i)
  have up: "[i..<SEC_NUM] = i # [Suc i..<SEC_NUM]" using step.hyps by (simp add: upt_conv_Cons)
  show ?case
    using step.IH step.hyps assms(1) by (subst update_sector_loop.simps) (auto simp: up)
qed

text \<open>
  Writing a sector into the cache makes the cache give the written address for it, when that lies inside the
  sector, and forgets it otherwise; the other sectors keep what they had.
\<close>

lemma update_sector_cache_map:
  assumes ok: "sector_cache_ok (sector_cache_table e)" and sec: "sec \<in> set sectors"
  shows "sector_cache_ok (sector_cache_table (update_sector_cache sec emp e)) \<and>
    (s \<noteq> FAILED_ADDR \<longrightarrow> get_sector_from_cache (update_sector_cache sec emp e) s =
      (if s = sec then (if emp > sec \<and> emp < sec + SECTOR_SIZE then Some emp else None)
       else get_sector_from_cache e s))"
proof -
  let ?t = "sector_cache_table e" and ?in = "emp > sec \<and> emp < sec + SECTOR_SIZE"
  have nf: "sec \<noteq> FAILED_ADDR" using sec by (rule sector_not_failed)
  have none: "cached_sector ?t sec = None" if "\<forall>i < SEC_NUM. sec_addr (?t ! i) \<noteq> sec"
    using that cached_sector_nth [OF ok nf] by (metis option.exhaust)
  have look: "get_sector_from_cache e' = cached_sector (sector_cache_table e')" for e'
    by (rule ext) (simp add: get_sector_from_cache_def cached_sector_def)
  show ?thesis
  proof (cases "List.find (\<lambda>i. sec_addr (?t ! i) = sec) [0..<SEC_NUM]")
    case (Some j)
    then have j: "j < SEC_NUM" "sec_addr (?t ! j) = sec" by (simp_all add: find_upt_Some)
    then have other: "\<forall>k < SEC_NUM. k \<noteq> j \<longrightarrow> sec_addr (?t ! k) \<noteq> sec" using ok nf by (auto simp: sector_cache_ok_def)
    show ?thesis
    proof (cases ?in)
      case True
      with Some show ?thesis using place_update [OF ok j(1), of "\<lparr>sec_addr = sec, empty_addr = emp\<rparr>"] other sec j
        by (simp add: update_sector_cache_def update_sector_in [OF True] look)
    next
      case False
      with Some show ?thesis using place_update [OF ok j(1), of "(?t ! j)\<lparr>sec_addr := FAILED_ADDR\<rparr>"] other sec j
        by (auto simp: update_sector_cache_def update_sector_out [OF False] look)
    qed
  next
    case None
    then have no: "\<forall>i < SEC_NUM. sec_addr (?t ! i) \<noteq> sec" by (simp add: find_upt_None)
    from place_left [OF ok sec no] have "List.find (\<lambda>i. sec_addr (?t ! i) = FAILED_ADDR) [0..<SEC_NUM] \<noteq> None"
      unfolding find_upt_None by blast
    then obtain f where f: "List.find (\<lambda>i. sec_addr (?t ! i) = FAILED_ADDR) [0..<SEC_NUM] = Some f"
      by blast
    then have "f < SEC_NUM" "sec_addr (?t ! f) = FAILED_ADDR" by (simp_all add: find_upt_Some)
    then show ?thesis
    proof (cases ?in)
      case True
      have "update_sector_loop sec emp 0 SEC_NUM ?t = ?t[f := \<lparr>sec_addr = sec, empty_addr = emp\<rparr>]"
        by (simp add: update_sector_in [OF True] None f)
      moreover note place_update [OF ok \<open>f < SEC_NUM\<close>, of "\<lparr>sec_addr = sec, empty_addr = emp\<rparr>"]
      ultimately show ?thesis using sec no True \<open>sec_addr (?t ! f) = FAILED_ADDR\<close>
        by (simp add: update_sector_cache_def look)
    next
      case False
      have "update_sector_loop sec emp 0 SEC_NUM ?t = ?t" by (simp add: update_sector_out [OF False] None)
      then show ?thesis using ok none [OF no] False by (auto simp: update_sector_cache_def look)
    qed
  qed
qed

section \<open>The cache of entries is a map from hashes\<close>

text \<open>What matters of a place; the activity only decides which one is given up.\<close>

definition places :: "env_cache_node list \<Rightarrow> (u16 \<times> u32) list" where
  "places t = map (\<lambda>n. (name_crc n, node_addr n)) t"

lemma age_fields [simp]: "name_crc (age n) = name_crc n" "node_addr (age n) = node_addr n"
  by (simp_all add: age_def)

lemma length_places [simp]: "length (places t) = length t"
  by (simp add: places_def)

lemma nth_places [simp]: "i < length t \<Longrightarrow> places t ! i = (name_crc (t ! i), node_addr (t ! i))"
  by (simp add: places_def)

lemma places_update: "places (t[i := n]) = (places t)[i := (name_crc n, node_addr n)]"
  by (simp add: places_def map_update)

lemma places_same [simp]:
  "\<lbrakk>i < length t; name_crc n = name_crc (t ! i); node_addr n = node_addr (t ! i)\<rbrakk> \<Longrightarrow> places (t[i := n]) = places t"
  unfolding places_update by (metis length_places list_update_id nth_places)

lemma update_env_loop_turn:
  assumes "i < length t" "name_crc (t ! i) \<noteq> crc"
    "addr = FAILED_ADDR \<longrightarrow> empty_index s = EF_ENV_CACHE_TABLE_SIZE \<and> min_activity_index s = EF_ENV_CACHE_TABLE_SIZE"
  obtains s' t' where "update_env_loop crc addr (i # is) s t = update_env_loop crc addr is s' t'"
    "places t' = places t"
    "addr = FAILED_ADDR \<longrightarrow> empty_index s' = EF_ENV_CACHE_TABLE_SIZE \<and> min_activity_index s' = EF_ENV_CACHE_TABLE_SIZE"
proof (cases "addr = FAILED_ADDR")
  case True
  with assms show ?thesis by (intro that [of s t]) simp_all
next
  case False
  consider "node_addr (t ! i) = FAILED_ADDR \<and> empty_index s = EF_ENV_CACHE_TABLE_SIZE"
    | "node_addr (t ! i) \<noteq> FAILED_ADDR"
    | "node_addr (t ! i) = FAILED_ADDR \<and> empty_index s \<noteq> EF_ENV_CACHE_TABLE_SIZE" by blast
  then show ?thesis
  proof cases
    case 1
    with False assms show ?thesis by (intro that [of "s\<lparr>empty_index := i\<rparr>" t]) simp_all
  next
    case 2
    with False assms show ?thesis by (intro that [OF _ places_same [of i t "age (t ! i)"]]) (simp_all add: Let_def)
  next
    case 3
    with False assms show ?thesis by (intro that [of s t]) simp_all
  qed
qed

text \<open>The loop changes the place of the hash, or else puts the entry into one other place, or changes none.\<close>

lemma update_env_loop_places:
  "\<lbrakk>set is \<subseteq> {..<length t};
    addr = FAILED_ADDR \<longrightarrow> empty_index s = EF_ENV_CACHE_TABLE_SIZE \<and> min_activity_index s = EF_ENV_CACHE_TABLE_SIZE\<rbrakk> \<Longrightarrow>
   case List.find (\<lambda>i. fst (places t ! i) = crc) is of
     Some i \<Rightarrow> places (update_env_loop crc addr is s t) = (places t)[i := (crc, addr)]
   | None \<Rightarrow> places (update_env_loop crc addr is s t) = places t \<or>
       addr \<noteq> FAILED_ADDR \<and> (\<exists>k < EF_ENV_CACHE_TABLE_SIZE. places (update_env_loop crc addr is s t) = (places t)[k := (crc, addr)])"
proof (induction "is" arbitrary: s t)
  case Nil
  then show ?case by (auto simp: Let_def places_update)
next
  case (Cons i "is")
  show ?case
  proof (cases "name_crc (t ! i) = crc")
    case True
    with Cons.prems show ?thesis by (simp add: places_update)
  next
    case False
    from Cons.prems have "i < length t" by simp
    from update_env_loop_turn [OF this False Cons.prems(2), of "is"] obtain s' t'
      where l: "update_env_loop crc addr (i # is) s t = update_env_loop crc addr is s' t'" "places t' = places t"
        "addr = FAILED_ADDR \<longrightarrow> empty_index s' = EF_ENV_CACHE_TABLE_SIZE \<and> min_activity_index s' = EF_ENV_CACHE_TABLE_SIZE" .
    have "length t' = length t" using l(2) by (metis length_places)
    then show ?thesis using Cons.IH [of t' s'] Cons.prems l False
      by (cases "List.find (\<lambda>i. fst (places t ! i) = crc) is") (simp_all del: update_env_loop.simps)
  qed
qed

text \<open>A live entry is the first with its hash.\<close>

definition env_cache_ok :: "env_cache_node list \<Rightarrow> bool" where
  "env_cache_ok t \<longleftrightarrow> length t = EF_ENV_CACHE_TABLE_SIZE \<and>
     (\<forall>i < EF_ENV_CACHE_TABLE_SIZE. node_addr (t ! i) \<noteq> FAILED_ADDR \<longrightarrow> (\<forall>j < i. name_crc (t ! j) \<noteq> name_crc (t ! i)))"

definition cached_env :: "env_cache_node list \<Rightarrow> u16 \<Rightarrow> u32 option" where
  "cached_env t h = map_option node_addr
     (List.find (\<lambda>n. node_addr n \<noteq> FAILED_ADDR \<and> name_crc n = h) t)"

lemma cached_env_nth:
  assumes "env_cache_ok t"
  shows "cached_env t h = Some a \<longleftrightarrow>
    (\<exists>i < EF_ENV_CACHE_TABLE_SIZE. name_crc (t ! i) = h \<and> node_addr (t ! i) = a \<and> a \<noteq> FAILED_ADDR)"
proof -
  have "cached_env t h = Some a \<longleftrightarrow> (\<exists>i < length t. name_crc (t ! i) = h \<and> node_addr (t ! i) = a \<and> a \<noteq> FAILED_ADDR \<and>
      (\<forall>j < i. \<not> (node_addr (t ! j) \<noteq> FAILED_ADDR \<and> name_crc (t ! j) = h)))"
    by (auto simp: cached_env_def find_Some_iff)
  also have "\<dots> \<longleftrightarrow> (\<exists>i < EF_ENV_CACHE_TABLE_SIZE. name_crc (t ! i) = h \<and> node_addr (t ! i) = a \<and> a \<noteq> FAILED_ADDR)"
    using assms unfolding env_cache_ok_def by fastforce
  finally show ?thesis .
qed

lemma places_nth_eq:
  "\<lbrakk>places t' = (places t)[k := (crc, addr)]; j < length t\<rbrakk> \<Longrightarrow>
   name_crc (t' ! j) = (if j = k then crc else name_crc (t ! j)) \<and>
   node_addr (t' ! j) = (if j = k then addr else node_addr (t ! j))"
proof -
  assume e: "places t' = (places t)[k := (crc, addr)]" and j: "j < length t"
  then have "length t' = length t" by (metis length_list_update length_places)
  with e j have "(name_crc (t' ! j), node_addr (t' ! j)) = (places t)[k := (crc, addr)] ! j" by (metis nth_places)
  with j show ?thesis by (cases "j = k") simp_all
qed

lemma env_cache_place:
  assumes ok: "env_cache_ok t" and t': "places t' = (places t)[k := (crc, addr)]" and k: "k < EF_ENV_CACHE_TABLE_SIZE"
    and own: "(name_crc (t ! k) = crc \<and> (\<forall>j < k. name_crc (t ! j) \<noteq> crc)) \<or> (\<forall>j < EF_ENV_CACHE_TABLE_SIZE. name_crc (t ! j) \<noteq> crc)"
  shows "env_cache_ok t'"
    and "cached_env t' h = Some a \<Longrightarrow> if h = crc then a = addr else cached_env t h = Some a"
    and "addr = FAILED_ADDR \<Longrightarrow> name_crc (t ! k) = crc \<Longrightarrow> h \<noteq> crc \<Longrightarrow> cached_env t' h = cached_env t h"
    and "addr = FAILED_ADDR \<Longrightarrow> cached_env t' crc = None"
proof -
  have len: "length t = EF_ENV_CACHE_TABLE_SIZE" using ok by (simp add: env_cache_ok_def)
  have len': "length t' = EF_ENV_CACHE_TABLE_SIZE" using t' len by (metis length_list_update length_places)
  have nth: "name_crc (t' ! j) = (if j = k then crc else name_crc (t ! j))"
      "node_addr (t' ! j) = (if j = k then addr else node_addr (t ! j))" if "j < EF_ENV_CACHE_TABLE_SIZE" for j
    using places_nth_eq [OF t'] that len by auto
  have first: "name_crc (t ! j) \<noteq> name_crc (t ! i)"
    if "i < EF_ENV_CACHE_TABLE_SIZE" "node_addr (t ! i) \<noteq> FAILED_ADDR" "j < i" for i j
    using ok that by (simp add: env_cache_ok_def)
  have after: "name_crc (t ! i) \<noteq> crc" if "i < EF_ENV_CACHE_TABLE_SIZE" "node_addr (t ! i) \<noteq> FAILED_ADDR" "i \<noteq> k" for i
    using own first [of i k] that by (cases "i < k") auto
  have own': "name_crc (t ! j) \<noteq> crc" if "j < k" for j
    using own that less_trans [OF that k] by blast
  show ok': "env_cache_ok t'"
    unfolding env_cache_ok_def
  proof (intro conjI allI impI len')
    fix i j assume i: "i < EF_ENV_CACHE_TABLE_SIZE" "node_addr (t' ! i) \<noteq> FAILED_ADDR" "j < i"
    then have j: "j < EF_ENV_CACHE_TABLE_SIZE" by simp
    show "name_crc (t' ! j) \<noteq> name_crc (t' ! i)"
    proof (cases "i = k")
      case True
      with i(3) own' [of j] nth [OF i(1)] nth [OF j] show ?thesis by simp
    next
      case False
      then have "node_addr (t ! i) \<noteq> FAILED_ADDR" using i(2) nth [OF i(1)] by simp
      with False first [OF i(1) _ i(3)] after [OF i(1)] nth [OF i(1)] nth [OF j] show ?thesis by simp
    qed
  qed
  note look = cached_env_nth [OF ok] and look' = cached_env_nth [OF ok']
  have old: "cached_env t' h = Some a \<longleftrightarrow> (h = crc \<and> a = addr \<and> a \<noteq> FAILED_ADDR) \<or>
      (\<exists>i < EF_ENV_CACHE_TABLE_SIZE. i \<noteq> k \<and> name_crc (t ! i) = h \<and> node_addr (t ! i) = a \<and> a \<noteq> FAILED_ADDR)" for h a
    unfolding look' using nth k by (auto split: if_splits)
  show "cached_env t' h = Some a \<Longrightarrow> if h = crc then a = addr else cached_env t h = Some a"
  proof -
    assume "cached_env t' h = Some a"
    then consider "h = crc \<and> a = addr"
      | i where "i < EF_ENV_CACHE_TABLE_SIZE" "i \<noteq> k" "name_crc (t ! i) = h" "node_addr (t ! i) = a" "a \<noteq> FAILED_ADDR"
      unfolding old by blast
    then show "if h = crc then a = addr else cached_env t h = Some a"
    proof cases
      case 2
      have "h \<noteq> crc" using after [OF 2(1)] 2 by simp
      moreover have "cached_env t h = Some a" unfolding look using 2 by blast
      ultimately show ?thesis by simp
    qed simp
  qed
  show "cached_env t' crc = None" if "addr = FAILED_ADDR"
  proof (cases "cached_env t' crc")
    case (Some a)
    with that obtain i where "i < EF_ENV_CACHE_TABLE_SIZE" "i \<noteq> k" "name_crc (t ! i) = crc" "node_addr (t ! i) \<noteq> FAILED_ADDR"
      unfolding old by blast
    with after show ?thesis by blast
  qed
  show "cached_env t' h = cached_env t h" if "addr = FAILED_ADDR" "name_crc (t ! k) = crc" "h \<noteq> crc"
  proof -
    have "cached_env t' h = Some x \<longleftrightarrow> cached_env t h = Some x" for x
      unfolding old look using that by blast
    then show ?thesis by (metis option.exhaust)
  qed
qed

lemma same_places:
  assumes ok: "env_cache_ok t" and p: "places t' = places t"
  shows "env_cache_ok t' \<and> cached_env t' = cached_env t"
proof -
  have len: "length t' = length t" using p by (metis length_places)
  have nth: "name_crc (t' ! j) = name_crc (t ! j) \<and> node_addr (t' ! j) = node_addr (t ! j)"
    if "j < EF_ENV_CACHE_TABLE_SIZE" for j
    using p len ok that by (metis env_cache_ok_def nth_places prod.inject)
  have ok': "env_cache_ok t'"
    using ok nth len unfolding env_cache_ok_def by (metis less_trans)
  have "cached_env t' h = Some a \<longleftrightarrow> cached_env t h = Some a" for h a
    unfolding cached_env_nth [OF ok] cached_env_nth [OF ok'] using nth by metis
  then have "cached_env t' = cached_env t" by (intro ext) (metis option.exhaust)
  with ok' show ?thesis by simp
qed

text \<open>
  The cache never invents: after an update it gives the new address for the hash or nothing, and for any other
  hash what it gave before or nothing; a deletion removes the hash and leaves the others.
\<close>

lemma update_env_cache_map:
  fixes e name addr
  defines "t \<equiv> env_cache_table e" and "t' \<equiv> env_cache_table (update_env_cache name addr e)"
  assumes ok: "env_cache_ok t"
  shows "env_cache_ok t'"
    and "cached_env t' h = Some a \<Longrightarrow> if h = name_hash name then a = addr else cached_env t h = Some a"
    and "addr = FAILED_ADDR \<Longrightarrow> cached_env t' = (cached_env t)(name_hash name := None)"
proof -
  let ?c = "name_hash name" and ?N = EF_ENV_CACHE_TABLE_SIZE
  have len: "length t = ?N" using ok by (simp add: env_cache_ok_def)
  have spec: "case List.find (\<lambda>i. fst (places t ! i) = ?c) [0..<?N] of
     Some i \<Rightarrow> places t' = (places t)[i := (?c, addr)]
   | None \<Rightarrow> places t' = places t \<or> addr \<noteq> FAILED_ADDR \<and> (\<exists>k < ?N. places t' = (places t)[k := (?c, addr)])"
  proof -
    have "t' = update_env_loop ?c addr [0..<?N] \<lparr>empty_index = ?N, min_activity_index = ?N, min_activity = 0xFFFF\<rparr> t"
      by (simp add: t'_def t_def update_env_cache_def)
    moreover have "set [0..<?N] \<subseteq> {..<length t}" using len by auto
    ultimately show ?thesis by (simp only:) (rule update_env_loop_places; simp)
  qed
  have hash: "fst (places t ! i) = name_crc (t ! i)" if "i < ?N" for i using that len by simp
  have cases: "(\<exists>k < ?N. places t' = (places t)[k := (?c, addr)] \<and> name_crc (t ! k) = ?c \<and> (\<forall>j < k. name_crc (t ! j) \<noteq> ?c)) \<or>
    (\<forall>j < ?N. name_crc (t ! j) \<noteq> ?c) \<and> (places t' = places t \<or> addr \<noteq> FAILED_ADDR \<and> (\<exists>k < ?N. places t' = (places t)[k := (?c, addr)]))"
    using spec hash less_trans by (auto simp: find_upt_Some find_upt_None split: option.splits)
  have absent: "cached_env t ?c = None" if "\<forall>j < ?N. name_crc (t ! j) \<noteq> ?c"
    using that cached_env_nth [OF ok, of ?c] by (metis option.exhaust)
  consider (hit) k where "k < ?N" "places t' = (places t)[k := (?c, addr)]" "name_crc (t ! k) = ?c" "\<forall>j < k. name_crc (t ! j) \<noteq> ?c"
    | (put) k where "k < ?N" "places t' = (places t)[k := (?c, addr)]" "\<forall>j < ?N. name_crc (t ! j) \<noteq> ?c" "addr \<noteq> FAILED_ADDR"
    | (same) "\<forall>j < ?N. name_crc (t ! j) \<noteq> ?c" "places t' = places t"
    using cases by blast
  then have "env_cache_ok t' \<and> (\<forall>h a. cached_env t' h = Some a \<longrightarrow> (if h = ?c then a = addr else cached_env t h = Some a)) \<and>
     (addr = FAILED_ADDR \<longrightarrow> cached_env t' = (cached_env t)(?c := None))"
  proof cases
    case hit
    note e = env_cache_place [OF ok hit(2,1) disjI1 [OF conjI [OF hit(3,4)]]]
    show ?thesis
    proof (intro conjI allI impI)
      assume "addr = FAILED_ADDR"
      then show "cached_env t' = (cached_env t)(?c := None)" using e(3) [OF _ hit(3)] e(4) by (intro ext) simp
    qed (use e(1,2) in blast)+
  next
    case put
    note e = env_cache_place [OF ok put(2,1) disjI2 [OF put(3)]]
    show ?thesis using e(1,2) put(4) by blast
  next
    case same
    with same_places [OF ok same(2)] absent show ?thesis by auto
  qed
  then show "env_cache_ok t'" "cached_env t' h = Some a \<Longrightarrow> if h = ?c then a = addr else cached_env t h = Some a"
    "addr = FAILED_ADDR \<Longrightarrow> cached_env t' = (cached_env t)(?c := None)" by blast+
qed

text \<open>A hit needs the whole name, if the hashes of the names in use differ from each other.\<close>

lemma get_env_from_cache_same:
  assumes ok: "env_cache_ok (env_cache_table e)"
  shows "env_cache_ok (env_cache_table (snd (get_env_from_cache name e))) \<and>
    cached_env (env_cache_table (snd (get_env_from_cache name e))) = cached_env (env_cache_table e)"
proof (cases "List.find (\<lambda>i. cache_hit e name (env_cache_table e ! i)) [0..<EF_ENV_CACHE_TABLE_SIZE]")
  case None
  with ok show ?thesis by (simp add: get_env_from_cache_def)
next
  case (Some i)
  then have "i < length (env_cache_table e)" using ok by (simp add: find_upt_Some env_cache_ok_def)
  then have "places ((env_cache_table e)[i := more_active (env_cache_table e ! i)]) = places (env_cache_table e)"
    by (simp add: more_active_def)
  from same_places [OF ok this] Some show ?thesis by (simp add: get_env_from_cache_def)
qed

lemma get_env_from_cache_hit:
  assumes ok: "env_cache_ok (env_cache_table e)"
  shows "fst (get_env_from_cache name e) =
    (case cached_env (env_cache_table e) (name_hash name) of
       Some a \<Rightarrow> (if take (length name) (ef_port_read e (a + ENV_HDR_DATA_SIZE) EF_ENV_NAME_MAX) = name then Some a else None)
     | None \<Rightarrow> None)"
proof -
  let ?t = "env_cache_table e" and ?N = EF_ENV_CACHE_TABLE_SIZE
  let ?name = "\<lambda>a. take (length name) (ef_port_read e (a + ENV_HDR_DATA_SIZE) EF_ENV_NAME_MAX) = name"
  have hit: "cache_hit e name (?t ! i) \<longleftrightarrow> cached_env ?t (name_hash name) = Some (node_addr (?t ! i)) \<and>
      name_crc (?t ! i) = name_hash name \<and> ?name (node_addr (?t ! i)) \<and> node_addr (?t ! i) \<noteq> FAILED_ADDR" if "i < ?N" for i
    using that cached_env_nth [OF ok, of "name_hash name" "node_addr (?t ! i)"] by (auto simp: cache_hit_def)
  show ?thesis
  proof (cases "List.find (\<lambda>i. cache_hit e name (?t ! i)) [0..<?N]")
    case None
    then have "\<not> ?name a" if "cached_env ?t (name_hash name) = Some a" for a
      using that hit cached_env_nth [OF ok, of "name_hash name" a] by (auto simp: find_upt_None)
    with None show ?thesis by (auto simp: get_env_from_cache_def split: option.split)
  next
    case (Some i)
    then have "i < ?N" "cache_hit e name (?t ! i)" by (simp_all add: find_upt_Some)
    with hit [of i] Some show ?thesis by (simp add: get_env_from_cache_def)
  qed
qed

end
