(* ===== verification/Ef_Scan.thy ===== *)
theory Ef_Scan
  imports Ef_Cache
begin

text \<open>
  Reading the flash area of \<open>ef_env.c\<close>: the search for erased space and for the next entry, the header and
  the check sum of an entry. The area holds four sectors of 4096 bytes from address 0; a sector begins with
  a header of 16 bytes, an entry with one of 24 bytes (the layout of the two structures on the 32-bit
  processor), followed by the name and the value without padding.

  The loops count in natural numbers: the addresses they visit stay inside the four sectors.
\<close>

definition SECTOR_MAGIC_WORD :: u32 where "SECTOR_MAGIC_WORD = 0x30344645"
definition ENV_MAGIC_WORD :: u32 where "ENV_MAGIC_WORD = 0x3034564B"
definition SECTOR_NOT_COMBINED :: u32 where "SECTOR_NOT_COMBINED = 0xFFFFFFFF"
definition SECTOR_HDR_DATA_SIZE :: u32 where "SECTOR_HDR_DATA_SIZE = 16"
definition SECTOR_DIRTY_OFFSET :: u32 where "SECTOR_DIRTY_OFFSET = 1"
definition ENV_MAGIC_OFFSET :: u32 where "ENV_MAGIC_OFFSET = 4"
definition ENV_LEN_OFFSET :: u32 where "ENV_LEN_OFFSET = 8"
definition ENV_NAME_LEN_OFFSET :: u32 where "ENV_NAME_LEN_OFFSET = 16"

record sector_meta_data =
  check_ok :: bool
  s_store :: sector_store_status
  s_dirty :: sector_dirty_status
  s_addr :: u32
  s_magic :: u32
  s_combined :: u32
  s_remain :: u32
  s_empty :: u32

text \<open>The buffer for the name is the bytes read into it, so a longer name than the buffer takes is kept whole.\<close>

record env_node_obj =
  n_status :: env_status
  n_crc_ok :: bool
  n_name_len :: byte
  n_len :: u32
  n_value_len :: u32
  n_name :: "byte list"
  n_start :: u32
  n_value :: u32

text \<open>A 32-bit word in memory, low byte first.\<close>

definition le32 :: "byte list \<Rightarrow> nat \<Rightarrow> u32" where
  "le32 bs i = ucast (bs ! i) OR push_bit 8 (ucast (bs ! (i + 1))) OR push_bit 16 (ucast (bs ! (i + 2)))
     OR push_bit 24 (ucast (bs ! (i + 3)))"

definition bytes_of32 :: "u32 \<Rightarrow> byte list" where
  "bytes_of32 w = [ucast w, ucast (drop_bit 8 w), ucast (drop_bit 16 w), ucast (drop_bit 24 w)]"

section \<open>The search for erased space\<close>

definition ff_step :: "nat \<times> byte \<Rightarrow> nat \<times> byte \<Rightarrow> nat \<times> byte" where
  "ff_step = (\<lambda>(x, b) (addr, last_data). (if last_data \<noteq> 0xFF \<and> b = 0xFF then x else addr, b))"

function continue_ff_loop :: "ef_st \<Rightarrow> nat \<Rightarrow> nat \<Rightarrow> nat \<times> byte \<Rightarrow> nat \<times> byte" where
  "continue_ff_loop e start stop s =
     (if start < stop then
        let read_size = (if start + 32 < stop then 32 else stop - start);
            buf = ef_port_read e (of_nat start) read_size
        in continue_ff_loop e (start + 32) stop (fold ff_step (zip [start..<start + read_size] buf) s)
      else s)"
  by pat_completeness auto
termination by (relation "measure (\<lambda>(e, start, stop, s). stop - start)") auto

declare continue_ff_loop.simps [simp del]

definition continue_ff_addr :: "ef_st \<Rightarrow> u32 \<Rightarrow> u32 \<Rightarrow> u32" where
  "continue_ff_addr e start stop =
     (let (addr, last_data) = continue_ff_loop e (unat start) (unat stop) (unat start, 0x00) in
      if last_data = 0xFF then of_nat addr else stop)"

section \<open>The search for the next entry\<close>

text \<open>One buffer of 32 bytes is searched for the magic word at its first 28 places.\<close>

definition magic_in_buf :: "byte list \<Rightarrow> nat \<Rightarrow> nat \<Rightarrow> nat \<Rightarrow> nat option" where
  "magic_in_buf buf start stop start_bak =
     List.find (\<lambda>i. start + i < stop \<and> le32 buf i = ENV_MAGIC_WORD \<and> start_bak + 4 \<le> start + i) [0..<28]"

function find_next_loop :: "ef_st \<Rightarrow> nat \<Rightarrow> nat \<Rightarrow> nat \<Rightarrow> u32" where
  "find_next_loop e start stop start_bak =
     (if start < stop then
        (case magic_in_buf (ef_port_read e (of_nat start) 32) start stop start_bak of
           Some i \<Rightarrow> of_nat (start + i) - ENV_MAGIC_OFFSET
         | None \<Rightarrow> find_next_loop e (start + 28) stop start_bak)
      else FAILED_ADDR)"
  by pat_completeness auto
termination by (relation "measure (\<lambda>(e, start, stop, b). stop - start)") auto

declare find_next_loop.simps [simp del]

definition sector_of :: "u32 \<Rightarrow> u32" where
  "sector_of a = a AND NOT (SECTOR_SIZE - 1)"

definition find_next_env_addr :: "ef_st \<Rightarrow> u32 \<Rightarrow> u32 \<Rightarrow> u32" where
  "find_next_env_addr e start stop =
     (if get_sector_from_cache e (sector_of start) = Some start then FAILED_ADDR
      else find_next_loop e (unat start) (unat stop) (unat start))"

definition get_next_env_addr :: "ef_st \<Rightarrow> sector_meta_data \<Rightarrow> env_node_obj \<Rightarrow> u32" where
  "get_next_env_addr e sector pre_env =
     (if s_store sector = SECTOR_STORE_EMPTY then FAILED_ADDR
      else if n_start pre_env = FAILED_ADDR then s_addr sector + SECTOR_HDR_DATA_SIZE
      else if n_start pre_env \<le> s_addr sector + SECTOR_SIZE then
        let addr = (if n_crc_ok pre_env then n_start pre_env + n_len pre_env else n_start pre_env + 1);
            addr = find_next_env_addr e addr (s_addr sector + SECTOR_SIZE - SECTOR_HDR_DATA_SIZE)
        in if addr > s_addr sector + SECTOR_SIZE \<or> n_len pre_env = 0 then FAILED_ADDR else addr
      else FAILED_ADDR)"

section \<open>Reading an entry\<close>

text \<open>The check sum covers everything behind the field of the check sum, in pieces of 32 bytes.\<close>

function env_crc_loop :: "ef_st \<Rightarrow> u32 \<Rightarrow> nat \<Rightarrow> nat \<Rightarrow> u32 \<Rightarrow> u32" where
  "env_crc_loop e addr len crc_data_len crc =
     (if len < crc_data_len then
        let size = (if len + 32 < crc_data_len then 32 else crc_data_len - len)
        in env_crc_loop e addr (len + size) crc_data_len (ef_calc_crc32 crc (ef_port_read e (addr + of_nat len) size))
      else crc)"
  by pat_completeness auto
termination by (relation "measure (\<lambda>(e, addr, len, n, c). n - len)") (auto split: if_splits)

declare env_crc_loop.simps [simp del]

text \<open>
  The length decides first: one that was never written or is too small marks the entry as broken, one
  larger than a sector and smaller than the area ends in the assertion.
\<close>

definition read_env :: "env_node_obj \<Rightarrow> ef_st \<Rightarrow> (EfErrCode \<times> env_node_obj \<times> ef_st) option" where
  "read_env env e =
     (let hdr = ef_port_read e (n_start env) 24;
          status = env_of (get_status hdr ENV_STATUS_NUM);
          env = env\<lparr>n_status := status, n_len := le32 hdr 8\<rparr>
      in if n_len env = 0xFFFFFFFF \<or> n_len env > ENV_AREA_SIZE \<or> n_len env < ENV_NAME_LEN_OFFSET then
           let env = env\<lparr>n_len := ENV_HDR_DATA_SIZE, n_crc_ok := False\<rparr>
           in if n_status env \<noteq> ENV_ERR_HDR then
                do { (_, e) \<leftarrow> write_status (n_start env) ENV_STATUS_NUM (env_no ENV_ERR_HDR) e;
                     Some (EF_READ_ERR, env\<lparr>n_status := ENV_ERR_HDR\<rparr>, e) }
              else Some (EF_READ_ERR, env, e)
         else if n_len env > SECTOR_SIZE - SECTOR_HDR_DATA_SIZE \<and> n_len env < ENV_AREA_SIZE then None
         else let crc_data_len = unat (n_len env - ENV_NAME_LEN_OFFSET);
                  calc_crc32 = env_crc_loop e (n_start env + ENV_NAME_LEN_OFFSET) 0 crc_data_len 0
              in if calc_crc32 \<noteq> le32 hdr 12 then Some (EF_READ_ERR, env\<lparr>n_crc_ok := False\<rparr>, e)
                 else let name_len = hdr ! 16;
                          name_addr = n_start env + ENV_HDR_DATA_SIZE
                      in Some (EF_NO_ERR,
                           env\<lparr>n_crc_ok := True, n_name := ef_port_read e name_addr (unat name_len),
                             n_value := name_addr + ucast name_len, n_value_len := le32 hdr 20,
                             n_name_len := name_len\<rparr>, e))"

section \<open>What the searches find\<close>

lemma area_words: "n < 4294967296 \<Longrightarrow> unat (of_nat n :: u32) = n"
  by (simp add: unat_of_nat)

text \<open>After a pass up to \<open>x\<close>: the start of the erased bytes that end at \<open>x\<close>, and the last byte.\<close>

definition ff_state :: "(nat \<Rightarrow> byte) \<Rightarrow> nat \<Rightarrow> nat \<Rightarrow> nat \<times> byte \<Rightarrow> bool" where
  "ff_state m start x s \<longleftrightarrow> snd s = (if start < x then m (x - 1) else 0) \<and>
     (snd s = 0xFF \<longrightarrow> start \<le> fst s \<and> fst s < x \<and> (\<forall>y. fst s \<le> y \<and> y < x \<longrightarrow> m y = 0xFF) \<and>
        (start < fst s \<longrightarrow> m (fst s - 1) \<noteq> 0xFF))"

lemma ff_state_fold:
  "\<lbrakk>ff_state m start x s; start \<le> x\<rbrakk> \<Longrightarrow> ff_state m start (x + n) (fold ff_step (zip [x..<x + n] (bytes_at m x n)) s)"
proof (induction n)
  case (Suc n)
  let ?s = "fold ff_step (zip [x..<x + n] (bytes_at m x n)) s"
  have "zip [x..<x + Suc n] (bytes_at m x (Suc n)) = zip [x..<x + n] (bytes_at m x n) @ [(x + n, m (x + n))]"
    by (simp add: bytes_at_def zip_append)
  moreover from Suc have "ff_state m start (x + n) ?s" by simp
  then have "ff_state m start (Suc (x + n)) (ff_step (x + n, m (x + n)) ?s)"
    using Suc.prems(2) by (cases ?s) (auto simp: ff_state_def ff_step_def less_Suc_eq split: if_splits)
  ultimately show ?case by simp
qed simp

lemma continue_ff_loop_state:
  "\<lbrakk>ff_state (chip e) s0 start s; s0 \<le> start; start \<le> stop; stop \<le> 1048576\<rbrakk> \<Longrightarrow>
   ff_state (chip e) s0 stop (continue_ff_loop e start stop s)"
proof (induction e start stop s rule: continue_ff_loop.induct)
  case (1 e start stop s)
  show ?case
  proof (cases "start < stop")
    case True
    define n where "n = (if start + 32 < stop then 32 else stop - start)"
    have n: "start + n \<le> stop" using True by (simp add: n_def)
    with "1.prems" have "unat (of_nat start :: u32) = start" by (intro area_words) simp
    with n "1.prems" have r: "ef_port_read e (of_nat start) n = bytes_at (chip e) start n"
      by (simp add: ef_port_read_in)
    have f: "ff_state (chip e) s0 (start + n) (fold ff_step (zip [start..<start + n] (bytes_at (chip e) start n)) s)"
      by (rule ff_state_fold [OF "1.prems"(1,2)])
    show ?thesis
    proof (cases "start + 32 < stop")
      case more: True
      with "1.IH" [OF True n_def refl] f r "1.prems" True show ?thesis
        by (subst continue_ff_loop.simps) (simp add: Let_def n_def)
    next
      case False
      with True f r have "continue_ff_loop e start stop s = fold ff_step (zip [start..<start + n] (bytes_at (chip e) start n)) s"
        by (subst continue_ff_loop.simps, subst continue_ff_loop.simps) (simp add: Let_def n_def)
      with f False True show ?thesis by (simp add: n_def)
    qed
  next
    case False
    with "1.prems" have "start = stop" by simp
    with "1.prems" show ?thesis by (simp add: continue_ff_loop.simps [of e stop])
  qed
qed

text \<open>The address from which everything up to the end is erased, and no earlier one.\<close>

lemma continue_ff_addr_spec:
  fixes e start stop
  assumes "unat start \<le> unat stop" "unat stop \<le> 1048576"
  defines "r \<equiv> unat (continue_ff_addr e start stop)"
  shows "unat start \<le> r \<and> r \<le> unat stop \<and> (\<forall>y. r \<le> y \<and> y < unat stop \<longrightarrow> chip e y = 0xFF) \<and>
    (unat start < r \<longrightarrow> chip e (r - 1) \<noteq> 0xFF)"
proof -
  let ?l = "continue_ff_loop e (unat start) (unat stop) (unat start, 0x00)"
  have "ff_state (chip e) (unat start) (unat start) (unat start, 0x00)" by (simp add: ff_state_def)
  then have f: "ff_state (chip e) (unat start) (unat stop) ?l"
    by (rule continue_ff_loop_state) (use assms in simp_all)
  show ?thesis
  proof (cases "snd ?l = 0xFF")
    case True
    with f have "fst ?l < unat stop" by (simp add: ff_state_def)
    then have "r = fst ?l" using True assms
      by (simp add: r_def continue_ff_addr_def case_prod_beta area_words)
    with f True show ?thesis by (auto simp: ff_state_def)
  next
    case False
    then have "r = unat stop" by (simp add: r_def continue_ff_addr_def case_prod_beta)
    with f False assms(1) show ?thesis by (auto simp: ff_state_def split: if_splits)
  qed
qed

text \<open>The magic word of an entry that would begin at \<open>a\<close>.\<close>

definition magic_at :: "(nat \<Rightarrow> byte) \<Rightarrow> nat \<Rightarrow> bool" where
  "magic_at m a \<longleftrightarrow> le32 (bytes_at m (a + 4) 4) 0 = ENV_MAGIC_WORD"

lemma le32_bytes_at: "i + 4 \<le> n \<Longrightarrow> le32 (bytes_at m a n) i = le32 (bytes_at m (a + i) 4) 0"
  by (simp add: le32_def add.assoc)

lemma find_next_loop_spec:
  assumes "b \<ge> 4"
  shows "\<lbrakk>b \<le> start; start \<le> stop + 28; stop \<le> 1048000; \<forall>a. b \<le> a \<and> a + 4 < start \<longrightarrow> \<not> magic_at (chip e) a\<rbrakk> \<Longrightarrow>
   find_next_loop e start stop b =
     (case List.find (\<lambda>a. a + 4 < stop \<and> magic_at (chip e) a) [b..<stop] of Some a \<Rightarrow> of_nat a | None \<Rightarrow> FAILED_ADDR)"
proof (induction e start stop b rule: find_next_loop.induct)
  case (1 e start stop b)
  show ?case
  proof (cases "start < stop")
    case True
    have "unat (of_nat start :: u32) = start" using True "1.prems" by (intro area_words) simp
    then have rd: "ef_port_read e (of_nat start) 32 = bytes_at (chip e) start 32"
      using True "1.prems" by (simp add: ef_port_read_in)
    have w: "le32 (bytes_at (chip e) start 32) i = ENV_MAGIC_WORD \<longleftrightarrow> magic_at (chip e) (start + i - 4)"
      if "i < 28" "b + 4 \<le> start + i" for i
    proof -
      have "start + i = start + i - 4 + 4" using that assms by simp
      then show ?thesis using le32_bytes_at [of i 32 "chip e" start] that by (simp add: magic_at_def)
    qed
    show ?thesis
    proof (cases "magic_in_buf (bytes_at (chip e) start 32) start stop b")
      case None
      have no: "\<not> magic_at (chip e) a" if a: "b \<le> a" "a + 4 < start + 28" "a + 4 < stop" for a
      proof (cases "a + 4 < start")
        case True
        with a "1.prems"(4) show ?thesis by blast
      next
        case False
        define i where "i = a + 4 - start"
        have i: "i < 28" "start + i = a + 4" using False a by (simp_all add: i_def)
        with None a have "le32 (bytes_at (chip e) start 32) i \<noteq> ENV_MAGIC_WORD"
          by (auto simp: magic_in_buf_def find_upt_None)
        with w [of i] i a show ?thesis by simp
      qed
      have "find_next_loop e start stop b = find_next_loop e (start + 28) stop b"
        using True None by (subst find_next_loop.simps) (simp add: rd)
      also have "\<dots> = (case List.find (\<lambda>a. a + 4 < stop \<and> magic_at (chip e) a) [b..<stop] of Some a \<Rightarrow> of_nat a | None \<Rightarrow> FAILED_ADDR)"
      proof (cases "start + 28 \<le> stop + 28 \<and> (\<forall>a. b \<le> a \<and> a + 4 < start + 28 \<longrightarrow> \<not> magic_at (chip e) a)")
        case True
        with "1.IH" [OF \<open>start < stop\<close>] None rd "1.prems" show ?thesis by simp
      next
        case False
        with no True have "stop \<le> start + 28" by force
        then have "List.find (\<lambda>a. a + 4 < stop \<and> magic_at (chip e) a) [b..<stop] = None"
          using no by (auto simp: find_upt_None)
        then show ?thesis using \<open>stop \<le> start + 28\<close> by (simp add: find_next_loop.simps [of e "start + 28"])
      qed
      finally show ?thesis .
    next
      case (Some i)
      then have i: "i < 28" "start + i < stop" "b + 4 \<le> start + i" "le32 (bytes_at (chip e) start 32) i = ENV_MAGIC_WORD"
        and least: "\<forall>k < i. \<not> (start + k < stop \<and> le32 (bytes_at (chip e) start 32) k = ENV_MAGIC_WORD \<and> b + 4 \<le> start + k)"
        by (auto simp: magic_in_buf_def find_upt_Some)
      let ?a = "start + i - 4"
      have "\<not> magic_at (chip e) a" if a: "b \<le> a" "a < ?a" for a
      proof (cases "a + 4 < start")
        case True
        with a "1.prems"(4) show ?thesis by blast
      next
        case False
        define k where "k = a + 4 - start"
        have k: "k < i" "start + k = a + 4" using False a by (simp_all add: k_def)
        with least i a have "le32 (bytes_at (chip e) start 32) k \<noteq> ENV_MAGIC_WORD" by auto
        with w [of k] k i a show ?thesis by simp
      qed
      with i w [of i] have "List.find (\<lambda>a. a + 4 < stop \<and> magic_at (chip e) a) [b..<stop] = Some ?a"
        by (auto simp: find_upt_Some)
      moreover have "of_nat (start + i) - ENV_MAGIC_OFFSET = (of_nat ?a :: u32)"
        using i assms by (simp add: ENV_MAGIC_OFFSET_def of_nat_diff)
      moreover have "find_next_loop e start stop b = of_nat (start + i) - ENV_MAGIC_OFFSET"
        using True Some by (subst find_next_loop.simps) (simp add: rd)
      ultimately show ?thesis by simp
    qed
  next
    case False
    then have "List.find (\<lambda>a. a + 4 < stop \<and> magic_at (chip e) a) [b..<stop] = None"
      using "1.prems"(4) by (auto simp: find_upt_None)
    with False show ?thesis by (simp add: find_next_loop.simps [of e start])
  qed
qed

lemma find_next_env_addr_spec:
  assumes "4 \<le> unat start" "unat start \<le> unat stop + 28" "unat stop \<le> 1048000"
    "get_sector_from_cache e (sector_of start) \<noteq> Some start"
  shows "find_next_env_addr e start stop =
     (case List.find (\<lambda>a. a + 4 < unat stop \<and> magic_at (chip e) a) [unat start..<unat stop] of
        Some a \<Rightarrow> of_nat a | None \<Rightarrow> FAILED_ADDR)"
proof -
  have "find_next_loop e (unat start) (unat stop) (unat start) =
     (case List.find (\<lambda>a. a + 4 < unat stop \<and> magic_at (chip e) a) [unat start..<unat stop] of
        Some a \<Rightarrow> of_nat a | None \<Rightarrow> FAILED_ADDR)"
    by (rule find_next_loop_spec) (use assms(1-3) in auto)
  with assms(4) show ?thesis by (simp add: find_next_env_addr_def)
qed

lemma env_crc_loop_spec:
  "\<lbrakk>len \<le> n; unat addr + n \<le> 1048576\<rbrakk> \<Longrightarrow>
   env_crc_loop e addr len n c = ef_calc_crc32 c (bytes_at (chip e) (unat addr + len) (n - len))"
proof (induction e addr len n c rule: env_crc_loop.induct)
  case (1 e addr len n c)
  show ?case
  proof (cases "len < n")
    case True
    define k where "k = (if len + 32 < n then 32 else n - len)"
    have k: "len + k \<le> n" "0 < k" using True by (auto simp: k_def)
    have a: "unat (addr + of_nat len) = unat addr + len" using "1.prems" k by (simp add: unat_add_small)
    have "env_crc_loop e addr len n c = env_crc_loop e addr (len + k) n (ef_calc_crc32 c (ef_port_read e (addr + of_nat len) k))"
      using True by (subst env_crc_loop.simps) (simp add: k_def Let_def)
    also have "ef_port_read e (addr + of_nat len) k = bytes_at (chip e) (unat addr + len) k"
      using "1.prems" k a by (simp add: ef_port_read_in)
    also have "env_crc_loop e addr (len + k) n (ef_calc_crc32 c (bytes_at (chip e) (unat addr + len) k))
        = ef_calc_crc32 (ef_calc_crc32 c (bytes_at (chip e) (unat addr + len) k)) (bytes_at (chip e) (unat addr + len + k) (n - (len + k)))"
      using "1.IH" [OF True k_def] "1.prems" k by (simp add: calculation [symmetric] add.assoc ef_port_read_in a)
    also have "\<dots> = ef_calc_crc32 c (bytes_at (chip e) (unat addr + len) (k + (n - (len + k))))"
      by (simp add: ef_calc_crc32_append bytes_at_append)
    finally show ?thesis using k by simp
  next
    case False
    with "1.prems" have "len = n" by simp
    then show ?thesis by (simp add: env_crc_loop.simps [of e addr n])
  qed
qed

end
