(* ===== verification/Ef_Entry.thy ===== *)
theory Ef_Entry
  imports Ef_Scan
begin

text \<open>
  What lies in a sector: entries, one behind the other, each with its status, and erased bytes behind the last.
  An entry whose bytes are in memory is read back with its name and value, and the search steps from each
  entry to the next one.
\<close>

section \<open>Entries in memory\<close>

lemma le32_bytes_of32: "le32 (bytes_of32 w) 0 = w"
proof -
  have "le32 (bytes_of32 w) 0 = be32 (ucast (drop_bit 24 w)) (ucast (drop_bit 16 w)) (ucast (drop_bit 8 w)) (ucast w)"
    by (simp add: le32_def bytes_of32_def be32_def numeral_2_eq_2 numeral_3_eq_3 ac_simps)
  then show ?thesis by (simp add: be32_bytes)
qed

lemma length_bytes_of32 [simp]: "length (bytes_of32 w) = 4"
  by (simp add: bytes_of32_def)

lemma le32_append: "length xs = i \<Longrightarrow> le32 (xs @ bytes_of32 w @ ys) i = w"
  using le32_bytes_of32 [of w]
  by (simp add: le32_def nth_append bytes_of32_def numeral_2_eq_2 numeral_3_eq_3)

text \<open>The bytes of an entry behind its status: what the header, the name and the value say.\<close>

type_synonym entry = "byte list \<times> byte list"

definition env_size :: "entry \<Rightarrow> nat" where
  "env_size x = 24 + length (fst x) + length (snd x)"

definition env_tail :: "entry \<Rightarrow> byte list" where
  "env_tail x = [of_nat (length (fst x)), 0xFF, 0xFF, 0xFF] @ bytes_of32 (of_nat (length (snd x))) @ fst x @ snd x"

definition env_body :: "entry \<Rightarrow> byte list" where
  "env_body x = bytes_of32 ENV_MAGIC_WORD @ bytes_of32 (of_nat (env_size x)) @
     bytes_of32 (ef_calc_crc32 0 (env_tail x)) @ env_tail x"

lemma length_env_tail: "length (env_tail x) = env_size x - 16"
  by (simp add: env_tail_def env_size_def)

lemma length_env_body: "length (env_body x) = env_size x - 4"
  by (simp add: env_body_def length_env_tail env_size_def)

text \<open>Names are not longer than the code accepts, and an entry fits into a sector.\<close>

definition entry_fits :: "entry \<Rightarrow> bool" where
  "entry_fits x \<longleftrightarrow> length (fst x) \<le> 32 \<and> env_size x \<le> 4080"

definition entry_at :: "(nat \<Rightarrow> byte) \<Rightarrow> nat \<Rightarrow> entry \<Rightarrow> env_status \<Rightarrow> bool" where
  "entry_at m a x st \<longleftrightarrow> entry_fits x \<and> get_status [m a] ENV_STATUS_NUM = env_no st \<and>
     bytes_at m (a + 4) (env_size x - 4) = env_body x"

definition node_of :: "env_node_obj \<Rightarrow> u32 \<Rightarrow> entry \<Rightarrow> env_status \<Rightarrow> env_node_obj" where
  "node_of env a x st = env\<lparr>n_status := st, n_crc_ok := True, n_name_len := of_nat (length (fst x)),
     n_len := of_nat (env_size x), n_value_len := of_nat (length (snd x)), n_name := fst x,
     n_start := a, n_value := a + 24 + of_nat (length (fst x))\<rparr>"

lemma get_status_hd: "bs \<noteq> [] \<Longrightarrow> get_status bs ENV_STATUS_NUM = get_status [hd bs] ENV_STATUS_NUM"
  unfolding get_status_top
  by (rule top_cleared_cong) (auto simp: cleared_def ENV_STATUS_NUM_def hd_conv_nth)

text \<open>An entry in memory is read as what it is.\<close>

lemma read_env_entry:
  assumes e: "entry_at (chip e) (unat (n_start env)) x st" and a: "unat (n_start env) + env_size x \<le> 1048576"
  shows "read_env env e = Some (EF_NO_ERR, node_of env (n_start env) x st, e)"
proof -
  let ?a = "unat (n_start env)" and ?m = "chip e"
  have ok: "length (fst x) \<le> 32" "env_size x \<le> 4080" "length (snd x) < 4096" "24 \<le> env_size x"
    using e by (auto simp: entry_at_def entry_fits_def env_size_def)
  have body: "bytes_at ?m (?a + 4) (env_size x - 4) = env_body x" using e by (simp add: entry_at_def)
  define hdr where "hdr = ef_port_read e (n_start env) 24"
  have hdr: "hdr = bytes_at ?m ?a 24" using a ok by (simp add: hdr_def ef_port_read_in)
  have "bytes_at ?m ?a 24 = bytes_at ?m ?a 4 @ take 20 (env_body x)"
    using body take_bytes_at [of 20 "env_size x - 4" ?m "?a + 4"] ok(4) bytes_at_append [of ?m ?a 4 20] by simp
  then have parts: "hdr = bytes_at ?m ?a 4 @ bytes_of32 ENV_MAGIC_WORD @ bytes_of32 (of_nat (env_size x)) @
     bytes_of32 (ef_calc_crc32 0 (env_tail x)) @ [of_nat (length (fst x)), 0xFF, 0xFF, 0xFF] @ bytes_of32 (of_nat (length (snd x)))"
    by (simp add: hdr env_body_def env_tail_def)
  have len: "le32 hdr 8 = of_nat (env_size x)"
    using le32_append [of "bytes_at ?m ?a 4 @ bytes_of32 ENV_MAGIC_WORD" 8] by (simp add: parts)
  have crc: "le32 hdr 12 = ef_calc_crc32 0 (env_tail x)"
    using le32_append [of "bytes_at ?m ?a 4 @ bytes_of32 ENV_MAGIC_WORD @ bytes_of32 (of_nat (env_size x))" 12] by (simp add: parts)
  have vl: "le32 hdr 20 = of_nat (length (snd x))"
    using le32_append [of "bytes_at ?m ?a 4 @ bytes_of32 ENV_MAGIC_WORD @ bytes_of32 (of_nat (env_size x)) @
      bytes_of32 (ef_calc_crc32 0 (env_tail x)) @ [of_nat (length (fst x)), 0xFF, 0xFF, 0xFF]" 20 _ "[]"] by (simp add: parts)
  have nl: "hdr ! 16 = of_nat (length (fst x))" by (simp add: parts nth_append)
  have "hd hdr = ?m ?a" by (simp add: parts bytes_at_def upt_rec)
  then have st: "env_of (get_status hdr ENV_STATUS_NUM) = st"
    using e get_status_hd [of hdr] by (simp add: parts entry_at_def bytes_at_def)
  have ul: "unat (of_nat (env_size x) :: u32) = env_size x" using ok by (simp add: area_words)
  have small: "\<not> (of_nat (env_size x) :: u32) > ENV_AREA_SIZE" "\<not> (of_nat (env_size x) :: u32) < ENV_NAME_LEN_OFFSET"
    "\<not> (of_nat (env_size x) :: u32) > SECTOR_SIZE - SECTOR_HDR_DATA_SIZE" "(of_nat (env_size x) :: u32) \<noteq> 0xFFFFFFFF"
    using ok ul by (auto simp: word_less_nat_alt ENV_AREA_SIZE_def SECTOR_SIZE_def ENV_NAME_LEN_OFFSET_def
        SECTOR_HDR_DATA_SIZE_def)
  have n: "unat ((of_nat (env_size x) :: u32) - ENV_NAME_LEN_OFFSET) = env_size x - 16"
    using ok ul by (simp add: unat_sub word_le_nat_alt ENV_NAME_LEN_OFFSET_def)
  have off: "unat (n_start env + 16) = ?a + 16" "unat (n_start env + 24) = ?a + 24"
    using a ok unat_add_small [of "n_start env" 16] unat_add_small [of "n_start env" 24] by simp_all
  have tail: "bytes_at ?m (?a + 16) (env_size x - 16) = env_tail x"
  proof -
    have "bytes_at ?m (?a + 4 + 12) (env_size x - 4 - 12) = drop 12 (env_body x)" by (simp only: body [symmetric] drop_bytes_at)
    then show ?thesis using ok by (simp add: env_body_def add.commute)
  qed
  have calc: "env_crc_loop e (n_start env + ENV_NAME_LEN_OFFSET) 0 (env_size x - 16) 0 = ef_calc_crc32 0 (env_tail x)"
    using a ok tail by (simp add: env_crc_loop_spec off ENV_NAME_LEN_OFFSET_def)
  have nlen: "unat (of_nat (length (fst x)) :: byte) = length (fst x)" using ok by (simp add: unat_of_nat)
  have drop_tail: "drop 8 (env_tail x) = fst x @ snd x" by (simp add: env_tail_def)
  have name: "ef_port_read e (n_start env + ENV_HDR_DATA_SIZE) (length (fst x)) = fst x"
  proof -
    have "drop 8 (env_tail x) = bytes_at ?m (?a + 16 + 8) (env_size x - 16 - 8)"
      by (simp only: tail [symmetric] drop_bytes_at)
    then have "bytes_at ?m (?a + 16 + 8) (env_size x - 16 - 8) = fst x @ snd x" using drop_tail by simp
    then have "take (length (fst x)) (bytes_at ?m (?a + 16 + 8) (env_size x - 16 - 8)) = fst x" by simp
    moreover have "length (fst x) \<le> env_size x - 16 - 8" by (simp add: env_size_def)
    ultimately have "bytes_at ?m (?a + 24) (length (fst x)) = fst x" by (simp add: take_bytes_at add.commute)
    with a off show ?thesis by (simp add: ef_port_read_in ENV_HDR_DATA_SIZE_def env_size_def)
  qed
  have u: "ucast (of_nat (length (fst x)) :: byte) = (of_nat (length (fst x)) :: u32)"
    using nlen by (metis of_nat_unat)
  show ?thesis
    unfolding read_env_def hdr_def [symmetric]
    by (simp add: Let_def st len small n calc crc nl vl nlen name [unfolded ENV_HDR_DATA_SIZE_def] u node_of_def ENV_HDR_DATA_SIZE_def)
qed

section \<open>A sector as a chain of entries\<close>

fun chain :: "(nat \<Rightarrow> byte) \<Rightarrow> nat \<Rightarrow> (entry \<times> env_status) list \<Rightarrow> nat \<Rightarrow> bool" where
  "chain m a [] f \<longleftrightarrow> a = f"
| "chain m a ((x, st) # es) f \<longleftrightarrow> entry_at m a x st \<and> chain m (a + env_size x) es f"

lemma chain_append: "chain m a (es @ es') f \<longleftrightarrow> (\<exists>b. chain m a es b \<and> chain m b es' f)"
  by (induction es arbitrary: a) auto

definition chain_size :: "(entry \<times> env_status) list \<Rightarrow> nat" where
  "chain_size es = (\<Sum>x\<leftarrow>es. env_size (fst x))"

lemma chain_size_simps [simp]:
  "chain_size [] = 0" "chain_size (x # es) = env_size (fst x) + chain_size es"
  "chain_size (es @ es') = chain_size es + chain_size es'"
  by (simp_all add: chain_size_def)

lemma chain_end: "chain m a es f \<Longrightarrow> f = a + chain_size es"
  by (induction m a es f rule: chain.induct) auto

lemma entry_at_cong:
  assumes "\<And>y. \<lbrakk>a \<le> y; y < a + env_size x\<rbrakk> \<Longrightarrow> m y = m' y" "entry_at m a x st"
  shows "entry_at m' a x st"
proof -
  have "24 \<le> env_size x" by (simp add: env_size_def)
  then have "m a = m' a" "bytes_at m (a + 4) (env_size x - 4) = bytes_at m' (a + 4) (env_size x - 4)"
    using assms(1) by (auto intro!: bytes_at_cong)
  with assms(2) show ?thesis by (simp add: entry_at_def)
qed

lemma chain_cong:
  "\<lbrakk>chain m a es f; \<And>y. \<lbrakk>a \<le> y; y < f\<rbrakk> \<Longrightarrow> m y = m' y\<rbrakk> \<Longrightarrow> chain m' a es f"
proof (induction m a es f rule: chain.induct)
  case (2 m a x st es f)
  then have f: "f = a + env_size x + chain_size es" by (auto dest: chain_end)
  with 2 show ?case by (auto intro!: entry_at_cong [of a x m m' st])
qed simp

lemma chain_bounds: "chain m a es f \<Longrightarrow> a \<le> f"
  by (auto dest: chain_end)

lemma entry_magic: "entry_at m a x st \<Longrightarrow> magic_at m a"
proof -
  assume e: "entry_at m a x st"
  have "bytes_at m (a + 4) 4 = take 4 (env_body x)"
    using e take_bytes_at [of 4 "env_size x - 4" m "a + 4"] by (simp add: entry_at_def env_size_def)
  also have "\<dots> = bytes_of32 ENV_MAGIC_WORD" by (simp add: env_body_def)
  finally show ?thesis by (simp add: magic_at_def le32_bytes_of32)
qed

lemma erased_no_magic: "(\<And>y. \<lbrakk>a + 4 \<le> y; y < a + 8\<rbrakk> \<Longrightarrow> m y = 0xFF) \<Longrightarrow> \<not> magic_at m a"
  by (simp add: magic_at_def le32_def ENV_MAGIC_WORD_def)

text \<open>A sector at \<open>s\<close> with the chain \<open>es\<close>, and erased from \<open>f\<close> on.\<close>

definition filled :: "(nat \<Rightarrow> byte) \<Rightarrow> nat \<Rightarrow> (entry \<times> env_status) list \<Rightarrow> nat \<Rightarrow> bool" where
  "filled m s es f \<longleftrightarrow> chain m (s + 16) es f \<and> f \<le> s + 4096 \<and> (\<forall>y. f \<le> y \<and> y < s + 4096 \<longrightarrow> m y = 0xFF)"

text \<open>From the end of one entry the search finds the next, or none behind the last.\<close>

lemma find_next_in_chain:
  assumes fl: "filled (chip e) s (es @ es') f" and c: "chain (chip e) (s + 16) es (unat a)"
    and s: "s + 4096 \<le> 16384" and stop: "unat stop = s + 4080"
    and cache: "get_sector_from_cache e (sector_of a) = Some a \<Longrightarrow> es' = []"
  shows "find_next_env_addr e a stop = (if es' = [] then FAILED_ADDR else a)"
proof (cases "get_sector_from_cache e (sector_of a) = Some a")
  case True
  with cache show ?thesis by (simp add: find_next_env_addr_def)
next
  case False
  obtain y where "chain (chip e) (s + 16) es y" "chain (chip e) y es' f" using fl by (auto simp: filled_def chain_append)
  then have ch: "chain (chip e) (unat a) es' f" using chain_end [OF c] chain_end by metis
  have b: "s + 16 \<le> unat a" "unat a \<le> f" "f \<le> s + 4096"
    using chain_bounds [OF c] chain_bounds [OF ch] fl by (auto simp: filled_def)
  have spec: "find_next_env_addr e a stop =
     (case List.find (\<lambda>y. y + 4 < unat stop \<and> magic_at (chip e) y) [unat a..<unat stop] of
        Some y \<Rightarrow> of_nat y | None \<Rightarrow> FAILED_ADDR)"
    by (rule find_next_env_addr_spec) (use b s stop False in auto)
  show ?thesis
  proof (cases es')
    case Nil
    then have "unat a = f" using ch by simp
    have "\<not> (y + 4 < s + 4080 \<and> magic_at (chip e) y)" if "f \<le> y" for y
      using erased_no_magic [of y "chip e"] fl that by (auto simp: filled_def)
    then have "List.find (\<lambda>y. y + 4 < unat stop \<and> magic_at (chip e) y) [unat a..<unat stop] = None"
      using \<open>unat a = f\<close> by (auto simp: find_upt_None stop)
    with spec Nil show ?thesis by simp
  next
    case (Cons xs rest)
    obtain x st where "xs = (x, st)" by (cases xs)
    with Cons ch have e: "entry_at (chip e) (unat a) x st" "chain (chip e) (unat a + env_size x) rest f" by simp_all
    from chain_bounds [OF e(2)] b have "unat a + 24 \<le> s + 4096" by (simp add: env_size_def)
    then have "List.find (\<lambda>y. y + 4 < unat stop \<and> magic_at (chip e) y) [unat a..<unat stop] = Some (unat a)"
      using entry_magic [OF e(1)] by (auto simp: find_upt_Some stop)
    with spec Cons show ?thesis by simp
  qed
qed

end
