(* ===== verification/Ef_Env.thy ===== *)
theory Ef_Env
  imports Ef_Entry
begin

text \<open>
  The operations of \<open>ef_env.c\<close>: sectors and their iterators, finding an entry, allocating space, creating,
  deleting and moving entries, garbage collection, loading with its recovery, and the calls of the application.
  A callback of an iterator is a function with its two arguments as an extra state. A variable of the C code
  that is set before it is read starts from a fixed value here.
\<close>

definition blank_node :: env_node_obj where
  "blank_node = \<lparr>n_status = ENV_UNUSED, n_crc_ok = False, n_name_len = 0, n_len = 0, n_value_len = 0,
     n_name = [], n_start = FAILED_ADDR, n_value = 0\<rparr>"

definition blank_sector :: sector_meta_data where
  "blank_sector = \<lparr>check_ok = False, s_store = SECTOR_STORE_UNUSED, s_dirty = SECTOR_DIRTY_UNUSED,
     s_addr = FAILED_ADDR, s_magic = 0, s_combined = SECTOR_NOT_COMBINED, s_remain = 0, s_empty = 0\<rparr>"

section \<open>Sectors\<close>

text \<open>The walk over the entries of a sector in use that computes its free space.\<close>

partial_function (option) sector_walk ::
    "sector_meta_data \<Rightarrow> env_node_obj \<Rightarrow> ef_st \<Rightarrow> (EfErrCode \<times> sector_meta_data \<times> ef_st) option" where
  "sector_walk sector env e =
     (let start = get_next_env_addr e sector env; env = env\<lparr>n_start := start\<rparr> in
      if start = FAILED_ADDR then Some (EF_NO_ERR, sector, e)
      else do {
        (_, env, e) \<leftarrow> read_env env e;
        if \<not> n_crc_ok env \<and> n_status env \<noteq> ENV_PRE_WRITE \<and> n_status env \<noteq> ENV_ERR_HDR
        then Some (EF_READ_ERR, sector\<lparr>s_remain := 0\<rparr>, e)
        else sector_walk (sector\<lparr>s_empty := s_empty sector + n_len env, s_remain := s_remain sector - n_len env\<rparr>) env e
      })"

definition sector_space :: "sector_meta_data \<Rightarrow> ef_st \<Rightarrow> (EfErrCode \<times> sector_meta_data \<times> ef_st) option" where
  "sector_space sector e =
     (let sector = sector\<lparr>s_remain := 0, s_empty := s_addr sector + SECTOR_HDR_DATA_SIZE\<rparr> in
      if s_store sector = SECTOR_STORE_EMPTY
      then Some (EF_NO_ERR, sector\<lparr>s_remain := SECTOR_SIZE - SECTOR_HDR_DATA_SIZE\<rparr>, e)
      else if s_store sector = SECTOR_STORE_USING then
        (case get_sector_from_cache e (s_addr sector) of
           Some emp \<Rightarrow>
             Some (EF_NO_ERR, sector\<lparr>s_empty := emp, s_remain := SECTOR_SIZE - (emp - s_addr sector)\<rparr>, e)
         | None \<Rightarrow> do {
             (result, sector, e) \<leftarrow> sector_walk (sector\<lparr>s_remain := SECTOR_SIZE - SECTOR_HDR_DATA_SIZE\<rparr>) blank_node e;
             let ff_addr = continue_ff_addr e (s_empty sector) (s_addr sector + SECTOR_SIZE);
                 sector = (if s_empty sector \<noteq> ff_addr
                   then sector\<lparr>s_empty := ff_addr, s_remain := SECTOR_SIZE - (ff_addr - s_addr sector)\<rparr> else sector);
                 e = update_sector_cache (s_addr sector) (s_empty sector) e
             in Some (result, sector, e) })
      else Some (EF_NO_ERR, sector, e))"

definition read_sector_meta_data ::
    "u32 \<Rightarrow> sector_meta_data \<Rightarrow> bool \<Rightarrow> ef_st \<Rightarrow> (EfErrCode \<times> sector_meta_data \<times> ef_st) option" where
  "read_sector_meta_data addr sector traversal e =
     (if addr mod SECTOR_SIZE \<noteq> 0 then None
      else
        let hdr = ef_port_read e addr 16;
            sector = sector\<lparr>s_addr := addr, s_magic := le32 hdr 4\<rparr>
        in if s_magic sector \<noteq> SECTOR_MAGIC_WORD
           then Some (EF_ENV_INIT_FAILED, sector\<lparr>check_ok := False, s_combined := SECTOR_NOT_COMBINED\<rparr>, e)
           else
             let sector = sector\<lparr>check_ok := True, s_combined := le32 hdr 8,
                   s_store := store_of (get_status [hdr ! 0] SECTOR_STORE_STATUS_NUM),
                   s_dirty := dirty_of (get_status [hdr ! 1] SECTOR_DIRTY_STATUS_NUM)\<rparr>
             in if traversal then sector_space sector e else Some (EF_NO_ERR, sector, e))"

definition get_next_sector_addr :: "sector_meta_data \<Rightarrow> u32" where
  "get_next_sector_addr pre_sec =
     (if s_addr pre_sec = FAILED_ADDR then 0
      else
        let next_addr = (if s_combined pre_sec = SECTOR_NOT_COMBINED then s_addr pre_sec + SECTOR_SIZE
              else s_addr pre_sec + s_combined pre_sec * SECTOR_SIZE)
        in if next_addr < 0 + ENV_AREA_SIZE then next_addr else FAILED_ADDR)"

section \<open>Iterators\<close>

partial_function (option) env_walk ::
    "(env_node_obj \<Rightarrow> 'x \<Rightarrow> ef_st \<Rightarrow> (bool \<times> 'x \<times> ef_st) option) \<Rightarrow> sector_meta_data \<Rightarrow> env_node_obj \<Rightarrow> 'x \<Rightarrow> ef_st
      \<Rightarrow> (bool \<times> env_node_obj \<times> 'x \<times> ef_st) option" where
  "env_walk callback sector env x e =
     (let start = get_next_env_addr e sector env; env = env\<lparr>n_start := start\<rparr> in
      if start = FAILED_ADDR then Some (False, env, x, e)
      else do {
        (_, env, e) \<leftarrow> read_env env e;
        (stop, x, e) \<leftarrow> callback env x e;
        if stop then Some (True, env, x, e) else env_walk callback sector env x e
      })"

partial_function (option) env_sectors ::
    "(env_node_obj \<Rightarrow> 'x \<Rightarrow> ef_st \<Rightarrow> (bool \<times> 'x \<times> ef_st) option) \<Rightarrow> sector_meta_data \<Rightarrow> env_node_obj \<Rightarrow> 'x \<Rightarrow> ef_st
      \<Rightarrow> (env_node_obj \<times> 'x \<times> ef_st) option" where
  "env_sectors callback sector env x e =
     (let sec_addr = get_next_sector_addr sector in
      if sec_addr = FAILED_ADDR then Some (env, x, e)
      else do {
        (result, sector, e) \<leftarrow> read_sector_meta_data sec_addr sector False e;
        if result = EF_NO_ERR \<and> (s_store sector = SECTOR_STORE_USING \<or> s_store sector = SECTOR_STORE_FULL) then do {
          (stop, env, x, e) \<leftarrow> env_walk callback sector (env\<lparr>n_start := FAILED_ADDR\<rparr>) x e;
          if stop then Some (env, x, e) else env_sectors callback sector env x e
        } else env_sectors callback sector env x e
      })"

definition env_iterator ::
    "(env_node_obj \<Rightarrow> 'x \<Rightarrow> ef_st \<Rightarrow> (bool \<times> 'x \<times> ef_st) option) \<Rightarrow> env_node_obj \<Rightarrow> 'x \<Rightarrow> ef_st
      \<Rightarrow> (env_node_obj \<times> 'x \<times> ef_st) option" where
  "env_iterator callback env x e = env_sectors callback blank_sector env x e"

partial_function (option) sector_loop ::
    "sector_store_status \<Rightarrow> (sector_meta_data \<Rightarrow> 'x \<Rightarrow> ef_st \<Rightarrow> (bool \<times> 'x \<times> ef_st) option) \<Rightarrow> bool
      \<Rightarrow> sector_meta_data \<Rightarrow> 'x \<Rightarrow> ef_st \<Rightarrow> (sector_meta_data \<times> 'x \<times> ef_st) option" where
  "sector_loop status callback traversal_env sector x e =
     (let sec_addr = get_next_sector_addr sector in
      if sec_addr = FAILED_ADDR then Some (sector, x, e)
      else do {
        (_, sector, e) \<leftarrow> read_sector_meta_data sec_addr sector False e;
        if status = SECTOR_STORE_UNUSED \<or> status = s_store sector then do {
          (_, sector, e) \<leftarrow> (if traversal_env then read_sector_meta_data sec_addr sector True e
             else Some (EF_NO_ERR, sector, e));
          (stop, x, e) \<leftarrow> callback sector x e;
          if stop then Some (sector, x, e) else sector_loop status callback traversal_env sector x e
        } else sector_loop status callback traversal_env sector x e
      })"

definition sector_iterator ::
    "sector_meta_data \<Rightarrow> sector_store_status \<Rightarrow> 'x \<Rightarrow> (sector_meta_data \<Rightarrow> 'x \<Rightarrow> ef_st \<Rightarrow> (bool \<times> 'x \<times> ef_st) option)
      \<Rightarrow> bool \<Rightarrow> ef_st \<Rightarrow> (sector_meta_data \<times> 'x \<times> ef_st) option" where
  "sector_iterator sector status x callback traversal_env e =
     sector_loop status callback traversal_env (sector\<lparr>s_addr := FAILED_ADDR\<rparr>) x e"

section \<open>Finding an entry\<close>

definition find_env_cb :: "byte list \<Rightarrow> env_node_obj \<Rightarrow> bool \<Rightarrow> ef_st \<Rightarrow> (bool \<times> bool \<times> ef_st) option" where
  "find_env_cb key env find_ok e =
     (if length key \<noteq> unat (n_name_len env) then Some (False, find_ok, e)
      else if n_crc_ok env \<and> n_status env = ENV_WRITE \<and> n_name env = key then Some (True, True, e)
      else Some (False, find_ok, e))"

definition find_env_no_cache :: "byte list \<Rightarrow> env_node_obj \<Rightarrow> ef_st \<Rightarrow> (bool \<times> env_node_obj \<times> ef_st) option" where
  "find_env_no_cache key env e =
     do { (env, find_ok, e) \<leftarrow> env_iterator (find_env_cb key) env False e; Some (find_ok, env, e) }"

definition find_env :: "byte list \<Rightarrow> env_node_obj \<Rightarrow> ef_st \<Rightarrow> (bool \<times> env_node_obj \<times> ef_st) option" where
  "find_env key env e =
     (case get_env_from_cache key e of
        (Some a, e) \<Rightarrow> do { (_, env, e) \<leftarrow> read_env (env\<lparr>n_start := a\<rparr>) e; Some (True, env, e) }
      | (None, e) \<Rightarrow> do {
          (find_ok, env, e) \<leftarrow> find_env_no_cache key env e;
          Some (find_ok, env, if find_ok then update_env_cache key (n_start env) e else e) })"

text \<open>What the caller gets: the number of bytes copied, the bytes, and the stored length if it was found.\<close>

definition get_env :: "byte list \<Rightarrow> nat \<Rightarrow> env_node_obj \<Rightarrow> ef_st \<Rightarrow> (nat \<times> byte list \<times> u32 option \<times> ef_st) option" where
  "get_env key buf_len env e =
     do {
       (found, env, e) \<leftarrow> find_env key env e;
       if found then
         let read_len = (if buf_len > unat (n_value_len env) then unat (n_value_len env) else buf_len)
         in Some (read_len, ef_port_read e (n_value env) read_len, Some (n_value_len env), e)
       else Some (0, [], None, e)
     }"

end
