(* ===== verification/Ef_Write.thy ===== *)
theory Ef_Write
  imports Ef_Env
begin

text \<open>
  The operations of \<open>ef_env.c\<close> that write: formatting, allocation, creation, deletion and moving of entries,
  garbage collection, loading with its recovery, and the calls of the application.
\<close>

section \<open>Formatting and the status of a sector\<close>

definition write_env_hdr :: "u32 \<Rightarrow> byte list \<Rightarrow> ef_st \<Rightarrow> (EfErrCode \<times> ef_st) option" where
  "write_env_hdr addr hdr e =
     do {
       (result, e) \<leftarrow> write_status addr ENV_STATUS_NUM (env_no ENV_PRE_WRITE) e;
       if result \<noteq> EF_NO_ERR then Some (result, e)
       else Some (ef_port_write (addr + ENV_MAGIC_OFFSET) hdr e)
     }"

definition sector_hdr :: "u32 \<Rightarrow> byte list" where
  "sector_hdr combined_value =
     fst (set_status SECTOR_STORE_STATUS_NUM (store_no SECTOR_STORE_EMPTY)) @
     fst (set_status SECTOR_DIRTY_STATUS_NUM (dirty_no SECTOR_DIRTY_FALSE)) @ [0xFF, 0xFF] @
     bytes_of32 SECTOR_MAGIC_WORD @ bytes_of32 combined_value @ bytes_of32 0xFFFFFFFF"

definition format_sector :: "u32 \<Rightarrow> u32 \<Rightarrow> ef_st \<Rightarrow> (EfErrCode \<times> ef_st) option" where
  "format_sector addr combined_value e =
     (if addr mod SECTOR_SIZE \<noteq> 0 then None
      else do {
        (result, e) \<leftarrow> ef_port_erase addr (unat SECTOR_SIZE) e;
        if result \<noteq> EF_NO_ERR then Some (result, e)
        else let (result, e) = ef_port_write addr (sector_hdr combined_value) e
             in Some (result, update_sector_cache addr (addr + SECTOR_SIZE) e)
      })"

definition EF_SEC_REMAIN_THRESHOLD :: u32 where "EF_SEC_REMAIN_THRESHOLD = ENV_HDR_DATA_SIZE + 32"
definition EF_GC_EMPTY_SEC_THRESHOLD :: nat where "EF_GC_EMPTY_SEC_THRESHOLD = 1"

text \<open>The second result is what \<open>is_full\<close> points to, false before the call.\<close>

definition update_sec_status :: "sector_meta_data \<Rightarrow> u32 \<Rightarrow> ef_st \<Rightarrow> (EfErrCode \<times> bool \<times> ef_st) option" where
  "update_sec_status sector new_env_len e =
     (if s_store sector = SECTOR_STORE_EMPTY then do {
        (result, e) \<leftarrow> write_status (s_addr sector) SECTOR_STORE_STATUS_NUM (store_no SECTOR_STORE_USING) e;
        Some (result, False, e) }
      else if s_store sector = SECTOR_STORE_USING then
        if s_remain sector < EF_SEC_REMAIN_THRESHOLD \<or> s_remain sector - new_env_len < EF_SEC_REMAIN_THRESHOLD
        then do {
          (result, e) \<leftarrow> write_status (s_addr sector) SECTOR_STORE_STATUS_NUM (store_no SECTOR_STORE_FULL) e;
          Some (result, True, update_sector_cache (s_addr sector) (s_addr sector + SECTOR_SIZE) e) }
        else Some (EF_NO_ERR, False, e)
      else Some (EF_NO_ERR, False, e))"

section \<open>Allocation\<close>

definition sector_statistics_cb :: "sector_meta_data \<Rightarrow> nat \<times> nat \<Rightarrow> ef_st \<Rightarrow> (bool \<times> (nat \<times> nat) \<times> ef_st) option" where
  "sector_statistics_cb sector n e =
     (let (empty_sector, using_sector) = n in
      if check_ok sector \<and> s_store sector = SECTOR_STORE_EMPTY then Some (False, (empty_sector + 1, using_sector), e)
      else if check_ok sector \<and> s_store sector = SECTOR_STORE_USING then Some (False, (empty_sector, using_sector + 1), e)
      else Some (False, n, e))"

definition alloc_env_cb :: "u32 \<Rightarrow> sector_meta_data \<Rightarrow> u32 \<Rightarrow> ef_st \<Rightarrow> (bool \<times> u32 \<times> ef_st) option" where
  "alloc_env_cb env_len sector empty_env e =
     (if check_ok sector \<and> s_remain sector > env_len \<and>
         (s_dirty sector = SECTOR_DIRTY_FALSE \<or> s_dirty sector = SECTOR_DIRTY_TRUE \<and> \<not> gc_request e)
      then Some (True, s_empty sector, e) else Some (False, empty_env, e))"

definition alloc_env :: "sector_meta_data \<Rightarrow> u32 \<Rightarrow> ef_st \<Rightarrow> (u32 \<times> sector_meta_data \<times> ef_st) option" where
  "alloc_env sector env_len e =
     do {
       (sector, (empty_sector, using_sector), e) \<leftarrow>
         sector_iterator sector SECTOR_STORE_UNUSED (0, 0) sector_statistics_cb False e;
       (sector, empty_env, e) \<leftarrow>
         (if using_sector > 0
          then sector_iterator sector SECTOR_STORE_USING FAILED_ADDR (alloc_env_cb env_len) True e
          else Some (sector, FAILED_ADDR, e));
       if empty_sector > 0 \<and> empty_env = FAILED_ADDR then
         if empty_sector > EF_GC_EMPTY_SEC_THRESHOLD \<or> gc_request e then do {
           (sector, empty_env, e) \<leftarrow> sector_iterator sector SECTOR_STORE_EMPTY empty_env (alloc_env_cb env_len) True e;
           Some (empty_env, sector, e) }
         else Some (empty_env, sector, e\<lparr>gc_request := True\<rparr>)
       else Some (empty_env, sector, e)
     }"

section \<open>Deletion\<close>

text \<open>
  \<open>key\<close> and \<open>old_env\<close> may be null. The cache forgets the name only when the deletion is not the second half
  of a change, which the static variable \<open>last_is_complete_del\<close> remembers.
\<close>

definition del_status :: "byte list option \<Rightarrow> env_node_obj \<Rightarrow> bool \<Rightarrow> ef_st \<Rightarrow> (EfErrCode \<times> ef_st) option" where
  "del_status key old_env complete_del e =
     (if \<not> complete_del then do {
        (result, e) \<leftarrow> write_status (n_start old_env) ENV_STATUS_NUM (env_no ENV_PRE_DELETE) e;
        Some (result, e\<lparr>last_is_complete_del := True\<rparr>) }
      else do {
        (result, e) \<leftarrow> write_status (n_start old_env) ENV_STATUS_NUM (env_no ENV_DELETED) e;
        let e = (if \<not> last_is_complete_del e \<and> result = EF_NO_ERR
              then update_env_cache (case key of Some k \<Rightarrow> k | None \<Rightarrow> n_name old_env) FAILED_ADDR e else e)
        in Some (result, e\<lparr>last_is_complete_del := False\<rparr>) })"

definition del_old_env :: "byte list option \<Rightarrow> env_node_obj \<Rightarrow> bool \<Rightarrow> ef_st \<Rightarrow> (EfErrCode \<times> ef_st) option" where
  "del_old_env key old_env complete_del e =
     do {
       (result, e) \<leftarrow> del_status key old_env complete_del e;
       let dirty_status_addr = sector_of (n_start old_env) + SECTOR_DIRTY_OFFSET in
       if result = EF_NO_ERR \<and>
          read_status e dirty_status_addr SECTOR_DIRTY_STATUS_NUM = dirty_no SECTOR_DIRTY_FALSE
       then write_status dirty_status_addr SECTOR_DIRTY_STATUS_NUM (dirty_no SECTOR_DIRTY_TRUE) e
       else Some (result, e)
     }"

definition del_env :: "byte list \<Rightarrow> bool \<Rightarrow> ef_st \<Rightarrow> (EfErrCode \<times> ef_st) option" where
  "del_env key complete_del e =
     do {
       (found, env, e) \<leftarrow> find_env key blank_node e;
       if found then del_old_env (Some key) env complete_del e else Some (EF_ENV_NAME_ERR, e)
     }"

section \<open>Moving an entry\<close>

text \<open>The bytes behind the status are copied in pieces of 32.\<close>

function move_loop :: "u32 \<Rightarrow> u32 \<Rightarrow> nat \<Rightarrow> nat \<Rightarrow> EfErrCode \<Rightarrow> ef_st \<Rightarrow> EfErrCode \<times> ef_st" where
  "move_loop from_addr to_addr len env_len result e =
     (if len < env_len then
        let size = (if len + 32 < env_len then 32 else env_len - len);
            buf = ef_port_read e (from_addr + of_nat len) size;
            (result, e) = ef_port_write (to_addr + of_nat len) buf e
        in move_loop from_addr to_addr (len + size) env_len result e
      else (result, e))"
  by pat_completeness auto
termination by (relation "measure (\<lambda>(a, b, len, n, r, e). n - len)") (auto split: if_splits)

declare move_loop.simps [simp del]

definition c_string :: "byte list \<Rightarrow> byte list" where
  "c_string bs = takeWhile (\<lambda>b. b \<noteq> 0) bs"

definition move_env :: "env_node_obj \<Rightarrow> ef_st \<Rightarrow> (EfErrCode \<times> ef_st) option" where
  "move_env env e =
     do {
       (_, e) \<leftarrow> (if n_status env = ENV_WRITE then del_old_env None env False e else Some (EF_NO_ERR, e));
       (env_addr, sector, e) \<leftarrow> alloc_env blank_sector (n_len env) e;
       if env_addr = FAILED_ADDR then Some (EF_ENV_FULL, e)
       else do {
         (found, _, e) \<leftarrow> (if in_recovery_check e then find_env_no_cache (c_string (n_name env)) blank_node e
            else Some (False, blank_node, e));
         (result, e) \<leftarrow>
           (if found then Some (EF_NO_ERR, e)
            else do {
              (_, _, e) \<leftarrow> update_sec_status sector (n_len env) e;
              (_, e) \<leftarrow> write_status env_addr ENV_STATUS_NUM (env_no ENV_PRE_WRITE) e;
              let (result, e) = move_loop (n_start env + ENV_MAGIC_OFFSET) (env_addr + ENV_MAGIC_OFFSET) 0
                    (unat (n_len env - ENV_MAGIC_OFFSET)) EF_NO_ERR e;
              (_, e) \<leftarrow> write_status env_addr ENV_STATUS_NUM (env_no ENV_WRITE) e;
              let e = update_sector_cache (sector_of env_addr)
                    (env_addr + ENV_HDR_DATA_SIZE + ucast (n_name_len env) + n_value_len env) e;
              Some (result, update_env_cache (n_name env) env_addr e)
            });
         (_, e) \<leftarrow> del_old_env None env True e;
         Some (result, e)
       }
     }"

section \<open>Garbage collection\<close>

definition gc_check_cb :: "sector_meta_data \<Rightarrow> nat \<Rightarrow> ef_st \<Rightarrow> (bool \<times> nat \<times> ef_st) option" where
  "gc_check_cb sector empty_sec e = Some (False, if check_ok sector then empty_sec + 1 else empty_sec, e)"

partial_function (option) gc_walk :: "sector_meta_data \<Rightarrow> env_node_obj \<Rightarrow> ef_st \<Rightarrow> ef_st option" where
  "gc_walk sector env e =
     (let start = get_next_env_addr e sector env; env = env\<lparr>n_start := start\<rparr> in
      if start = FAILED_ADDR then Some e
      else do {
        (_, env, e) \<leftarrow> read_env env e;
        if n_crc_ok env \<and> (n_status env = ENV_WRITE \<or> n_status env = ENV_PRE_DELETE)
        then do { (_, e) \<leftarrow> move_env env e; gc_walk sector env e }
        else gc_walk sector env e
      })"

definition do_gc :: "sector_meta_data \<Rightarrow> unit \<Rightarrow> ef_st \<Rightarrow> (bool \<times> unit \<times> ef_st) option" where
  "do_gc sector x e =
     (if check_ok sector \<and> (s_dirty sector = SECTOR_DIRTY_TRUE \<or> s_dirty sector = SECTOR_DIRTY_GC) then do {
        (_, e) \<leftarrow> write_status (s_addr sector + SECTOR_DIRTY_OFFSET) SECTOR_DIRTY_STATUS_NUM (dirty_no SECTOR_DIRTY_GC) e;
        e \<leftarrow> gc_walk sector blank_node e;
        (_, e) \<leftarrow> format_sector (s_addr sector) SECTOR_NOT_COMBINED e;
        Some (False, x, e) }
      else Some (False, x, e))"

definition gc_collect :: "ef_st \<Rightarrow> ef_st option" where
  "gc_collect e =
     do {
       (sector, empty_sec, e) \<leftarrow> sector_iterator blank_sector SECTOR_STORE_EMPTY 0 gc_check_cb False e;
       e \<leftarrow> (if empty_sec \<le> EF_GC_EMPTY_SEC_THRESHOLD then do {
            (_, _, e) \<leftarrow> sector_iterator sector SECTOR_STORE_UNUSED () do_gc False e;
            Some e }
          else Some e);
       Some (e\<lparr>gc_request := False\<rparr>)
     }"

text \<open>One collection at most, then allocation is tried again.\<close>

definition new_env :: "sector_meta_data \<Rightarrow> u32 \<Rightarrow> ef_st \<Rightarrow> (u32 \<times> sector_meta_data \<times> ef_st) option" where
  "new_env sector env_len e =
     do {
       (empty_env, sector, e) \<leftarrow> alloc_env sector env_len e;
       if empty_env = FAILED_ADDR \<and> gc_request e then do { e \<leftarrow> gc_collect e; alloc_env sector env_len e }
       else Some (empty_env, sector, e)
     }"

definition new_env_by_kv :: "sector_meta_data \<Rightarrow> nat \<Rightarrow> nat \<Rightarrow> ef_st \<Rightarrow> (u32 \<times> sector_meta_data \<times> ef_st) option" where
  "new_env_by_kv sector key_len buf_len e = new_env sector (ENV_HDR_DATA_SIZE + of_nat key_len + of_nat buf_len) e"

end
