(* ===== verification/Ef_Api.thy ===== *)
theory Ef_Api
  imports Ef_Write
begin

text \<open>
  Creation of an entry, the calls of the application, and start-up with its recovery (\<open>ef_env.c\<close>). The semaphore
  that the calls take is not modelled: they run one after the other.
\<close>

section \<open>Creation\<close>

definition env_hdr_tail :: "byte list \<Rightarrow> byte list \<Rightarrow> byte list" where
  "env_hdr_tail key value = [of_nat (length key), 0xFF, 0xFF, 0xFF] @ bytes_of32 (of_nat (length value))"

definition create_env_blob ::
    "sector_meta_data \<Rightarrow> byte list \<Rightarrow> byte list \<Rightarrow> ef_st \<Rightarrow> (EfErrCode \<times> sector_meta_data \<times> ef_st) option" where
  "create_env_blob sector key value e =
     (let hdr_len = ENV_HDR_DATA_SIZE + of_nat (length key) + of_nat (length value) in
      if length key > EF_ENV_NAME_MAX then Some (EF_ENV_NAME_ERR, sector, e)
      else if hdr_len > SECTOR_SIZE - SECTOR_HDR_DATA_SIZE then Some (EF_ENV_FULL, sector, e)
      else do {
        (env_addr, sector, e) \<leftarrow>
          (if s_empty sector \<noteq> FAILED_ADDR then Some (s_empty sector, sector, e) else new_env sector hdr_len e);
        if env_addr = FAILED_ADDR then Some (EF_ENV_FULL, sector, e)
        else do {
          (result, is_full, e) \<leftarrow> update_sec_status sector hdr_len e;
          (result, e) \<leftarrow>
            (if result = EF_NO_ERR then
               let crc = ef_calc_crc32 0 (env_hdr_tail key value);
                   crc = ef_calc_crc32 crc key;
                   crc = ef_calc_crc32 crc value
               in write_env_hdr env_addr (bytes_of32 ENV_MAGIC_WORD @ bytes_of32 hdr_len @ bytes_of32 crc @
                    env_hdr_tail key value) e
             else Some (result, e));
          let (result, e) =
            (if result = EF_NO_ERR then
               let (result, e) = ef_port_write (env_addr + ENV_HDR_DATA_SIZE) key e;
                   e = (if \<not> is_full then update_sector_cache (s_addr sector)
                          (env_addr + ENV_HDR_DATA_SIZE + of_nat (length key) + of_nat (length value)) e else e)
               in (result, update_env_cache key env_addr e)
             else (result, e));
          let (result, e) =
            (if result = EF_NO_ERR then ef_port_write (env_addr + ENV_HDR_DATA_SIZE + of_nat (length key)) value e
             else (result, e));
          (result, e) \<leftarrow>
            (if result = EF_NO_ERR then write_status env_addr ENV_STATUS_NUM (env_no ENV_WRITE) e
             else Some (result, e));
          Some (result, sector, if result = EF_NO_ERR \<and> is_full then e\<lparr>gc_request := True\<rparr> else e)
        }
      })"

section \<open>Setting a value\<close>

text \<open>No value means deletion.\<close>

definition set_env :: "byte list \<Rightarrow> byte list option \<Rightarrow> ef_st \<Rightarrow> (EfErrCode \<times> ef_st) option" where
  "set_env key value_buf e =
     (case value_buf of
        None \<Rightarrow> del_env key True e
      | Some value \<Rightarrow> do {
          (addr, sector, e) \<leftarrow> new_env_by_kv blank_sector (length key) (length value) e;
          if addr = FAILED_ADDR then Some (EF_ENV_FULL, e)
          else do {
            (env_is_found, env, e) \<leftarrow> find_env key blank_node e;
            (result, e) \<leftarrow> (if env_is_found then del_old_env (Some key) env False e else Some (EF_NO_ERR, e));
            (result, sector, e) \<leftarrow>
              (if result = EF_NO_ERR then create_env_blob sector key value e else Some (result, sector, e));
            (result, e) \<leftarrow>
              (if env_is_found \<and> result = EF_NO_ERR then del_old_env (Some key) env True e else Some (result, e));
            e \<leftarrow> (if gc_request e then gc_collect e else Some e);
            Some (result, e)
          }
        })"

definition flash_set_env_blob :: "byte list \<Rightarrow> byte list option \<Rightarrow> ef_st \<Rightarrow> (EfErrCode \<times> ef_st) option" where
  "flash_set_env_blob key value_buf e =
     (if \<not> init_ok e then Some (EF_ENV_INIT_FAILED, e) else set_env key value_buf e)"

definition flash_del_env :: "byte list \<Rightarrow> ef_st \<Rightarrow> (EfErrCode \<times> ef_st) option" where
  "flash_del_env key e = (if \<not> init_ok e then Some (EF_ENV_INIT_FAILED, e) else del_env key True e)"

definition flash_get_env_blob ::
    "byte list \<Rightarrow> nat \<Rightarrow> env_node_obj \<Rightarrow> ef_st \<Rightarrow> (nat \<times> byte list \<times> u32 option \<times> ef_st) option" where
  "flash_get_env_blob key buf_len env e =
     (if \<not> init_ok e then Some (0, [], None, e) else get_env key buf_len env e)"

section \<open>Start-up\<close>

text \<open>The default set of the port file: the name \<open>boot_times\<close> with the text \<open>0\<close>.\<close>

definition boot_times_key :: "byte list" where
  "boot_times_key = map of_char ''boot_times''"

definition default_env_set :: "(byte list \<times> byte list) list" where
  "default_env_set = [(boot_times_key, map of_char ''0'')]"

fun format_loop :: "u32 list \<Rightarrow> ef_st \<Rightarrow> (EfErrCode \<times> ef_st) option" where
  "format_loop [] e = Some (EF_NO_ERR, e)"
| "format_loop (addr # as) e =
     do { (result, e) \<leftarrow> format_sector addr SECTOR_NOT_COMBINED e;
          if result \<noteq> EF_NO_ERR then Some (result, e) else format_loop as e }"

text \<open>The result of the creation is dropped.\<close>

fun default_loop :: "(byte list \<times> byte list) list \<Rightarrow> ef_st \<Rightarrow> ef_st option" where
  "default_loop [] e = Some e"
| "default_loop ((key, value) # ds) e =
     do { (_, _, e) \<leftarrow> create_env_blob (blank_sector\<lparr>s_empty := FAILED_ADDR\<rparr>) key value e; default_loop ds e }"

definition flash_env_set_default :: "ef_st \<Rightarrow> (EfErrCode \<times> ef_st) option" where
  "flash_env_set_default e =
     do {
       (result, e) \<leftarrow> format_loop sectors e;
       if result \<noteq> EF_NO_ERR then Some (result, e)
       else do { e \<leftarrow> default_loop default_env_set e; Some (EF_NO_ERR, e) }
     }"

definition check_sec_hdr_cb :: "sector_meta_data \<Rightarrow> nat \<Rightarrow> ef_st \<Rightarrow> (bool \<times> nat \<times> ef_st) option" where
  "check_sec_hdr_cb sector failed_count e =
     (if \<not> check_ok sector then do {
        (_, e) \<leftarrow> format_sector (s_addr sector) SECTOR_NOT_COMBINED e;
        Some (False, failed_count + 1, e) }
      else Some (False, failed_count, e))"

definition check_and_recovery_gc_cb :: "sector_meta_data \<Rightarrow> unit \<Rightarrow> ef_st \<Rightarrow> (bool \<times> unit \<times> ef_st) option" where
  "check_and_recovery_gc_cb sector x e =
     (if check_ok sector \<and> s_dirty sector = SECTOR_DIRTY_GC then do {
        e \<leftarrow> gc_collect (e\<lparr>gc_request := True\<rparr>);
        Some (False, x, e) }
      else Some (False, x, e))"

definition check_and_recovery_env_cb :: "env_node_obj \<Rightarrow> unit \<Rightarrow> ef_st \<Rightarrow> (bool \<times> unit \<times> ef_st) option" where
  "check_and_recovery_env_cb env x e =
     (if n_crc_ok env \<and> n_status env = ENV_PRE_DELETE then do {
        (result, e) \<leftarrow> move_env env e;
        Some (result \<noteq> EF_NO_ERR, x, e) }
      else if n_status env = ENV_PRE_WRITE then do {
        (_, e) \<leftarrow> write_status (n_start env) ENV_STATUS_NUM (env_no ENV_ERR_HDR) e;
        Some (True, x, e) }
      else Some (False, x, e))"

partial_function (option) recovery_loop :: "env_node_obj \<Rightarrow> ef_st \<Rightarrow> ef_st option" where
  "recovery_loop env e =
     do {
       (env, _, e) \<leftarrow> env_iterator check_and_recovery_env_cb env () e;
       if gc_request e then do { e \<leftarrow> gc_collect e; recovery_loop env e } else Some e
     }"

definition ef_load_env :: "ef_st \<Rightarrow> (EfErrCode \<times> ef_st) option" where
  "ef_load_env e =
     do {
       (sector, failed_count, e) \<leftarrow>
         sector_iterator blank_sector SECTOR_STORE_UNUSED 0 check_sec_hdr_cb False (e\<lparr>in_recovery_check := True\<rparr>);
       e \<leftarrow> (if failed_count = 4 then do { (_, e) \<leftarrow> flash_env_set_default e; Some e } else Some e);
       (_, _, e) \<leftarrow> sector_iterator sector SECTOR_STORE_UNUSED () check_and_recovery_gc_cb False e;
       e \<leftarrow> recovery_loop blank_node e;
       Some (EF_NO_ERR, e\<lparr>in_recovery_check := False\<rparr>)
     }"

definition ef_env_init :: "ef_st \<Rightarrow> (EfErrCode \<times> ef_st) option" where
  "ef_env_init e =
     (if init_ok e then Some (EF_NO_ERR, e)
      else do {
        (result, e) \<leftarrow> ef_load_env (e\<lparr>
          sector_cache_table := map (\<lambda>n. n\<lparr>sec_addr := FAILED_ADDR\<rparr>) (sector_cache_table e),
          env_cache_table := map (\<lambda>n. n\<lparr>node_addr := FAILED_ADDR\<rparr>) (env_cache_table e)\<rparr>);
        Some (result, if result = EF_NO_ERR then e\<lparr>init_ok := True\<rparr> else e)
      })"

end
