(* ===== verification/Ef_Rep.thy ===== *)
theory Ef_Rep
  imports Ef_Api
begin

text \<open>
  The store at rest, abstractly: four sectors, each with its two statuses and its entries. \<open>rep\<close> says that the
  flash memory and the sector cache are those of an abstract store; the reading operations of \<open>ef_env.c\<close> then
  give what the abstract store says.
\<close>

section \<open>Abstract sectors\<close>

record asec =
  a_store :: sector_store_status
  a_dirty :: sector_dirty_status
  a_envs :: "(entry \<times> env_status) list"

definition used :: "asec \<Rightarrow> nat" where
  "used s = 16 + chain_size (a_envs s)"

definition hdr_at :: "(nat \<Rightarrow> byte) \<Rightarrow> nat \<Rightarrow> sector_store_status \<Rightarrow> sector_dirty_status \<Rightarrow> bool" where
  "hdr_at m b st d \<longleftrightarrow> get_status [m b] SECTOR_STORE_STATUS_NUM = store_no st \<and>
     get_status [m (b + 1)] SECTOR_DIRTY_STATUS_NUM = dirty_no d \<and>
     le32 (bytes_at m (b + 4) 4) 0 = SECTOR_MAGIC_WORD \<and> le32 (bytes_at m (b + 8) 4) 0 = SECTOR_NOT_COMBINED"

definition sec_at :: "(nat \<Rightarrow> byte) \<Rightarrow> nat \<Rightarrow> asec \<Rightarrow> bool" where
  "sec_at m i s \<longleftrightarrow> hdr_at m (4096 * i) (a_store s) (a_dirty s) \<and> filled m (4096 * i) (a_envs s) (4096 * i + used s)"

definition sector_cache_rep :: "ef_st \<Rightarrow> asec list \<Rightarrow> bool" where
  "sector_cache_rep e ss \<longleftrightarrow> sector_cache_ok (sector_cache_table e) \<and>
     (\<forall>i < 4. \<forall>a. get_sector_from_cache e (of_nat (4096 * i)) = Some a \<longrightarrow>
        unat a = 4096 * i + used (ss ! i))"

text \<open>A sector is empty exactly if it has no entry.\<close>

definition shape :: "asec \<Rightarrow> bool" where
  "shape s \<longleftrightarrow> a_store s \<noteq> SECTOR_STORE_UNUSED \<and> (a_store s = SECTOR_STORE_EMPTY \<longleftrightarrow> a_envs s = [])"

definition rep :: "ef_st \<Rightarrow> asec list \<Rightarrow> bool" where
  "rep e ss \<longleftrightarrow> length ss = 4 \<and> (\<forall>i < 4. sec_at (chip e) i (ss ! i) \<and> shape (ss ! i)) \<and> sector_cache_rep e ss \<and> sound e"

lemma repD:
  "rep e ss \<Longrightarrow> i < 4 \<Longrightarrow> sec_at (chip e) i (ss ! i)" "rep e ss \<Longrightarrow> length ss = 4" "rep e ss \<Longrightarrow> sound e"
  "rep e ss \<Longrightarrow> sector_cache_rep e ss" "rep e ss \<Longrightarrow> i < 4 \<Longrightarrow> shape (ss ! i)"
  by (simp_all add: rep_def)

lemma used_le: "sec_at m i s \<Longrightarrow> used s \<le> 4096"
  by (simp add: sec_at_def filled_def)

section \<open>Addresses of sectors\<close>

definition sec :: "nat \<Rightarrow> u32" where
  "sec i = of_nat (4096 * i)"

lemma unat_sec [simp]: "i \<le> 4 \<Longrightarrow> unat (sec i) = 4096 * i"
  unfolding sec_def by (rule area_words) simp

lemma sec_not_failed [simp]: "i \<le> 4 \<Longrightarrow> sec i \<noteq> FAILED_ADDR"
proof
  assume "i \<le> 4" "sec i = FAILED_ADDR"
  then have "unat FAILED_ADDR = 4096 * i" using unat_sec [of i] by simp
  then show False using \<open>i \<le> 4\<close> by (simp add: FAILED_ADDR_def)
qed

lemma sec_in_sectors: "i < 4 \<Longrightarrow> sec i \<in> set sectors"
  by (auto simp: sec_def sectors_def less_Suc_eq numeral_eq_Suc)

lemma sectors_sec: "a \<in> set sectors \<Longrightarrow> \<exists>i < 4. a = sec i"
proof -
  assume "a \<in> set sectors"
  then consider "a = sec 0" | "a = sec 1" | "a = sec 2" | "a = sec 3" by (auto simp: sectors_def sec_def)
  then show ?thesis by cases (rule exI, rule conjI [rotated], assumption, simp)+
qed

lemma unat_sec_off: "\<lbrakk>i \<le> 4; n \<le> 4096\<rbrakk> \<Longrightarrow> unat (sec i + of_nat n) = 4096 * i + n"
  by (simp add: unat_add_small)

lemma sec_Suc: "sec i + SECTOR_SIZE = sec (Suc i)"
  by (simp add: sec_def SECTOR_SIZE_def)

lemma sec_mod [simp]: "i \<le> 4 \<Longrightarrow> sec i mod SECTOR_SIZE = 0"
proof -
  assume "i \<le> 4"
  then have "unat (sec i mod SECTOR_SIZE) = 4096 * i mod 4096" by (simp add: unat_mod SECTOR_SIZE_def)
  then show ?thesis by (simp add: unat_eq_0)
qed

lemma next_sector:
  assumes "s_addr pre = sec i" "s_combined pre = SECTOR_NOT_COMBINED" "i < 4"
  shows "get_next_sector_addr pre = (if Suc i < 4 then sec (Suc i) else FAILED_ADDR)"
proof -
  have "sec (Suc i) < ENV_AREA_SIZE \<longleftrightarrow> Suc i < 4"
    using assms(3) by (simp add: word_less_nat_alt ENV_AREA_SIZE_def SECTOR_SIZE_def)
  with assms show ?thesis by (simp add: get_next_sector_addr_def sec_Suc)
qed

lemma first_sector: "s_addr pre = FAILED_ADDR \<Longrightarrow> get_next_sector_addr pre = sec 0"
  by (simp add: get_next_sector_addr_def sec_def)

lemma sector_of_sec:
  assumes "i \<le> 4" "n < 4096"
  shows "sector_of (sec i + of_nat n) = sec i"
proof -
  have k: "unat (sec i + of_nat n) = 4096 * i + n" using assms by (simp add: unat_sec_off)
  have "NOT (SECTOR_SIZE - 1) = NOT (mask 12 :: u32)" by (simp add: SECTOR_SIZE_def mask_eq_exp_minus_1)
  then have "sector_of (sec i + of_nat n) = push_bit 12 (drop_bit 12 (sec i + of_nat n))"
    unfolding sector_of_def
    by (simp only:) (rule bit_word_eqI, auto simp: bit_simps simp del: push_bit_of_1 push_bit_eq_mult)
  also have "drop_bit 12 (sec i + of_nat n) = (of_nat i :: u32)"
  proof (rule word_unat_eq_iff [THEN iffD2])
    have "unat (drop_bit 12 (sec i + of_nat n)) = (4096 * i + n) div 4096"
      unfolding unat_drop_bit_eq k by (simp add: drop_bit_eq_div)
    then show "unat (drop_bit 12 (sec i + of_nat n)) = unat (of_nat i :: u32)"
      using assms by (simp add: area_words)
  qed
  also have "push_bit 12 (of_nat i :: u32) = sec i" by (simp add: sec_def push_bit_eq_mult)
  finally show ?thesis .
qed

section \<open>Reading a sector\<close>

definition meta_of :: "sector_meta_data \<Rightarrow> nat \<Rightarrow> asec \<Rightarrow> sector_meta_data" where
  "meta_of sector i s = sector\<lparr>check_ok := True, s_store := a_store s, s_dirty := a_dirty s, s_addr := sec i,
     s_magic := SECTOR_MAGIC_WORD, s_combined := SECTOR_NOT_COMBINED\<rparr>"

lemma read_sector_hdr:
  assumes r: "rep e ss" and i: "i < 4"
  shows "read_sector_meta_data (sec i) sector False e = Some (EF_NO_ERR, meta_of sector i (ss ! i), e)"
proof -
  have h: "hdr_at (chip e) (4096 * i) (a_store (ss ! i)) (a_dirty (ss ! i))"
    using repD(1) [OF r i] by (simp add: sec_at_def)
  have rd: "ef_port_read e (sec i) 16 = bytes_at (chip e) (4096 * i) 16" using i by (simp add: ef_port_read_in)
  show ?thesis using h i
    by (simp add: read_sector_meta_data_def rd le32_bytes_at [of 4 16] le32_bytes_at [of 8 16] hdr_at_def meta_of_def Let_def
        del: One_nat_def)
qed

section \<open>Walking over the entries of a sector\<close>

text \<open>The address behind the first entries of a sector.\<close>

definition pos :: "nat \<Rightarrow> (entry \<times> env_status) list \<Rightarrow> u32" where
  "pos i es = sec i + of_nat (16 + chain_size es)"

lemma unat_pos: "\<lbrakk>i \<le> 4; 16 + chain_size es \<le> 4096\<rbrakk> \<Longrightarrow> unat (pos i es) = 4096 * i + 16 + chain_size es"
  unfolding pos_def by (simp add: unat_sec_off del: of_nat_add)

lemma pos_not_failed: "\<lbrakk>i \<le> 4; 16 + chain_size es \<le> 4096\<rbrakk> \<Longrightarrow> pos i es \<noteq> FAILED_ADDR"
proof
  assume "i \<le> 4" "16 + chain_size es \<le> 4096" "pos i es = FAILED_ADDR"
  then have "unat FAILED_ADDR \<le> 5 * 4096" using unat_pos [of i es] by simp
  then show False by (simp add: FAILED_ADDR_def)
qed

lemma pos_Suc: "pos i es + of_nat (env_size x) = pos i (es @ [(x, st)])"
  by (simp add: pos_def)

text \<open>Where a walk stands after the entries \<open>es\<close>.\<close>

definition walk_at :: "nat \<Rightarrow> (entry \<times> env_status) list \<Rightarrow> env_node_obj \<Rightarrow> bool" where
  "walk_at i es env \<longleftrightarrow> (if es = [] then n_start env = FAILED_ADDR
     else n_start env = pos i (butlast es) \<and> n_crc_ok env \<and> n_len env = of_nat (env_size (fst (last es))))"

lemma walk_first: "n_start env = FAILED_ADDR \<Longrightarrow> walk_at i [] env"
  by (simp add: walk_at_def)

lemma walk_node: "walk_at i (es @ [(x, st)]) (node_of env (pos i es) x st)"
  by (simp add: walk_at_def node_of_def)

lemma sec_part:
  assumes "rep e ss" "i < 4" "a_envs (ss ! i) = es @ es'"
  shows "filled (chip e) (4096 * i) (es @ es') (4096 * i + used (ss ! i))" "16 + chain_size es \<le> 4096"
    "chain (chip e) (4096 * i + 16) es (4096 * i + 16 + chain_size es)"
proof -
  show f: "filled (chip e) (4096 * i) (es @ es') (4096 * i + used (ss ! i))"
    using repD(1) [OF assms(1,2)] assms(3) by (simp add: sec_at_def)
  then show "16 + chain_size es \<le> 4096" by (simp add: filled_def used_def assms(3))
  from f obtain b where "chain (chip e) (4096 * i + 16) es b" by (auto simp: filled_def chain_append)
  with chain_end [OF this] show "chain (chip e) (4096 * i + 16) es (4096 * i + 16 + chain_size es)" by simp
qed

lemma cached_end:
  assumes r: "rep e ss" and i: "i < 4" and p: "a_envs (ss ! i) = es @ es'"
    and c: "get_sector_from_cache e (sector_of (pos i es)) = Some (pos i es)"
  shows "es' = []"
proof -
  have le: "16 + chain_size es \<le> 4096" by (rule sec_part(2) [OF r i p])
  show ?thesis
  proof (cases "16 + chain_size es = 4096")
    case True
    then have pos: "pos i es = sec (Suc i)" unfolding pos_def by (simp only: True) (simp add: sec_def)
    have "sector_of (pos i es) = sec (Suc i)" using sector_of_sec [of "Suc i" 0] i pos by simp
    with c pos have c': "get_sector_from_cache e (sec (Suc i)) = Some (sec (Suc i))" by simp
    show ?thesis
    proof (cases "Suc i < 4")
      case True
      with c' repD(4) [OF r] have "unat (sec (Suc i)) = 4096 * Suc i + used (ss ! Suc i)"
        unfolding sector_cache_rep_def sec_def by blast
      with True show ?thesis by (simp add: used_def)
    next
      case False
      with i have "i = 3" by simp
      have "sector_cache_ok (sector_cache_table e)" using repD(4) [OF r] by (simp add: sector_cache_rep_def)
      then have "cached_sector (sector_cache_table e) (sec 4) \<noteq> Some a" for a
        using cached_sector_nth [of _ "sec 4"] sectors_sec
        by (auto simp: sector_cache_ok_def) (metis less_irrefl_nat less_numeral_extra(3) nat_mult_eq_cancel1 unat_sec
            less_or_eq_imp_le zero_less_numeral sec_not_failed order_refl)
      moreover have "cached_sector (sector_cache_table e) (sec 4) = Some (sec 4)"
        using c' \<open>i = 3\<close> by (simp add: get_sector_from_cache_def cached_sector_def)
      ultimately show ?thesis by metis
    qed
  next
    case False
    with le have "sector_of (pos i es) = sec i" unfolding pos_def using i by (intro sector_of_sec) auto
    with c i repD(4) [OF r] have "unat (pos i es) = 4096 * i + used (ss ! i)"
      unfolding sector_cache_rep_def sec_def by auto
    then have "chain_size es' = 0" using unat_pos [of i es] i le p by (simp add: used_def)
    then show ?thesis by (cases es') (auto simp: env_size_def)
  qed
qed

text \<open>A step of the search goes to the next entry, or ends.\<close>

lemma get_next_walk:
  assumes r: "rep e ss" and i: "i < 4" and p: "a_envs (ss ! i) = es @ es'" and w: "walk_at i es env"
    and sm: "s_addr sm = sec i" "s_store sm \<noteq> SECTOR_STORE_EMPTY" and ne: "es @ es' \<noteq> []"
  shows "get_next_env_addr e sm env = (if es' = [] then FAILED_ADDR else pos i es)"
proof (cases "es = []")
  case True
  with w sm ne show ?thesis by (simp add: get_next_env_addr_def walk_at_def pos_def SECTOR_HDR_DATA_SIZE_def)
next
  case False
  then obtain es0 x st where es: "es = es0 @ [(x, st)]" by (metis prod.collapse append_butlast_last_id)
  have le: "16 + chain_size es \<le> 4096" by (rule sec_part(2) [OF r i p])
  then have le0: "16 + chain_size es0 \<le> 4096" "env_size x > 0" "env_size x < 4294967296" by (auto simp: es env_size_def)
  have start: "n_start env = pos i es0" "n_crc_ok env" "n_len env = of_nat (env_size x)"
    using w by (simp_all add: walk_at_def es)
  have stop: "unat (sec i + SECTOR_SIZE - SECTOR_HDR_DATA_SIZE) = 4096 * i + 4080"
  proof -
    have "sec i + SECTOR_SIZE - SECTOR_HDR_DATA_SIZE = sec i + of_nat 4080"
      by (simp add: SECTOR_SIZE_def SECTOR_HDR_DATA_SIZE_def)
    then show ?thesis using i by (simp only: unat_sec_off)
  qed
  have nxt: "find_next_env_addr e (pos i es) (sec i + SECTOR_SIZE - SECTOR_HDR_DATA_SIZE)
      = (if es' = [] then FAILED_ADDR else pos i es)"
    by (rule find_next_in_chain [OF sec_part(1) [OF r i p] _ _ stop])
      (use sec_part(3) [OF r i p] unat_pos [of i es] i le cached_end [OF r i p] in \<open>auto simp: add.assoc\<close>)
  have stop_i: "unat (sec i + SECTOR_SIZE) = 4096 * i + 4096" using i by (simp add: sec_Suc)
  have "pos i es0 \<le> sec i + SECTOR_SIZE" "\<not> pos i es > sec i + SECTOR_SIZE" "FAILED_ADDR > sec i + SECTOR_SIZE"
    using i le le0 stop_i unat_pos [of i es0] unat_pos [of i es]
    by (simp_all add: word_le_nat_alt word_less_nat_alt FAILED_ADDR_def)
  moreover have "(of_nat (env_size x) :: u32) \<noteq> 0" using le0 area_words [of "env_size x"] by (metis less_irrefl unat_0)
  moreover have "pos i es0 \<noteq> FAILED_ADDR" using i le0 by (simp add: pos_not_failed)
  ultimately show ?thesis using start sm nxt pos_Suc [of i es0 x st] by (auto simp: get_next_env_addr_def Let_def es)
qed

lemma entry_in_rep:
  assumes r: "rep e ss" and i: "i < 4" and p: "a_envs (ss ! i) = es @ (x, st) # es'"
  shows "entry_at (chip e) (unat (pos i es)) x st" "unat (pos i es) + env_size x \<le> 4096 * i + 4096"
proof -
  have le: "16 + chain_size (es @ [(x, st)]) \<le> 4096"
    using sec_part(2) [OF r i, of "es @ [(x, st)]" es'] p by simp
  then have u: "unat (pos i es) = 4096 * i + 16 + chain_size es" using unat_pos i by simp
  from le show "unat (pos i es) + env_size x \<le> 4096 * i + 4096" by (simp add: u)
  show "entry_at (chip e) (unat (pos i es)) x st"
    using sec_part(3) [OF r i, of "es @ [(x, st)]" es'] p u by (auto simp: chain_append dest: chain_end)
qed

lemma read_at:
  assumes "rep e ss" "i < 4" "a_envs (ss ! i) = es @ (x, st) # es'" "n_start env = pos i es"
  shows "read_env env e = Some (EF_NO_ERR, node_of env (pos i es) x st, e)"
  using read_env_entry [of e env x st] entry_in_rep [OF assms(1-3)] assms(2,4) by simp

lemma node_of_any: "node_of env a x st = node_of env' a x st"
  by (simp add: node_of_def)

section \<open>What the searches return\<close>

abbreviation wanted :: "byte list \<Rightarrow> entry \<times> env_status \<Rightarrow> bool" where
  "wanted key p \<equiv> fst (fst p) = key \<and> snd p = ENV_WRITE"

lemma find_env_cb_node:
  assumes "length (fst x) \<le> 32"
  shows "find_env_cb key (node_of env a x st) ok e = Some (wanted key (x, st), ok \<or> wanted key (x, st), e)"
proof -
  have "unat (of_nat (length (fst x)) :: byte) = length (fst x)" using assms by (simp add: unat_of_nat)
  then show ?thesis by (auto simp: find_env_cb_def node_of_def)
qed

text \<open>One step of any walk: the next entry, read.\<close>

lemma walk_step:
  assumes r: "rep e ss" and i: "i < 4" and sm: "s_addr sm = sec i" "s_store sm \<noteq> SECTOR_STORE_EMPTY"
    and p: "a_envs (ss ! i) = es @ (x, st) # es'" and w: "walk_at i es env"
  shows "get_next_env_addr e sm env = pos i es" "pos i es \<noteq> FAILED_ADDR"
    "read_env (env\<lparr>n_start := pos i es\<rparr>) e = Some (EF_NO_ERR, node_of env (pos i es) x st, e)"
    "length (fst x) \<le> 32"
proof -
  show "get_next_env_addr e sm env = pos i es" using get_next_walk [OF r i p w sm] by simp
  have "16 + chain_size es \<le> 4096" by (rule sec_part(2) [OF r i p])
  then show "pos i es \<noteq> FAILED_ADDR" using i by (simp add: pos_not_failed)
  show "read_env (env\<lparr>n_start := pos i es\<rparr>) e = Some (EF_NO_ERR, node_of env (pos i es) x st, e)"
    using read_at [OF r i p, of "env\<lparr>n_start := pos i es\<rparr>"] by (simp add: node_of_def)
  show "length (fst x) \<le> 32" using entry_in_rep(1) [OF r i p] by (auto simp: entry_at_def entry_fits_def)
qed

lemma walk_done:
  assumes "rep e ss" "i < 4" "s_addr sm = sec i" "s_store sm \<noteq> SECTOR_STORE_EMPTY"
    "a_envs (ss ! i) = es" "es \<noteq> []" "walk_at i es env"
  shows "get_next_env_addr e sm env = FAILED_ADDR"
  using get_next_walk [OF assms(1,2) _ assms(7) assms(3,4), of "[]"] assms(5,6) by simp

lemma env_walk_none:
  assumes r: "rep e ss" and i: "i < 4" and sm: "s_addr sm = sec i" "s_store sm \<noteq> SECTOR_STORE_EMPTY"
  shows "\<lbrakk>a_envs (ss ! i) = es @ es'; es @ es' \<noteq> []; walk_at i es env; \<forall>p \<in> set es'. \<not> wanted key p\<rbrakk> \<Longrightarrow>
    \<exists>env'. env_walk (find_env_cb key) sm env False e = Some (False, env', False, e)"
proof (induction es' arbitrary: es env)
  case Nil
  with walk_done [OF r i sm] show ?case by (simp add: env_walk.simps)
next
  case (Cons q es')
  obtain x st where q: "q = (x, st)" by (cases q)
  note step = walk_step [OF r i sm Cons.prems(1) [unfolded q] Cons.prems(3)]
  have "a_envs (ss ! i) = (es @ [(x, st)]) @ es'" "(es @ [(x, st)]) @ es' \<noteq> []" "\<forall>p \<in> set es'. \<not> wanted key p"
    using Cons.prems q by simp_all
  from Cons.IH [OF this(1,2) walk_node this(3)] obtain env'
    where "env_walk (find_env_cb key) sm (node_of env (pos i es) x st) False e = Some (False, env', False, e)" by blast
  moreover have "find_env_cb key (node_of env (pos i es) x st) False e = Some (False, False, e)"
    using Cons.prems(4) q by (simp add: find_env_cb_node [OF step(4)])
  ultimately show ?case by (subst env_walk.simps) (simp add: step)
qed

lemma env_walk_hit:
  assumes r: "rep e ss" and i: "i < 4" and sm: "s_addr sm = sec i" "s_store sm \<noteq> SECTOR_STORE_EMPTY"
  shows "\<lbrakk>a_envs (ss ! i) = es @ pre @ (x, ENV_WRITE) # post; walk_at i es env; \<forall>p \<in> set pre. \<not> wanted key p; fst x = key\<rbrakk> \<Longrightarrow>
    env_walk (find_env_cb key) sm env False e = Some (True, node_of env (pos i (es @ pre)) x ENV_WRITE, True, e)"
proof (induction pre arbitrary: es env)
  case Nil
  have p: "a_envs (ss ! i) = es @ (x, ENV_WRITE) # post" using Nil.prems(1) by simp
  note step = walk_step [OF r i sm p Nil.prems(2)]
  show ?case using Nil.prems(4) by (subst env_walk.simps) (simp add: step find_env_cb_node [OF step(4)])
next
  case (Cons q pre)
  obtain y st where q: "q = (y, st)" by (cases q)
  have p: "a_envs (ss ! i) = es @ (y, st) # (pre @ (x, ENV_WRITE) # post)" using Cons.prems(1) q by simp
  note step = walk_step [OF r i sm p Cons.prems(2)]
  have "a_envs (ss ! i) = (es @ [(y, st)]) @ pre @ (x, ENV_WRITE) # post" "\<forall>p \<in> set pre. \<not> wanted key p"
    using Cons.prems q by simp_all
  from Cons.IH [OF this(1) walk_node this(2) Cons.prems(4)]
  have "env_walk (find_env_cb key) sm (node_of env (pos i es) y st) False e
      = Some (True, node_of env (pos i (es @ q # pre)) x ENV_WRITE, True, e)"
    by (simp add: q node_of_any [of "node_of env (pos i es) y st" _ _ _ env])
  moreover have "find_env_cb key (node_of env (pos i es) y st) False e = Some (False, False, e)"
    using Cons.prems(3) q by (simp add: find_env_cb_node [OF step(4)])
  ultimately show ?case by (subst env_walk.simps) (simp add: step)
qed

text \<open>The live entries of a store, in the order of the search, and what they say.\<close>

definition lives :: "asec list \<Rightarrow> entry list" where
  "lives ss = map fst (filter (\<lambda>p. snd p = ENV_WRITE) (concat (map a_envs ss)))"

definition kv :: "asec list \<Rightarrow> byte list \<rightharpoonup> byte list" where
  "kv ss = map_of (lives ss)"

text \<open>An entry of a store by its place.\<close>

definition placed :: "asec list \<Rightarrow> nat \<Rightarrow> (entry \<times> env_status) list \<Rightarrow> entry \<Rightarrow> env_status \<Rightarrow> bool" where
  "placed ss i pre x st \<longleftrightarrow> i < length ss \<and> (\<exists>post. a_envs (ss ! i) = pre @ (x, st) # post)"

text \<open>The sectors from the one the search comes to.\<close>

definition sectors_at :: "nat \<Rightarrow> sector_meta_data \<Rightarrow> bool" where
  "sectors_at i sm \<longleftrightarrow> get_next_sector_addr sm = (if i < 4 then sec i else FAILED_ADDR)"

lemma sectors_at_first: "s_addr sm = FAILED_ADDR \<Longrightarrow> sectors_at 0 sm"
  by (simp add: sectors_at_def first_sector)

lemma sectors_at_next: "i < 4 \<Longrightarrow> sectors_at (Suc i) (meta_of sm i s)"
  by (simp add: sectors_at_def next_sector [of _ i] meta_of_def)

text \<open>The result of a search from sector \<open>i\<close> on: the first live entry with the name, or that there is none.\<close>

definition found_from :: "asec list \<Rightarrow> nat \<Rightarrow> byte list \<Rightarrow> bool \<Rightarrow> env_node_obj \<Rightarrow> bool" where
  "found_from ss i key ok env' \<longleftrightarrow>
     (if ok then \<exists>j pre x. i \<le> j \<and> placed ss j pre x ENV_WRITE \<and> fst x = key \<and>
          env' = node_of blank_node (pos j pre) x ENV_WRITE
      else \<forall>j. i \<le> j \<and> j < 4 \<longrightarrow> (\<forall>p \<in> set (a_envs (ss ! j)). \<not> wanted key p))"

lemma found_from_Suc:
  "\<lbrakk>found_from ss (Suc i) key ok env'; \<forall>p \<in> set (a_envs (ss ! i)). \<not> wanted key p\<rbrakk> \<Longrightarrow> found_from ss i key ok env'"
  unfolding found_from_def by (metis Suc_leD le_neq_implies_less Suc_leI)

lemma env_sectors_find:
  assumes r: "rep e ss"
  shows "\<lbrakk>sectors_at i sm; i \<le> 4\<rbrakk> \<Longrightarrow>
    \<exists>ok env'. env_sectors (find_env_cb key) sm env False e = Some (env', ok, e) \<and> found_from ss i key ok env'"
proof (induction "4 - i" arbitrary: i sm env)
  case 0
  then have "found_from ss i key False env" "env_sectors (find_env_cb key) sm env False e = Some (env, False, e)"
    by (auto simp: found_from_def env_sectors.simps [of _ sm] sectors_at_def)
  then show ?case by blast
next
  case (Suc d)
  then have i: "i < 4" and d: "d = 4 - Suc i" by simp_all
  have na: "get_next_sector_addr sm = sec i" "sec i \<noteq> FAILED_ADDR" using Suc.prems i by (simp_all add: sectors_at_def)
  let ?m = "meta_of sm i (ss ! i)"
  have rd: "read_sector_meta_data (sec i) sm False e = Some (EF_NO_ERR, ?m, e)" by (rule read_sector_hdr [OF r i])
  have m: "s_addr ?m = sec i" "s_store ?m = a_store (ss ! i)" by (simp_all add: meta_of_def)
  have sh: "shape (ss ! i)" by (rule repD(5) [OF r i])
  from Suc.hyps(1) [OF d sectors_at_next [OF i]] i
  have IH: "\<exists>ok env'. env_sectors (find_env_cb key) ?m env False e = Some (env', ok, e) \<and> found_from ss (Suc i) key ok env'" for env
    by simp
  show ?case
  proof (cases "a_store (ss ! i) = SECTOR_STORE_EMPTY")
    case True
    then have "a_envs (ss ! i) = []" using sh by (simp add: shape_def)
    moreover have "env_sectors (find_env_cb key) sm env False e = env_sectors (find_env_cb key) ?m env False e"
      using True by (subst env_sectors.simps) (simp add: na rd m)
    ultimately show ?thesis using IH [of env] found_from_Suc [of ss i key] by auto
  next
    case False
    then have st: "a_store (ss ! i) = SECTOR_STORE_USING \<or> a_store (ss ! i) = SECTOR_STORE_FULL" "a_envs (ss ! i) \<noteq> []"
      using sh by (cases "a_store (ss ! i)"; simp add: shape_def)+
    have w: "walk_at i [] (env\<lparr>n_start := FAILED_ADDR\<rparr>)" by (simp add: walk_first)
    show ?thesis
    proof (cases "\<exists>p \<in> set (a_envs (ss ! i)). wanted key p")
      case hit: True
      from split_list_first_prop [OF this] obtain pre p post
        where p: "a_envs (ss ! i) = pre @ p # post" "wanted key p" "\<forall>q \<in> set pre. \<not> wanted key q" by blast
      obtain x where x: "p = (x, ENV_WRITE)" "fst x = key" using p(2) by (cases p) auto
      have "env_walk (find_env_cb key) ?m (env\<lparr>n_start := FAILED_ADDR\<rparr>) False e
          = Some (True, node_of (env\<lparr>n_start := FAILED_ADDR\<rparr>) (pos i pre) x ENV_WRITE, True, e)"
        using env_walk_hit [OF r i m(1) _ _ w p(3) x(2), of post] False p x m by simp
      then have "env_sectors (find_env_cb key) sm env False e = Some (node_of blank_node (pos i pre) x ENV_WRITE, True, e)"
        using st by (subst env_sectors.simps) (auto simp: na rd m node_of_def blank_node_def)
      moreover have "placed ss i pre x ENV_WRITE" using p(1) x(1) i repD(2) [OF r] by (simp add: placed_def)
      then have "found_from ss i key True (node_of blank_node (pos i pre) x ENV_WRITE)"
        unfolding found_from_def if_True using x(2) by blast
      ultimately show ?thesis by blast
    next
      case none: False
      then obtain env' where "env_walk (find_env_cb key) ?m (env\<lparr>n_start := FAILED_ADDR\<rparr>) False e = Some (False, env', False, e)"
        using env_walk_none [OF r i m(1) _ _ _ w, of "a_envs (ss ! i)" key] False st m by auto
      then have "env_sectors (find_env_cb key) sm env False e = env_sectors (find_env_cb key) ?m env' False e"
        using st by (subst env_sectors.simps) (auto simp: na rd m)
      with IH [of env'] found_from_Suc [of ss i key] none show ?thesis by auto
    qed
  qed
qed

end
