(* ===== verification/Ef_Find.thy ===== *)
theory Ef_Find
  imports Ef_Rep
begin

text \<open>
  Reading a value: whatever the caches hold, \<open>find_env\<close> finds the live entry of a name, and \<open>get_env\<close> copies
  its value. The names in use must differ in the 16 bits the cache compares; \<open>cached_prefix\<close> shows what happens
  otherwise.
\<close>

section \<open>The store with its cache\<close>

definition names_ok :: "byte list set \<Rightarrow> bool" where
  "names_ok K \<longleftrightarrow> inj_on name_hash K \<and> (\<forall>k \<in> K. length k \<le> 32)"

definition env_cache_rep :: "ef_st \<Rightarrow> asec list \<Rightarrow> bool" where
  "env_cache_rep e ss \<longleftrightarrow> env_cache_ok (env_cache_table e) \<and>
     (\<forall>h a. cached_env (env_cache_table e) h = Some a \<longrightarrow>
       (\<exists>i pre x. placed ss i pre x ENV_WRITE \<and> a = pos i pre \<and> name_hash (fst x) = h))"

definition store :: "byte list set \<Rightarrow> ef_st \<Rightarrow> asec list \<Rightarrow> bool" where
  "store K e ss \<longleftrightarrow> names_ok K \<and> rep e ss \<and> env_cache_rep e ss \<and> distinct (map fst (lives ss)) \<and>
     fst ` set (lives ss) \<subseteq> K"

lemma rep_env_cache [simp]: "rep (e\<lparr>env_cache_table := t\<rparr>) ss = rep e ss"
  by (simp add: rep_def sector_cache_rep_def get_sector_from_cache_def sound_def)

lemma placed_live: "placed ss i pre x ENV_WRITE \<Longrightarrow> x \<in> set (lives ss)"
proof -
  assume "placed ss i pre x ENV_WRITE"
  then have "ss ! i \<in> set ss" "(x, ENV_WRITE) \<in> set (a_envs (ss ! i))" by (auto simp: placed_def)
  then have "(x, ENV_WRITE) \<in> set (filter (\<lambda>p. snd p = ENV_WRITE) (concat (map a_envs ss)))" by auto
  then have "fst (x, ENV_WRITE) \<in> fst ` set (filter (\<lambda>p. snd p = ENV_WRITE) (concat (map a_envs ss)))"
    by (rule imageI)
  then show ?thesis by (simp add: lives_def)
qed

lemma live_kv: "\<lbrakk>distinct (map fst (lives ss)); x \<in> set (lives ss)\<rbrakk> \<Longrightarrow> kv ss (fst x) = Some (snd x)"
  by (cases x) (simp add: kv_def)

lemma no_live_kv:
  "\<lbrakk>length ss = 4; \<forall>j < 4. \<forall>p \<in> set (a_envs (ss ! j)). \<not> wanted key p\<rbrakk> \<Longrightarrow> kv ss key = None"
  unfolding kv_def lives_def map_of_eq_None_iff by (auto simp: in_set_conv_nth) (metis fst_conv nth_mem snd_conv)

lemma entry_name:
  assumes "entry_at m a x st"
  shows "bytes_at m (a + 24) (length (fst x)) = fst x"
    "bytes_at m (a + 24 + length (fst x)) (length (snd x)) = snd x"
proof -
  have body: "bytes_at m (a + 4) (env_size x - 4) = env_body x" using assms by (simp add: entry_at_def)
  have "drop 20 (env_body x) = fst x @ snd x" by (simp add: env_body_def env_tail_def)
  moreover have "drop 20 (bytes_at m (a + 4) (env_size x - 4)) = bytes_at m (a + 24) (length (fst x) + length (snd x))"
    unfolding drop_bytes_at by (simp add: env_size_def add.commute)
  ultimately have "bytes_at m (a + 24) (length (fst x)) @ bytes_at m (a + 24 + length (fst x)) (length (snd x)) = fst x @ snd x"
    by (simp add: body bytes_at_append)
  then show "bytes_at m (a + 24) (length (fst x)) = fst x"
    "bytes_at m (a + 24 + length (fst x)) (length (snd x)) = snd x" by simp_all
qed

lemma placed_entry:
  assumes "rep e ss" "placed ss i pre x st"
  shows "i < 4" "entry_at (chip e) (unat (pos i pre)) x st" "unat (pos i pre) + env_size x \<le> 16384"
    "read_env (env\<lparr>n_start := pos i pre\<rparr>) e = Some (EF_NO_ERR, node_of blank_node (pos i pre) x st, e)"
proof -
  show i: "i < 4" using assms repD(2) by (simp add: placed_def)
  obtain post where p: "a_envs (ss ! i) = pre @ (x, st) # post" using assms(2) by (auto simp: placed_def)
  show "entry_at (chip e) (unat (pos i pre)) x st" by (rule entry_in_rep [OF assms(1) i p])
  show "unat (pos i pre) + env_size x \<le> 16384" using entry_in_rep(2) [OF assms(1) i p] i by simp
  show "read_env (env\<lparr>n_start := pos i pre\<rparr>) e = Some (EF_NO_ERR, node_of blank_node (pos i pre) x st, e)"
    using read_at [OF assms(1) i p, of "env\<lparr>n_start := pos i pre\<rparr>"] by (simp add: node_of_def blank_node_def)
qed

text \<open>Writing a live entry into the cache keeps it true.\<close>

lemma env_cache_rep_update:
  assumes c: "env_cache_rep e ss" and p: "placed ss i pre x ENV_WRITE"
  shows "env_cache_rep (update_env_cache (fst x) (pos i pre) e) ss"
proof -
  have ok: "env_cache_ok (env_cache_table e)" using c by (simp add: env_cache_rep_def)
  note u = update_env_cache_map(1,2) [OF ok, of "fst x" "pos i pre"]
  show ?thesis
    unfolding env_cache_rep_def
  proof (intro conjI allI impI u(1))
    fix h a assume "cached_env (env_cache_table (update_env_cache (fst x) (pos i pre) e)) h = Some a"
    from u(2) [OF this] consider "h = name_hash (fst x) \<and> a = pos i pre" | "cached_env (env_cache_table e) h = Some a"
      by (auto split: if_splits)
    then show "\<exists>i pre x. placed ss i pre x ENV_WRITE \<and> a = pos i pre \<and> name_hash (fst x) = h"
    proof cases
      case 1
      with p show ?thesis by blast
    next
      case 2
      with c show ?thesis unfolding env_cache_rep_def by blast
    qed
  qed
qed

text \<open>The cache finds the entry of the name or nothing.\<close>

lemma cache_finds:
  assumes s: "store K e ss" and k: "key \<in> K"
  shows "store K (snd (get_env_from_cache key e)) ss \<and> (\<exists>t. snd (get_env_from_cache key e) = e\<lparr>env_cache_table := t\<rparr>) \<and>
    (\<forall>a. fst (get_env_from_cache key e) = Some a \<longrightarrow> (\<exists>i pre x. placed ss i pre x ENV_WRITE \<and> a = pos i pre \<and> fst x = key))"
proof (intro conjI allI impI)
  have r: "rep e ss" and c: "env_cache_rep e ss" and n: "names_ok K" and l: "fst ` set (lives ss) \<subseteq> K"
    using s by (simp_all add: store_def)
  have same: "env_cache_ok (env_cache_table (snd (get_env_from_cache key e))) \<and>
      cached_env (env_cache_table (snd (get_env_from_cache key e))) = cached_env (env_cache_table e)"
    using get_env_from_cache_same c by (simp add: env_cache_rep_def)
  obtain t where t: "snd (get_env_from_cache key e) = e\<lparr>env_cache_table := t\<rparr>"
  proof (cases "List.find (\<lambda>i. cache_hit e key (env_cache_table e ! i)) [0..<EF_ENV_CACHE_TABLE_SIZE]")
    case None
    then show ?thesis by (intro that [of "env_cache_table e"]) (simp add: get_env_from_cache_def)
  next
    case (Some i)
    then show ?thesis by (intro that) (simp add: get_env_from_cache_def)
  qed
  with same s show "store K (snd (get_env_from_cache key e)) ss" by (simp add: store_def env_cache_rep_def)
  show "\<exists>t. snd (get_env_from_cache key e) = e\<lparr>env_cache_table := t\<rparr>" using t by blast
  fix a assume "fst (get_env_from_cache key e) = Some a"
  then have "cached_env (env_cache_table e) (name_hash key) = Some a"
    using c by (auto simp: get_env_from_cache_hit env_cache_rep_def split: option.splits if_splits)
  with c obtain i pre x where p: "placed ss i pre x ENV_WRITE" "a = pos i pre" "name_hash (fst x) = name_hash key"
    unfolding env_cache_rep_def by blast
  have "fst x \<in> K" using l placed_live [OF p(1)] by auto
  with n k p(3) have "fst x = key" by (auto simp: names_ok_def inj_on_def)
  with p show "\<exists>i pre x. placed ss i pre x ENV_WRITE \<and> a = pos i pre \<and> fst x = key" by blast
qed

definition finds :: "asec list \<Rightarrow> byte list \<Rightarrow> bool \<Rightarrow> env_node_obj \<Rightarrow> bool" where
  "finds ss key ok env' \<longleftrightarrow>
     (if ok then \<exists>i pre x. placed ss i pre x ENV_WRITE \<and> fst x = key \<and> env' = node_of blank_node (pos i pre) x ENV_WRITE
      else kv ss key = None)"

lemma find_env_spec:
  assumes s: "store K e ss" and k: "key \<in> K"
  shows "\<exists>ok env' e'. find_env key env e = Some (ok, env', e') \<and> store K e' ss \<and>
    (\<exists>t. e' = e\<lparr>env_cache_table := t\<rparr>) \<and> finds ss key ok env'"
proof -
  obtain c e1 where g: "get_env_from_cache key e = (c, e1)" by (cases "get_env_from_cache key e")
  with cache_finds [OF s k] have e1: "store K e1 ss" "\<exists>t. e1 = e\<lparr>env_cache_table := t\<rparr>"
    and hit: "\<forall>a. c = Some a \<longrightarrow> (\<exists>i pre x. placed ss i pre x ENV_WRITE \<and> a = pos i pre \<and> fst x = key)" by simp_all
  have r: "rep e1 ss" using e1 by (simp add: store_def)
  have le0: "(0 :: nat) \<le> 4" by simp
  show ?thesis
  proof (cases c)
    case (Some a)
    with hit obtain i pre x where p: "placed ss i pre x ENV_WRITE" "a = pos i pre" "fst x = key" by blast
    then have "find_env key env e = Some (True, node_of blank_node (pos i pre) x ENV_WRITE, e1)"
      using placed_entry(4) [OF r p(1), of env] by (simp add: find_env_def g Some)
    moreover have "finds ss key True (node_of blank_node (pos i pre) x ENV_WRITE)"
      unfolding finds_def if_True using p by blast
    ultimately show ?thesis using e1 by blast
  next
    case None
    have "sectors_at 0 blank_sector" by (rule sectors_at_first) (simp add: blank_sector_def)
    from env_sectors_find [OF r this le0, of key env] obtain ok env'
      where f: "env_sectors (find_env_cb key) blank_sector env False e1 = Some (env', ok, e1)" "found_from ss 0 key ok env'" by blast
    show ?thesis
    proof (cases ok)
      case False
      with f have "find_env key env e = Some (False, env', e1)"
        by (simp add: find_env_def g None find_env_no_cache_def env_iterator_def)
      moreover have "finds ss key False env'"
        using f(2) False no_live_kv [OF repD(2) [OF r]] by (simp add: finds_def found_from_def)
      ultimately show ?thesis using e1 by blast
    next
      case True
      with f(2) obtain j pre x where p: "placed ss j pre x ENV_WRITE" "fst x = key" "env' = node_of blank_node (pos j pre) x ENV_WRITE"
        unfolding found_from_def by auto
      let ?e = "update_env_cache key (pos j pre) e1"
      have "find_env key env e = Some (True, env', ?e)"
        using f(1) True p(3) by (simp add: find_env_def g None find_env_no_cache_def env_iterator_def node_of_def)
      moreover have "store K ?e ss"
      proof -
        have "env_cache_rep ?e ss"
          using env_cache_rep_update [OF _ p(1)] e1 p(2) by (simp add: store_def)
        with e1 show ?thesis by (simp add: store_def) (simp add: update_env_cache_def)
      qed
      moreover have "finds ss key True env'" unfolding finds_def if_True using p by blast
      moreover have "\<exists>t. ?e = e\<lparr>env_cache_table := t\<rparr>" using e1(2) by (auto simp: update_env_cache_def)
      ultimately show ?thesis by blast
    qed
  qed
qed

section \<open>Reading a value\<close>

text \<open>
  In any store \<open>get_env\<close> gives the value of the live entry of the name, cut to the size of the buffer, and the
  stored length; without such an entry it gives nothing. Only the caches change.
\<close>

theorem get_env_returns:
  assumes s: "store K e ss" and k: "key \<in> K"
  shows "\<exists>e'. get_env key buf_len env e = Some (case kv ss key of
      Some v \<Rightarrow> (min buf_len (length v), take buf_len v, Some (of_nat (length v)), e')
    | None \<Rightarrow> (0, [], None, e')) \<and> store K e' ss \<and> (\<exists>t. e' = e\<lparr>env_cache_table := t\<rparr>)"
proof -
  from find_env_spec [OF s k, of env] obtain ok env' e'
    where f: "find_env key env e = Some (ok, env', e')" and e': "store K e' ss" "\<exists>t. e' = e\<lparr>env_cache_table := t\<rparr>" and fi: "finds ss key ok env'"
    by blast
  show ?thesis
  proof (cases ok)
    case False
    with f e' fi show ?thesis by (simp add: get_env_def finds_def)
  next
    case True
    with fi have "\<exists>i pre x. placed ss i pre x ENV_WRITE \<and> fst x = key \<and> env' = node_of blank_node (pos i pre) x ENV_WRITE"
      by (simp only: finds_def if_True)
    then obtain i pre x where p: "placed ss i pre x ENV_WRITE" "fst x = key" "env' = node_of blank_node (pos i pre) x ENV_WRITE"
      by blast
    have r: "rep e' ss" and d: "distinct (map fst (lives ss))" using e' by (simp_all add: store_def)
    note entry = placed_entry(1-3) [OF r p(1)]
    have kv: "kv ss key = Some (snd x)" using live_kv [OF d placed_live [OF p(1)]] p(2) by simp
    have lens: "length (fst x) + length (snd x) + 24 \<le> 16384" using entry(3) by (simp add: env_size_def)
    then have vl: "unat (n_value_len env') = length (snd x)" by (simp add: p(3) node_of_def area_words)
    define n where "n = min buf_len (length (snd x))"
    have "n_value env' = pos i pre + of_nat (24 + length (fst x))" by (simp add: p(3) node_of_def)
    then have va: "unat (n_value env') = unat (pos i pre) + 24 + length (fst x)"
      using entry(3) by (simp add: env_size_def unat_add_small del: of_nat_add)
    have "ef_port_read e' (n_value env') n = take n (bytes_at (chip e') (unat (n_value env')) (length (snd x)))"
      using entry(3) va by (simp add: n_def ef_port_read_in env_size_def take_bytes_at)
    also have "\<dots> = take buf_len (snd x)" using entry_name(2) [OF entry(2)] by (simp add: va n_def min_def)
    finally have "ef_port_read e' (n_value env') n = take buf_len (snd x)" .
    moreover have "(if buf_len > unat (n_value_len env') then unat (n_value_len env') else buf_len) = n"
      by (simp add: n_def vl)
    moreover have "n_value_len env' = of_nat (length (snd x))" by (simp add: p(3) node_of_def)
    ultimately have "get_env key buf_len env e = Some (n, take buf_len (snd x), Some (of_nat (length (snd x))), e')"
      using f True by (simp add: get_env_def Let_def)
    with kv e' show ?thesis by (simp add: n_def)
  qed
qed

end
