(* ===== verification/Ef_Update.thy ===== *)
theory Ef_Update
  imports Ef_Find
begin

text \<open>
  The writing steps of \<open>ef_env.c\<close> on a store at rest: changing the status of an entry or a sector, writing an
  entry behind the others, formatting a sector. Each is shown as a change of the abstract store.
\<close>

section \<open>What a change of memory leaves alone\<close>

lemma hdr_at_cong:
  assumes h: "hdr_at m b st d" and c: "\<And>y. \<lbrakk>b \<le> y; y < b + 12\<rbrakk> \<Longrightarrow> m y = m' y"
  shows "hdr_at m' b st d"
proof -
  have b: "m' b = m b" "m' (b + 1) = m (b + 1)" by (rule c [symmetric]; simp)+
  have w: "bytes_at m' (b + 4) 4 = bytes_at m (b + 4) 4" "bytes_at m' (b + 8) 4 = bytes_at m (b + 8) 4"
    by (rule bytes_at_cong, rule c [symmetric]; simp)+
  show ?thesis using h unfolding hdr_at_def b w by blast
qed

lemma sec_at_cong:
  assumes s: "sec_at m i s" and c: "\<And>y. \<lbrakk>4096 * i \<le> y; y < 4096 * i + 4096\<rbrakk> \<Longrightarrow> m y = m' y"
  shows "sec_at m' i s"
proof -
  have u: "used s \<le> 4096" by (rule used_le [OF s])
  have "hdr_at m' (4096 * i) (a_store s) (a_dirty s)"
    by (rule hdr_at_cong [of m]) (use s c in \<open>auto simp: sec_at_def\<close>)
  moreover have "chain m' (4096 * i + 16) (a_envs s) (4096 * i + used s)"
  proof (rule chain_cong)
    show "chain m (4096 * i + 16) (a_envs s) (4096 * i + used s)" using s by (simp add: sec_at_def filled_def)
    fix y assume "4096 * i + 16 \<le> y" "y < 4096 * i + used s"
    with u show "m y = m' y" by (intro c) simp_all
  qed
  moreover have "m' y = 0xFF" if y: "4096 * i + used s \<le> y" "y < 4096 * i + 4096" for y
  proof -
    have "m y = 0xFF" using s y by (simp add: sec_at_def filled_def)
    moreover have "m y = m' y" using y by (intro c) simp_all
    ultimately show ?thesis by simp
  qed
  ultimately show ?thesis using u by (simp add: sec_at_def filled_def)
qed

lemma program_1: "program m a [b] = m(a := m a AND b)"
  by (rule ext) (auto simp: program_def)

text \<open>One sector changes.\<close>

lemma rep_change:
  assumes r: "rep e ss" and i: "i < 4" and s: "sec_at m' i s'" "shape s'"
    and c: "\<And>y. y < 4096 * i \<or> 4096 * i + 4096 \<le> y \<Longrightarrow> m' y = chip e y"
    and cache: "\<And>a. get_sector_from_cache e (sec i) = Some a \<Longrightarrow>
      used s' = used (ss ! i)"
  shows "rep (e\<lparr>ops := n, chip := m'\<rparr>) (ss[i := s'])"
proof -
  have len: "length ss = 4" using r by (rule repD)
  have "sec_at m' j (ss[i := s'] ! j) \<and> shape (ss[i := s'] ! j)" if "j < 4" for j
  proof (cases "j = i")
    case True
    with s i len show ?thesis by simp
  next
    case False
    have "sec_at m' j (ss ! j)"
    proof (rule sec_at_cong [OF repD(1) [OF r that]])
      fix y assume y: "4096 * j \<le> y" "y < 4096 * j + 4096"
      have "y < 4096 * i \<or> 4096 * i + 4096 \<le> y" using y False by (cases "j < i") simp_all
      then show "chip e y = m' y" by (rule c [symmetric])
    qed
    with False repD(5) [OF r that] show ?thesis by simp
  qed
  moreover have "sector_cache_rep (e\<lparr>ops := n, chip := m'\<rparr>) (ss[i := s'])"
    unfolding sector_cache_rep_def
  proof (intro conjI allI impI)
    have cr: "sector_cache_rep e ss" using r by (rule repD)
    then show "sector_cache_ok (sector_cache_table (e\<lparr>ops := n, chip := m'\<rparr>))" by (simp add: sector_cache_rep_def)
    fix j a assume j: "j < 4" and "get_sector_from_cache (e\<lparr>ops := n, chip := m'\<rparr>) (of_nat (4096 * j)) = Some a"
    then have g: "get_sector_from_cache e (of_nat (4096 * j)) = Some a" by (simp add: get_sector_from_cache_def)
    with cr j have "unat a = 4096 * j + used (ss ! j)"
      unfolding sector_cache_rep_def by blast+
    with g cache [of a] i j len show "unat a = 4096 * j + used (ss[i := s'] ! j)"
      by (cases "j = i"; simp add: sec_def)
  qed
  ultimately show ?thesis using r len by (simp add: rep_def)
qed

section \<open>The status of an entry\<close>

lemma chain_status:
  assumes "chain m b (pre @ (x, st) # post) f" and a: "a = b + chain_size pre"
    and m': "\<And>y. y \<noteq> a \<Longrightarrow> m' y = m y" and st: "get_status [m' a] ENV_STATUS_NUM = env_no st'"
  shows "chain m' b (pre @ (x, st') # post) f"
proof -
  obtain c where c: "chain m b pre c" "entry_at m c x st" "chain m (c + env_size x) post f"
    using assms(1) by (auto simp: chain_append)
  with chain_end [OF c(1)] a have ca: "c = a" by simp
  have sz: "24 \<le> env_size x" by (simp add: env_size_def)
  have same: "m y = m' y" if "y \<noteq> a" for y using m' [OF that] by simp
  have "chain m' b pre a" by (rule chain_cong [OF c(1) [unfolded ca]], rule same, simp)
  moreover have "bytes_at m' (a + 4) (env_size x - 4) = bytes_at m (a + 4) (env_size x - 4)"
    by (rule bytes_at_cong, rule same [symmetric], simp)
  then have "entry_at m' a x st'" using c(2) ca st by (simp add: entry_at_def)
  moreover have "chain m' (a + env_size x) post f"
    by (rule chain_cong [OF c(3) [unfolded ca]], rule same) (use sz in simp)
  ultimately show ?thesis by (auto simp: chain_append)
qed

lemma STATUS_TABLE_SIZE_6 [simp]: "STATUS_TABLE_SIZE ENV_STATUS_NUM = 1"
  by (simp add: STATUS_TABLE_SIZE_def ENV_STATUS_NUM_def)

lemma STATUS_TABLE_SIZE_4 [simp]: "STATUS_TABLE_SIZE SECTOR_STORE_STATUS_NUM = 1" "STATUS_TABLE_SIZE SECTOR_DIRTY_STATUS_NUM = 1"
  by (simp_all add: STATUS_TABLE_SIZE_def SECTOR_STORE_STATUS_NUM_def SECTOR_DIRTY_STATUS_NUM_def)

lemma bytes_at_1 [simp]: "bytes_at m a (Suc 0) = [m a]"
  by (simp add: bytes_at_def)

text \<open>A status of one byte.\<close>

lemma write_status_byte:
  assumes "sound e" "0 < s" "s < n" "n \<le> 8" "unat a < 1048576"
  defines "m' \<equiv> (chip e)(unat a := chip e (unat a) AND NOT (status_bit (s - 1)))"
  shows "write_status a n s e = Some (EF_NO_ERR, e\<lparr>ops := ops e + 1, chip := m'\<rparr>)"
    "get_status [m' (unat a)] n = max (get_status [chip e (unat a)] n) s"
proof -
  have t: "STATUS_TABLE_SIZE n = 1" using assms(2-4) by (simp add: STATUS_TABLE_SIZE_def) 
  have k: "(s - 1) div 8 = 0" using assms(2-4) by simp
  show "write_status a n s e = Some (EF_NO_ERR, e\<lparr>ops := ops e + 1, chip := m'\<rparr>)"
    using write_status_sound [OF assms(1-3), of a] assms(5) t k by (simp add: program_1 m'_def)
  show "get_status [m' (unat a)] n = max (get_status [chip e (unat a)] n) s"
    using get_status_programmed [OF assms(2,3), of "chip e" "unat a"] t k by (simp add: program_1 m'_def)
qed

abbreviation with_envs :: "asec list \<Rightarrow> nat \<Rightarrow> (entry \<times> env_status) list \<Rightarrow> asec list" where
  "with_envs ss i es \<equiv> ss[i := (ss ! i)\<lparr>a_envs := es\<rparr>]"

lemma write_env_status:
  assumes r: "rep e ss" and i: "i < 4" and p: "a_envs (ss ! i) = pre @ (x, st) # post"
    and st: "0 < env_no st'" "env_no st \<le> env_no st'"
  shows "\<exists>e'. write_status (pos i pre) ENV_STATUS_NUM (env_no st') e = Some (EF_NO_ERR, e') \<and>
    rep e' (with_envs ss i (pre @ (x, st') # post)) \<and> (\<exists>n m. e' = e\<lparr>ops := n, chip := m\<rparr>)"
proof -
  let ?a = "unat (pos i pre)"
  have en: "entry_at (chip e) ?a x st" "?a + env_size x \<le> 4096 * i + 4096" by (rule entry_in_rep [OF r i p])+
  have le: "16 + chain_size pre \<le> 4096" by (rule sec_part(2) [OF r i p])
  then have ua: "?a = 4096 * i + 16 + chain_size pre" using unat_pos i by simp
  have small: "?a < 1048576" using ua le i by simp
  define m' where "m' = (chip e)(?a := chip e ?a AND NOT (status_bit (env_no st' - 1)))"
  note w = write_status_byte [OF repD(3) [OF r] st(1) env_no_less _ small, folded m'_def]
  have n: "ENV_STATUS_NUM \<le> 8" by (simp add: ENV_STATUS_NUM_def)
  have stat: "get_status [m' ?a] ENV_STATUS_NUM = env_no st'" using w(2) [OF n] en st by (simp add: entry_at_def max_def)
  have sec: "sec_at (chip e) i (ss ! i)" by (rule repD(1) [OF r i])
  have ch: "chain m' (4096 * i + 16) (pre @ (x, st') # post) (4096 * i + used (ss ! i))"
  proof (rule chain_status)
    show "chain (chip e) (4096 * i + 16) (pre @ (x, st) # post) (4096 * i + used (ss ! i))"
      using sec p by (simp add: sec_at_def filled_def)
    show "?a = 4096 * i + 16 + chain_size pre" by (rule ua)
    show "m' y = chip e y" if "y \<noteq> ?a" for y using that by (simp add: m'_def)
  qed (rule stat)
  have same: "m' y = chip e y" if "y \<noteq> ?a" for y using that by (simp add: m'_def)
  have us: "?a < 4096 * i + used (ss ! i)" using p by (simp add: used_def ua env_size_def)
  have "sec_at m' i ((ss ! i)\<lparr>a_envs := pre @ (x, st') # post\<rparr>)"
  proof -
    have "hdr_at m' (4096 * i) (a_store (ss ! i)) (a_dirty (ss ! i))"
      by (rule hdr_at_cong [of "chip e"]) (use sec same ua in \<open>auto simp: sec_at_def\<close>)
    moreover have "m' y = 0xFF" if "4096 * i + used (ss ! i) \<le> y" "y < 4096 * i + 4096" for y
      using that sec same [of y] us by (auto simp: sec_at_def filled_def)
    moreover have "used ((ss ! i)\<lparr>a_envs := pre @ (x, st') # post\<rparr>) = used (ss ! i)" using p by (simp add: used_def)
    ultimately show ?thesis using ch used_le [OF sec] by (simp add: sec_at_def filled_def)
  qed
  moreover have "shape ((ss ! i)\<lparr>a_envs := pre @ (x, st') # post\<rparr>)" using repD(5) [OF r i] p by (simp add: shape_def)
  ultimately have "rep (e\<lparr>ops := ops e + 1, chip := m'\<rparr>) (with_envs ss i (pre @ (x, st') # post))"
  proof (rule rep_change [OF r i])
    show "m' y = chip e y" if "y < 4096 * i \<or> 4096 * i + 4096 \<le> y" for y
      using that ua us used_le [OF sec] by (intro same) auto
    show "used ((ss ! i)\<lparr>a_envs := pre @ (x, st') # post\<rparr>) = used (ss ! i)"
      if "get_sector_from_cache e (sec i) = Some a" for a
      using that repD(4) [OF r] i p by (auto simp: sector_cache_rep_def sec_def used_def)
  qed
  with w(1) [OF n] show ?thesis by blast
qed

section \<open>The statuses of a sector\<close>

lemma sec_at_store:
  assumes s: "sec_at m i s" and v: "get_status [v] SECTOR_STORE_STATUS_NUM = store_no st"
  shows "sec_at (m(4096 * i := v)) i (s\<lparr>a_store := st\<rparr>)"
proof -
  let ?m = "m(4096 * i := v)"
  have w: "bytes_at ?m (4096 * i + 4) 4 = bytes_at m (4096 * i + 4) 4" "bytes_at ?m (4096 * i + 8) 4 = bytes_at m (4096 * i + 8) 4"
    by (rule bytes_at_cong; simp)+
  have "chain ?m (4096 * i + 16) (a_envs s) (4096 * i + used s)"
    by (rule chain_cong [of m]) (use s in \<open>auto simp: sec_at_def filled_def\<close>)
  moreover have "hdr_at ?m (4096 * i) st (a_dirty s)" using s v w by (simp add: sec_at_def hdr_at_def)
  ultimately show ?thesis using s by (auto simp: sec_at_def filled_def used_def)
qed

lemma sec_at_dirty:
  assumes s: "sec_at m i s" and v: "get_status [v] SECTOR_DIRTY_STATUS_NUM = dirty_no d"
  shows "sec_at (m(4096 * i + 1 := v)) i (s\<lparr>a_dirty := d\<rparr>)"
proof -
  let ?m = "m(4096 * i + 1 := v)"
  have w: "bytes_at ?m (4096 * i + 4) 4 = bytes_at m (4096 * i + 4) 4" "bytes_at ?m (4096 * i + 8) 4 = bytes_at m (4096 * i + 8) 4"
    by (rule bytes_at_cong; simp)+
  have "chain ?m (4096 * i + 16) (a_envs s) (4096 * i + used s)"
    by (rule chain_cong [of m]) (use s in \<open>auto simp: sec_at_def filled_def\<close>)
  moreover have "hdr_at ?m (4096 * i) (a_store s) d" using s v w by (simp add: sec_at_def hdr_at_def)
  ultimately show ?thesis using s by (auto simp: sec_at_def filled_def used_def)
qed

section \<open>Writing an entry behind the others\<close>

text \<open>The memory with the entry \<open>x\<close> written at \<open>a\<close>: the status byte and the body.\<close>

definition put_entry :: "(nat \<Rightarrow> byte) \<Rightarrow> nat \<Rightarrow> entry \<Rightarrow> nat \<Rightarrow> byte" where
  "put_entry m a x = program (m(a := m a AND NOT (status_bit 0) AND NOT (status_bit 1))) (a + 4) (env_body x)"

lemma put_entry_outside: "y < a \<or> a + env_size x \<le> y \<Longrightarrow> put_entry m a x y = m y"
  by (auto simp: put_entry_def program_def length_env_body env_size_def)

lemma put_entry_at:
  assumes ff: "\<And>y. \<lbrakk>a \<le> y; y < a + env_size x\<rbrakk> \<Longrightarrow> m y = 0xFF" and ok: "entry_fits x"
  shows "entry_at (put_entry m a x) a x ENV_WRITE"
proof -
  have len: "length (env_body x) = env_size x - 4" "24 \<le> env_size x" by (simp_all add: length_env_body env_size_def)
  let ?m = "m(a := m a AND NOT (status_bit 0) AND NOT (status_bit 1))"
  have "bytes_at (program ?m (a + 4) (env_body x)) (a + 4) (length (env_body x)) = env_body x"
  proof (rule program_fresh)
    fix y assume "a + 4 \<le> y" "y < a + 4 + length (env_body x)"
    then have "y \<noteq> a" "a \<le> y" "y < a + env_size x" using len by auto
    then show "?m y = 0xFF" using ff by simp
  qed
  moreover have "put_entry m a x a = NOT (status_bit 0) AND NOT (status_bit 1)"
    using ff [of a] len by (simp add: put_entry_def program_def)
  moreover have "get_status [NOT (status_bit 0) AND NOT (status_bit 1)] ENV_STATUS_NUM = 2"
    by code_simp
  ultimately show ?thesis using ok len by (simp add: entry_at_def put_entry_def)
qed

lemma sec_at_append:
  assumes s: "sec_at m i s" and fits: "used s + env_size x \<le> 4096" and ok: "entry_fits x"
  shows "sec_at (put_entry m (4096 * i + used s) x) i (s\<lparr>a_envs := a_envs s @ [(x, ENV_WRITE)]\<rparr>)"
proof -
  let ?a = "4096 * i + used s" and ?s = "s\<lparr>a_envs := a_envs s @ [(x, ENV_WRITE)]\<rparr>"
  let ?m = "put_entry m ?a x"
  have u: "used ?s = used s + env_size x" by (simp add: used_def)
  have out: "m y = ?m y" if "y < ?a \<or> ?a + env_size x \<le> y" for y using put_entry_outside [OF that, of m] by simp
  have fl: "chain m (4096 * i + 16) (a_envs s) ?a" "\<And>y. \<lbrakk>?a \<le> y; y < 4096 * i + 4096\<rbrakk> \<Longrightarrow> m y = 0xFF"
    using s by (simp_all add: sec_at_def filled_def)
  have "hdr_at ?m (4096 * i) (a_store s) (a_dirty s)"
    by (rule hdr_at_cong [of m]) (use s out in \<open>auto simp: sec_at_def used_def\<close>)
  moreover have "chain ?m (4096 * i + 16) (a_envs s) ?a" by (rule chain_cong [OF fl(1)]) (use out in auto)
  moreover have "entry_at ?m ?a x ENV_WRITE" by (rule put_entry_at [OF _ ok]) (use fl(2) fits in auto)
  ultimately have "hdr_at ?m (4096 * i) (a_store s) (a_dirty s)"
    "chain ?m (4096 * i + 16) (a_envs s @ [(x, ENV_WRITE)]) (?a + env_size x)" by (auto simp: chain_append)
  moreover have "?m y = 0xFF" if "?a + env_size x \<le> y" "y < 4096 * i + 4096" for y
    using out [of y] fl(2) [of y] that by simp
  ultimately show ?thesis using fits by (simp add: sec_at_def filled_def u add.assoc)
qed

section \<open>The sector cache\<close>

lemma cache_update_rep:
  assumes ok: "sector_cache_ok (sector_cache_table e)" and i: "i < 4"
    and others: "\<And>j a. \<lbrakk>j < 4; j \<noteq> i; get_sector_from_cache e (sec j) = Some a\<rbrakk> \<Longrightarrow>
        unat a = 4096 * j + used (ss ! j)"
    and mine: "emp > sec i \<and> emp < sec i + SECTOR_SIZE \<Longrightarrow>
        unat emp = 4096 * i + used (ss ! i)"
  shows "sector_cache_rep (update_sector_cache (sec i) emp e) ss"
proof -
  have inj: "sec j = sec i \<longleftrightarrow> j = i" if "j < 4" for j
    using unat_sec [of j] unat_sec [of i] that i by (auto dest: arg_cong [of _ _ unat])
  note map = update_sector_cache_map [OF ok sec_in_sectors [OF i], of emp]
  show ?thesis
    unfolding sector_cache_rep_def sec_def [symmetric]
  proof (intro conjI allI impI)
    show "sector_cache_ok (sector_cache_table (update_sector_cache (sec i) emp e))" using map by blast
    fix j a assume j: "j < 4" and g: "get_sector_from_cache (update_sector_cache (sec i) emp e) (sec j) = Some a"
    have "sec j \<noteq> FAILED_ADDR" using j by simp
    with map g have g': "(if sec j = sec i then (if emp > sec i \<and> emp < sec i + SECTOR_SIZE then Some emp else None)
        else get_sector_from_cache e (sec j)) = Some a" by metis
    show "unat a = 4096 * j + used (ss ! j)"
    proof (cases "j = i")
      case True
      with g' have "emp > sec i \<and> emp < sec i + SECTOR_SIZE" "a = emp" by (simp_all split: if_splits)
      with mine True show ?thesis by simp
    next
      case False
      with g' inj [OF j] have "get_sector_from_cache e (sec j) = Some a" by simp
      with others j False show ?thesis by blast
    qed
  qed
qed

end
