(* ===== verification/Ef_Delete.thy ===== *)
theory Ef_Delete
  imports Ef_Update
begin

text \<open>
  Deletion on a store: the status of the entry moves on, the sector becomes dirty, and the cache forgets the
  name unless the deletion is the second half of a change.
\<close>

definition dirtied :: "asec \<Rightarrow> asec" where
  "dirtied s = (if a_dirty s = SECTOR_DIRTY_FALSE then s\<lparr>a_dirty := SECTOR_DIRTY_TRUE\<rparr> else s)"

lemma dirtied_simps [simp]: "a_envs (dirtied s) = a_envs s" "a_store (dirtied s) = a_store s" "used (dirtied s) = used s"
  "shape (dirtied s) = shape s"
  by (simp_all add: dirtied_def used_def shape_def)

lemma read_hdr_byte:
  assumes "i < 4"
  shows "read_status e (sec i + SECTOR_DIRTY_OFFSET) SECTOR_DIRTY_STATUS_NUM
    = get_status [chip e (4096 * i + 1)] SECTOR_DIRTY_STATUS_NUM"
proof -
  have "unat (sec i + of_nat 1) = 4096 * i + 1" using assms by (intro unat_sec_off) simp_all
  then have "unat (sec i + SECTOR_DIRTY_OFFSET) = 4096 * i + 1" by (simp add: SECTOR_DIRTY_OFFSET_def)
  with assms show ?thesis by (simp add: read_status_in)
qed

lemma write_dirty:
  assumes r: "rep e ss" and i: "i < 4" and d: "dirty_no (a_dirty (ss ! i)) \<le> dirty_no d" "0 < dirty_no d"
  shows "\<exists>n m. write_status (sec i + SECTOR_DIRTY_OFFSET) SECTOR_DIRTY_STATUS_NUM (dirty_no d) e
      = Some (EF_NO_ERR, e\<lparr>ops := n, chip := m\<rparr>) \<and> rep (e\<lparr>ops := n, chip := m\<rparr>) (ss[i := (ss ! i)\<lparr>a_dirty := d\<rparr>])"
proof -
  have "unat (sec i + of_nat 1) = 4096 * i + 1" using i by (intro unat_sec_off) simp_all
  then have ua: "unat (sec i + SECTOR_DIRTY_OFFSET) = 4096 * i + 1" by (simp add: SECTOR_DIRTY_OFFSET_def)
  have n: "dirty_no d < SECTOR_DIRTY_STATUS_NUM" "SECTOR_DIRTY_STATUS_NUM \<le> 8"
    by (cases d; simp add: SECTOR_DIRTY_STATUS_NUM_def)+
  have small: "unat (sec i + SECTOR_DIRTY_OFFSET) < 1048576" using i ua by simp
  note w = write_status_byte [OF repD(3) [OF r] d(2) n small, unfolded ua]
  have old: "get_status [chip e (4096 * i + 1)] SECTOR_DIRTY_STATUS_NUM = dirty_no (a_dirty (ss ! i))"
    using repD(1) [OF r i] by (simp add: sec_at_def hdr_at_def)
  let ?m = "(chip e)(4096 * i + 1 := chip e (4096 * i + 1) AND NOT (status_bit (dirty_no d - 1)))"
  have "get_status [?m (4096 * i + 1)] SECTOR_DIRTY_STATUS_NUM = dirty_no d" using w(2) old d by (simp only: max_absorb2)
  then have "sec_at ?m i ((ss ! i)\<lparr>a_dirty := d\<rparr>)" using repD(1) [OF r i] by (intro sec_at_dirty) simp_all
  moreover have "shape ((ss ! i)\<lparr>a_dirty := d\<rparr>)" using repD(5) [OF r i] by (simp add: shape_def)
  ultimately have "rep (e\<lparr>ops := ops e + 1, chip := ?m\<rparr>) (ss[i := (ss ! i)\<lparr>a_dirty := d\<rparr>])"
  proof (rule rep_change [OF r i])
    show "?m y = chip e y" if "y < 4096 * i \<or> 4096 * i + 4096 \<le> y" for y using that by auto
    show "used ((ss ! i)\<lparr>a_dirty := d\<rparr>) = used (ss ! i)"
      if "get_sector_from_cache e (sec i) = Some a" for a
      using that repD(4) [OF r] i by (auto simp: sector_cache_rep_def sec_def used_def)
  qed
  with w(1) show ?thesis by blast
qed

lemma mark_dirty:
  assumes r: "rep e ss" and i: "i < 4"
  shows "\<exists>n m. (if read_status e (sec i + SECTOR_DIRTY_OFFSET) SECTOR_DIRTY_STATUS_NUM = dirty_no SECTOR_DIRTY_FALSE
      then write_status (sec i + SECTOR_DIRTY_OFFSET) SECTOR_DIRTY_STATUS_NUM (dirty_no SECTOR_DIRTY_TRUE) e
      else Some (EF_NO_ERR, e)) = Some (EF_NO_ERR, e\<lparr>ops := n, chip := m\<rparr>) \<and>
    rep (e\<lparr>ops := n, chip := m\<rparr>) (ss[i := dirtied (ss ! i)])"
proof -
  have rd: "read_status e (sec i + SECTOR_DIRTY_OFFSET) SECTOR_DIRTY_STATUS_NUM = dirty_no (a_dirty (ss ! i))"
    using repD(1) [OF r i] by (simp add: read_hdr_byte [OF i] sec_at_def hdr_at_def)
  show ?thesis
  proof (cases "a_dirty (ss ! i) = SECTOR_DIRTY_FALSE")
    case True
    with write_dirty [OF r i, of SECTOR_DIRTY_TRUE] rd show ?thesis by (simp add: dirtied_def)
  next
    case False
    then have "dirty_no (a_dirty (ss ! i)) \<noteq> 1" by (cases "a_dirty (ss ! i)") simp_all
    with rd False r repD(2) [OF r] i show ?thesis
      by (intro exI [of _ "ops e"] exI [of _ "chip e"]) (simp add: dirtied_def)
  qed
qed

text \<open>The store with the status of one entry changed and its sector dirty.\<close>

definition with_status :: "asec list \<Rightarrow> nat \<Rightarrow> nat \<Rightarrow> env_status \<Rightarrow> asec list" where
  "with_status ss i n st = ss[i := dirtied ((ss ! i)\<lparr>a_envs := (a_envs (ss ! i))[n := (fst (a_envs (ss ! i) ! n), st)]\<rparr>)]"

lemma with_status_split:
  "a_envs (ss ! i) = pre @ (x, st) # post \<Longrightarrow>
   with_status ss i (length pre) st' = ss[i := dirtied ((ss ! i)\<lparr>a_envs := pre @ (x, st') # post\<rparr>)]"
  by (simp add: with_status_def)

lemma placed_sector:
  assumes "rep e ss" "placed ss i pre x st"
  shows "sector_of (pos i pre) = sec i"
proof -
  obtain post where p: "a_envs (ss ! i) = (pre @ [(x, st)]) @ post" and i: "i < 4"
    using assms repD(2) [OF assms(1)] by (auto simp: placed_def)
  have "16 + chain_size (pre @ [(x, st)]) \<le> 4096" by (rule sec_part(2) [OF assms(1) i p])
  then show ?thesis unfolding pos_def using i by (intro sector_of_sec) (auto simp: env_size_def)
qed

lemma rep_ram [simp]:
  "rep (e\<lparr>last_is_complete_del := b\<rparr>) ss = rep e ss" "rep (e\<lparr>gc_request := b\<rparr>) ss = rep e ss"
  "rep (e\<lparr>in_recovery_check := b\<rparr>) ss = rep e ss" "rep (e\<lparr>init_ok := b\<rparr>) ss = rep e ss"
  by (simp_all add: rep_def sector_cache_rep_def get_sector_from_cache_def sound_def)

lemma rep_update_env_cache [simp]: "rep (update_env_cache k a e) ss = rep e ss"
  by (simp add: update_env_cache_def)

text \<open>What a deletion changes in memory.\<close>

definition forget :: "byte list option \<Rightarrow> env_node_obj \<Rightarrow> bool \<Rightarrow> ef_st \<Rightarrow> ef_st" where
  "forget key env complete_del e =
     (if complete_del \<and> \<not> last_is_complete_del e
      then update_env_cache (case key of Some k \<Rightarrow> k | None \<Rightarrow> n_name env) FAILED_ADDR e else e)"

lemma del_old_env_spec:
  assumes r: "rep e ss" and p: "placed ss i pre x st" and start: "n_start env = pos i pre"
    and st: "st' = (if complete_del then ENV_DELETED else ENV_PRE_DELETE)" "env_no st \<le> env_no st'"
  shows "\<exists>n m. del_old_env key env complete_del e = Some (EF_NO_ERR,
      (forget key env complete_del e)\<lparr>ops := n, chip := m, last_is_complete_del := \<not> complete_del\<rparr>) \<and>
    rep ((forget key env complete_del e)\<lparr>ops := n, chip := m, last_is_complete_del := \<not> complete_del\<rparr>)
      (with_status ss i (length pre) st')"
proof -
  have i: "i < 4" using placed_entry(1) [OF r p] .
  obtain post where env: "a_envs (ss ! i) = pre @ (x, st) # post" using p by (auto simp: placed_def)
  have "0 < env_no st'" using st(1) by simp
  from write_env_status [OF r i env this st(2)] obtain n m
    where w: "write_status (pos i pre) ENV_STATUS_NUM (env_no st') e = Some (EF_NO_ERR, e\<lparr>ops := n, chip := m\<rparr>)"
    and r1: "rep (e\<lparr>ops := n, chip := m\<rparr>) (with_envs ss i (pre @ (x, st') # post))" by blast
  let ?e = "(forget key env complete_del e)\<lparr>ops := n, chip := m, last_is_complete_del := \<not> complete_del\<rparr>"
  have "rep ?e (with_envs ss i (pre @ (x, st') # post))"
    using r1 by (simp add: forget_def update_env_cache_def rep_def sector_cache_rep_def get_sector_from_cache_def sound_def)
  from mark_dirty [OF this i] obtain n' m' where d:
    "(if read_status ?e (sec i + SECTOR_DIRTY_OFFSET) SECTOR_DIRTY_STATUS_NUM = dirty_no SECTOR_DIRTY_FALSE
      then write_status (sec i + SECTOR_DIRTY_OFFSET) SECTOR_DIRTY_STATUS_NUM (dirty_no SECTOR_DIRTY_TRUE) ?e
      else Some (EF_NO_ERR, ?e)) = Some (EF_NO_ERR, ?e\<lparr>ops := n', chip := m'\<rparr>)"
    and r2: "rep (?e\<lparr>ops := n', chip := m'\<rparr>) (with_status ss i (length pre) st')"
    using repD(2) [OF r] i by (auto simp: with_status_split [OF env])
  have "del_status key env complete_del e = Some (EF_NO_ERR, ?e)"
    using w st(1) start by (cases complete_del) (simp_all add: del_status_def forget_def update_env_cache_def)
  then have "del_old_env key env complete_del e = Some (EF_NO_ERR, ?e\<lparr>ops := n', chip := m'\<rparr>)"
    using d start placed_sector [OF r p] by (simp only: del_old_env_def Option.bind.simps prod.case Let_def simp_thms)
  moreover have "?e\<lparr>ops := n', chip := m'\<rparr>
      = (forget key env complete_del e)\<lparr>ops := n', chip := m', last_is_complete_del := \<not> complete_del\<rparr>" by simp
  ultimately show ?thesis using r2 by metis
qed

section \<open>Deletion in the abstract store\<close>

lemma placed_index:
  "placed ss i pre x st \<longleftrightarrow> i < length ss \<and> length pre < length (a_envs (ss ! i)) \<and>
     a_envs (ss ! i) ! length pre = (x, st) \<and> pre = take (length pre) (a_envs (ss ! i))"
proof -
  have "(\<exists>post. es = pre @ (x, st) # post) \<longleftrightarrow>
      length pre < length es \<and> es ! length pre = (x, st) \<and> pre = take (length pre) es" for es
    by (auto simp: append_eq_conv_conj) (metis append_take_drop_id Cons_nth_drop_Suc)
  then show ?thesis by (auto simp: placed_def)
qed

lemma chain_size_fst: "map fst es = map fst es' \<Longrightarrow> chain_size es = chain_size es'"
proof -
  have "chain_size es = sum_list (map env_size (map fst es))" for es by (simp add: chain_size_def o_def)
  then show "map fst es = map fst es' \<Longrightarrow> chain_size es = chain_size es'" by (simp only:)
qed

lemma map_fst_status: "n < length es \<Longrightarrow> map fst (es[n := (fst (es ! n), st)]) = map fst es"
  by (simp add: map_update list_update_same_conv)

lemma pos_status:
  "n < length es \<Longrightarrow> pos i (take k (es[n := (fst (es ! n), st)])) = pos i (take k es)"
proof -
  assume "n < length es"
  from map_fst_status [OF this, of st] have "map fst (take k (es[n := (fst (es ! n), st)])) = map fst (take k es)"
    by (simp only: take_map [symmetric])
  from chain_size_fst [OF this] show ?thesis by (simp only: pos_def)
qed

lemma with_status_envs:
  "\<lbrakk>i < length ss\<rbrakk> \<Longrightarrow> a_envs (with_status ss i n st ! j) =
     (if j = i then (a_envs (ss ! i))[n := (fst (a_envs (ss ! i) ! n), st)] else a_envs (ss ! j))"
  by (simp add: with_status_def)

lemma length_with_status [simp]: "length (with_status ss i n st) = length ss"
  by (simp add: with_status_def)

text \<open>An entry keeps its place when another one changes its status.\<close>

lemma placed_other:
  assumes p: "placed ss j pre y st" and i: "i < length ss" "n < length (a_envs (ss ! i))" and other: "j = i \<Longrightarrow> length pre \<noteq> n"
  shows "\<exists>pre'. placed (with_status ss i n st') j pre' y st \<and> pos j pre' = pos j pre"
proof (cases "j = i")
  case False
  with p i show ?thesis by (auto simp: placed_def with_status_envs)
next
  case True
  let ?es = "a_envs (ss ! i)" let ?es' = "?es[n := (fst (?es ! n), st')]"
  have q: "length pre < length ?es" "?es ! length pre = (y, st)" "pre = take (length pre) ?es"
    using p True by (simp_all add: placed_index)
  let ?pre = "take (length pre) ?es'"
  have l: "length ?pre = length pre" using q(1) by simp
  have "placed (with_status ss i n st') j ?pre y st"
    using True i q other by (simp add: placed_index with_status_envs l)
  moreover have "pos j ?pre = pos j pre" using pos_status [OF i(2), of j "length pre" st'] q(3) by simp
  ultimately show ?thesis by blast
qed

definition sec_lives :: "asec \<Rightarrow> entry list" where
  "sec_lives s = map fst (filter (\<lambda>p. snd p = ENV_WRITE) (a_envs s))"

lemma lives_concat: "lives ss = concat (map sec_lives ss)"
  unfolding lives_def sec_lives_def by (induction ss) simp_all

lemma lives_update:
  "i < length ss \<Longrightarrow> lives (ss[i := s]) = concat (map sec_lives (take i ss)) @ sec_lives s @ concat (map sec_lives (drop (Suc i) ss))"
  by (simp add: lives_concat upd_conv_take_nth_drop)

lemma lives_at:
  "i < length ss \<Longrightarrow> lives ss = concat (map sec_lives (take i ss)) @ sec_lives (ss ! i) @ concat (map sec_lives (drop (Suc i) ss))"
  using lives_update [of i ss "ss ! i"] by simp

text \<open>An entry that stops being live leaves the list of live entries.\<close>

lemma lives_delete:
  assumes "placed ss i pre x ENV_WRITE"
  obtains l1 l2 where "lives ss = l1 @ x # l2" "\<And>st. st \<noteq> ENV_WRITE \<Longrightarrow> lives (with_status ss i (length pre) st) = l1 @ l2"
proof -
  obtain post where p: "a_envs (ss ! i) = pre @ (x, ENV_WRITE) # post" and i: "i < length ss" using assms by (auto simp: placed_def)
  let ?A = "concat (map sec_lives (take i ss))" let ?B = "concat (map sec_lives (drop (Suc i) ss))"
  let ?L = "\<lambda>es. map fst (filter (\<lambda>p. snd p = ENV_WRITE) es)"
  show ?thesis
  proof (rule that [of "?A @ ?L pre" "?L post @ ?B"])
    show "lives ss = (?A @ ?L pre) @ x # ?L post @ ?B" using i p by (simp add: lives_at sec_lives_def)
    show "lives (with_status ss i (length pre) st) = (?A @ ?L pre) @ ?L post @ ?B" if "st \<noteq> ENV_WRITE" for st
      using i that by (simp add: with_status_split [OF p] lives_update sec_lives_def)
  qed
qed

lemma kv_delete:
  assumes d: "distinct (map fst (lives ss))" and p: "placed ss i pre x ENV_WRITE" and st: "st \<noteq> ENV_WRITE"
  shows "kv (with_status ss i (length pre) st) = (kv ss)(fst x := None)"
    "distinct (map fst (lives (with_status ss i (length pre) st)))"
    "set (lives (with_status ss i (length pre) st)) = set (lives ss) - {x}"
proof -
  obtain l1 l2 where l: "lives ss = l1 @ x # l2" "lives (with_status ss i (length pre) st) = l1 @ l2"
    using lives_delete [OF p] st by metis
  have n: "fst x \<notin> fst ` set l1" "fst x \<notin> fst ` set l2" using d l(1) by auto
  show "distinct (map fst (lives (with_status ss i (length pre) st)))" using d l by auto
  show "set (lives (with_status ss i (length pre) st)) = set (lives ss) - {x}" using n l by auto
  have "map_of l1 (fst x) = None" "map_of l2 (fst x) = None" using n by (auto simp: map_of_eq_None_iff)
  then show "kv (with_status ss i (length pre) st) = (kv ss)(fst x := None)"
    by (auto simp: kv_def l map_add_def split: option.splits intro!: ext)
qed

text \<open>The cache after a deletion that forgets the name.\<close>

lemma env_cache_rep_delete:
  assumes c: "env_cache_rep e ss" and p: "placed ss i pre x ENV_WRITE"
    and c': "env_cache_ok t'" "cached_env t' = (cached_env (env_cache_table e))(name_hash (fst x) := None)"
    and t: "env_cache_table e' = t'"
  shows "env_cache_rep e' (with_status ss i (length pre) st)"
  unfolding env_cache_rep_def t
proof (intro conjI allI impI c'(1))
  fix h a assume "cached_env t' h = Some a"
  then have h: "h \<noteq> name_hash (fst x)" "cached_env (env_cache_table e) h = Some a" unfolding c' by (auto split: if_splits)
  with c obtain j pre2 y where y: "placed ss j pre2 y ENV_WRITE" "a = pos j pre2" "name_hash (fst y) = h"
    unfolding env_cache_rep_def by blast
  have i: "i < length ss" "length pre < length (a_envs (ss ! i))" "a_envs (ss ! i) ! length pre = (x, ENV_WRITE)"
    using p by (simp_all add: placed_index)
  have "length pre2 \<noteq> length pre" if "j = i"
    using y h i that by (auto simp: placed_index)
  from placed_other [OF y(1) i(1,2) this, of st] obtain pre'
    where "placed (with_status ss i (length pre) st) j pre' y ENV_WRITE" "pos j pre' = pos j pre2" by blast
  with y show "\<exists>i' pre' x'. placed (with_status ss i (length pre) st) i' pre' x' ENV_WRITE \<and> a = pos i' pre' \<and> name_hash (fst x') = h"
    by metis
qed

section \<open>Deleting a name\<close>

lemma store_status:
  assumes s: "store K e ss" and p: "placed ss i pre x ENV_WRITE" and st: "st \<noteq> ENV_WRITE"
    and r: "rep e' (with_status ss i (length pre) st)" and c: "env_cache_rep e' (with_status ss i (length pre) st)"
  shows "store K e' (with_status ss i (length pre) st)"
  using s r c kv_delete(2,3) [OF _ p st] by (auto simp: store_def)

text \<open>
  Deleting a name removes it from the store and changes no other; a name that is not there is an error and
  changes nothing.
\<close>

theorem del_env_removes:
  assumes s: "store K e ss" and k: "key \<in> K" and l: "\<not> last_is_complete_del e"
  shows "\<exists>e' ss'. del_env key True e = Some (if kv ss key = None then EF_ENV_NAME_ERR else EF_NO_ERR, e') \<and>
    store K e' ss' \<and> kv ss' = (kv ss)(key := None) \<and> gc_request e' = gc_request e \<and> init_ok e' = init_ok e \<and>
    in_recovery_check e' = in_recovery_check e \<and> \<not> last_is_complete_del e' \<and>
    (ss' = ss \<or> (\<exists>i pre x. placed ss i pre x ENV_WRITE \<and> ss' = with_status ss i (length pre) ENV_DELETED))"
proof -
  from find_env_spec [OF s k, of blank_node] obtain ok env e1 t
    where f: "find_env key blank_node e = Some (ok, env, e1)" "store K e1 ss" "e1 = e\<lparr>env_cache_table := t\<rparr>" "finds ss key ok env"
    by blast
  show ?thesis
  proof (cases ok)
    case False
    then have kv: "kv ss key = None" using f(4) by (simp add: finds_def)
    then have "(kv ss)(key := None) = kv ss" by auto
    with False f kv l show ?thesis by (auto simp: del_env_def)
  next
    case True
    with f(4) have "\<exists>i pre x. placed ss i pre x ENV_WRITE \<and> fst x = key \<and> env = node_of blank_node (pos i pre) x ENV_WRITE"
      by (simp only: finds_def if_True)
    then obtain i pre x where p: "placed ss i pre x ENV_WRITE" "fst x = key" "env = node_of blank_node (pos i pre) x ENV_WRITE"
      by blast
    have r: "rep e1 ss" and d: "distinct (map fst (lives ss))" and c: "env_cache_rep e1 ss" using f(2) by (simp_all add: store_def)
    have start: "n_start env = pos i pre" by (simp add: p(3) node_of_def)
    from del_old_env_spec [OF r p(1) start, of ENV_DELETED True "Some key"] obtain n m
      where del: "del_old_env (Some key) env True e1 = Some (EF_NO_ERR,
          (forget (Some key) env True e1)\<lparr>ops := n, chip := m, last_is_complete_del := False\<rparr>)"
      and r': "rep ((forget (Some key) env True e1)\<lparr>ops := n, chip := m, last_is_complete_del := False\<rparr>)
          (with_status ss i (length pre) ENV_DELETED)" by auto
    let ?e = "(forget (Some key) env True e1)\<lparr>ops := n, chip := m, last_is_complete_del := False\<rparr>"
    have tab: "env_cache_table ?e = env_cache_table (update_env_cache key FAILED_ADDR e1)"
      using l f(3) by (simp add: forget_def)
    have ok1: "env_cache_ok (env_cache_table e1)" using c by (simp add: env_cache_rep_def)
    have "env_cache_rep ?e (with_status ss i (length pre) ENV_DELETED)"
      using env_cache_rep_delete [OF c p(1) update_env_cache_map(1) [OF ok1] _ tab] update_env_cache_map(3) [OF ok1] p(2) by simp
    then have "store K ?e (with_status ss i (length pre) ENV_DELETED)" using store_status [OF f(2) p(1) _ r'] by simp
    moreover have "kv (with_status ss i (length pre) ENV_DELETED) = (kv ss)(key := None)"
      using kv_delete(1) [OF d p(1)] p(2) by simp
    moreover have "kv ss key \<noteq> None" using live_kv [OF d placed_live [OF p(1)]] p(2) by simp
    moreover have "gc_request ?e = gc_request e \<and> init_ok ?e = init_ok e \<and> in_recovery_check ?e = in_recovery_check e \<and>
        \<not> last_is_complete_del ?e" using f(3) by (simp add: forget_def update_env_cache_def)
    moreover have "del_env key True e = Some (EF_NO_ERR, ?e)" using f(1) True del by (simp add: del_env_def)
    moreover have "\<exists>j pre2 y. placed ss j pre2 y ENV_WRITE \<and>
        with_status ss i (length pre) ENV_DELETED = with_status ss j (length pre2) ENV_DELETED" using p(1) by blast
    ultimately show ?thesis
      by (intro exI [of _ ?e] exI [of _ "with_status ss i (length pre) ENV_DELETED"]) simp
  qed
qed

end
