(* ===== verification/Ef_Alloc.thy ===== *)
theory Ef_Alloc
  imports Ef_Delete
begin

text \<open>
  Allocation on a store: what reading a sector with its entries gives, and which sector \<open>alloc_env\<close> takes.
\<close>

section \<open>The free space of a sector\<close>

definition meta_full :: "nat \<Rightarrow> asec \<Rightarrow> sector_meta_data" where
  "meta_full i s = (meta_of blank_sector i s)\<lparr>s_remain := of_nat (4096 - used s), s_empty := sec i + of_nat (used s)\<rparr>"

lemmas meta_defs = meta_full_def meta_of_def blank_sector_def

lemma sector_walk_spec:
  assumes r: "rep e ss" and i: "i < 4" and sm: "s_addr sm = sec i" "s_store sm \<noteq> SECTOR_STORE_EMPTY"
  shows "\<lbrakk>a_envs (ss ! i) = es @ es'; es @ es' \<noteq> []; walk_at i es env; s_addr sm' = sec i; s_store sm' \<noteq> SECTOR_STORE_EMPTY\<rbrakk> \<Longrightarrow>
    sector_walk sm' env e = Some (EF_NO_ERR, sm'\<lparr>s_empty := s_empty sm' + of_nat (chain_size es'),
      s_remain := s_remain sm' - of_nat (chain_size es')\<rparr>, e)"
proof (induction es' arbitrary: es env sm')
  case Nil
  with walk_done [OF r i Nil.prems(4,5)] show ?case by (simp add: sector_walk.simps)
next
  case (Cons q es')
  obtain x st where q: "q = (x, st)" by (cases q)
  note step = walk_step [OF r i Cons.prems(4,5) Cons.prems(1) [unfolded q] Cons.prems(3)]
  let ?sm = "sm'\<lparr>s_empty := s_empty sm' + of_nat (env_size x), s_remain := s_remain sm' - of_nat (env_size x)\<rparr>"
  have "a_envs (ss ! i) = (es @ [(x, st)]) @ es'" "(es @ [(x, st)]) @ es' \<noteq> []" using Cons.prems q by simp_all
  from Cons.IH [OF this walk_node, of ?sm env] Cons.prems
  have "sector_walk ?sm (node_of env (pos i es) x st) e = Some (EF_NO_ERR, ?sm\<lparr>s_empty := s_empty ?sm + of_nat (chain_size es'),
      s_remain := s_remain ?sm - of_nat (chain_size es')\<rparr>, e)" by simp
  moreover have "n_crc_ok (node_of env (pos i es) x st)" "n_len (node_of env (pos i es) x st) = of_nat (env_size x)"
    by (simp_all add: node_of_def)
  ultimately show ?case by (subst sector_walk.simps) (simp add: step q add.assoc diff_diff_add)
qed

lemma update_sector_cache_eq: "\<exists>t. update_sector_cache a b e = e\<lparr>sector_cache_table := t\<rparr>"
  by (auto simp: update_sector_cache_def)

text \<open>Filling the cache with what is true keeps the store.\<close>

lemma rep_fill_cache:
  assumes r: "rep e ss" and i: "i < 4" and st: "a_store (ss ! i) = SECTOR_STORE_USING"
  shows "rep (update_sector_cache (sec i) (sec i + of_nat (used (ss ! i))) e) ss"
proof -
  have u: "used (ss ! i) \<le> 4096" by (rule used_le [OF repD(1) [OF r i]])
  have c: "sector_cache_rep e ss" by (rule repD(4) [OF r])
  have ok: "sector_cache_ok (sector_cache_table e)" using c by (simp add: sector_cache_rep_def)
  have "sector_cache_rep (update_sector_cache (sec i) (sec i + of_nat (used (ss ! i))) e) ss"
  proof (rule cache_update_rep [OF ok i])
    show "unat a = 4096 * j + used (ss ! j)"
      if "j < 4" "j \<noteq> i" "get_sector_from_cache e (sec j) = Some a" for j a
      using c that by (simp add: sector_cache_rep_def sec_def)
    show "unat (sec i + of_nat (used (ss ! i))) = 4096 * i + used (ss ! i)"
      using st u i by (simp add: unat_sec_off)
  qed
  then show ?thesis using r by (simp add: rep_def update_sector_cache_def sound_def)
qed

lemma read_sector_full:
  assumes r: "rep e ss" and i: "i < 4" and st: "a_store (ss ! i) = SECTOR_STORE_USING \<or> a_store (ss ! i) = SECTOR_STORE_EMPTY"
  shows "\<exists>t. read_sector_meta_data (sec i) sm True e = Some (EF_NO_ERR, meta_full i (ss ! i), e\<lparr>sector_cache_table := t\<rparr>) \<and>
    rep (e\<lparr>sector_cache_table := t\<rparr>) ss"
proof -
  let ?s = "ss ! i" and ?m = "meta_of sm i (ss ! i)"
  have u: "used ?s \<le> 4096" by (rule used_le [OF repD(1) [OF r i]])
  have shape: "shape ?s" by (rule repD(5) [OF r i])
  have "read_sector_meta_data (sec i) sm False e = Some (EF_NO_ERR, ?m, e)" by (rule read_sector_hdr [OF r i])
  then have rd: "read_sector_meta_data (sec i) sm True e = sector_space ?m e"
    by (auto simp: read_sector_meta_data_def Let_def split: if_splits)
  have m: "s_addr ?m = sec i" "s_store ?m = a_store ?s" by (simp_all add: meta_of_def)
  show ?thesis
  proof (cases "a_store ?s = SECTOR_STORE_EMPTY")
    case True
    then have "used ?s = 16" using shape by (simp add: shape_def used_def)
    then have "sector_space ?m e = Some (EF_NO_ERR, meta_full i ?s, e)"
      using True by (simp add: sector_space_def m SECTOR_SIZE_def SECTOR_HDR_DATA_SIZE_def meta_defs)
    with rd r show ?thesis by (intro exI [of _ "sector_cache_table e"]) simp
  next
    case False
    with st have usng: "a_store ?s = SECTOR_STORE_USING" by simp
    show ?thesis
    proof (cases "get_sector_from_cache e (sec i)")
      case (Some a)
      then have "unat a = 4096 * i + used ?s" using repD(4) [OF r] i by (simp add: sector_cache_rep_def sec_def)
      then have a: "a = sec i + of_nat (used ?s)" using u i by (simp add: word_unat_eq_iff unat_sec_off)
      have "(of_nat 4096 :: u32) - of_nat (used ?s) = of_nat (4096 - used ?s)" using u by (simp only: of_nat_diff)
      then have "sector_space ?m e = Some (EF_NO_ERR, meta_full i ?s, e)"
        using Some usng a by (simp add: sector_space_def m SECTOR_SIZE_def) (simp add: meta_defs)
      with rd r show ?thesis by (intro exI [of _ "sector_cache_table e"]) simp
    next
      case None
      have envs: "a_envs ?s \<noteq> []" using shape usng by (simp add: shape_def)
      let ?base = "?m\<lparr>s_empty := s_addr ?m + SECTOR_HDR_DATA_SIZE, s_remain := SECTOR_SIZE - SECTOR_HDR_DATA_SIZE\<rparr>"
      have w: "walk_at i [] blank_node" by (rule walk_first) (simp add: blank_node_def)
      have u16: "of_nat (used ?s) = (16 :: u32) + of_nat (chain_size (a_envs ?s))" by (simp add: used_def)
      have "(of_nat 4096 :: u32) - of_nat (used ?s) = of_nat (4096 - used ?s)" using u by (simp only: of_nat_diff)
      then have rem: "(4080 :: u32) - of_nat (chain_size (a_envs ?s)) = of_nat (4096 - used ?s)"
        by (simp add: u16 algebra_simps)
      have "sector_walk ?base blank_node e = Some (EF_NO_ERR, meta_full i ?s, e)"
        using sector_walk_spec [OF r i, of ?base "[]" "a_envs ?s" blank_node ?base] w envs m usng rem u16
        by (simp add: SECTOR_SIZE_def SECTOR_HDR_DATA_SIZE_def add.assoc) (simp add: meta_defs)
      moreover have "continue_ff_addr e (sec i + of_nat (used ?s)) (sec i + SECTOR_SIZE) = sec i + of_nat (used ?s)"
      proof -
        let ?a = "sec i + of_nat (used ?s)" let ?r = "continue_ff_addr e ?a (sec i + SECTOR_SIZE)"
        have ua: "unat ?a = 4096 * i + used ?s" "unat (sec i + SECTOR_SIZE) = 4096 * i + 4096"
          using i u unat_sec [of "Suc i"] by (simp_all add: unat_sec_off sec_Suc del: unat_sec)
        have le: "unat ?a \<le> unat (sec i + SECTOR_SIZE)" "unat (sec i + SECTOR_SIZE) \<le> 1048576"
          using ua u i by simp_all
        note sp = continue_ff_addr_spec [OF le, of e]
        have "\<not> unat ?a < unat ?r"
        proof
          assume "unat ?a < unat ?r"
          with sp have "chip e (unat ?r - 1) \<noteq> 0xFF" "4096 * i + used ?s \<le> unat ?r - 1" "unat ?r - 1 < 4096 * i + 4096"
            using ua by auto
          with repD(1) [OF r i] show False by (simp add: sec_at_def filled_def)
        qed
        with sp have "unat ?r = unat ?a" by linarith
        then show ?thesis by (simp add: word_unat_eq_iff)
      qed
      moreover have "s_addr (meta_full i ?s) = sec i" "s_empty (meta_full i ?s) = sec i + of_nat (used ?s)"
        by (simp_all add: meta_full_def meta_of_def)
      ultimately have "sector_space ?m e = Some (EF_NO_ERR, meta_full i ?s, update_sector_cache (sec i) (sec i + of_nat (used ?s)) e)"
        using None usng by (simp add: sector_space_def m Let_def)
      with rd have full: "read_sector_meta_data (sec i) sm True e =
          Some (EF_NO_ERR, meta_full i ?s, update_sector_cache (sec i) (sec i + of_nat (used ?s)) e)" by (rule trans)
      obtain t where "update_sector_cache (sec i) (sec i + of_nat (used ?s)) e = e\<lparr>sector_cache_table := t\<rparr>"
        using update_sector_cache_eq by blast
      with full rep_fill_cache [OF r i usng] show ?thesis by (intro exI [of _ t]) simp
    qed
  qed
qed

section \<open>Which sector is taken\<close>

definition fits :: "bool \<Rightarrow> nat \<Rightarrow> sector_store_status \<Rightarrow> asec \<Rightarrow> bool" where
  "fits gc n st s \<longleftrightarrow> a_store s = st \<and> n < 4096 - used s \<and>
     (a_dirty s = SECTOR_DIRTY_FALSE \<or> a_dirty s = SECTOR_DIRTY_TRUE \<and> \<not> gc)"

definition count_store :: "sector_store_status \<Rightarrow> asec list \<Rightarrow> nat" where
  "count_store st ss = length (filter (\<lambda>s. a_store s = st) ss)"

text \<open>
  A sector in use first; an empty one only while another one stays empty, or during a collection.
\<close>

definition alloc_spec :: "bool \<Rightarrow> nat \<Rightarrow> asec list \<Rightarrow> nat option" where
  "alloc_spec gc n ss =
     (case List.find (\<lambda>i. fits gc n SECTOR_STORE_USING (ss ! i)) [0..<4] of
        Some i \<Rightarrow> Some i
      | None \<Rightarrow> if count_store SECTOR_STORE_EMPTY ss > 1 \<or> count_store SECTOR_STORE_EMPTY ss > 0 \<and> gc
                then List.find (\<lambda>i. fits gc n SECTOR_STORE_EMPTY (ss ! i)) [0..<4] else None)"

lemma sectors_at_full:
  assumes i: "i < 4"
  shows "sectors_at (Suc i) (meta_full i s)"
proof -
  have "meta_full i s = meta_of (blank_sector\<lparr>s_remain := of_nat (4096 - used s), s_empty := sec i + of_nat (used s)\<rparr>) i s"
    by (simp add: meta_defs)
  then show ?thesis by (simp add: sectors_at_next [OF i])
qed

lemma statistics_loop:
  assumes r: "rep e ss"
  shows "\<lbrakk>sectors_at i sm; i \<le> 4\<rbrakk> \<Longrightarrow>
    \<exists>sm'. sector_loop SECTOR_STORE_UNUSED sector_statistics_cb False sm (a, b) e =
      Some (sm', (a + count_store SECTOR_STORE_EMPTY (drop i ss), b + count_store SECTOR_STORE_USING (drop i ss)), e)"
proof (induction "4 - i" arbitrary: i sm a b)
  case 0
  then show ?case using repD(2) [OF r]
    by (subst sector_loop.simps) (simp add: sectors_at_def count_store_def)
next
  case (Suc d)
  then have i: "i < 4" and d: "d = 4 - Suc i" by simp_all
  have na: "get_next_sector_addr sm = sec i" "sec i \<noteq> FAILED_ADDR" using Suc.prems i by (simp_all add: sectors_at_def)
  let ?m = "meta_of sm i (ss ! i)"
  have m: "check_ok ?m" "s_store ?m = a_store (ss ! i)" by (simp_all add: meta_of_def)
  have dr: "drop i ss = ss ! i # drop (Suc i) ss" using i repD(2) [OF r] by (simp add: Cons_nth_drop_Suc)
  let ?a = "if a_store (ss ! i) = SECTOR_STORE_EMPTY then a + 1 else a"
  let ?b = "if a_store (ss ! i) = SECTOR_STORE_USING then b + 1 else b"
  have le: "Suc i \<le> 4" using i by simp
  from Suc.hyps(1) [OF d sectors_at_next [OF i, of sm "ss ! i"] le, of ?a ?b] obtain sm' where
    "sector_loop SECTOR_STORE_UNUSED sector_statistics_cb False ?m (?a, ?b) e =
      Some (sm', (?a + count_store SECTOR_STORE_EMPTY (drop (Suc i) ss), ?b + count_store SECTOR_STORE_USING (drop (Suc i) ss)), e)"
    by blast
  moreover have "sector_statistics_cb ?m (a, b) e = Some (False, (?a, ?b), e)"
    using m by (simp add: sector_statistics_cb_def)
  ultimately show ?case
    by (subst sector_loop.simps) (simp add: na read_sector_hdr [OF r i] dr count_store_def)
qed

lemma alloc_loop:
  "\<lbrakk>rep e ss; sectors_at i sm; i \<le> 4; st = SECTOR_STORE_USING \<or> st = SECTOR_STORE_EMPTY; n < 4294967296\<rbrakk> \<Longrightarrow>
    \<exists>sm' t. sector_loop st (alloc_env_cb (of_nat n)) True sm x e =
      Some (sm', (case List.find (\<lambda>i. fits (gc_request e) n st (ss ! i)) [i..<4] of
          Some j \<Rightarrow> sec j + of_nat (used (ss ! j)) | None \<Rightarrow> x), e\<lparr>sector_cache_table := t\<rparr>) \<and>
      (\<forall>j. List.find (\<lambda>i. fits (gc_request e) n st (ss ! i)) [i..<4] = Some j \<longrightarrow> sm' = meta_full j (ss ! j)) \<and>
      rep (e\<lparr>sector_cache_table := t\<rparr>) ss"
proof (induction "4 - i" arbitrary: i sm e)
  case 0
  then have "sector_loop st (alloc_env_cb (of_nat n)) True sm x e = Some (sm, x, e)"
    by (subst sector_loop.simps) (simp add: sectors_at_def)
  with 0 show ?case by (intro exI [of _ sm] exI [of _ "sector_cache_table e"]) simp
next
  case (Suc d)
  note r = Suc.prems(1)
  have i: "i < 4" and d: "d = 4 - Suc i" and le: "Suc i \<le> 4" using Suc.hyps(2) by simp_all
  have na: "get_next_sector_addr sm = sec i" "sec i \<noteq> FAILED_ADDR" using Suc.prems i by (simp_all add: sectors_at_def)
  have up: "[i..<4] = i # [Suc i..<4]" using i by (simp add: upt_conv_Cons)
  let ?m = "meta_of sm i (ss ! i)" and ?s = "ss ! i"
  have m: "s_store ?m = a_store ?s" by (simp add: meta_of_def)
  have not_unused: "st \<noteq> SECTOR_STORE_UNUSED" using Suc.prems(4) by auto
  show ?case
  proof (cases "a_store ?s = st")
    case False
    then have nf: "\<not> fits (gc_request e) n st ?s" by (simp add: fits_def)
    have "sector_loop st (alloc_env_cb (of_nat n)) True sm x e = sector_loop st (alloc_env_cb (of_nat n)) True ?m x e"
      using False not_unused by (subst sector_loop.simps) (simp add: na read_sector_hdr [OF r i] m)
    with Suc.hyps(1) [OF d r sectors_at_next [OF i, of sm ?s] le Suc.prems(4,5)] nf up show ?thesis by simp
  next
    case True
    obtain t where t: "read_sector_meta_data (sec i) ?m True e = Some (EF_NO_ERR, meta_full i ?s, e\<lparr>sector_cache_table := t\<rparr>)"
      "rep (e\<lparr>sector_cache_table := t\<rparr>) ss"
      using read_sector_full [OF r i, of ?m] True Suc.prems(4) by blast
    let ?e = "e\<lparr>sector_cache_table := t\<rparr>"
    have u: "used ?s \<le> 4096" by (rule used_le [OF repD(1) [OF r i]])
    have "unat (of_nat (4096 - used ?s) :: u32) = 4096 - used ?s" "unat (of_nat n :: u32) = n"
      using Suc.prems(5) by (intro area_words; simp)+
    then have cb: "alloc_env_cb (of_nat n) (meta_full i ?s) x ?e =
        (if fits (gc_request e) n st ?s then Some (True, sec i + of_nat (used ?s), ?e) else Some (False, x, ?e))"
      using True by (simp add: alloc_env_cb_def fits_def meta_defs word_less_nat_alt)
    show ?thesis
    proof (cases "fits (gc_request e) n st ?s")
      case True
      with cb t(1) \<open>a_store ?s = st\<close>
      have "sector_loop st (alloc_env_cb (of_nat n)) True sm x e = Some (meta_full i ?s, sec i + of_nat (used ?s), ?e)"
        by (subst sector_loop.simps) (simp add: na read_sector_hdr [OF r i] m)
      with t(2) True up show ?thesis by auto
    next
      case False
      have "sectors_at (Suc i) (meta_full i ?s)" by (rule sectors_at_full [OF i])
      from Suc.hyps(1) [OF d t(2) this le Suc.prems(4,5)] obtain sm' t' where
        l: "sector_loop st (alloc_env_cb (of_nat n)) True (meta_full i ?s) x ?e =
          Some (sm', (case List.find (\<lambda>i. fits (gc_request e) n st (ss ! i)) [Suc i..<4] of
            Some j \<Rightarrow> sec j + of_nat (used (ss ! j)) | None \<Rightarrow> x), e\<lparr>sector_cache_table := t'\<rparr>)"
          "\<forall>j. List.find (\<lambda>i. fits (gc_request e) n st (ss ! i)) [Suc i..<4] = Some j \<longrightarrow> sm' = meta_full j (ss ! j)"
          "rep (e\<lparr>sector_cache_table := t'\<rparr>) ss" by auto
      have "sector_loop st (alloc_env_cb (of_nat n)) True sm x e = sector_loop st (alloc_env_cb (of_nat n)) True (meta_full i ?s) x ?e"
        using cb False t(1) \<open>a_store ?s = st\<close> by (subst sector_loop.simps) (simp add: na read_sector_hdr [OF r i] m)
      with l False up show ?thesis by auto
    qed
  qed
qed

section \<open>Allocation\<close>

lemma statistics_spec:
  assumes "rep e ss"
  shows "\<exists>sm'. sector_iterator sm SECTOR_STORE_UNUSED (0, 0) sector_statistics_cb False e =
    Some (sm', (count_store SECTOR_STORE_EMPTY ss, count_store SECTOR_STORE_USING ss), e)"
  using statistics_loop [OF assms sectors_at_first [of "sm\<lparr>s_addr := FAILED_ADDR\<rparr>"], of 0 0]
  by (simp add: sector_iterator_def)

lemma alloc_iterator_spec:
  assumes "rep e ss" "st = SECTOR_STORE_USING \<or> st = SECTOR_STORE_EMPTY" "n < 4294967296"
  shows "\<exists>sm' t. sector_iterator sm st x (alloc_env_cb (of_nat n)) True e =
      Some (sm', (case List.find (\<lambda>i. fits (gc_request e) n st (ss ! i)) [0..<4] of
          Some j \<Rightarrow> sec j + of_nat (used (ss ! j)) | None \<Rightarrow> x), e\<lparr>sector_cache_table := t\<rparr>) \<and>
      (\<forall>j. List.find (\<lambda>i. fits (gc_request e) n st (ss ! i)) [0..<4] = Some j \<longrightarrow> sm' = meta_full j (ss ! j)) \<and>
      rep (e\<lparr>sector_cache_table := t\<rparr>) ss"
  unfolding sector_iterator_def by (rule alloc_loop) (use assms in \<open>simp_all add: sectors_at_first\<close>)

definition alloc_result :: "asec list \<Rightarrow> nat option \<Rightarrow> sector_meta_data \<Rightarrow> u32 \<Rightarrow> bool" where
  "alloc_result ss r sm a \<longleftrightarrow>
     (case r of Some j \<Rightarrow> j < 4 \<and> a = sec j + of_nat (used (ss ! j)) \<and> sm = meta_full j (ss ! j) | None \<Rightarrow> a = FAILED_ADDR)"

lemma rep_gc_request [simp]: "rep (e\<lparr>gc_request := b\<rparr>) ss = rep e ss"
  by (simp add: rep_def sector_cache_rep_def get_sector_from_cache_def sound_def)

lemma count_none: "\<lbrakk>length ss = 4; count_store st ss = 0\<rbrakk> \<Longrightarrow> List.find (\<lambda>i. fits gc n st (ss ! i)) [0..<4] = None"
  by (auto simp: find_upt_None count_store_def filter_empty_conv fits_def)

lemma free_not_failed:
  assumes r: "rep e ss" and j: "j < 4"
  shows "sec j + of_nat (used (ss ! j)) \<noteq> FAILED_ADDR"
proof
  assume "sec j + of_nat (used (ss ! j)) = FAILED_ADDR"
  then have "unat (sec j + of_nat (used (ss ! j))) = 4294967295" by (simp add: FAILED_ADDR_def)
  with used_le [OF repD(1) [OF r j]] j show False by (simp add: unat_sec_off)
qed

lemma alloc_env_spec:
  assumes r: "rep e ss" and n: "n < 4294967296"
  shows "\<exists>a sm t gc. alloc_env sm0 (of_nat n) e = Some (a, sm, e\<lparr>sector_cache_table := t, gc_request := gc\<rparr>) \<and>
    alloc_result ss (alloc_spec (gc_request e) n ss) sm a \<and> rep (e\<lparr>sector_cache_table := t\<rparr>) ss \<and>
    gc = (gc_request e \<or> alloc_spec (gc_request e) n ss = None \<and> count_store SECTOR_STORE_EMPTY ss = 1)"
proof -
  let ?ne = "count_store SECTOR_STORE_EMPTY ss" and ?nu = "count_store SECTOR_STORE_USING ss" and ?gc = "gc_request e"
  let ?f = "\<lambda>st. List.find (\<lambda>i. fits ?gc n st (ss ! i)) [0..<4]"
  obtain sm1 where s1: "sector_iterator sm0 SECTOR_STORE_UNUSED (0, 0) sector_statistics_cb False e = Some (sm1, (?ne, ?nu), e)"
    using statistics_spec [OF r] by blast
  define second where "second = (if ?nu > 0
          then sector_iterator sm1 SECTOR_STORE_USING FAILED_ADDR (alloc_env_cb (of_nat n)) True e
          else Some (sm1, FAILED_ADDR, e))"
  have "\<exists>sm2 t. second = Some (sm2, (case ?f SECTOR_STORE_USING of Some j \<Rightarrow> sec j + of_nat (used (ss ! j)) | None \<Rightarrow> FAILED_ADDR),
      e\<lparr>sector_cache_table := t\<rparr>) \<and> (\<forall>j. ?f SECTOR_STORE_USING = Some j \<longrightarrow> sm2 = meta_full j (ss ! j)) \<and>
      rep (e\<lparr>sector_cache_table := t\<rparr>) ss"
  proof (cases "?nu > 0")
    case True
    with alloc_iterator_spec [OF r _ n, of SECTOR_STORE_USING sm1 FAILED_ADDR] show ?thesis by (simp add: second_def)
  next
    case False
    then have "second = Some (sm1, FAILED_ADDR, e)" "?f SECTOR_STORE_USING = None"
      using count_none [OF repD(2) [OF r]] by (simp_all add: second_def)
    with r show ?thesis by (intro exI [of _ sm1] exI [of _ "sector_cache_table e"]) simp
  qed
  then obtain sm2 t where s2: "second = Some (sm2, (case ?f SECTOR_STORE_USING of Some j \<Rightarrow> sec j + of_nat (used (ss ! j)) | None \<Rightarrow> FAILED_ADDR),
      e\<lparr>sector_cache_table := t\<rparr>)" "\<forall>j. ?f SECTOR_STORE_USING = Some j \<longrightarrow> sm2 = meta_full j (ss ! j)"
      and r2: "rep (e\<lparr>sector_cache_table := t\<rparr>) ss" by blast
  let ?e = "e\<lparr>sector_cache_table := t\<rparr>"
  note start = alloc_env_def s1 second_def [symmetric] s2(1)
  show ?thesis
  proof (cases "?f SECTOR_STORE_USING")
    case (Some j)
    then have j: "j < 4" by (simp add: find_upt_Some)
    have sp: "alloc_spec ?gc n ss = Some j" using Some by (simp add: alloc_spec_def)
    have "alloc_env sm0 (of_nat n) e = Some (sec j + of_nat (used (ss ! j)), sm2, ?e\<lparr>gc_request := ?gc\<rparr>)"
      using Some free_not_failed [OF r j] by (simp add: start)
    with s2(2) Some r2 sp j show ?thesis
      by (intro exI [of _ "sec j + of_nat (used (ss ! j))"] exI [of _ sm2] exI [of _ t] exI [of _ ?gc]) (simp add: alloc_result_def)
  next
    case None
    let ?more = "?ne > 1 \<or> ?ne > 0 \<and> ?gc"
    show ?thesis
    proof (cases ?more)
      case True
      obtain sm3 t' where s3: "sector_iterator sm2 SECTOR_STORE_EMPTY FAILED_ADDR (alloc_env_cb (of_nat n)) True ?e =
          Some (sm3, (case ?f SECTOR_STORE_EMPTY of Some j \<Rightarrow> sec j + of_nat (used (ss ! j)) | None \<Rightarrow> FAILED_ADDR), e\<lparr>sector_cache_table := t'\<rparr>)"
        "\<forall>j. ?f SECTOR_STORE_EMPTY = Some j \<longrightarrow> sm3 = meta_full j (ss ! j)" "rep (e\<lparr>sector_cache_table := t'\<rparr>) ss"
        using alloc_iterator_spec [OF r2 _ n, of SECTOR_STORE_EMPTY sm2 FAILED_ADDR] by auto
      let ?a = "case ?f SECTOR_STORE_EMPTY of Some j \<Rightarrow> sec j + of_nat (used (ss ! j)) | None \<Rightarrow> FAILED_ADDR"
      have "alloc_env sm0 (of_nat n) e = Some (?a, sm3, e\<lparr>sector_cache_table := t', gc_request := ?gc\<rparr>)"
        using True None s3(1) by (auto simp: start EF_GC_EMPTY_SEC_THRESHOLD_def)
      moreover have "alloc_spec ?gc n ss = ?f SECTOR_STORE_EMPTY" using True None by (simp add: alloc_spec_def)
      moreover have "?gc = (?gc \<or> ?f SECTOR_STORE_EMPTY = None \<and> ?ne = 1)" using True by auto
      moreover have "alloc_result ss (?f SECTOR_STORE_EMPTY) sm3 ?a"
      proof (cases "?f SECTOR_STORE_EMPTY")
        case (Some j)
        then have "j < 4" by (simp add: find_upt_Some)
        with Some s3(2) show ?thesis by (simp add: alloc_result_def)
      qed (simp add: alloc_result_def)
      ultimately show ?thesis using s3(3) by (intro exI [of _ ?a] exI [of _ sm3] exI [of _ t'] exI [of _ ?gc]) metis
    next
      case False
      let ?gc' = "?gc \<or> ?ne = 1"
      have "alloc_env sm0 (of_nat n) e = Some (FAILED_ADDR, sm2, e\<lparr>sector_cache_table := t, gc_request := ?gc'\<rparr>)"
        using False None by (auto simp: start EF_GC_EMPTY_SEC_THRESHOLD_def)
      moreover have "alloc_spec ?gc n ss = None" using False None by (auto simp add: alloc_spec_def)
      ultimately show ?thesis using r2
        by (intro exI [of _ FAILED_ADDR] exI [of _ sm2] exI [of _ t] exI [of _ ?gc']) (simp add: alloc_result_def)
    qed
  qed
qed

end
