(* ===== verification/Ef_Create.thy ===== *)
theory Ef_Create
  imports Ef_Alloc
begin

text \<open>
  Creation of an entry on a store: the status of the sector, the bytes in the order the code writes them, and the
  two caches.
\<close>

section \<open>The sector with a new entry\<close>

definition full_after :: "asec \<Rightarrow> nat \<Rightarrow> bool" where
  "full_after s n \<longleftrightarrow> a_store s = SECTOR_STORE_USING \<and> 4096 - used s < n + 56"

definition created :: "asec \<Rightarrow> entry \<Rightarrow> asec" where
  "created s x = s\<lparr>a_store := (if a_store s = SECTOR_STORE_EMPTY then SECTOR_STORE_USING
       else if full_after s (env_size x) then SECTOR_STORE_FULL else a_store s),
     a_envs := a_envs s @ [(x, ENV_WRITE)]\<rparr>"

lemma created_simps [simp]: "a_envs (created s x) = a_envs s @ [(x, ENV_WRITE)]" "a_dirty (created s x) = a_dirty s"
  "used (created s x) = used s + env_size x"
  by (simp_all add: created_def used_def)

lemma shape_created: "shape s \<Longrightarrow> shape (created s x)"
  by (auto simp: shape_def created_def)

text \<open>A change of one sector together with the update of its place in the sector cache.\<close>

lemma rep_cong:
  "\<lbrakk>chip e' = chip e; sector_cache_table e' = sector_cache_table e; fault e' = fault e\<rbrakk> \<Longrightarrow> rep e' ss = rep e ss"
  by (simp add: rep_def sector_cache_rep_def get_sector_from_cache_def sound_def)

lemma rep_change_cached:
  assumes r: "rep e ss" and i: "i < 4" and s: "sec_at m' i s'" "shape s'"
    and c: "\<And>y. y < 4096 * i \<or> 4096 * i + 4096 \<le> y \<Longrightarrow> m' y = chip e y"
    and mine: "emp > sec i \<and> emp < sec i + SECTOR_SIZE \<Longrightarrow> unat emp = 4096 * i + used s'"
    and e': "chip e' = m'" "sector_cache_table e' = sector_cache_table (update_sector_cache (sec i) emp e)" "fault e' = fault e"
  shows "rep e' (ss[i := s'])"
proof -
  have len: "length ss = 4" using r by (rule repD)
  have cr: "sector_cache_rep e ss" using r by (rule repD)
  have "sec_at m' j (ss[i := s'] ! j) \<and> shape (ss[i := s'] ! j)" if "j < 4" for j
  proof (cases "j = i")
    case True
    with s i len show ?thesis by simp
  next
    case False
    have "sec_at m' j (ss ! j)"
    proof (rule sec_at_cong [OF repD(1) [OF r that]])
      fix y assume y: "4096 * j \<le> y" "y < 4096 * j + 4096"
      have "y < 4096 * i \<or> 4096 * i + 4096 \<le> y" using y False by (cases "j < i") simp_all
      then show "chip e y = m' y" by (rule c [symmetric])
    qed
    with False repD(5) [OF r that] show ?thesis by simp
  qed
  moreover have "sector_cache_rep (update_sector_cache (sec i) emp e) (ss[i := s'])"
  proof (rule cache_update_rep [OF _ i])
    show "sector_cache_ok (sector_cache_table e)" using cr by (simp add: sector_cache_rep_def)
    show "unat a = 4096 * j + used (ss[i := s'] ! j)"
      if "j < 4" "j \<noteq> i" "get_sector_from_cache e (sec j) = Some a" for j a
      using cr that by (simp add: sector_cache_rep_def sec_def)
    show "unat emp = 4096 * i + used (ss[i := s'] ! i)"
      if "emp > sec i \<and> emp < sec i + SECTOR_SIZE"
      using mine [OF that] i len by simp
  qed
  then have "sector_cache_rep e' (ss[i := s'])"
    using e'(2) by (simp add: sector_cache_rep_def get_sector_from_cache_def)
  ultimately show ?thesis using repD(3) [OF r] len e' by (simp add: rep_def sound_def)
qed

section \<open>The order of the writes\<close>

lemma put_entry_steps:
  fixes m a key val
  defines "x \<equiv> (key, val)"
  assumes hdr: "hdr = bytes_of32 ENV_MAGIC_WORD @ bytes_of32 (of_nat (env_size x)) @
    bytes_of32 (ef_calc_crc32 0 (env_tail x)) @ env_hdr_tail key val"
  defines "m3 \<equiv> program (program (program (m(a := m a AND NOT (status_bit 0))) (a + 4) hdr) (a + 24) key) (a + 24 + length key) val"
  shows "m3(a := m3 a AND NOT (status_bit 1)) = put_entry m a x"
proof -
  have len: "length hdr = 20" by (simp add: hdr env_hdr_tail_def)
  have "hdr @ key @ val = env_body x" by (simp add: hdr env_body_def env_tail_def env_hdr_tail_def x_def)
  moreover have "m3 = program (m(a := m a AND NOT (status_bit 0))) (a + 4) (hdr @ key @ val)"
  proof -
    have "program (program (m(a := m a AND NOT (status_bit 0))) (a + 4) hdr) (a + 24) key
        = program (m(a := m a AND NOT (status_bit 0))) (a + 4) (hdr @ key)"
      using program_append [of "m(a := m a AND NOT (status_bit 0))" "a + 4" hdr key] len by (simp add: add.commute)
    moreover have "program (program (m(a := m a AND NOT (status_bit 0))) (a + 4) (hdr @ key)) (a + 24 + length key) val
        = program (m(a := m a AND NOT (status_bit 0))) (a + 4) ((hdr @ key) @ val)"
      using program_append [of "m(a := m a AND NOT (status_bit 0))" "a + 4" "hdr @ key" val] len by (simp add: ac_simps)
    ultimately show ?thesis by (simp add: m3_def)
  qed
  ultimately have m3: "m3 = program (m(a := m a AND NOT (status_bit 0))) (a + 4) (env_body x)" by simp
  show ?thesis unfolding m3 put_entry_def by (rule ext) (simp add: program_def and.assoc)
qed

lemma length_env_hdr_tail [simp]: "length (env_hdr_tail key val) = 8"
  by (simp add: env_hdr_tail_def)

lemma env_hdr_tail_crc:
  "ef_calc_crc32 (ef_calc_crc32 (ef_calc_crc32 0 (env_hdr_tail key val)) key) val = ef_calc_crc32 0 (env_tail (key, val))"
  by (simp add: ef_calc_crc32_append env_hdr_tail_def env_tail_def)

section \<open>Creation in an allocated place\<close>

lemma write_status_word:
  assumes "sound e" "0 < s" "s < n" "n \<le> 8" "unat a < 1048576"
  shows "write_status a n s e = Some (EF_NO_ERR, e\<lparr>ops := ops e + 1,
    chip := (chip e)(unat a := chip e (unat a) AND NOT (status_bit (s - 1)))\<rparr>)"
  by (rule write_status_byte(1) [OF assms])

text \<open>The bytes of a new entry, from the first status to the last.\<close>

lemma write_entry:
  fixes key val
  defines "x \<equiv> (key, val)"
  assumes snd: "sound e" and a: "unat a + env_size x \<le> 1048576"
  defines "hdr \<equiv> bytes_of32 ENV_MAGIC_WORD @ bytes_of32 (of_nat (env_size x)) @
    bytes_of32 (ef_calc_crc32 0 (env_tail x)) @ env_hdr_tail key val"
  shows "\<exists>m1. write_env_hdr a hdr e = Some (EF_NO_ERR, e\<lparr>ops := ops e + 2, chip := m1\<rparr>) \<and>
    (\<exists>m2. ef_port_write (a + ENV_HDR_DATA_SIZE) key (e\<lparr>ops := ops e + 2, chip := m1\<rparr>) =
        (EF_NO_ERR, e\<lparr>ops := ops e + 3, chip := m2\<rparr>) \<and>
    (\<forall>e3. chip e3 = m2 \<and> sound e3 \<longrightarrow>
      (\<exists>m3. ef_port_write (a + ENV_HDR_DATA_SIZE + of_nat (length key)) val e3 = (EF_NO_ERR, e3\<lparr>ops := ops e3 + 1, chip := m3\<rparr>) \<and>
        write_status a ENV_STATUS_NUM (env_no ENV_WRITE) (e3\<lparr>ops := ops e3 + 1, chip := m3\<rparr>) =
          Some (EF_NO_ERR, e3\<lparr>ops := ops e3 + 2, chip := put_entry (chip e) (unat a) x\<rparr>))))"
proof -
  let ?a = "unat a"
  have sz: "env_size x = 24 + length key + length val" by (simp add: x_def env_size_def)
  have small: "?a < 1048576" using a sz by simp
  have n8: "ENV_STATUS_NUM \<le> 8" "(1 :: nat) < ENV_STATUS_NUM" "(2 :: nat) < ENV_STATUS_NUM" by (simp_all add: ENV_STATUS_NUM_def)
  have len: "length hdr = 20" by (simp add: hdr_def)
  have off: "unat (a + ENV_MAGIC_OFFSET) = ?a + 4" "unat (a + ENV_HDR_DATA_SIZE) = ?a + 24"
    using a sz unat_add_small [of a 4] unat_add_small [of a 24] by (simp_all add: ENV_MAGIC_OFFSET_def ENV_HDR_DATA_SIZE_def)
  have off2: "unat (a + ENV_HDR_DATA_SIZE + of_nat (length key)) = ?a + 24 + length key"
    using a sz off(2) by (simp add: unat_add_small)
  define m0 where "m0 = (chip e)(?a := chip e ?a AND NOT (status_bit 0))"
  define m1 where "m1 = program m0 (?a + 4) hdr"
  define m2 where "m2 = program m1 (?a + 24) key"
  define m3 where "m3 = program m2 (?a + 24 + length key) val"
  have "write_status a ENV_STATUS_NUM (env_no ENV_PRE_WRITE) e = Some (EF_NO_ERR, e\<lparr>ops := ops e + 1, chip := m0\<rparr>)"
    using write_status_word [OF snd _ n8(2,1) small] by (simp add: m0_def)
  moreover have "ef_port_write (a + ENV_MAGIC_OFFSET) hdr (e\<lparr>ops := ops e + 1, chip := m0\<rparr>) =
      (EF_NO_ERR, e\<lparr>ops := ops e + 2, chip := m1\<rparr>)"
    using ef_port_write_sound [of "e\<lparr>ops := ops e + 1, chip := m0\<rparr>" "a + ENV_MAGIC_OFFSET" hdr] snd a sz
    by (simp add: off len m1_def)
  ultimately have 1: "write_env_hdr a hdr e = Some (EF_NO_ERR, e\<lparr>ops := ops e + 2, chip := m1\<rparr>)"
    by (simp add: write_env_hdr_def)
  have 2: "ef_port_write (a + ENV_HDR_DATA_SIZE) key (e\<lparr>ops := ops e + 2, chip := m1\<rparr>) =
        (EF_NO_ERR, e\<lparr>ops := ops e + 3, chip := m2\<rparr>)"
    using ef_port_write_sound [of "e\<lparr>ops := ops e + 2, chip := m1\<rparr>" "a + ENV_HDR_DATA_SIZE" key] snd a sz
    by (simp add: off m2_def)
  have "put_entry (chip e) ?a x = m3(?a := m3 ?a AND NOT (status_bit 1))"
    using put_entry_steps [of hdr key val "chip e" ?a] by (simp add: hdr_def x_def m3_def m2_def m1_def m0_def)
  then have 3: "ef_port_write (a + ENV_HDR_DATA_SIZE + of_nat (length key)) val e3 = (EF_NO_ERR, e3\<lparr>ops := ops e3 + 1, chip := m3\<rparr>) \<and>
        write_status a ENV_STATUS_NUM (env_no ENV_WRITE) (e3\<lparr>ops := ops e3 + 1, chip := m3\<rparr>) =
          Some (EF_NO_ERR, e3\<lparr>ops := ops e3 + 2, chip := put_entry (chip e) ?a x\<rparr>)"
    if "chip e3 = m2" "sound e3" for e3
    using that a sz ef_port_write_sound [of e3 "a + ENV_HDR_DATA_SIZE + of_nat (length key)" val]
      write_status_word [of "e3\<lparr>ops := ops e3 + 1, chip := m3\<rparr>" 2 ENV_STATUS_NUM a] n8 small
    by (simp add: off2 m3_def)
  from 1 2 3 show ?thesis by blast
qed

text \<open>What the descriptor of a sector must say for an allocation in it.\<close>

definition describes :: "nat \<Rightarrow> asec \<Rightarrow> sector_meta_data \<Rightarrow> bool" where
  "describes i s sm \<longleftrightarrow> s_addr sm = sec i \<and> s_store sm = a_store s \<and> s_empty sm = sec i + of_nat (used s) \<and>
     s_remain sm = of_nat (4096 - used s)"

lemma meta_full_fields [simp]: "s_addr (meta_full i s) = sec i" "s_store (meta_full i s) = a_store s"
  "s_empty (meta_full i s) = sec i + of_nat (used s)" "s_remain (meta_full i s) = of_nat (4096 - used s)"
  by (simp_all add: meta_defs)

lemma describes_full: "describes i s (meta_full i s)"
  by (simp add: describes_def)

lemma update_status_spec:
  assumes r: "rep e ss" and i: "i < 4" and st: "a_store (ss ! i) = SECTOR_STORE_USING \<or> a_store (ss ! i) = SECTOR_STORE_EMPTY"
    and n: "n < 4096 - used (ss ! i)" and sm: "describes i (ss ! i) sm"
  defines "f \<equiv> full_after (ss ! i) n"
  defines "st' \<equiv> if a_store (ss ! i) = SECTOR_STORE_EMPTY then SECTOR_STORE_USING else if f then SECTOR_STORE_FULL else a_store (ss ! i)"
  shows "\<exists>k v. update_sec_status sm (of_nat n) e = Some (EF_NO_ERR, f,
      (if f then update_sector_cache (sec i) (sec i + SECTOR_SIZE) e else e)\<lparr>ops := k, chip := (chip e)(4096 * i := v)\<rparr>) \<and>
    get_status [v] SECTOR_STORE_STATUS_NUM = store_no st'"
proof -
  let ?s = "ss ! i"
  have u: "used ?s \<le> 4096" by (rule used_le [OF repD(1) [OF r i]])
  have old: "get_status [chip e (4096 * i)] SECTOR_STORE_STATUS_NUM = store_no (a_store ?s)"
    using repD(1) [OF r i] by (simp add: sec_at_def hdr_at_def)
  have n4: "SECTOR_STORE_STATUS_NUM \<le> 8" "2 < SECTOR_STORE_STATUS_NUM" "3 < SECTOR_STORE_STATUS_NUM"
    by (simp_all add: SECTOR_STORE_STATUS_NUM_def)
  have small: "unat (sec i) < 1048576" using i by simp
  have rem: "unat (of_nat (4096 - used ?s) :: u32) = 4096 - used ?s" "unat (of_nat n :: u32) = n"
    using n by (intro area_words; simp)+
  have full: "a_store ?s = SECTOR_STORE_USING \<Longrightarrow>
     ((of_nat (4096 - used ?s) :: u32) < EF_SEC_REMAIN_THRESHOLD \<or> of_nat (4096 - used ?s) - of_nat n < EF_SEC_REMAIN_THRESHOLD) = f"
  proof -
    assume "a_store ?s = SECTOR_STORE_USING"
    moreover have "unat (of_nat (4096 - used ?s) - of_nat n :: u32) = 4096 - used ?s - n"
      using n rem by (simp add: unat_sub word_le_nat_alt)
    moreover have "unat EF_SEC_REMAIN_THRESHOLD = 56" by (simp add: EF_SEC_REMAIN_THRESHOLD_def ENV_HDR_DATA_SIZE_def)
    ultimately show ?thesis using n rem by (auto simp: word_less_nat_alt f_def full_after_def)
  qed
  have w: "write_status (sec i) SECTOR_STORE_STATUS_NUM k e = Some (EF_NO_ERR, e\<lparr>ops := ops e + 1,
      chip := (chip e)(4096 * i := chip e (4096 * i) AND NOT (status_bit (k - 1)))\<rparr>)"
    "get_status [chip e (4096 * i) AND NOT (status_bit (k - 1))] SECTOR_STORE_STATUS_NUM = max (store_no (a_store ?s)) k"
    if "0 < k" "k < SECTOR_STORE_STATUS_NUM" for k
    using write_status_byte [OF repD(3) [OF r] that n4(1) small] i old by simp_all
  show ?thesis
  proof (cases "a_store ?s = SECTOR_STORE_EMPTY")
    case True
    with w [of 2] n4 show ?thesis
      by (intro exI [of _ "ops e + 1"] exI [of _ "chip e (4096 * i) AND NOT (status_bit 1)"])
        (simp add: update_sec_status_def sm [unfolded describes_def] st'_def f_def full_after_def)
  next
    case False
    with st have us: "a_store ?s = SECTOR_STORE_USING" by simp
    show ?thesis
    proof (cases f)
      case True
      with us w [of 3] n4 full [OF us] show ?thesis
        by (intro exI [of _ "ops e + 1"] exI [of _ "chip e (4096 * i) AND NOT (status_bit 2)"])
          (simp add: update_sec_status_def sm [unfolded describes_def] st'_def update_sector_cache_def)
    next
      case False
      with us full [OF us] old show ?thesis
        by (intro exI [of _ "ops e"] exI [of _ "chip e (4096 * i)"])
          (simp add: update_sec_status_def sm [unfolded describes_def] st'_def)
    qed
  qed
qed

lemma pos_used: "pos i (a_envs s) = sec i + of_nat (used s)"
  by (simp add: pos_def used_def)

lemma sec_at_created:
  assumes s: "sec_at m i s" and v: "get_status [v] SECTOR_STORE_STATUS_NUM = store_no (a_store (created s x))"
    and fits: "used s + env_size x \<le> 4096" and ok: "entry_fits x"
  shows "sec_at (put_entry (m(4096 * i := v)) (4096 * i + used s) x) i (created s x)"
proof -
  have "sec_at (m(4096 * i := v)) i (s\<lparr>a_store := a_store (created s x)\<rparr>)" by (rule sec_at_store [OF s v])
  from sec_at_append [OF this _ ok] fits show ?thesis by (simp add: used_def created_def)
qed

lemma create_env_blob_spec:
  fixes key val
  defines "x \<equiv> (key, val)"
  assumes r: "rep e ss" and i: "i < 4" and st: "a_store (ss ! i) = SECTOR_STORE_USING \<or> a_store (ss ! i) = SECTOR_STORE_EMPTY"
    and n: "env_size x < 4096 - used (ss ! i)" and ok: "entry_fits x"
    and sm: "describes i (ss ! i) sm"
  shows "\<exists>n m t. let e' = (update_env_cache key (pos i (a_envs (ss ! i))) e)\<lparr>ops := n, chip := m, sector_cache_table := t,
        gc_request := gc_request e \<or> full_after (ss ! i) (env_size x)\<rparr>
      in create_env_blob sm key val e = Some (EF_NO_ERR, sm, e') \<and>
         rep e' (ss[i := created (ss ! i) x])"
proof -
  let ?s = "ss ! i" let ?f = "full_after ?s (env_size x)" let ?a = "pos i (a_envs ?s)"
  have snd: "sound e" by (rule repD(3) [OF r])
  have sz: "env_size x = 24 + length key + length val" "env_size x \<le> 4080" "length key \<le> 32"
    using ok by (simp_all add: x_def env_size_def entry_fits_def)
  have u: "used ?s + env_size x < 4096" using n by simp
  have ua: "unat ?a = 4096 * i + used ?s" using unat_sec_off [of i "used ?s"] i u by (simp add: pos_used)
  from update_status_spec [OF r i st n sm] obtain k v where
    us: "update_sec_status (sm) (of_nat (env_size x)) e = Some (EF_NO_ERR, ?f,
      (if ?f then update_sector_cache (sec i) (sec i + SECTOR_SIZE) e else e)\<lparr>ops := k, chip := (chip e)(4096 * i := v)\<rparr>)"
    and v: "get_status [v] SECTOR_STORE_STATUS_NUM = store_no (a_store (created ?s x))"
    by (auto simp: created_def)
  define e1 where "e1 = (if ?f then update_sector_cache (sec i) (sec i + SECTOR_SIZE) e else e)\<lparr>ops := k, chip := (chip e)(4096 * i := v)\<rparr>"
  have snd1: "sound e1" using snd by (simp add: e1_def sound_def update_sector_cache_def)
  have in_p: "unat ?a + env_size x \<le> 1048576" using ua u i by simp
  from write_entry [OF snd1 in_p [unfolded x_def]] obtain m1 m2 where
    w1: "write_env_hdr ?a (bytes_of32 ENV_MAGIC_WORD @ bytes_of32 (of_nat (env_size x)) @
      bytes_of32 (ef_calc_crc32 0 (env_tail x)) @ env_hdr_tail key val) e1 = Some (EF_NO_ERR, e1\<lparr>ops := ops e1 + 2, chip := m1\<rparr>)"
    and w2: "ef_port_write (?a + ENV_HDR_DATA_SIZE) key (e1\<lparr>ops := ops e1 + 2, chip := m1\<rparr>) = (EF_NO_ERR, e1\<lparr>ops := ops e1 + 3, chip := m2\<rparr>)"
    and w3: "\<And>e3. chip e3 = m2 \<Longrightarrow> sound e3 \<Longrightarrow>
      \<exists>m3. ef_port_write (?a + ENV_HDR_DATA_SIZE + of_nat (length key)) val e3 = (EF_NO_ERR, e3\<lparr>ops := ops e3 + 1, chip := m3\<rparr>) \<and>
        write_status ?a ENV_STATUS_NUM (env_no ENV_WRITE) (e3\<lparr>ops := ops e3 + 1, chip := m3\<rparr>) =
          Some (EF_NO_ERR, e3\<lparr>ops := ops e3 + 2, chip := put_entry (chip e1) (unat ?a) x\<rparr>)"
    unfolding x_def by blast
  let ?stop = "?a + ENV_HDR_DATA_SIZE + of_nat (length key) + of_nat (length val)"
  define e3 where "e3 = update_env_cache key ?a (if \<not> ?f then update_sector_cache (sec i) ?stop (e1\<lparr>ops := ops e1 + 3, chip := m2\<rparr>)
      else e1\<lparr>ops := ops e1 + 3, chip := m2\<rparr>)"
  have e3: "chip e3 = m2" "sound e3" using snd1
    by (simp_all add: e3_def update_env_cache_def update_sector_cache_def sound_def)
  define e' where "e' = (e3\<lparr>ops := ops e3 + 2, chip := put_entry (chip e1) (unat ?a) x\<rparr>)\<lparr>gc_request := gc_request e \<or> ?f\<rparr>"
  have hl: "ENV_HDR_DATA_SIZE + of_nat (length key) + of_nat (length val) = (of_nat (env_size x) :: u32)"
    by (simp add: sz ENV_HDR_DATA_SIZE_def)
  have "unat (of_nat (env_size x) :: u32) = env_size x" using sz(2) by (intro area_words) simp
  then have small: "\<not> (of_nat (env_size x) :: u32) > SECTOR_SIZE - SECTOR_HDR_DATA_SIZE"
    using sz(2) by (simp add: word_less_nat_alt SECTOR_SIZE_def SECTOR_HDR_DATA_SIZE_def)
  have nf: "s_empty sm \<noteq> FAILED_ADDR" using free_not_failed [OF r i] sm by (simp add: describes_def)
  from w3 [OF e3] obtain m3 where
    w4: "ef_port_write (?a + ENV_HDR_DATA_SIZE + of_nat (length key)) val e3 = (EF_NO_ERR, e3\<lparr>ops := ops e3 + 1, chip := m3\<rparr>)"
    and w5: "write_status ?a ENV_STATUS_NUM (env_no ENV_WRITE) (e3\<lparr>ops := ops e3 + 1, chip := m3\<rparr>) =
          Some (EF_NO_ERR, e3\<lparr>ops := ops e3 + 2, chip := put_entry (chip e1) (unat ?a) x\<rparr>)" by blast
  have gc: "gc_request e3 = gc_request e" by (simp add: e3_def e1_def update_env_cache_def update_sector_cache_def)
  have ea: "s_empty sm = ?a" "s_addr sm = sec i" using sm by (simp_all add: pos_used describes_def)
  have af: "?a \<noteq> FAILED_ADDR" using nf ea by simp
  have "create_env_blob (sm) key val e = Some (EF_NO_ERR, sm, e')"
  proof (cases ?f)
    case True
    then have "update_env_cache key ?a (e1\<lparr>ops := ops e1 + 3, chip := m2\<rparr>) = e3" by (simp add: e3_def)
    with True sz(3) af w2 w4 w5 gc show ?thesis
      by (simp add: create_env_blob_def EF_ENV_NAME_MAX_def hl small ea us [folded e1_def] w1 env_hdr_tail_crc
          x_def [symmetric] e'_def Let_def)
  next
    case False
    then have "update_env_cache key ?a (update_sector_cache (sec i) ?stop (e1\<lparr>ops := ops e1 + 3, chip := m2\<rparr>)) = e3" by (simp add: e3_def)
    with False sz(3) af w2 w4 w5 gc show ?thesis
      by (simp add: create_env_blob_def EF_ENV_NAME_MAX_def hl small ea us [folded e1_def] w1 env_hdr_tail_crc
          x_def [symmetric] e'_def Let_def)
  qed
  moreover have "\<exists>n m t. e' = (update_env_cache key ?a e)\<lparr>ops := n, chip := m, sector_cache_table := t, gc_request := gc_request e \<or> ?f\<rparr>"
    by (intro exI [of _ "ops e'"] exI [of _ "chip e'"] exI [of _ "sector_cache_table e'"])
      (simp add: e'_def e3_def e1_def update_env_cache_def update_sector_cache_def)
  moreover have "rep e' (ss[i := created ?s x])"
  proof (rule rep_change_cached [OF r i])
    have "chip e' = put_entry ((chip e)(4096 * i := v)) (4096 * i + used ?s) x"
      using ua by (simp add: e'_def e1_def)
    then show "sec_at (chip e') i (created ?s x)"
      using sec_at_created [OF repD(1) [OF r i] v _ ok] u by simp
    show "shape (created ?s x)" by (rule shape_created [OF repD(5) [OF r i]])
    show "chip e' y = chip e y" if "y < 4096 * i \<or> 4096 * i + 4096 \<le> y" for y
      using that u put_entry_outside [of y "4096 * i + used ?s" x "(chip e)(4096 * i := v)"] ua by (auto simp: e'_def e1_def)
    let ?emp = "if ?f then sec i + SECTOR_SIZE else ?stop"
    show "sector_cache_table e' = sector_cache_table (update_sector_cache (sec i) ?emp e)"
      by (simp add: e'_def e3_def e1_def update_env_cache_def update_sector_cache_def)
    show "fault e' = fault e" by (simp add: e'_def e3_def e1_def update_env_cache_def update_sector_cache_def)
    show "unat ?emp = 4096 * i + used (created ?s x)"
      if "?emp > sec i \<and> ?emp < sec i + SECTOR_SIZE"
    proof -
      have "\<not> ?f" using that by (auto split: if_splits)
      moreover have "?stop = sec i + of_nat (used ?s + env_size x)" by (simp add: pos_used ENV_HDR_DATA_SIZE_def sz(1))
      moreover have "unat (sec i + of_nat (used ?s + env_size x)) = 4096 * i + (used ?s + env_size x)"
        using i u by (intro unat_sec_off) simp_all
      ultimately show ?thesis using st by (auto simp: created_def used_def)
    qed
  qed simp
  ultimately show ?thesis unfolding Let_def by blast
qed

end
