(* ===== verification/Ef_Set.thy ===== *)
theory Ef_Set
  imports Ef_Create
begin

text \<open>
  Setting a value on a store that has room for it: the old entry is marked, the new one written, the old one
  deleted; the other names keep their values, and the caches stay true.
\<close>

section \<open>What the cache of entries points to\<close>

text \<open>The cache is true for the hashes that satisfy \<open>p\<close>.\<close>

definition cache_true :: "(u16 \<Rightarrow> bool) \<Rightarrow> ef_st \<Rightarrow> asec list \<Rightarrow> bool" where
  "cache_true p e ss \<longleftrightarrow> env_cache_ok (env_cache_table e) \<and>
     (\<forall>h a. p h \<longrightarrow> cached_env (env_cache_table e) h = Some a \<longrightarrow>
       (\<exists>i pre x. placed ss i pre x ENV_WRITE \<and> a = pos i pre \<and> name_hash (fst x) = h))"

lemma env_cache_true: "env_cache_rep e ss = cache_true (\<lambda>_. True) e ss"
  by (simp add: env_cache_rep_def cache_true_def)

text \<open>The live entries whose hash matters stay in their places.\<close>

definition kept :: "(u16 \<Rightarrow> bool) \<Rightarrow> asec list \<Rightarrow> asec list \<Rightarrow> bool" where
  "kept p ss ss' \<longleftrightarrow> (\<forall>i pre x. placed ss i pre x ENV_WRITE \<longrightarrow> p (name_hash (fst x)) \<longrightarrow>
     (\<exists>pre'. placed ss' i pre' x ENV_WRITE \<and> pos i pre' = pos i pre))"

lemma cache_true_kept:
  assumes c: "cache_true p e ss" and k: "kept q ss ss'" and t: "env_cache_table e' = env_cache_table e"
    and qp: "\<And>h. q h \<Longrightarrow> p h"
  shows "cache_true q e' ss'"
  unfolding cache_true_def t
proof (intro conjI allI impI)
  show "env_cache_ok (env_cache_table e)" using c by (simp add: cache_true_def)
  fix h a assume "q h" "cached_env (env_cache_table e) h = Some a"
  moreover from this qp c obtain i pre x where "placed ss i pre x ENV_WRITE" "a = pos i pre" "name_hash (fst x) = h"
    unfolding cache_true_def by blast
  ultimately show "\<exists>i pre x. placed ss' i pre x ENV_WRITE \<and> a = pos i pre \<and> name_hash (fst x) = h"
    using k unfolding kept_def by metis
qed

lemma cache_true_update:
  assumes c: "cache_true (\<lambda>h. h \<noteq> name_hash (fst x)) e ss" and p: "placed ss i pre x ENV_WRITE"
    and t: "env_cache_table e' = env_cache_table (update_env_cache (fst x) (pos i pre) e)"
  shows "env_cache_rep e' ss"
proof -
  have ok: "env_cache_ok (env_cache_table e)" using c by (simp add: cache_true_def)
  note u = update_env_cache_map(1,2) [OF ok, of "fst x" "pos i pre"]
  show ?thesis
    unfolding env_cache_rep_def t
  proof (intro conjI allI impI u(1))
    fix h a assume "cached_env (env_cache_table (update_env_cache (fst x) (pos i pre) e)) h = Some a"
    from u(2) [OF this] consider "h = name_hash (fst x)" "a = pos i pre"
      | "h \<noteq> name_hash (fst x)" "cached_env (env_cache_table e) h = Some a"
      by (auto split: if_splits)
    then show "\<exists>i pre x. placed ss i pre x ENV_WRITE \<and> a = pos i pre \<and> name_hash (fst x) = h"
    proof cases
      case 1
      with p show ?thesis by blast
    next
      case 2
      with c show ?thesis unfolding cache_true_def by blast
    qed
  qed
qed

section \<open>What stays in place\<close>

lemma placed_with_status:
  assumes "placed ss i pre x st"
  shows "placed (with_status ss i (length pre) st') i pre x st'"
  using assms by (auto simp: placed_def with_status_split)

lemma kept_with_status:
  assumes p: "placed ss i pre x st" and q: "st = ENV_WRITE \<Longrightarrow> \<not> q (name_hash (fst x))"
  shows "kept q ss (with_status ss i (length pre) st')"
  unfolding kept_def
proof (intro allI impI)
  fix j pre2 y assume y: "placed ss j pre2 y ENV_WRITE" "q (name_hash (fst y))"
  have i: "i < length ss" "length pre < length (a_envs (ss ! i))" "a_envs (ss ! i) ! length pre = (x, st)"
    using p by (simp_all add: placed_index)
  have "length pre2 \<noteq> length pre" if "j = i"
    using y i q that by (auto simp: placed_index)
  from placed_other [OF y(1) i(1,2) this, of st']
  show "\<exists>pre'. placed (with_status ss i (length pre) st') j pre' y ENV_WRITE \<and> pos j pre' = pos j pre2" by blast
qed

lemma placed_created:
  "placed ss j pre y st \<Longrightarrow> placed (ss[i := created (ss ! i) x]) j pre y st"
  by (cases "j = i") (auto simp: placed_def)

lemma kept_created: "kept q ss (ss[i := created (ss ! i) x])"
  unfolding kept_def using placed_created by blast

lemma placed_new: "i < length ss \<Longrightarrow> placed (ss[i := created (ss ! i) x]) i (a_envs (ss ! i)) x ENV_WRITE"
  by (simp add: placed_def)

section \<open>The live entries\<close>

lemma lives_dead:
  assumes p: "placed ss i pre x st" and st: "st \<noteq> ENV_WRITE" "st' \<noteq> ENV_WRITE"
  shows "lives (with_status ss i (length pre) st') = lives ss"
proof -
  obtain post where q: "a_envs (ss ! i) = pre @ (x, st) # post" and i: "i < length ss" using p by (auto simp: placed_def)
  have "sec_lives (dirtied ((ss ! i)\<lparr>a_envs := pre @ (x, st') # post\<rparr>)) = sec_lives (ss ! i)"
    using q st by (simp add: sec_lives_def)
  with i show ?thesis by (simp add: with_status_split [OF q] lives_update lives_at [of i ss])
qed

lemma kv_created:
  assumes i: "i < length ss" and f: "fst x \<notin> fst ` set (lives ss)"
  defines "ss' \<equiv> ss[i := created (ss ! i) x]"
  shows "kv ss' = (kv ss)(fst x \<mapsto> snd x)" "set (lives ss') = insert x (set (lives ss))"
    "distinct (map fst (lives ss)) \<Longrightarrow> distinct (map fst (lives ss'))"
proof -
  obtain l1 l2 where l: "lives ss = l1 @ l2" "lives ss' = l1 @ x # l2"
  proof
    let ?A = "concat (map sec_lives (take i ss))" let ?B = "concat (map sec_lives (drop (Suc i) ss))"
    show "lives ss = (?A @ sec_lives (ss ! i)) @ ?B" using i by (simp add: lives_at)
    show "lives ss' = (?A @ sec_lives (ss ! i)) @ x # ?B" using i by (simp add: ss'_def lives_update sec_lives_def)
  qed
  show "set (lives ss') = insert x (set (lives ss))" by (simp add: l)
  show "distinct (map fst (lives ss'))" if "distinct (map fst (lives ss))" using that f by (auto simp: l)
  have "map_of l2 (fst x) = None" "map_of l1 (fst x) = None" using f by (auto simp: l map_of_eq_None_iff)
  then show "kv ss' = (kv ss)(fst x \<mapsto> snd x)"
    by (cases x) (auto simp: kv_def l map_add_def split: option.splits intro!: ext)
qed

section \<open>Setting a value in an allocated place\<close>

text \<open>What setting makes of the statuses of the sectors: only that of the sector the entry went to changes.\<close>

definition stores_after :: "asec list \<Rightarrow> nat \<Rightarrow> nat \<Rightarrow> sector_store_status list" where
  "stores_after ss j n = (map a_store ss)[j := (if a_store (ss ! j) = SECTOR_STORE_EMPTY then SECTOR_STORE_USING
     else if full_after (ss ! j) n then SECTOR_STORE_FULL else a_store (ss ! j))]"

lemma stores_created: "stores_after ss j (env_size x) = map a_store (ss[j := created (ss ! j) x])"
  by (simp add: stores_after_def map_update created_def)

lemma stores_with_status [simp]: "map a_store (with_status ss i n st) = map a_store ss"
  by (simp add: with_status_def map_update list_update_same_conv) (metis list_update_id map_update)

lemma store_entry_fits:
  assumes "rep e ss" "placed ss i pre x st"
  shows "entry_fits x"
  using placed_entry(2) [OF assms] by (simp add: entry_at_def)

text \<open>A new name.\<close>

lemma create_new:
  fixes key val
  defines "x \<equiv> (key, val)"
  assumes s: "rep e ss" "cache_true (\<lambda>h. h \<noteq> name_hash key) e ss" "names_ok K" "distinct (map fst (lives ss))" "fst ` set (lives ss) \<subseteq> K"
    and k: "key \<in> K" "key \<notin> fst ` set (lives ss)" and j: "j < 4"
    and st: "a_store (ss ! j) = SECTOR_STORE_USING \<or> a_store (ss ! j) = SECTOR_STORE_EMPTY"
    and n: "env_size x < 4096 - used (ss ! j)" and ok: "entry_fits x" and sm: "describes j (ss ! j) sm"
  defines "ss' \<equiv> ss[j := created (ss ! j) x]"
  shows "\<exists>e'. create_env_blob sm key val e = Some (EF_NO_ERR, sm, e') \<and> store K e' ss' \<and> kv ss' = (kv ss)(key \<mapsto> val) \<and>
    gc_request e' = (gc_request e \<or> full_after (ss ! j) (env_size x)) \<and> last_is_complete_del e' = last_is_complete_del e \<and>
    init_ok e' = init_ok e \<and> in_recovery_check e' = in_recovery_check e"
proof -
  have len: "length ss = 4" by (rule repD(2) [OF s(1)])
  from create_env_blob_spec [OF s(1) j st n [unfolded x_def] ok [unfolded x_def] sm] obtain e' where
    c: "create_env_blob sm key val e = Some (EF_NO_ERR, sm, e')" "rep e' ss'"
    and e': "\<exists>n m t. e' = (update_env_cache key (pos j (a_envs (ss ! j))) e)\<lparr>ops := n, chip := m, sector_cache_table := t,
        gc_request := gc_request e \<or> full_after (ss ! j) (env_size x)\<rparr>"
    unfolding Let_def ss'_def x_def by blast
  have jl: "j < length ss" using j len by simp
  have f: "fst x \<notin> fst ` set (lives ss)" using k by (simp add: x_def)
  note kc = kv_created [OF jl f, folded ss'_def]
  have "cache_true (\<lambda>h. h \<noteq> name_hash key) e ss'"
    by (rule cache_true_kept [OF s(2)]) (simp_all add: ss'_def kept_created)
  moreover have "placed ss' j (a_envs (ss ! j)) x ENV_WRITE" unfolding ss'_def by (rule placed_new [OF jl])
  moreover have "env_cache_table e' = env_cache_table (update_env_cache (fst x) (pos j (a_envs (ss ! j))) e)"
    using e' by (auto simp: x_def)
  ultimately have "env_cache_rep e' ss'" using cache_true_update [of x] by (simp add: x_def)
  then have "store K e' ss'" using c(2) s k kc by (simp add: store_def x_def)
  moreover have "kv ss' = (kv ss)(key \<mapsto> val)" using kc(1) by (simp add: x_def)
  moreover have "gc_request e' = (gc_request e \<or> full_after (ss ! j) (env_size x)) \<and> last_is_complete_del e' = last_is_complete_del e \<and>
    init_ok e' = init_ok e \<and> in_recovery_check e' = in_recovery_check e"
    using e' by (auto simp: update_env_cache_def)
  ultimately show ?thesis using c(1) by blast
qed

lemma with_status_used:
  assumes "placed ss i pre x st"
  shows "used (with_status ss i (length pre) st' ! j) = used (ss ! j)"
    "a_store (with_status ss i (length pre) st' ! j) = a_store (ss ! j)"
    "full_after (with_status ss i (length pre) st' ! j) n = full_after (ss ! j) n"
    "describes j (with_status ss i (length pre) st' ! j) sm = describes j (ss ! j) sm"
proof -
  obtain post where p: "a_envs (ss ! i) = pre @ (x, st) # post" and i: "i < length ss" using assms by (auto simp: placed_def)
  show u: "used (with_status ss i (length pre) st' ! j) = used (ss ! j)"
    using i p by (cases "j = i") (simp_all add: with_status_split [OF p] used_def)
  show s: "a_store (with_status ss i (length pre) st' ! j) = a_store (ss ! j)"
    using i by (cases "j = i") (simp_all add: with_status_split [OF p])
  show "full_after (with_status ss i (length pre) st' ! j) n = full_after (ss ! j) n"
    "describes j (with_status ss i (length pre) st' ! j) sm = describes j (ss ! j) sm"
    by (simp_all add: full_after_def describes_def u s)
qed

text \<open>What setting makes of the sectors when the entry \<open>x\<close> goes to sector \<open>j\<close>.\<close>

definition set_at :: "asec list \<Rightarrow> nat \<Rightarrow> entry \<Rightarrow> asec list \<Rightarrow> bool" where
  "set_at ss j x ss' \<longleftrightarrow> ss' = ss[j := created (ss ! j) x] \<or>
     (\<exists>i pre y. placed ss i pre y ENV_WRITE \<and>
       (let ss1 = with_status ss i (length pre) ENV_PRE_DELETE
        in ss' = with_status (ss1[j := created (ss1 ! j) x]) i (length pre) ENV_DELETED))"

text \<open>The second half of a change: the entry that was marked is deleted.\<close>

lemma finish_change:
  assumes s: "store K e ss" and p: "placed ss i pre x ENV_PRE_DELETE" and start: "n_start env = pos i pre"
  shows "\<exists>e'. del_old_env key env True e = Some (EF_NO_ERR, e') \<and> store K e' (with_status ss i (length pre) ENV_DELETED) \<and>
    \<not> last_is_complete_del e' \<and> gc_request e' = gc_request e \<and> init_ok e' = init_ok e \<and> in_recovery_check e' = in_recovery_check e"
proof -
  have r: "rep e ss" and c: "cache_true (\<lambda>_. True) e ss" using s by (simp_all add: store_def env_cache_true)
  let ?ss = "with_status ss i (length pre) ENV_DELETED"
  from del_old_env_spec [OF r p start, of ENV_DELETED True key] obtain n m
    where d: "del_old_env key env True e = Some (EF_NO_ERR, (forget key env True e)\<lparr>ops := n, chip := m, last_is_complete_del := False\<rparr>)"
    and r': "rep ((forget key env True e)\<lparr>ops := n, chip := m, last_is_complete_del := False\<rparr>) ?ss" by auto
  let ?e = "(forget key env True e)\<lparr>ops := n, chip := m, last_is_complete_del := False\<rparr>"
  have ok: "env_cache_ok (env_cache_table e)" using c by (simp add: cache_true_def)
  note u = update_env_cache_map(1,3) [OF ok]
  have "cache_true (\<lambda>_. True) (forget key env True e) ss"
    using c u by (auto simp: forget_def cache_true_def split: if_splits option.splits)
  from cache_true_kept [OF this kept_with_status [OF p], of "\<lambda>_. True"] have "cache_true (\<lambda>_. True) ?e ?ss" by simp
  moreover have "lives ?ss = lives ss" by (rule lives_dead [OF p]) simp_all
  ultimately have "store K ?e ?ss" using s r' by (simp add: store_def env_cache_true)
  moreover have "gc_request ?e = gc_request e \<and> init_ok ?e = init_ok e \<and> in_recovery_check ?e = in_recovery_check e"
    by (simp add: forget_def update_env_cache_def)
  ultimately show ?thesis using d by (intro exI [of _ ?e]) simp
qed

lemma kv_None: "kv ss k = None \<longleftrightarrow> k \<notin> fst ` set (lives ss)"
  by (simp add: kv_def map_of_eq_None_iff)

lemma set_env_in_place:
  fixes key val
  defines "x \<equiv> (key, val)"
  assumes alloc: "new_env_by_kv blank_sector (length key) (length val) e = Some (a, sm, e1)" "a \<noteq> FAILED_ADDR"
    and s: "store K e1 ss" and k: "key \<in> K" and j: "j < 4"
    and st: "a_store (ss ! j) = SECTOR_STORE_USING \<or> a_store (ss ! j) = SECTOR_STORE_EMPTY"
    and n: "env_size x < 4096 - used (ss ! j)" and ok: "entry_fits x" and sm: "describes j (ss ! j) sm"
  shows "\<exists>e' ss'. set_env key (Some val) e =
      do { e \<leftarrow> (if gc_request e' then gc_collect e' else Some e'); Some (EF_NO_ERR, e) } \<and>
    store K e' ss' \<and> kv ss' = (kv ss)(key \<mapsto> val) \<and> map a_store ss' = stores_after ss j (env_size x) \<and> set_at ss j x ss' \<and>
    gc_request e' = (gc_request e1 \<or> full_after (ss ! j) (env_size x)) \<and> (last_is_complete_del e' \<longrightarrow> last_is_complete_del e1) \<and>
    init_ok e' = init_ok e1 \<and> in_recovery_check e' = in_recovery_check e1"
proof -
  from find_env_spec [OF s k, of blank_node] obtain ok' env e2 t
    where f: "find_env key blank_node e1 = Some (ok', env, e2)" "store K e2 ss" "e2 = e1\<lparr>env_cache_table := t\<rparr>" "finds ss key ok' env"
    by blast
  note ok = ok [unfolded x_def] and n = n [unfolded x_def]
  have r: "rep e2 ss" and d: "distinct (map fst (lives ss))" and K: "names_ok K" "fst ` set (lives ss) \<subseteq> K"
    and c: "cache_true (\<lambda>_. True) e2 ss" using f(2) by (simp_all add: store_def env_cache_true)
  show ?thesis
  proof (cases ok')
    case False
    then have nk: "key \<notin> fst ` set (lives ss)" using f(4) by (simp add: finds_def kv_None)
    have c': "cache_true (\<lambda>h. h \<noteq> name_hash key) e2 ss" using c by (simp add: cache_true_def)
    from create_new [OF r c' K(1) d K(2) k nk j st n ok sm] obtain e' where
      "create_env_blob sm key val e2 = Some (EF_NO_ERR, sm, e')" "store K e' (ss[j := created (ss ! j) x])"
      "kv (ss[j := created (ss ! j) x]) = (kv ss)(key \<mapsto> val)"
      "gc_request e' = (gc_request e2 \<or> full_after (ss ! j) (env_size x))" "last_is_complete_del e' = last_is_complete_del e2"
      "init_ok e' = init_ok e2" "in_recovery_check e' = in_recovery_check e2" by (auto simp: x_def)
    with f(1,3) False alloc show ?thesis
      by (intro exI [of _ e'] exI [of _ "ss[j := created (ss ! j) x]"]) (simp add: set_env_def stores_created set_at_def)
  next
    case True
    with f(4) have "\<exists>i pre x. placed ss i pre x ENV_WRITE \<and> fst x = key \<and> env = node_of blank_node (pos i pre) x ENV_WRITE"
      by (simp only: finds_def if_True)
    then obtain i pre y where p: "placed ss i pre y ENV_WRITE" "fst y = key" "env = node_of blank_node (pos i pre) y ENV_WRITE"
      by blast
    have start: "n_start env = pos i pre" by (simp add: p(3) node_of_def)
    let ?ss1 = "with_status ss i (length pre) ENV_PRE_DELETE"
    from del_old_env_spec [OF r p(1) start, of ENV_PRE_DELETE False "Some key"] obtain q m
      where d1: "del_old_env (Some key) env False e2 = Some (EF_NO_ERR, e2\<lparr>ops := q, chip := m, last_is_complete_del := True\<rparr>)"
      and r1: "rep (e2\<lparr>ops := q, chip := m, last_is_complete_del := True\<rparr>) ?ss1" by (auto simp: forget_def)
    let ?e3 = "e2\<lparr>ops := q, chip := m, last_is_complete_del := True\<rparr>"
    note del = kv_delete [OF d p(1), of ENV_PRE_DELETE, simplified p(2)]
    have nk: "key \<notin> fst ` set (lives ?ss1)" using del(1) by (simp add: kv_None [symmetric])
    have c1: "cache_true (\<lambda>h. h \<noteq> name_hash key) ?e3 ?ss1"
      by (rule cache_true_kept [OF c kept_with_status [OF p(1)]]) (simp_all add: p(2))
    have K1: "fst ` set (lives ?ss1) \<subseteq> K" using del(3) K(2) by auto
    note wu = with_status_used [OF p(1), where st' = ENV_PRE_DELETE and j = j]
    let ?ss2 = "?ss1[j := created (?ss1 ! j) x]"
    from create_new [OF r1 c1 K(1) del(2) K1 k nk j _ _ ok, of sm] st n sm wu obtain e4 where
      e4: "create_env_blob sm key val ?e3 = Some (EF_NO_ERR, sm, e4)" "store K e4 ?ss2"
      "kv ?ss2 = (kv ss)(key \<mapsto> val)"
      "gc_request e4 = (gc_request e2 \<or> full_after (ss ! j) (env_size x))" "last_is_complete_del e4"
      "init_ok e4 = init_ok e2" "in_recovery_check e4 = in_recovery_check e2" by (auto simp: x_def del(1))
    have p2: "placed ?ss2 i pre y ENV_PRE_DELETE" by (rule placed_created [OF placed_with_status [OF p(1)]])
    let ?ss3 = "with_status ?ss2 i (length pre) ENV_DELETED"
    from finish_change [OF e4(2) p2 start, of "Some key"] obtain e5 where
      e5: "del_old_env (Some key) env True e4 = Some (EF_NO_ERR, e5)" "store K e5 ?ss3" "\<not> last_is_complete_del e5"
        "gc_request e5 = gc_request e4" "init_ok e5 = init_ok e4" "in_recovery_check e5 = in_recovery_check e4" by blast
    have "kv ?ss3 = (kv ss)(key \<mapsto> val)" using lives_dead [OF p2, of ENV_DELETED] e4(3) by (simp add: kv_def)
    moreover have "map a_store ?ss3 = stores_after ss j (env_size x)"
      using wu by (simp add: stores_after_def map_update created_def)
    moreover have "set_at ss j x ?ss3" unfolding set_at_def Let_def using p(1) by blast
    ultimately show ?thesis using f(1,3) True alloc d1 e4 e5
      by (intro exI [of _ e5] exI [of _ ?ss3]) (simp add: set_env_def)
  qed
qed

end
