(* ===== verification/Ef_Format.thy ===== *)
theory Ef_Format
  imports Ef_Set
begin

text \<open>
  Formatting: an erased sector with its header is an empty sector of the abstract store, and the default set
  written into four of them is a store.
\<close>

section \<open>One sector\<close>

definition empty_sec :: asec where
  "empty_sec = \<lparr>a_store = SECTOR_STORE_EMPTY, a_dirty = SECTOR_DIRTY_FALSE, a_envs = []\<rparr>"

lemma empty_sec_simps [simp]: "a_store empty_sec = SECTOR_STORE_EMPTY" "a_dirty empty_sec = SECTOR_DIRTY_FALSE"
  "a_envs empty_sec = []" "used empty_sec = 16" "shape empty_sec"
  by (simp_all add: empty_sec_def used_def shape_def)

lemma sector_hdr_bytes:
  "sector_hdr SECTOR_NOT_COMBINED = [0x7F, 0x7F, 0xFF, 0xFF, 0x45, 0x46, 0x34, 0x30, 0xFF, 0xFF, 0xFF, 0xFF, 0xFF, 0xFF, 0xFF, 0xFF]"
  by code_simp

lemma sec_at_formatted:
  assumes m': "m' = program (erased m (4096 * i) 4096) (4096 * i) (sector_hdr SECTOR_NOT_COMBINED)"
  shows "sec_at m' i empty_sec"
proof -
  let ?b = "4096 * i"
  have len: "length (sector_hdr SECTOR_NOT_COMBINED) = 16" by (simp add: sector_hdr_bytes)
  have hdr: "bytes_at m' ?b 16 = sector_hdr SECTOR_NOT_COMBINED"
    unfolding m' using program_fresh [of ?b "sector_hdr SECTOR_NOT_COMBINED" "erased m ?b 4096"] len by (simp add: erased_def)
  have "m' ?b = bytes_at m' ?b 16 ! 0" "m' (?b + 1) = bytes_at m' ?b 16 ! 1" by simp_all
  then have b: "m' ?b = 0x7F" "m' (?b + 1) = 0x7F" unfolding hdr sector_hdr_bytes by simp_all
  have w: "le32 (bytes_at m' (?b + 4) 4) 0 = le32 (sector_hdr SECTOR_NOT_COMBINED) 4"
    "le32 (bytes_at m' (?b + 8) 4) 0 = le32 (sector_hdr SECTOR_NOT_COMBINED) 8"
    using le32_bytes_at [of 4 16 m' ?b] le32_bytes_at [of 8 16 m' ?b] by (simp_all add: hdr)
  have "get_status [0x7F] SECTOR_STORE_STATUS_NUM = 1" "get_status [0x7F] SECTOR_DIRTY_STATUS_NUM = 1"
    "le32 (sector_hdr SECTOR_NOT_COMBINED) 4 = SECTOR_MAGIC_WORD" "le32 (sector_hdr SECTOR_NOT_COMBINED) 8 = SECTOR_NOT_COMBINED"
    by code_simp+
  then have "hdr_at m' ?b SECTOR_STORE_EMPTY SECTOR_DIRTY_FALSE" by (simp add: hdr_at_def b [simplified] w)
  moreover have "m' y = 0xFF" if "?b + 16 \<le> y" "y < ?b + 4096" for y
    using that len by (simp add: m' program_def erased_def)
  ultimately show ?thesis by (simp add: sec_at_def filled_def)
qed

lemma format_sector_spec:
  assumes snd: "sound e" and i: "i < 4"
  shows "\<exists>n m. format_sector (sec i) SECTOR_NOT_COMBINED e =
      Some (EF_NO_ERR, (update_sector_cache (sec i) (sec i + SECTOR_SIZE) e)\<lparr>ops := n, chip := m\<rparr>) \<and>
    sec_at m i empty_sec \<and> (\<forall>y. y < 4096 * i \<or> 4096 * i + 4096 \<le> y \<longrightarrow> m y = chip e y)"
proof -
  define m1 where "m1 = erased (chip e) (4096 * i) 4096"
  define m where "m = program m1 (4096 * i) (sector_hdr SECTOR_NOT_COMBINED)"
  have len: "length (sector_hdr SECTOR_NOT_COMBINED) = 16" by (simp add: sector_hdr_bytes)
  have u: "unat (sec i) = 4096 * i" "unat SECTOR_SIZE = 4096" using i by (simp_all add: SECTOR_SIZE_def)
  have "\<not> part_len < sec i + of_nat 4096" using i by (intro in_part) simp
  then have er: "ef_port_erase (sec i) (unat SECTOR_SIZE) e = Some (EF_NO_ERR, e\<lparr>ops := ops e + 1, chip := m1\<rparr>)"
    using snd i u by (simp add: ef_port_erase_def sound_def m1_def)
  have wr: "ef_port_write (sec i) (sector_hdr SECTOR_NOT_COMBINED) (e\<lparr>ops := ops e + 1, chip := m1\<rparr>) =
      (EF_NO_ERR, e\<lparr>ops := ops e + 2, chip := m\<rparr>)"
    using ef_port_write_sound [of "e\<lparr>ops := ops e + 1, chip := m1\<rparr>" "sec i"] snd i u len by (simp add: m_def)
  have "format_sector (sec i) SECTOR_NOT_COMBINED e =
      Some (EF_NO_ERR, (update_sector_cache (sec i) (sec i + SECTOR_SIZE) e)\<lparr>ops := ops e + 2, chip := m\<rparr>)"
    using i er wr by (simp add: format_sector_def update_sector_cache_def)
  moreover have "sec_at m i empty_sec" by (rule sec_at_formatted) (simp add: m_def m1_def)
  moreover have "m y = chip e y" if "y < 4096 * i \<or> 4096 * i + 4096 \<le> y" for y
    using that len by (auto simp: m_def m1_def program_def erased_def)
  ultimately show ?thesis by blast
qed

text \<open>On a store the sector becomes empty and the others stay.\<close>

lemma format_store:
  assumes r: "rep e ss" and i: "i < 4"
  shows "\<exists>n m t. format_sector (sec i) SECTOR_NOT_COMBINED e = Some (EF_NO_ERR, e\<lparr>ops := n, chip := m, sector_cache_table := t\<rparr>) \<and>
    rep (e\<lparr>ops := n, chip := m, sector_cache_table := t\<rparr>) (ss[i := empty_sec])"
proof -
  from format_sector_spec [OF repD(3) [OF r] i] obtain n m where
    f: "format_sector (sec i) SECTOR_NOT_COMBINED e =
      Some (EF_NO_ERR, (update_sector_cache (sec i) (sec i + SECTOR_SIZE) e)\<lparr>ops := n, chip := m\<rparr>)"
    "sec_at m i empty_sec" "\<And>y. y < 4096 * i \<or> 4096 * i + 4096 \<le> y \<Longrightarrow> m y = chip e y" by blast
  let ?t = "sector_cache_table (update_sector_cache (sec i) (sec i + SECTOR_SIZE) e)"
  have e': "(update_sector_cache (sec i) (sec i + SECTOR_SIZE) e)\<lparr>ops := n, chip := m\<rparr> = e\<lparr>ops := n, chip := m, sector_cache_table := ?t\<rparr>"
    by (simp add: update_sector_cache_def)
  have "rep (e\<lparr>ops := n, chip := m, sector_cache_table := ?t\<rparr>) (ss[i := empty_sec])"
  proof (rule rep_change_cached [OF r i f(2)])
    show "sector_cache_table (e\<lparr>ops := n, chip := m, sector_cache_table := ?t\<rparr>) =
        sector_cache_table (update_sector_cache (sec i) (sec i + SECTOR_SIZE) e)" by simp
  qed (simp_all add: f(3))
  with f(1) e' show ?thesis by metis
qed

section \<open>Formatting everything\<close>

lemma sector_cache_none:
  assumes ok: "sector_cache_ok (sector_cache_table e)" and none: "\<forall>j < 4. get_sector_from_cache e (sec j) = None" and i: "i < 4"
  shows "sector_cache_ok (sector_cache_table (update_sector_cache (sec i) (sec i + SECTOR_SIZE) e)) \<and>
    (\<forall>j < 4. get_sector_from_cache (update_sector_cache (sec i) (sec i + SECTOR_SIZE) e) (sec j) = None)"
  using update_sector_cache_map [OF ok sec_in_sectors [OF i]] none by auto

lemma format_loop_spec:
  assumes "sound e" "sector_cache_ok (sector_cache_table e)" "\<forall>j < 4. get_sector_from_cache e (sec j) = None"
    "i \<le> 4" "\<forall>j < i. sec_at (chip e) j empty_sec"
  shows "\<exists>n m t. format_loop (map sec [i..<4]) e = Some (EF_NO_ERR, e\<lparr>ops := n, chip := m, sector_cache_table := t\<rparr>) \<and>
    rep (e\<lparr>ops := n, chip := m, sector_cache_table := t\<rparr>) (replicate 4 empty_sec)"
  using assms
proof (induction "4 - i" arbitrary: i e)
  case 0
  then have "rep e (replicate 4 empty_sec)" by (simp add: rep_def sector_cache_rep_def sec_def)
  with 0 show ?case
    by (intro exI [of _ "ops e"] exI [of _ "chip e"] exI [of _ "sector_cache_table e"]) simp
next
  case (Suc d)
  then have i: "i < 4" and d: "d = 4 - Suc i" and le: "Suc i \<le> 4" by simp_all
  from format_sector_spec [OF Suc.prems(1) i] obtain n m where
    f: "format_sector (sec i) SECTOR_NOT_COMBINED e =
      Some (EF_NO_ERR, (update_sector_cache (sec i) (sec i + SECTOR_SIZE) e)\<lparr>ops := n, chip := m\<rparr>)"
    "sec_at m i empty_sec" "\<And>y. y < 4096 * i \<or> 4096 * i + 4096 \<le> y \<Longrightarrow> m y = chip e y" by blast
  let ?e = "(update_sector_cache (sec i) (sec i + SECTOR_SIZE) e)\<lparr>ops := n, chip := m\<rparr>"
  have "sec_at m j empty_sec" if "j < Suc i" for j
  proof (cases "j = i")
    case False
    with that Suc.prems(5) have "sec_at (chip e) j empty_sec" by simp
    then show ?thesis by (rule sec_at_cong) (use that False f(3) in simp)
  qed (use f(2) in simp)
  moreover have "sound ?e" using Suc.prems(1) by (simp add: sound_def update_sector_cache_def)
  moreover have "sector_cache_ok (sector_cache_table ?e)" "\<forall>j < 4. get_sector_from_cache ?e (sec j) = None"
    using sector_cache_none [OF Suc.prems(2,3) i] by (simp_all add: get_sector_from_cache_def)
  ultimately obtain n' m' t' where
    l: "format_loop (map sec [Suc i..<4]) ?e = Some (EF_NO_ERR, ?e\<lparr>ops := n', chip := m', sector_cache_table := t'\<rparr>)"
    "rep (?e\<lparr>ops := n', chip := m', sector_cache_table := t'\<rparr>) (replicate 4 empty_sec)"
    using Suc.hyps(1) [OF d, of ?e] le by auto
  have eq: "?e\<lparr>ops := n', chip := m', sector_cache_table := t'\<rparr> = e\<lparr>ops := n', chip := m', sector_cache_table := t'\<rparr>"
    by (simp add: update_sector_cache_def)
  have "map sec [i..<4] = sec i # map sec [Suc i..<4]" using i by (simp add: upt_conv_Cons)
  with f(1) l eq show ?case by (intro exI [of _ n'] exI [of _ m'] exI [of _ t']) simp
qed

lemma sectors_map: "sectors = map sec [0..<4]"
  by (simp add: sectors_def sec_def upt_rec)

section \<open>The default set\<close>

lemma create_via_new_env:
  assumes "s_empty sm0 = FAILED_ADDR" "new_env sm0 (ENV_HDR_DATA_SIZE + of_nat (length key) + of_nat (length val)) e = Some (a, sm, e1)"
    "s_empty sm = a" "a \<noteq> FAILED_ADDR" "\<not> length key > EF_ENV_NAME_MAX"
    "\<not> ENV_HDR_DATA_SIZE + of_nat (length key) + of_nat (length val) > SECTOR_SIZE - SECTOR_HDR_DATA_SIZE"
  shows "create_env_blob sm0 key val e = create_env_blob sm key val e1"
  using assms by (simp add: create_env_blob_def)

lemma count_store_empty: "count_store SECTOR_STORE_EMPTY (replicate n empty_sec) = n"
  by (simp add: count_store_def)

lemma alloc_first:
  assumes n: "n < 4080"
  shows "alloc_spec False n (replicate 4 empty_sec) = Some 0"
proof -
  have "List.find (\<lambda>i. fits False n SECTOR_STORE_USING (replicate 4 empty_sec ! i)) [0..<4] = None"
    by (simp add: find_upt_None fits_def)
  moreover have "List.find (\<lambda>i. fits False n SECTOR_STORE_EMPTY (replicate 4 empty_sec ! i)) [0..<4] = Some 0"
    using n by (simp add: find_upt_Some fits_def)
  ultimately show ?thesis by (simp add: alloc_spec_def count_store_empty)
qed

text \<open>The caches as \<open>ef_env_init\<close> clears them.\<close>

definition no_caches :: "ef_st \<Rightarrow> bool" where
  "no_caches e \<longleftrightarrow> sector_cache_ok (sector_cache_table e) \<and> env_cache_ok (env_cache_table e) \<and>
     (\<forall>j < 4. get_sector_from_cache e (sec j) = None) \<and> (\<forall>h. cached_env (env_cache_table e) h = None)"

lemma default_set_store:
  assumes snd: "sound e" and c: "no_caches e" and g: "\<not> gc_request e" and K: "names_ok K" "boot_times_key \<in> K"
  shows "\<exists>e' ss. flash_env_set_default e = Some (EF_NO_ERR, e') \<and> store K e' ss \<and>
    kv ss = [boot_times_key \<mapsto> [0x30]] \<and> \<not> gc_request e' \<and> last_is_complete_del e' = last_is_complete_del e \<and>
    init_ok e' = init_ok e \<and> in_recovery_check e' = in_recovery_check e \<and>
    ss = (replicate 4 empty_sec)[0 := created empty_sec (boot_times_key, [0x30])]"
proof -
  let ?es = "replicate 4 empty_sec" let ?x = "(boot_times_key, [0x30 :: byte])"
  from format_loop_spec [OF snd, of 0] c obtain n m t where
    f: "format_loop sectors e = Some (EF_NO_ERR, e\<lparr>ops := n, chip := m, sector_cache_table := t\<rparr>)"
    "rep (e\<lparr>ops := n, chip := m, sector_cache_table := t\<rparr>) ?es"
    unfolding sectors_map by (auto simp: no_caches_def)
  let ?e = "e\<lparr>ops := n, chip := m, sector_cache_table := t\<rparr>"
  have len: "length boot_times_key = 10" by (simp add: boot_times_key_def)
  have def: "default_env_set = [?x]" by (simp add: default_env_set_def of_char_def)
  let ?sm = "blank_sector\<lparr>s_empty := FAILED_ADDR\<rparr>"
  have sz: "env_size ?x = 35" using len by (simp add: env_size_def)
  have "\<exists>a sm t gc. alloc_env ?sm (of_nat 35) ?e = Some (a, sm, ?e\<lparr>sector_cache_table := t, gc_request := gc\<rparr>) \<and>
    alloc_result ?es (Some 0) sm a \<and> rep (?e\<lparr>sector_cache_table := t\<rparr>) ?es \<and> \<not> gc"
    using alloc_env_spec [OF f(2), of 35 ?sm] alloc_first [of 35] g by auto
  then obtain a sm t' where al: "alloc_env ?sm (of_nat 35) ?e = Some (a, sm, ?e\<lparr>sector_cache_table := t', gc_request := False\<rparr>)"
    "a = sec 0 + of_nat 16" "sm = meta_full 0 empty_sec" "rep (?e\<lparr>sector_cache_table := t'\<rparr>) ?es"
    by (auto simp: alloc_result_def)
  let ?e1 = "?e\<lparr>sector_cache_table := t', gc_request := False\<rparr>"
  have r1: "rep ?e1 ?es" using al(4) by simp
  have af: "a \<noteq> FAILED_ADDR" using free_not_failed [OF r1, of 0] al(2) by simp
  have "new_env ?sm (of_nat 35) ?e = Some (a, sm, ?e1)" using al(1) g by (simp add: new_env_def af)
  then have cr: "create_env_blob ?sm boot_times_key [0x30] ?e = create_env_blob sm boot_times_key [0x30] ?e1"
    by (intro create_via_new_env [where a = a])
      (use af al(2,3) len in \<open>simp_all add: ENV_HDR_DATA_SIZE_def EF_ENV_NAME_MAX_def SECTOR_SIZE_def SECTOR_HDR_DATA_SIZE_def\<close>)
  have ct: "cache_true (\<lambda>h. h \<noteq> name_hash boot_times_key) ?e1 ?es"
    using c by (simp add: cache_true_def no_caches_def)
  have dl: "distinct (map fst (lives ?es))" "set (lives ?es) = {}" by (simp_all add: lives_def)
  from create_new [OF r1 ct K(1) dl(1) _ K(2), of 0 "[0x30]" sm] dl(2) al(3) sz len obtain e' where
    c: "create_env_blob sm boot_times_key [0x30] ?e1 = Some (EF_NO_ERR, sm, e')" "store K e' (?es[0 := created empty_sec ?x])"
    "kv (?es[0 := created empty_sec ?x]) = (kv ?es)(boot_times_key \<mapsto> [0x30])" "\<not> gc_request e'"
    "last_is_complete_del e' = last_is_complete_del e" "init_ok e' = init_ok e" "in_recovery_check e' = in_recovery_check e"
    by (auto simp: entry_fits_def describes_full full_after_def)
  have "kv ?es = Map.empty" by (simp add: kv_def lives_def)
  with c f(1) cr show ?thesis
    by (intro exI [of _ e'] exI [of _ "?es[0 := created empty_sec ?x]"])
      (simp add: flash_env_set_default_def def)
qed

section \<open>A store that exists\<close>

lemma raw_unit_caches: "no_caches (raw_unit m)"
proof -
  have "cached_env (env_cache_table (raw_unit m)) h = None" for h
    by (auto simp: cached_env_def raw_unit_def find_None_iff find_Some_iff)
  moreover have "get_sector_from_cache (raw_unit m) (sec j) = None" if "j < 4" for j
  proof -
    have "FAILED_ADDR \<noteq> sec j" using sec_not_failed [of j] that by (metis less_imp_le)
    then show ?thesis by (simp add: get_sector_from_cache_def raw_unit_def find_None_iff)
  qed
  ultimately show ?thesis
    by (simp add: no_caches_def sector_cache_ok_def env_cache_ok_def raw_unit_def EF_ENV_CACHE_TABLE_SIZE_def
        EF_SECTOR_CACHE_TABLE_SIZE_def)
qed

end
