(* ===== verification/Ef_Move.thy ===== *)
theory Ef_Move
  imports Ef_Format
begin

text \<open>
  Moving an entry to another sector, the step of the garbage collector: the copy of its bytes in pieces of 32, and
  what the move does to the store.
\<close>

section \<open>The copy loop\<close>

lemma move_loop_spec:
  assumes src: "unat from_addr + n \<le> 1048576" and dst: "unat to_addr + n \<le> 1048576"
    and apart: "unat from_addr + n \<le> unat to_addr \<or> unat to_addr + n \<le> unat from_addr"
  shows "\<lbrakk>sound e; len \<le> n\<rbrakk> \<Longrightarrow> \<exists>k. move_loop from_addr to_addr len n EF_NO_ERR e = (EF_NO_ERR, e\<lparr>ops := k,
    chip := program (chip e) (unat to_addr + len) (bytes_at (chip e) (unat from_addr + len) (n - len))\<rparr>)"
proof (induction "n - len" arbitrary: len e rule: less_induct)
  case less
  show ?case
  proof (cases "len < n")
    case False
    with less.prems show ?thesis by (intro exI [of _ "ops e"]) (simp add: move_loop.simps)
  next
    case True
    define size where "size = (if len + 32 < n then 32 else n - len)"
    have size: "0 < size" "len + size \<le> n" using True by (auto simp: size_def)
    let ?f = "unat from_addr + len" and ?t = "unat to_addr + len"
    have u: "unat (from_addr + of_nat len) = ?f" "unat (to_addr + of_nat len) = ?t"
      using src dst True by (simp_all add: unat_add_small)
    let ?bs = "bytes_at (chip e) ?f size"
    let ?e = "e\<lparr>ops := ops e + 1, chip := program (chip e) ?t ?bs\<rparr>"
    have rd: "ef_port_read e (from_addr + of_nat len) size = ?bs"
      using src size u by (simp add: ef_port_read_in)
    have wr: "ef_port_write (to_addr + of_nat len) ?bs e = (EF_NO_ERR, ?e)"
      using ef_port_write_sound [of e "to_addr + of_nat len" ?bs] less.prems dst size u by simp
    have step: "move_loop from_addr to_addr len n EF_NO_ERR e = move_loop from_addr to_addr (len + size) n EF_NO_ERR ?e"
      using True rd wr by (subst move_loop.simps) (simp add: size_def [symmetric] Let_def)
    have "sound ?e" using less.prems by simp
    moreover have "n - (len + size) < n - len" using size True by simp
    ultimately obtain k where
      IH: "move_loop from_addr to_addr (len + size) n EF_NO_ERR ?e = (EF_NO_ERR, ?e\<lparr>ops := k,
        chip := program (chip ?e) (?t + size) (bytes_at (chip ?e) (?f + size) (n - (len + size)))\<rparr>)"
      using less.hyps [of "len + size" ?e] size(2) by (simp only: add.assoc) blast
    have "bytes_at (chip ?e) (?f + size) (n - (len + size)) = bytes_at (chip e) (?f + size) (n - (len + size))"
      using apart size program_other [of "?f + size" "n - (len + size)" ?t ?bs "chip e"] by auto
    then have "program (chip ?e) (?t + size) (bytes_at (chip ?e) (?f + size) (n - (len + size)))
        = program (chip e) ?t (?bs @ bytes_at (chip e) (?f + size) (n - (len + size)))"
      using program_append [of "chip e" ?t ?bs] by simp
    also have "?bs @ bytes_at (chip e) (?f + size) (n - (len + size)) = bytes_at (chip e) ?f (n - len)"
      using size bytes_at_append [of "chip e" ?f size "n - (len + size)"] by simp
    finally show ?thesis using step IH by (intro exI [of _ k]) simp
  qed
qed

lemma put_entry_two:
  fixes m a x
  defines "m1 \<equiv> program (m(a := m a AND NOT (status_bit 0))) (a + 4) (env_body x)"
  shows "m1(a := m1 a AND NOT (status_bit 1)) = put_entry m a x"
  unfolding m1_def put_entry_def by (rule ext) (simp add: program_def and.assoc)

text \<open>Forgetting what the sector cache holds of a sector keeps the store.\<close>

lemma rep_drop_cache:
  assumes r: "rep e ss" and i: "i < 4"
  shows "rep (update_sector_cache (sec i) (sec i + SECTOR_SIZE) e) ss"
proof -
  have "rep (update_sector_cache (sec i) (sec i + SECTOR_SIZE) e) (ss[i := ss ! i])"
    by (rule rep_change_cached [OF r i repD(1) [OF r i] repD(5) [OF r i], of "sec i + SECTOR_SIZE"])
      (simp_all add: update_sector_cache_def)
  then show ?thesis by simp
qed

section \<open>Allocation looks only at the statuses and the sizes\<close>

definition alike :: "asec list \<Rightarrow> asec list \<Rightarrow> bool" where
  "alike ss ss' \<longleftrightarrow> map (\<lambda>s. (a_store s, a_dirty s, used s)) ss = map (\<lambda>s. (a_store s, a_dirty s, used s)) ss'"

lemma alikeD:
  assumes "alike ss ss'"
  shows "length ss = length ss'" "i < length ss \<Longrightarrow> a_store (ss ! i) = a_store (ss' ! i)"
    "i < length ss \<Longrightarrow> a_dirty (ss ! i) = a_dirty (ss' ! i)" "i < length ss \<Longrightarrow> used (ss ! i) = used (ss' ! i)"
proof -
  have m: "map (\<lambda>s. (a_store s, a_dirty s, used s)) ss = map (\<lambda>s. (a_store s, a_dirty s, used s)) ss'"
    using assms by (simp add: alike_def)
  then show l: "length ss = length ss'" using map_eq_imp_length_eq by blast
  have "(a_store (ss ! i), a_dirty (ss ! i), used (ss ! i)) = (a_store (ss' ! i), a_dirty (ss' ! i), used (ss' ! i))"
    if "i < length ss" using m that l by (metis (no_types, lifting) nth_map)
  then show "i < length ss \<Longrightarrow> a_store (ss ! i) = a_store (ss' ! i)" "i < length ss \<Longrightarrow> a_dirty (ss ! i) = a_dirty (ss' ! i)"
    "i < length ss \<Longrightarrow> used (ss ! i) = used (ss' ! i)" by simp_all
qed

lemma count_store_map: "count_store st ss = length (filter (\<lambda>x. x = st) (map a_store ss))"
  by (simp add: count_store_def filter_map o_def)

lemma alike_stores: "alike ss ss' \<Longrightarrow> map a_store ss = map a_store ss'"
proof -
  assume "alike ss ss'"
  then have "map fst (map (\<lambda>s. (a_store s, a_dirty s, used s)) ss) = map fst (map (\<lambda>s. (a_store s, a_dirty s, used s)) ss')"
    by (simp only: alike_def)
  then show ?thesis by (simp add: o_def)
qed

lemma alloc_spec_alike:
  assumes a: "alike ss ss'" and len: "length ss = 4"
  shows "alloc_spec gc n ss = alloc_spec gc n ss'"
proof -
  have "fits gc n st (ss ! i) = fits gc n st (ss' ! i)" if "i < 4" for i st
    using that alikeD [OF a] len by (simp add: fits_def)
  then have "List.find (\<lambda>i. fits gc n st (ss ! i)) [0..<4] = List.find (\<lambda>i. fits gc n st (ss' ! i)) [0..<4]" for st
    by (intro find_cong) auto
  moreover have "count_store st ss = count_store st ss'" for st
    using alike_stores [OF a] by (simp add: count_store_map)
  ultimately show ?thesis by (simp only: alloc_spec_def)
qed

lemma alike_with_status:
  assumes p: "placed ss i pre x st" and d: "a_dirty (ss ! i) \<noteq> SECTOR_DIRTY_FALSE"
  shows "alike ss (with_status ss i (length pre) st')"
proof -
  let ?f = "\<lambda>s. (a_store s, a_dirty s, used s)"
  obtain post where q: "a_envs (ss ! i) = pre @ (x, st) # post" and i: "i < length ss" using p by (auto simp: placed_def)
  let ?s = "dirtied ((ss ! i)\<lparr>a_envs := pre @ (x, st') # post\<rparr>)"
  have "?f ?s = ?f (ss ! i)" using d q by (simp add: dirtied_def used_def)
  then have "map ?f (ss[i := ?s]) = (map ?f ss)[i := map ?f ss ! i]" using i by (simp only: map_update nth_map)
  then show ?thesis by (simp add: alike_def with_status_split [OF q])
qed

section \<open>Moving one entry\<close>

lemma alloc_sector:
  assumes "alloc_spec gc n ss = Some j"
  shows "j < 4" "n < 4096 - used (ss ! j)" "a_store (ss ! j) = SECTOR_STORE_USING \<or> a_store (ss ! j) = SECTOR_STORE_EMPTY"
    "gc \<Longrightarrow> a_dirty (ss ! j) = SECTOR_DIRTY_FALSE"
  using assms by (auto simp: alloc_spec_def find_upt_Some fits_def split: option.splits if_splits)

text \<open>The entry copied into an allocated place, with the status of its sector and the two caches.\<close>

lemma copy_entry:
  assumes s: "rep e ss" "cache_true (\<lambda>h. h \<noteq> name_hash (fst x)) e ss" "names_ok K" "distinct (map fst (lives ss))" "fst ` set (lives ss) \<subseteq> K"
    and k: "fst x \<in> K" "fst x \<notin> fst ` set (lives ss)" and j: "j < 4"
    and st: "a_store (ss ! j) = SECTOR_STORE_USING \<or> a_store (ss ! j) = SECTOR_STORE_EMPTY"
    and n: "env_size x < 4096 - used (ss ! j)" and ok: "entry_fits x" and sm: "describes j (ss ! j) sm"
    and src: "bytes_at (chip e) (unat f + 4) (env_size x - 4) = env_body x" "unat f + env_size x \<le> 16384"
      "unat f + env_size x \<le> 4096 * j \<or> 4096 * j < unat f"
      "unat f + env_size x \<le> 4096 * j + used (ss ! j) \<or> 4096 * j + 4096 \<le> unat f"
  defines "a \<equiv> sec j + of_nat (used (ss ! j))" and "ss' \<equiv> ss[j := created (ss ! j) x]"
  shows "\<exists>e1 e2 e3 b. update_sec_status sm (of_nat (env_size x)) e = Some (EF_NO_ERR, b, e1) \<and>
    write_status a ENV_STATUS_NUM (env_no ENV_PRE_WRITE) e1 = Some (EF_NO_ERR, e2) \<and>
    move_loop (f + ENV_MAGIC_OFFSET) (a + ENV_MAGIC_OFFSET) 0 (env_size x - 4) EF_NO_ERR e2 = (EF_NO_ERR, e3) \<and>
    (\<exists>e4. write_status a ENV_STATUS_NUM (env_no ENV_WRITE) e3 = Some (EF_NO_ERR, e4) \<and>
      (let e5 = update_env_cache (fst x) a (update_sector_cache (sec j) (a + of_nat (env_size x)) e4) in
       store K e5 ss' \<and> kv ss' = (kv ss)(fst x \<mapsto> snd x) \<and> gc_request e5 = gc_request e \<and> init_ok e5 = init_ok e \<and>
       in_recovery_check e5 = in_recovery_check e \<and> last_is_complete_del e5 = last_is_complete_del e))"
proof -
  let ?s = "ss ! j"
  have len: "length ss = 4" and snd: "sound e" by (rule repD [OF s(1)])+
  have sz: "24 \<le> env_size x" "env_size x \<le> 4080" using ok by (simp_all add: env_size_def entry_fits_def)
  have u: "used ?s + env_size x < 4096" using n by simp
  have ua: "unat a = 4096 * j + used ?s" using unat_sec_off [of j "used ?s"] j u by (simp add: a_def)
  have ap: "a = pos j (a_envs ?s)" by (simp add: a_def pos_used)
  from update_status_spec [OF s(1) j st n sm] obtain q v where
    us: "update_sec_status sm (of_nat (env_size x)) e = Some (EF_NO_ERR, full_after ?s (env_size x),
      (if full_after ?s (env_size x) then update_sector_cache (sec j) (sec j + SECTOR_SIZE) e else e)\<lparr>ops := q, chip := (chip e)(4096 * j := v)\<rparr>)"
    and v: "get_status [v] SECTOR_STORE_STATUS_NUM = store_no (a_store (created ?s x))"
    by (auto simp: created_def)
  define e0 where "e0 = (if full_after ?s (env_size x) then update_sector_cache (sec j) (sec j + SECTOR_SIZE) e else e)"
  have e0: "rep e0 ss" "chip e0 = chip e" "env_cache_table e0 = env_cache_table e" "gc_request e0 = gc_request e"
    "init_ok e0 = init_ok e" "in_recovery_check e0 = in_recovery_check e" "last_is_complete_del e0 = last_is_complete_del e"
    using s(1) rep_drop_cache [OF s(1) j] by (simp_all add: e0_def) (simp_all add: update_sector_cache_def)
  define e1 where "e1 = e0\<lparr>ops := q, chip := (chip e)(4096 * j := v)\<rparr>"
  define e2 where "e2 = e1\<lparr>ops := ops e1 + 1, chip := (chip e1)(unat a := chip e1 (unat a) AND NOT (status_bit 0))\<rparr>"
  have snd1: "sound e1" using repD(3) [OF e0(1)] by (simp add: e1_def)
  have small: "unat a < 1048576" using ua u j by simp
  have n6: "(1 :: nat) < ENV_STATUS_NUM" "(2 :: nat) < ENV_STATUS_NUM" "ENV_STATUS_NUM \<le> 8" by (simp_all add: ENV_STATUS_NUM_def)
  have w1: "write_status a ENV_STATUS_NUM (env_no ENV_PRE_WRITE) e1 = Some (EF_NO_ERR, e2)"
    using write_status_word [OF snd1 _ n6(1,3) small] by (simp add: e2_def)
  have off: "unat (f + ENV_MAGIC_OFFSET) = unat f + 4" "unat (a + ENV_MAGIC_OFFSET) = unat a + 4"
    using src(2) small sz unat_add_small [of f 4] unat_add_small [of a 4] by (simp_all add: ENV_MAGIC_OFFSET_def)
  have body: "bytes_at (chip e2) (unat f + 4) (env_size x - 4) = env_body x"
    unfolding src(1) [symmetric] by (rule bytes_at_cong) (use src(3,4) ua u in \<open>auto simp: e2_def e1_def\<close>)
  have "\<exists>k. move_loop (f + ENV_MAGIC_OFFSET) (a + ENV_MAGIC_OFFSET) 0 (env_size x - 4) EF_NO_ERR e2 = (EF_NO_ERR, e2\<lparr>ops := k,
      chip := program (chip e2) (unat (a + ENV_MAGIC_OFFSET) + 0) (bytes_at (chip e2) (unat (f + ENV_MAGIC_OFFSET) + 0) (env_size x - 4 - 0))\<rparr>)"
  proof (rule move_loop_spec)
    show "unat (f + ENV_MAGIC_OFFSET) + (env_size x - 4) \<le> unat (a + ENV_MAGIC_OFFSET) \<or>
        unat (a + ENV_MAGIC_OFFSET) + (env_size x - 4) \<le> unat (f + ENV_MAGIC_OFFSET)"
      using src(4) off ua u sz by auto
  qed (use off src(2) ua u j sz snd1 in \<open>simp_all add: e2_def\<close>)
  then obtain k where mv: "move_loop (f + ENV_MAGIC_OFFSET) (a + ENV_MAGIC_OFFSET) 0 (env_size x - 4) EF_NO_ERR e2 =
      (EF_NO_ERR, e2\<lparr>ops := k, chip := program (chip e2) (unat a + 4) (env_body x)\<rparr>)"
    using off body by auto
  define e3 where "e3 = e2\<lparr>ops := k, chip := program (chip e2) (unat a + 4) (env_body x)\<rparr>"
  define e4 where "e4 = e3\<lparr>ops := ops e3 + 1, chip := put_entry (chip e1) (unat a) x\<rparr>"
  have w2: "write_status a ENV_STATUS_NUM (env_no ENV_WRITE) e3 = Some (EF_NO_ERR, e4)"
    using write_status_word [of e3 2 ENV_STATUS_NUM a] n6 small snd1 put_entry_two [of "chip e1" "unat a" x]
    by (simp add: e4_def e3_def e2_def)
  let ?emp = "a + of_nat (env_size x)"
  define e5 where "e5 = update_env_cache (fst x) a (update_sector_cache (sec j) ?emp e4)"
  have flags: "gc_request e5 = gc_request e" "init_ok e5 = init_ok e" "in_recovery_check e5 = in_recovery_check e"
    "last_is_complete_del e5 = last_is_complete_del e"
    using e0 by (simp_all add: e5_def e4_def e3_def e2_def e1_def update_env_cache_def update_sector_cache_def)
  have jl: "j < length ss" using j len by simp
  have r5: "rep e5 ss'" unfolding ss'_def
  proof (rule rep_change_cached [OF e0(1) j])
    have ch: "chip e5 = put_entry ((chip e)(4096 * j := v)) (4096 * j + used ?s) x"
      using ua by (simp add: e5_def e4_def e1_def update_env_cache_def update_sector_cache_def)
    then show "sec_at (chip e5) j (created ?s x)"
      using sec_at_created [OF repD(1) [OF s(1) j] v _ ok] u by simp
    show "shape (created ?s x)" by (rule shape_created [OF repD(5) [OF s(1) j]])
    show "chip e5 y = chip e0 y" if "y < 4096 * j \<or> 4096 * j + 4096 \<le> y" for y
      using that u put_entry_outside [of y "4096 * j + used ?s" x "(chip e)(4096 * j := v)"] ch e0(2) by auto
    show "sector_cache_table e5 = sector_cache_table (update_sector_cache (sec j) ?emp e0)"
      by (simp add: e5_def e4_def e3_def e2_def e1_def update_env_cache_def update_sector_cache_def)
    show "fault e5 = fault e0" by (simp add: e5_def e4_def e3_def e2_def e1_def update_env_cache_def update_sector_cache_def)
    have "?emp = sec j + of_nat (used ?s + env_size x)" by (simp add: a_def)
    moreover have "unat (sec j + of_nat (used ?s + env_size x)) = 4096 * j + (used ?s + env_size x)"
      using j u by (intro unat_sec_off) simp_all
    ultimately show "unat ?emp = 4096 * j + used (created ?s x)" by (simp only: created_simps)
  qed simp
  have "cache_true (\<lambda>h. h \<noteq> name_hash (fst x)) (update_sector_cache (sec j) ?emp e4) ss'"
    by (rule cache_true_kept [OF s(2)])
      (simp_all add: ss'_def kept_created e0(3) e4_def e3_def e2_def e1_def update_sector_cache_def)
  from cache_true_update [OF this placed_new [OF jl, of x, folded ss'_def], of e5]
  have c5: "env_cache_rep e5 ss'" by (simp add: e5_def ap)
  note kc = kv_created [OF jl k(2), folded ss'_def]
  have "store K e5 ss'" using r5 c5 s k kc by (simp add: store_def)
  with us w1 mv w2 flags kc(1) show ?thesis
    unfolding Let_def e5_def e0_def [symmetric] e1_def [symmetric] e3_def [symmetric] by blast
qed

end
