(* ===== verification/Ef_Gc.thy ===== *)
theory Ef_Gc
  imports Ef_Move
begin

text \<open>
  Garbage collection: a move keeps the map of the store, a walk empties a sector, and a whole collection cleans
  every dirty sector without losing a value, as long as one sector is empty when it starts.
\<close>

section \<open>A move on the store\<close>

text \<open>The store after the entry \<open>x\<close> behind \<open>pre\<close> in sector \<open>i\<close> went to sector \<open>j\<close>.\<close>

definition moved :: "asec list \<Rightarrow> nat \<Rightarrow> (entry \<times> env_status) list \<Rightarrow> entry \<Rightarrow> nat \<Rightarrow> asec list" where
  "moved ss i pre x j =
     (let ss1 = with_status ss i (length pre) ENV_PRE_DELETE
      in with_status (ss1[j := created (ss1 ! j) x]) i (length pre) ENV_DELETED)"

text \<open>The flags of a collection, which no move changes.\<close>

definition collecting :: "ef_st \<Rightarrow> bool" where
  "collecting e \<longleftrightarrow> gc_request e \<and> \<not> in_recovery_check e"

lemma not_live_unfound:
  assumes r: "rep e ss" and n: "key \<notin> fst ` set (lives ss)"
  shows "\<exists>env'. find_env_no_cache key env e = Some (False, env', e)"
proof -
  from env_sectors_find [OF r sectors_at_first [of blank_sector], of key env] obtain ok env' where
    f: "env_sectors (find_env_cb key) blank_sector env False e = Some (env', ok, e)" "found_from ss 0 key ok env'"
    by (auto simp: blank_sector_def)
  have "\<not> ok"
  proof
    assume ok
    with f(2) obtain j pre x where "placed ss j pre x ENV_WRITE" "fst x = key" by (auto simp: found_from_def)
    with n placed_live [OF this(1)] show False by auto
  qed
  with f(1) show ?thesis by (simp add: find_env_no_cache_def env_iterator_def)
qed

text \<open>The copy of an entry that is already marked, and its deletion; in a recovery its name must not be found.\<close>

lemma move_marked:
  assumes r: "rep e ss" and ct: "cache_true (\<lambda>h. h \<noteq> name_hash (fst x)) e ss" and K: "names_ok K" "fst ` set (lives ss) \<subseteq> K"
    and dl: "distinct (map fst (lives ss))" and xk: "fst x \<in> K" "fst x \<notin> fst ` set (lives ss)"
    and p: "placed ss i pre x ENV_PRE_DELETE" and env: "env = node_of env0 (pos i pre) x ENV_PRE_DELETE"
    and al: "alloc_spec (gc_request e) (env_size x) ss = Some j" and nul: "in_recovery_check e \<longrightarrow> 0 \<notin> set (fst x)"
  shows "\<exists>e'. move_env env e = Some (EF_NO_ERR, e') \<and>
    store K e' (with_status (ss[j := created (ss ! j) x]) i (length pre) ENV_DELETED) \<and>
    kv (with_status (ss[j := created (ss ! j) x]) i (length pre) ENV_DELETED) = (kv ss)(fst x \<mapsto> snd x) \<and>
    gc_request e' = gc_request e \<and> init_ok e' = init_ok e \<and> in_recovery_check e' = in_recovery_check e \<and> \<not> last_is_complete_del e'"
proof -
  have len: "length ss = 4" by (rule repD(2) [OF r])
  have start: "n_start env = pos i pre" "n_status env = ENV_PRE_DELETE" "n_len env = of_nat (env_size x)" "n_name env = fst x"
    by (simp_all add: env node_of_def)
  have ok: "entry_fits x" by (rule store_entry_fits [OF r p])
  have sz: "24 \<le> env_size x" "env_size x \<le> 4080" "length (fst x) \<le> 32" using ok by (simp_all add: env_size_def entry_fits_def)
  have "env_size x < 4294967296" using sz by simp
  from alloc_env_spec [OF r this, of blank_sector] al obtain a sm t where
    ae: "alloc_env blank_sector (of_nat (env_size x)) e = Some (a, sm, e\<lparr>sector_cache_table := t, gc_request := gc_request e\<rparr>)"
    and res: "alloc_result ss (Some j) sm a" and r2: "rep (e\<lparr>sector_cache_table := t\<rparr>) ss" by auto
  let ?e2 = "e\<lparr>sector_cache_table := t, gc_request := gc_request e\<rparr>"
  have r2': "rep ?e2 ss" using r2 by simp
  note js = alloc_sector [OF al]
  have a: "a = sec j + of_nat (used (ss ! j))" and sm: "describes j (ss ! j) sm"
    using res by (simp_all add: alloc_result_def describes_full)
  have af: "a \<noteq> FAILED_ADDR" using free_not_failed [OF r2' js(1)] a by simp
  have i: "i < 4" using placed_entry(1) [OF r p] .
  obtain post where q1: "a_envs (ss ! i) = pre @ (x, ENV_PRE_DELETE) # post" using p by (auto simp: placed_def)
  note en = entry_in_rep [OF r2' i q1]
  have upos: "unat (pos i pre) = 4096 * i + 16 + chain_size pre"
    using unat_pos [of i pre] i sec_part(2) [OF r2' i q1] by simp
  have end_p: "unat (pos i pre) + env_size x \<le> 4096 * i + used (ss ! i)"
    by (simp add: upos used_def q1)
  have src: "bytes_at (chip ?e2) (unat (pos i pre) + 4) (env_size x - 4) = env_body x" using en(1) by (simp add: entry_at_def)
  have apart: "unat (pos i pre) + env_size x \<le> 4096 * j \<or> 4096 * j < unat (pos i pre)"
    "unat (pos i pre) + env_size x \<le> 4096 * j + used (ss ! j) \<or> 4096 * j + 4096 \<le> unat (pos i pre)"
    using en(2) upos end_p by (cases "i < j"; cases "i = j"; simp)+
  have c2: "cache_true (\<lambda>h. h \<noteq> name_hash (fst x)) ?e2 ss" using ct by (simp add: cache_true_def)
  have in_p: "unat (pos i pre) + env_size x \<le> 16384" using en(2) i by simp
  let ?ss2 = "ss[j := created (ss ! j) x]"
  from copy_entry [OF r2' c2 K(1) dl K(2) xk js(1,3,2) ok sm src in_p apart] obtain e3 e4 e5 e6 b where
    w: "update_sec_status sm (of_nat (env_size x)) ?e2 = Some (EF_NO_ERR, b, e3)"
      "write_status a ENV_STATUS_NUM (env_no ENV_PRE_WRITE) e3 = Some (EF_NO_ERR, e4)"
      "move_loop (pos i pre + ENV_MAGIC_OFFSET) (a + ENV_MAGIC_OFFSET) 0 (env_size x - 4) EF_NO_ERR e4 = (EF_NO_ERR, e5)"
      "write_status a ENV_STATUS_NUM (env_no ENV_WRITE) e5 = Some (EF_NO_ERR, e6)"
    and e7: "let e7 = update_env_cache (fst x) a (update_sector_cache (sec j) (a + of_nat (env_size x)) e6) in
       store K e7 ?ss2 \<and> kv ?ss2 = (kv ss)(fst x \<mapsto> snd x) \<and> gc_request e7 = gc_request ?e2 \<and> init_ok e7 = init_ok ?e2 \<and>
       in_recovery_check e7 = in_recovery_check ?e2 \<and> last_is_complete_del e7 = last_is_complete_del ?e2"
    unfolding a [symmetric] by blast
  let ?e7 = "update_env_cache (fst x) a (update_sector_cache (sec j) (a + of_nat (env_size x)) e6)"
  have e7': "store K ?e7 ?ss2" "kv ?ss2 = (kv ss)(fst x \<mapsto> snd x)" "gc_request ?e7 = gc_request e" "init_ok ?e7 = init_ok e"
    "in_recovery_check ?e7 = in_recovery_check e"
    using e7 by (simp_all add: Let_def)
  have p2: "placed ?ss2 i pre x ENV_PRE_DELETE" by (rule placed_created [OF p])
  let ?ss3 = "with_status ?ss2 i (length pre) ENV_DELETED"
  from finish_change [OF e7'(1) p2 start(1), of None] obtain e8 where
    e8: "del_old_env None env True ?e7 = Some (EF_NO_ERR, e8)" "store K e8 ?ss3" "\<not> last_is_complete_del e8"
      "gc_request e8 = gc_request e" "init_ok e8 = init_ok e" "in_recovery_check e8 = in_recovery_check e"
    using e7' by auto
  have kv: "kv ?ss3 = (kv ss)(fst x \<mapsto> snd x)"
    using lives_dead [OF p2, of ENV_DELETED] e7'(2) by (simp add: kv_def)
  have nl: "unat (of_nat (env_size x) - ENV_MAGIC_OFFSET :: u32) = env_size x - 4"
  proof -
    have "unat (of_nat (env_size x) :: u32) = env_size x" using sz by (intro area_words) simp
    then show ?thesis using sz by (simp add: unat_sub word_le_nat_alt ENV_MAGIC_OFFSET_def)
  qed
  have u: "used (ss ! j) < 4096" using js(2) by simp
  have so: "sector_of a = sec j" unfolding a using js(1) u by (intro sector_of_sec) simp_all
  have "unat (of_nat (length (fst x)) :: byte) = length (fst x)" using sz by (simp add: unat_of_nat)
  then have "ucast (of_nat (length (fst x)) :: byte) = (of_nat (length (fst x)) :: u32)" by (metis of_nat_unat)
  then have emp: "a + ENV_HDR_DATA_SIZE + ucast (n_name_len env) + n_value_len env = a + of_nat (env_size x)"
    by (simp add: env node_of_def env_size_def ENV_HDR_DATA_SIZE_def)
  have look: "\<exists>env'. (if in_recovery_check ?e2 then find_env_no_cache (c_string (fst x)) blank_node ?e2
            else Some (False, blank_node, ?e2)) = Some (False, env', ?e2)"
  proof (cases "in_recovery_check e")
    case True
    with nul have "c_string (fst x) = fst x" by (auto simp: c_string_def takeWhile_eq_all_conv)
    with True not_live_unfound [OF r2' xk(2), of blank_node] show ?thesis by simp
  qed simp
  then obtain env' where lk: "(if in_recovery_check ?e2 then find_env_no_cache (c_string (fst x)) blank_node ?e2
            else Some (False, blank_node, ?e2)) = Some (False, env', ?e2)" by blast
  have "move_env env e = Some (EF_NO_ERR, e8)"
    unfolding move_env_def start(2)
    by (simp only: start ae af lk w nl so emp e8(1) Let_def prod.case Option.bind.simps if_False simp_thms env_status.simps cong: if_cong)
  with e8 kv show ?thesis by (intro exI [of _ e8]) simp
qed

text \<open>A live entry is marked first.\<close>

lemma move_env_live:
  assumes "n_status env = ENV_WRITE" "del_old_env None env False e = Some (r, e1)"
  shows "move_env env e = move_env (env\<lparr>n_status := ENV_PRE_DELETE\<rparr>) e1"
proof -
  have d: "del_old_env None (env\<lparr>n_status := ENV_PRE_DELETE\<rparr>) b e = del_old_env None env b e" for b e
    by (simp add: del_old_env_def del_status_def cong: if_cong)
  show ?thesis by (simp add: move_env_def assms d cong: if_cong)
qed

lemma move_env_spec:
  assumes s: "store K e ss" and c: "collecting e" and p: "placed ss i pre x ENV_WRITE"
    and env: "env = node_of env0 (pos i pre) x ENV_WRITE"
    and d: "a_dirty (ss ! i) \<noteq> SECTOR_DIRTY_FALSE" and al: "alloc_spec True (env_size x) ss = Some j"
  shows "\<exists>e'. move_env env e = Some (EF_NO_ERR, e') \<and> store K e' (moved ss i pre x j) \<and> kv (moved ss i pre x j) = kv ss \<and>
    collecting e' \<and> init_ok e' = init_ok e \<and> \<not> last_is_complete_del e'"
proof -
  have r: "rep e ss" and dl: "distinct (map fst (lives ss))" and K: "names_ok K" "fst ` set (lives ss) \<subseteq> K"
    and ct: "cache_true (\<lambda>_. True) e ss" using s by (simp_all add: store_def env_cache_true)
  have len: "length ss = 4" by (rule repD(2) [OF r])
  have start: "n_start env = pos i pre" "n_status env = ENV_WRITE" by (simp_all add: env node_of_def)
  let ?ss1 = "with_status ss i (length pre) ENV_PRE_DELETE"
  from del_old_env_spec [OF r p start(1), of ENV_PRE_DELETE False None] obtain q m
    where d1: "del_old_env None env False e = Some (EF_NO_ERR, e\<lparr>ops := q, chip := m, last_is_complete_del := True\<rparr>)"
    and r1: "rep (e\<lparr>ops := q, chip := m, last_is_complete_del := True\<rparr>) ?ss1" by (auto simp: forget_def)
  let ?e1 = "e\<lparr>ops := q, chip := m, last_is_complete_del := True\<rparr>"
  note del = kv_delete [OF dl p, of ENV_PRE_DELETE]
  have al1: "alloc_spec (gc_request ?e1) (env_size x) ?ss1 = Some j"
    using al alloc_spec_alike [OF alike_with_status [OF p d] len] c by (simp add: collecting_def)
  have c1: "cache_true (\<lambda>h. h \<noteq> name_hash (fst x)) ?e1 ?ss1"
    by (rule cache_true_kept [OF ct kept_with_status [OF p]]) simp_all
  have xk: "fst x \<in> K" using K(2) placed_live [OF p] by auto
  have nk: "fst x \<notin> fst ` set (lives ?ss1)" using del(1) by (simp add: kv_None [symmetric])
  have K1: "fst ` set (lives ?ss1) \<subseteq> K" using del(3) K(2) by auto
  have env1: "env\<lparr>n_status := ENV_PRE_DELETE\<rparr> = node_of env0 (pos i pre) x ENV_PRE_DELETE" by (simp add: env node_of_def)
  have nr: "in_recovery_check ?e1 \<longrightarrow> 0 \<notin> set (fst x)" using c by (simp add: collecting_def)
  from move_marked [OF r1 c1 K(1) K1 del(2) xk nk placed_with_status [OF p] env1 al1 nr] obtain e' where
    e': "move_env (env\<lparr>n_status := ENV_PRE_DELETE\<rparr>) ?e1 = Some (EF_NO_ERR, e')" "store K e' (moved ss i pre x j)"
      "kv (moved ss i pre x j) = (kv ?ss1)(fst x \<mapsto> snd x)" "gc_request e' = gc_request e" "init_ok e' = init_ok e"
      "in_recovery_check e' = in_recovery_check e" "\<not> last_is_complete_del e'"
    by (auto simp: moved_def Let_def)
  have "kv (moved ss i pre x j) = kv ss" using e'(3) del(1) live_kv [OF dl placed_live [OF p]] by auto
  with e' c move_env_live [OF start(2) d1] show ?thesis by (intro exI [of _ e']) (simp add: collecting_def)
qed

end
