(* ===== verification/Ef_Collect.thy ===== *)
theory Ef_Collect
  imports Ef_Gc
begin

text \<open>
  A whole garbage collection: every dirty sector is emptied into the others and formatted. Nothing is lost, because
  the deleted entries of a dirty sector leave room for its live ones in one empty sector.
\<close>

section \<open>The store a collection may work on\<close>

definition tidy_sec :: "asec \<Rightarrow> bool" where
  "tidy_sec s \<longleftrightarrow> (\<forall>p \<in> set (a_envs s). 28 \<le> env_size (fst p) \<and> (snd p = ENV_WRITE \<or> snd p = ENV_DELETED)) \<and>
     (a_dirty s = SECTOR_DIRTY_FALSE \<and> (\<forall>p \<in> set (a_envs s). snd p = ENV_WRITE) \<or>
      a_dirty s = SECTOR_DIRTY_TRUE \<and> (\<exists>p \<in> set (a_envs s). snd p = ENV_DELETED)) \<and>
     (a_store s = SECTOR_STORE_FULL \<longrightarrow> 4096 - used s < 56)"

definition tidy :: "asec list \<Rightarrow> bool" where
  "tidy ss \<longleftrightarrow> (\<forall>k < 4. tidy_sec (ss ! k))"

definition has_empty :: "asec list \<Rightarrow> bool" where
  "has_empty ss \<longleftrightarrow> (\<exists>k < 4. a_store (ss ! k) = SECTOR_STORE_EMPTY)"

definition live_size :: "(entry \<times> env_status) list \<Rightarrow> nat" where
  "live_size es = chain_size (filter (\<lambda>p. snd p = ENV_WRITE) es)"

lemma live_size_simps [simp]: "live_size [] = 0"
  "live_size ((x, st) # es) = (if st = ENV_WRITE then env_size x else 0) + live_size es"
  "live_size (es @ es') = live_size es + live_size es'"
  by (simp_all add: live_size_def)

lemma live_size_dead: "\<lbrakk>p \<in> set es; snd p \<noteq> ENV_WRITE\<rbrakk> \<Longrightarrow> live_size es + env_size (fst p) \<le> chain_size es"
proof (induction es)
  case (Cons q es)
  have le: "live_size es \<le> chain_size es" for es by (induction es) auto
  obtain y st where q: "q = (y, st)" by (cases q)
  show ?case
  proof (cases "p = q")
    case True
    with Cons.prems le [of es] q show ?thesis by simp
  next
    case False
    with Cons show ?thesis by (simp add: q)
  qed
qed simp

lemma tidy_empty [simp]: "tidy_sec empty_sec"
  by (simp add: tidy_sec_def)

lemma tidy_created:
  "\<lbrakk>tidy_sec s; 28 \<le> env_size x; env_size x < 4096 - used s\<rbrakk> \<Longrightarrow> tidy_sec (created s x)"
  by (auto simp: tidy_sec_def full_after_def created_def used_def)

section \<open>Room for what a sector holds\<close>

text \<open>
  A sector that takes \<open>n\<close> bytes of entries, with the size of one more entry left.
\<close>

definition escape :: "asec list \<Rightarrow> nat \<Rightarrow> nat \<Rightarrow> bool" where
  "escape ss i n \<longleftrightarrow> n = 0 \<or> (\<exists>E < 4. E \<noteq> i \<and> a_dirty (ss ! E) = SECTOR_DIRTY_FALSE \<and>
     (a_store (ss ! E) = SECTOR_STORE_EMPTY \<or> a_store (ss ! E) = SECTOR_STORE_USING) \<and> n + 28 \<le> 4096 - used (ss ! E))"

lemma escape_alloc:
  assumes e: "escape ss i n" and b: "0 < b" "b \<le> n" and len: "length ss = 4"
  shows "\<exists>j. alloc_spec True b ss = Some j"
proof (cases "List.find (\<lambda>i. fits True b SECTOR_STORE_USING (ss ! i)) [0..<4]")
  case (Some j)
  then show ?thesis by (simp add: alloc_spec_def)
next
  case None
  from e b obtain E where E: "E < 4" "a_dirty (ss ! E) = SECTOR_DIRTY_FALSE"
    "a_store (ss ! E) = SECTOR_STORE_EMPTY \<or> a_store (ss ! E) = SECTOR_STORE_USING" "n + 28 \<le> 4096 - used (ss ! E)"
    by (auto simp: escape_def)
  then have ft: "fits True b (a_store (ss ! E)) (ss ! E)" using b by (simp add: fits_def)
  have em: "a_store (ss ! E) = SECTOR_STORE_EMPTY"
  proof (rule ccontr)
    assume "a_store (ss ! E) \<noteq> SECTOR_STORE_EMPTY"
    with E(3) ft have "fits True b SECTOR_STORE_USING (ss ! E)" by simp
    with None E(1) show False by (simp add: find_upt_None)
  qed
  have "ss ! E \<in> set ss" using E(1) len by simp
  with em have "ss ! E \<in> set (filter (\<lambda>s. a_store s = SECTOR_STORE_EMPTY) ss)" by simp
  then have "count_store SECTOR_STORE_EMPTY ss > 0" unfolding count_store_def by (metis length_greater_0_conv list.set_cases list.discI)
  moreover have "List.find (\<lambda>i. fits True b SECTOR_STORE_EMPTY (ss ! i)) [0..<4] \<noteq> None"
    using ft em E(1) by (auto simp: find_upt_None)
  ultimately show ?thesis using None by (auto simp: alloc_spec_def)
qed

lemma escape_created:
  assumes e: "escape ss i (env_size x + n)" and n: "n = 0 \<or> 28 \<le> n" and al: "alloc_spec True (env_size x) ss = Some j"
    and len: "length ss = 4" and ij: "i \<noteq> j"
  shows "escape (ss[i := s', j := created (ss ! j) x]) i n"
proof (cases "n = 0")
  case False
  note js = alloc_sector [OF al]
  have "0 < env_size x" by (simp add: env_size_def)
  with e obtain E where E: "E < 4" "E \<noteq> i" "a_dirty (ss ! E) = SECTOR_DIRTY_FALSE"
    "a_store (ss ! E) = SECTOR_STORE_EMPTY \<or> a_store (ss ! E) = SECTOR_STORE_USING" "env_size x + n + 28 \<le> 4096 - used (ss ! E)"
    by (auto simp: escape_def)
  let ?ss = "ss[i := s', j := created (ss ! j) x]"
  have "?ss ! E = (if E = j then created (ss ! j) x else ss ! E)" using E len js(1) by simp
  moreover have "a_store (created (ss ! E) x) = SECTOR_STORE_USING"
    using E n False by (auto simp: created_def full_after_def)
  ultimately have "a_dirty (?ss ! E) = SECTOR_DIRTY_FALSE" "n + 28 \<le> 4096 - used (?ss ! E)"
    "a_store (?ss ! E) = SECTOR_STORE_EMPTY \<or> a_store (?ss ! E) = SECTOR_STORE_USING"
    using E by auto
  with E(1,2) show ?thesis unfolding escape_def by blast
qed (simp add: escape_def)

text \<open>What a move makes of the sectors.\<close>

lemma moved_eq:
  assumes q: "a_envs (ss ! i) = pre @ (x, ENV_WRITE) # post" and i: "i < length ss" and ij: "i \<noteq> j"
    and d: "a_dirty (ss ! i) \<noteq> SECTOR_DIRTY_FALSE"
  shows "moved ss i pre x j = ss[i := (ss ! i)\<lparr>a_envs := pre @ (x, ENV_DELETED) # post\<rparr>, j := created (ss ! j) x]"
proof -
  have di: "dirtied ((ss ! i)\<lparr>a_envs := es\<rparr>) = (ss ! i)\<lparr>a_envs := es\<rparr>" for es using d by (simp add: dirtied_def)
  let ?ss1 = "ss[i := (ss ! i)\<lparr>a_envs := pre @ (x, ENV_PRE_DELETE) # post\<rparr>]"
  have 1: "with_status ss i (length pre) ENV_PRE_DELETE = ?ss1" by (simp add: with_status_split [OF q] di)
  have q2: "a_envs (?ss1[j := created (ss ! j) x] ! i) = pre @ (x, ENV_PRE_DELETE) # post" using i ij by simp
  have "dirtied ((ss ! i)\<lparr>a_envs := pre @ (x, ENV_DELETED) # post\<rparr>) = (ss ! i)\<lparr>a_envs := pre @ (x, ENV_DELETED) # post\<rparr>"
    by (rule di)
  with i ij have "with_status (?ss1[j := created (ss ! j) x]) i (length pre) ENV_DELETED =
      ss[j := created (ss ! j) x, i := (ss ! i)\<lparr>a_envs := pre @ (x, ENV_DELETED) # post\<rparr>]"
    unfolding with_status_split [OF q2] by (simp add: list_update_swap [of i j])
  then show ?thesis using i ij by (simp add: moved_def 1 Let_def list_update_swap [of i j])
qed

section \<open>Emptying a sector\<close>

text \<open>What a walk over sector \<open>i\<close> leaves: the same map, the other sectors tidy and as dirty as before.\<close>

definition walked :: "byte list set \<Rightarrow> nat \<Rightarrow> ef_st \<Rightarrow> asec list \<Rightarrow> ef_st \<Rightarrow> asec list \<Rightarrow> bool" where
  "walked K i e ss e' ss' \<longleftrightarrow> store K e' ss' \<and> kv ss' = kv ss \<and> collecting e' \<and> init_ok e' = init_ok e \<and>
     (last_is_complete_del e' \<longrightarrow> last_is_complete_del e) \<and>
     (\<forall>k < 4. k \<noteq> i \<longrightarrow> tidy_sec (ss' ! k) \<and> a_dirty (ss' ! k) = a_dirty (ss ! k))"

lemma walked_trans: "\<lbrakk>walked K i e ss e' ss'; walked K i e' ss' e'' ss''\<rbrakk> \<Longrightarrow> walked K i e ss e'' ss''"
  by (simp add: walked_def)

lemma live_size_28: "\<forall>p \<in> set es. 28 \<le> env_size (fst p) \<Longrightarrow> live_size es = 0 \<or> 28 \<le> live_size es"
proof (induction es)
  case (Cons p es)
  then show ?case by (cases p) auto
qed simp

lemma gc_step_move:
  assumes s: "store K e ss" and c: "collecting e" and i: "i < 4" and q: "a_envs (ss ! i) = es @ (x, ENV_WRITE) # rest"
    and d: "a_dirty (ss ! i) \<noteq> SECTOR_DIRTY_FALSE" and size: "28 \<le> env_size x" "\<forall>p \<in> set rest. 28 \<le> env_size (fst p)"
    and t: "\<forall>k < 4. k \<noteq> i \<longrightarrow> tidy_sec (ss ! k)" and esc: "escape ss i (env_size x + live_size rest)"
  shows "\<exists>e' ss'. move_env (node_of env (pos i es) x ENV_WRITE) e = Some (EF_NO_ERR, e') \<and> walked K i e ss e' ss' \<and>
    ss' ! i = (ss ! i)\<lparr>a_envs := es @ (x, ENV_DELETED) # rest\<rparr> \<and> escape ss' i (live_size rest)"
proof -
  have len: "length ss = 4" using s by (simp add: store_def rep_def)
  have p: "placed ss i es x ENV_WRITE" using i q len by (simp add: placed_def)
  obtain j where al: "alloc_spec True (env_size x) ss = Some j"
    using escape_alloc [OF esc _ _ len, of "env_size x"] size by auto
  note js = alloc_sector [OF al]
  have jc: "a_dirty (ss ! j) = SECTOR_DIRTY_FALSE" by (rule js(4)) simp
  with d have ij: "i \<noteq> j" by auto
  have il: "i < length ss" using i len by simp
  note m = moved_eq [OF q il ij d]
  from move_env_spec [OF s c p refl d al] obtain e' where
    e': "move_env (node_of env (pos i es) x ENV_WRITE) e = Some (EF_NO_ERR, e')" "store K e' (moved ss i es x j)"
      "kv (moved ss i es x j) = kv ss" "collecting e'" "init_ok e' = init_ok e" "\<not> last_is_complete_del e'" by blast
  have "tidy_sec (created (ss ! j) x)" using t js(1,2) ij size by (intro tidy_created) auto
  then have "tidy_sec (moved ss i es x j ! k) \<and> a_dirty (moved ss i es x j ! k) = a_dirty (ss ! k)" if "k < 4" "k \<noteq> i" for k
    using t that js(1) len ij by (cases "k = j") (simp_all add: m)
  then have "walked K i e ss e' (moved ss i es x j)" using e' by (simp add: walked_def)
  moreover have "moved ss i es x j ! i = (ss ! i)\<lparr>a_envs := es @ (x, ENV_DELETED) # rest\<rparr>" using il ij by (simp add: m)
  moreover have "escape (moved ss i es x j) i (live_size rest)"
    unfolding m by (rule escape_created [OF esc live_size_28 [OF size(2)] al len ij])
  ultimately show ?thesis using e'(1) by blast
qed

lemma gc_walk_spec:
  assumes i: "i < 4" and sm: "s_addr sm = sec i" "s_store sm \<noteq> SECTOR_STORE_EMPTY"
  shows "\<lbrakk>store K e ss; collecting e; a_envs (ss ! i) = es @ es'; es @ es' \<noteq> []; walk_at i es env;
      a_dirty (ss ! i) \<noteq> SECTOR_DIRTY_FALSE; \<forall>p \<in> set es. snd p \<noteq> ENV_WRITE;
      \<forall>p \<in> set es'. 28 \<le> env_size (fst p) \<and> (snd p = ENV_WRITE \<or> snd p = ENV_DELETED);
      \<forall>k < 4. k \<noteq> i \<longrightarrow> tidy_sec (ss ! k); escape ss i (live_size es')\<rbrakk> \<Longrightarrow>
    \<exists>e' ss'. gc_walk sm env e = Some e' \<and> walked K i e ss e' ss' \<and> (\<forall>p \<in> set (a_envs (ss' ! i)). snd p \<noteq> ENV_WRITE)"
proof (induction es' arbitrary: es env e ss)
  case Nil
  have r: "rep e ss" using Nil.prems(1) by (simp add: store_def)
  have "gc_walk sm env e = Some e"
    using walk_done [OF r i sm, of es env] Nil.prems by (subst gc_walk.simps) simp
  moreover have "walked K i e ss e ss" using Nil.prems by (simp add: walked_def)
  ultimately show ?case using Nil.prems by auto
next
  case (Cons y rest)
  obtain x st where y: "y = (x, st)" by (cases y)
  have r: "rep e ss" using Cons.prems(1) by (simp add: store_def)
  have q: "a_envs (ss ! i) = es @ (x, st) # rest" using Cons.prems(3) y by simp
  note step = walk_step [OF r i sm q Cons.prems(5)]
  let ?node = "node_of env (pos i es) x st"
  have nd: "n_crc_ok ?node" "n_status ?node = st" by (simp_all add: node_of_def)
  have walk: "gc_walk sm env e = (if st = ENV_WRITE \<or> st = ENV_PRE_DELETE
      then do { (_, e) \<leftarrow> move_env ?node e; gc_walk sm ?node e } else gc_walk sm ?node e)"
    by (subst gc_walk.simps) (simp add: step nd Let_def)
  have w: "walk_at i (es @ [(x, st')]) ?node" for st' by (simp add: walk_at_def node_of_def)
  show ?case
  proof (cases "st = ENV_WRITE")
    case False
    then have st: "st = ENV_DELETED" using Cons.prems(8) y by auto
    have "escape ss i (live_size rest)" using Cons.prems(10) y st by simp
    then have "\<exists>e' ss'. gc_walk sm ?node e = Some e' \<and> walked K i e ss e' ss' \<and> (\<forall>p \<in> set (a_envs (ss' ! i)). snd p \<noteq> ENV_WRITE)"
      by (intro Cons.IH [OF Cons.prems(1,2) _ _ w Cons.prems(6) _ _ Cons.prems(9)]) (use Cons.prems q y st in auto)
    then show ?thesis using walk st by simp
  next
    case True
    have "28 \<le> env_size x" "\<forall>p \<in> set rest. 28 \<le> env_size (fst p)" "escape ss i (env_size x + live_size rest)"
      using Cons.prems(8,10) y True by simp_all
    from gc_step_move [OF Cons.prems(1,2) i q [unfolded True] Cons.prems(6) this(1,2) Cons.prems(9) this(3), of env] obtain e1 ss1 where
      m: "move_env (node_of env (pos i es) x ENV_WRITE) e = Some (EF_NO_ERR, e1)" "walked K i e ss e1 ss1"
        "ss1 ! i = (ss ! i)\<lparr>a_envs := es @ (x, ENV_DELETED) # rest\<rparr>" "escape ss1 i (live_size rest)" by blast
    have "\<exists>e' ss'. gc_walk sm ?node e1 = Some e' \<and> walked K i e1 ss1 e' ss' \<and> (\<forall>p \<in> set (a_envs (ss' ! i)). snd p \<noteq> ENV_WRITE)"
      by (rule Cons.IH [OF _ _ _ _ w [of ENV_DELETED]]) (use m Cons.prems y in \<open>auto simp: walked_def\<close>)
    then obtain e2 ss2 where "gc_walk sm ?node e1 = Some e2" "walked K i e1 ss1 e2 ss2" "\<forall>p \<in> set (a_envs (ss2 ! i)). snd p \<noteq> ENV_WRITE"
      by blast
    with m walk True walked_trans [OF m(2)] show ?thesis by auto
  qed
qed

section \<open>Collecting one sector\<close>

lemma kept_same_envs:
  assumes "\<And>k. k < length ss \<Longrightarrow> a_envs (ss' ! k) = a_envs (ss ! k)" "length ss' = length ss"
  shows "kept q ss ss'"
  using assms by (auto simp: kept_def placed_def)

lemma lives_same_envs: "map a_envs ss' = map a_envs ss \<Longrightarrow> lives ss' = lives ss"
  by (simp add: lives_def)

text \<open>Only the dirty status of a sector changes.\<close>

lemma store_dirty:
  assumes s: "store K e ss" and i: "i < 4" and d: "dirty_no (a_dirty (ss ! i)) \<le> dirty_no d" "0 < dirty_no d"
  shows "\<exists>n m. write_status (sec i + SECTOR_DIRTY_OFFSET) SECTOR_DIRTY_STATUS_NUM (dirty_no d) e
      = Some (EF_NO_ERR, e\<lparr>ops := n, chip := m\<rparr>) \<and>
    store K (e\<lparr>ops := n, chip := m\<rparr>) (ss[i := (ss ! i)\<lparr>a_dirty := d\<rparr>]) \<and> kv (ss[i := (ss ! i)\<lparr>a_dirty := d\<rparr>]) = kv ss"
proof -
  have r: "rep e ss" and ct: "cache_true (\<lambda>_. True) e ss" using s by (simp_all add: store_def env_cache_true)
  let ?ss = "ss[i := (ss ! i)\<lparr>a_dirty := d\<rparr>]"
  from write_dirty [OF r i d] obtain n m where w: "write_status (sec i + SECTOR_DIRTY_OFFSET) SECTOR_DIRTY_STATUS_NUM (dirty_no d) e
      = Some (EF_NO_ERR, e\<lparr>ops := n, chip := m\<rparr>)" "rep (e\<lparr>ops := n, chip := m\<rparr>) ?ss" by blast
  have l: "lives ?ss = lives ss" by (rule lives_same_envs) (simp add: map_update list_update_same_conv, metis list_update_id map_update)
  have "a_envs (?ss ! k) = a_envs (ss ! k)" if "k < length ss" for k using that by (cases "k = i") simp_all
  then have "kept (\<lambda>_. True) ss ?ss" by (intro kept_same_envs) simp_all
  from cache_true_kept [OF ct this, of "e\<lparr>ops := n, chip := m\<rparr>"] have "env_cache_rep (e\<lparr>ops := n, chip := m\<rparr>) ?ss"
    by (simp add: env_cache_true)
  with s w l show ?thesis by (intro exI [of _ n] exI [of _ m]) (simp add: store_def kv_def)
qed

text \<open>Formatting a sector without live entries.\<close>

lemma store_format:
  assumes s: "store K e ss" and i: "i < 4" and dead: "\<forall>p \<in> set (a_envs (ss ! i)). snd p \<noteq> ENV_WRITE"
  shows "\<exists>n m t. format_sector (sec i) SECTOR_NOT_COMBINED e = Some (EF_NO_ERR, e\<lparr>ops := n, chip := m, sector_cache_table := t\<rparr>) \<and>
    store K (e\<lparr>ops := n, chip := m, sector_cache_table := t\<rparr>) (ss[i := empty_sec]) \<and> kv (ss[i := empty_sec]) = kv ss"
proof -
  have r: "rep e ss" and ct: "cache_true (\<lambda>_. True) e ss" using s by (simp_all add: store_def env_cache_true)
  have len: "length ss = 4" by (rule repD(2) [OF r])
  let ?ss = "ss[i := empty_sec]"
  from format_store [OF r i] obtain n m t where
    f: "format_sector (sec i) SECTOR_NOT_COMBINED e = Some (EF_NO_ERR, e\<lparr>ops := n, chip := m, sector_cache_table := t\<rparr>)"
      "rep (e\<lparr>ops := n, chip := m, sector_cache_table := t\<rparr>) ?ss" by blast
  let ?e = "e\<lparr>ops := n, chip := m, sector_cache_table := t\<rparr>"
  have "sec_lives (ss ! i) = []" "sec_lives empty_sec = []" using dead by (auto simp: sec_lives_def filter_empty_conv)
  then have l: "lives ?ss = lives ss" using i len by (simp add: lives_update lives_at [of i ss])
  have "kept (\<lambda>_. True) ss ?ss"
    unfolding kept_def
  proof (intro allI impI)
    fix j pre x assume p: "placed ss j pre x ENV_WRITE"
    have "j \<noteq> i"
    proof
      assume "j = i"
      with p have "(x, ENV_WRITE) \<in> set (a_envs (ss ! i))" by (auto simp: placed_def)
      with dead show False by fastforce
    qed
    with p show "\<exists>pre'. placed ?ss j pre' x ENV_WRITE \<and> pos j pre' = pos j pre" by (auto simp: placed_def)
  qed
  from cache_true_kept [OF ct this, of ?e] have "env_cache_rep ?e ?ss" by (simp add: env_cache_true)
  with s f l show ?thesis by (intro exI [of _ n] exI [of _ m] exI [of _ t]) (simp add: store_def kv_def)
qed

lemma tidy_dirty_room:
  assumes s: "sec_at m i s" "shape s" and t: "tidy_sec s" and d: "a_dirty s \<noteq> SECTOR_DIRTY_FALSE"
  shows "a_store s \<noteq> SECTOR_STORE_EMPTY" "a_envs s \<noteq> []" "live_size (a_envs s) + 28 \<le> 4080"
proof -
  obtain p where p: "p \<in> set (a_envs s)" "snd p = ENV_DELETED" "28 \<le> env_size (fst p)"
    using t d by (auto simp: tidy_sec_def)
  then show "a_envs s \<noteq> []" by auto
  with s show "a_store s \<noteq> SECTOR_STORE_EMPTY" by (simp add: shape_def)
  have "live_size (a_envs s) + env_size (fst p) \<le> chain_size (a_envs s)" using p by (intro live_size_dead) simp_all
  with p(3) used_le [OF s(1)] show "live_size (a_envs s) + 28 \<le> 4080" by (simp add: used_def)
qed

lemma do_gc_spec:
  assumes s: "store K e ss" and c: "collecting e" and i: "i < 4" and t: "tidy ss" and em: "has_empty ss"
  shows "\<exists>e' ss'. do_gc (meta_of sm i (ss ! i)) () e = Some (False, (), e') \<and> walked K i e ss e' ss' \<and> tidy ss' \<and>
    has_empty ss' \<and> a_dirty (ss' ! i) = SECTOR_DIRTY_FALSE"
proof -
  have r: "rep e ss" using s by (simp add: store_def)
  have len: "length ss = 4" by (rule repD(2) [OF r])
  let ?m = "meta_of sm i (ss ! i)"
  have m: "check_ok ?m" "s_dirty ?m = a_dirty (ss ! i)" "s_addr ?m = sec i" "s_store ?m = a_store (ss ! i)" by (simp_all add: meta_of_def)
  have ti: "tidy_sec (ss ! i)" using t i by (simp add: tidy_def)
  show ?thesis
  proof (cases "a_dirty (ss ! i) = SECTOR_DIRTY_FALSE")
    case True
    then have "do_gc ?m () e = Some (False, (), e)" by (simp add: do_gc_def m)
    moreover have "walked K i e ss e ss" using s c t by (simp add: walked_def tidy_def)
    ultimately show ?thesis using t em True by blast
  next
    case False
    with ti have d: "a_dirty (ss ! i) = SECTOR_DIRTY_TRUE" by (auto simp: tidy_sec_def)
    note room = tidy_dirty_room [OF repD(1) [OF r i] repD(5) [OF r i] ti False]
    let ?ss1 = "ss[i := (ss ! i)\<lparr>a_dirty := SECTOR_DIRTY_GC\<rparr>]"
    from store_dirty [OF s i, of SECTOR_DIRTY_GC] d obtain n q where
      w: "write_status (sec i + SECTOR_DIRTY_OFFSET) SECTOR_DIRTY_STATUS_NUM (dirty_no SECTOR_DIRTY_GC) e
        = Some (EF_NO_ERR, e\<lparr>ops := n, chip := q\<rparr>)" "store K (e\<lparr>ops := n, chip := q\<rparr>) ?ss1" "kv ?ss1 = kv ss" by auto
    let ?e1 = "e\<lparr>ops := n, chip := q\<rparr>"
    have at: "?ss1 ! i = (ss ! i)\<lparr>a_dirty := SECTOR_DIRTY_GC\<rparr>" "\<And>k. k \<noteq> i \<Longrightarrow> ?ss1 ! k = ss ! k" using i len by simp_all
    obtain E where E: "E < 4" "a_store (ss ! E) = SECTOR_STORE_EMPTY" using em by (auto simp: has_empty_def)
    have "E \<noteq> i" using E(2) room(1) by auto
    moreover have "a_envs (ss ! E) = []" using repD(5) [OF r E(1)] E(2) by (simp add: shape_def)
    then have "used (ss ! E) = 16" "a_dirty (ss ! E) = SECTOR_DIRTY_FALSE"
      using t E(1) by (auto simp: used_def tidy_def tidy_sec_def)
    ultimately have esc: "escape ?ss1 i (live_size (a_envs (ss ! i)))"
      using E at room(3) by (auto simp: escape_def intro!: exI [of _ E])
    have "\<exists>e' ss'. gc_walk ?m blank_node ?e1 = Some e' \<and> walked K i ?e1 ?ss1 e' ss' \<and> (\<forall>p \<in> set (a_envs (ss' ! i)). snd p \<noteq> ENV_WRITE)"
    proof (rule gc_walk_spec [OF i m(3) _ w(2)])
      show "a_envs (?ss1 ! i) = [] @ a_envs (ss ! i)" by (simp add: at)
      show "walk_at i [] blank_node" by (rule walk_first) (simp add: blank_node_def)
      show "\<forall>p \<in> set (a_envs (ss ! i)). 28 \<le> env_size (fst p) \<and> (snd p = ENV_WRITE \<or> snd p = ENV_DELETED)"
        using ti by (simp add: tidy_sec_def)
      show "\<forall>k < 4. k \<noteq> i \<longrightarrow> tidy_sec (?ss1 ! k)" using t by (simp add: tidy_def at)
    qed (use room m c esc at in \<open>simp_all add: collecting_def\<close>)
    then obtain e2 ss2 where g: "gc_walk ?m blank_node ?e1 = Some e2" "walked K i ?e1 ?ss1 e2 ss2"
      "\<forall>p \<in> set (a_envs (ss2 ! i)). snd p \<noteq> ENV_WRITE" by blast
    have s2: "store K e2 ss2" using g(2) by (simp add: walked_def)
    from store_format [OF s2 i g(3)] obtain n' q' t' where
      f: "format_sector (sec i) SECTOR_NOT_COMBINED e2 = Some (EF_NO_ERR, e2\<lparr>ops := n', chip := q', sector_cache_table := t'\<rparr>)"
        "store K (e2\<lparr>ops := n', chip := q', sector_cache_table := t'\<rparr>) (ss2[i := empty_sec])" "kv (ss2[i := empty_sec]) = kv ss2" by blast
    let ?e3 = "e2\<lparr>ops := n', chip := q', sector_cache_table := t'\<rparr>" and ?ss3 = "ss2[i := empty_sec]"
    have len2: "length ss2 = 4" using s2 by (simp add: store_def rep_def)
    have "do_gc ?m () e = Some (False, (), ?e3)"
      using w(1) g(1) f(1) d by (simp add: do_gc_def m)
    moreover have "walked K i e ss ?e3 ?ss3"
      using g(2) f(2,3) w(3) at by (simp add: walked_def collecting_def)
    moreover have "?ss3 ! i = empty_sec" using i len2 by simp
    moreover have "tidy ?ss3" using g(2) len2 i by (auto simp: tidy_def walked_def nth_list_update)
    moreover have "has_empty ?ss3" unfolding has_empty_def using i len2 by (intro exI [of _ i]) simp
    ultimately show ?thesis by (metis empty_sec_simps(2))
  qed
qed

section \<open>All sectors\<close>

lemma store_cong:
  "\<lbrakk>chip e' = chip e; sector_cache_table e' = sector_cache_table e; fault e' = fault e; env_cache_table e' = env_cache_table e\<rbrakk> \<Longrightarrow>
   store K e' ss = store K e ss"
  by (simp add: store_def env_cache_rep_def rep_cong [of e' e])

text \<open>What a collection from sector \<open>i\<close> on leaves.\<close>

definition collected :: "byte list set \<Rightarrow> nat \<Rightarrow> ef_st \<Rightarrow> asec list \<Rightarrow> ef_st \<Rightarrow> asec list \<Rightarrow> bool" where
  "collected K i e ss e' ss' \<longleftrightarrow> store K e' ss' \<and> kv ss' = kv ss \<and> collecting e' \<and> init_ok e' = init_ok e \<and>
     (last_is_complete_del e' \<longrightarrow> last_is_complete_del e) \<and> tidy ss' \<and> has_empty ss' \<and>
     (\<forall>k < 4. a_dirty (ss' ! k) = (if i \<le> k then SECTOR_DIRTY_FALSE else a_dirty (ss ! k)))"

lemma collected_step:
  assumes "walked K i e ss e1 ss1" "a_dirty (ss1 ! i) = SECTOR_DIRTY_FALSE" "collected K (Suc i) e1 ss1 e' ss'"
  shows "collected K i e ss e' ss'"
proof -
  have "a_dirty (ss' ! k) = (if i \<le> k then SECTOR_DIRTY_FALSE else a_dirty (ss ! k))" if "k < 4" for k
    using assms that by (cases "k = i") (auto simp: walked_def collected_def)
  with assms(1,3) show ?thesis by (auto simp: walked_def collected_def)
qed

lemma gc_loop:
  "\<lbrakk>store K e ss; collecting e; tidy ss; has_empty ss; sectors_at i sm; i \<le> 4\<rbrakk> \<Longrightarrow>
    \<exists>sm' e' ss'. sector_loop SECTOR_STORE_UNUSED do_gc False sm () e = Some (sm', (), e') \<and> collected K i e ss e' ss'"
proof (induction "4 - i" arbitrary: i sm e ss)
  case 0
  then have "sector_loop SECTOR_STORE_UNUSED do_gc False sm () e = Some (sm, (), e)"
    by (subst sector_loop.simps) (simp add: sectors_at_def)
  moreover have "collected K i e ss e ss" using 0 by (simp add: collected_def)
  ultimately show ?case by blast
next
  case (Suc d)
  have i: "i < 4" and d: "d = 4 - Suc i" and le: "Suc i \<le> 4" using Suc.hyps(2) by simp_all
  have r: "rep e ss" using Suc.prems(1) by (simp add: store_def)
  have na: "get_next_sector_addr sm = sec i" "sec i \<noteq> FAILED_ADDR" using Suc.prems i by (simp_all add: sectors_at_def)
  let ?m = "meta_of sm i (ss ! i)"
  from do_gc_spec [OF Suc.prems(1,2) i Suc.prems(3,4), of sm] obtain e1 ss1 where
    g: "do_gc ?m () e = Some (False, (), e1)" "walked K i e ss e1 ss1" "tidy ss1" "has_empty ss1"
      "a_dirty (ss1 ! i) = SECTOR_DIRTY_FALSE" by blast
  have "store K e1 ss1" "collecting e1" using g(2) by (simp_all add: walked_def)
  from Suc.hyps(1) [OF d this g(3,4) sectors_at_next [OF i, of sm "ss ! i"] le] obtain sm' e' ss' where
    l: "sector_loop SECTOR_STORE_UNUSED do_gc False ?m () e1 = Some (sm', (), e')" "collected K (Suc i) e1 ss1 e' ss'" by blast
  have "sector_loop SECTOR_STORE_UNUSED do_gc False sm () e = Some (sm', (), e')"
    using g(1) l(1) by (subst sector_loop.simps) (simp add: na read_sector_hdr [OF r i])
  with collected_step [OF g(2,5) l(2)] show ?case by blast
qed

lemma gc_check_loop:
  assumes r: "rep e ss"
  shows "\<lbrakk>sectors_at i sm; i \<le> 4\<rbrakk> \<Longrightarrow>
    \<exists>sm'. sector_loop SECTOR_STORE_EMPTY gc_check_cb False sm c e =
      Some (sm', c + count_store SECTOR_STORE_EMPTY (drop i ss), e)"
proof (induction "4 - i" arbitrary: i sm c)
  case 0
  then show ?case using repD(2) [OF r]
    by (subst sector_loop.simps) (simp add: sectors_at_def count_store_def)
next
  case (Suc d)
  then have i: "i < 4" and d: "d = 4 - Suc i" and le: "Suc i \<le> 4" by simp_all
  have na: "get_next_sector_addr sm = sec i" "sec i \<noteq> FAILED_ADDR" using Suc.prems i by (simp_all add: sectors_at_def)
  let ?m = "meta_of sm i (ss ! i)"
  have m: "check_ok ?m" "s_store ?m = a_store (ss ! i)" by (simp_all add: meta_of_def)
  have dr: "drop i ss = ss ! i # drop (Suc i) ss" using i repD(2) [OF r] by (simp add: Cons_nth_drop_Suc)
  let ?c = "if a_store (ss ! i) = SECTOR_STORE_EMPTY then c + 1 else c"
  from Suc.hyps(1) [OF d sectors_at_next [OF i, of sm "ss ! i"] le, of ?c] obtain sm' where
    "sector_loop SECTOR_STORE_EMPTY gc_check_cb False ?m ?c e =
      Some (sm', ?c + count_store SECTOR_STORE_EMPTY (drop (Suc i) ss), e)" by blast
  then show ?case
    by (subst sector_loop.simps) (auto simp: na read_sector_hdr [OF r i] dr count_store_def gc_check_cb_def m)
qed

text \<open>A collection returns, keeps the map, and leaves every sector clean when it was due.\<close>

lemma gc_collect_spec:
  assumes s: "store K e ss" and c: "collecting e" and t: "tidy ss" and em: "has_empty ss"
  shows "\<exists>e' ss'. gc_collect e = Some e' \<and> store K e' ss' \<and> kv ss' = kv ss \<and> \<not> gc_request e' \<and> \<not> in_recovery_check e' \<and>
    init_ok e' = init_ok e \<and> (last_is_complete_del e' \<longrightarrow> last_is_complete_del e) \<and> tidy ss' \<and> has_empty ss' \<and>
    (if count_store SECTOR_STORE_EMPTY ss \<le> 1 then \<forall>k < 4. a_dirty (ss' ! k) = SECTOR_DIRTY_FALSE else ss' = ss)"
proof -
  have r: "rep e ss" using s by (simp add: store_def)
  from gc_check_loop [OF r sectors_at_first [of "blank_sector\<lparr>s_addr := FAILED_ADDR\<rparr>"], of 0] obtain sm1 where
    n: "sector_iterator blank_sector SECTOR_STORE_EMPTY 0 gc_check_cb False e = Some (sm1, count_store SECTOR_STORE_EMPTY ss, e)"
    by (auto simp: sector_iterator_def)
  show ?thesis
  proof (cases "count_store SECTOR_STORE_EMPTY ss \<le> 1")
    case True
    from gc_loop [OF s c t em sectors_at_first [of "sm1\<lparr>s_addr := FAILED_ADDR\<rparr>"]] obtain sm2 e' ss' where
      l: "sector_iterator sm1 SECTOR_STORE_UNUSED () do_gc False e = Some (sm2, (), e')" "collected K 0 e ss e' ss'"
      by (auto simp: sector_iterator_def)
    have "gc_collect e = Some (e'\<lparr>gc_request := False\<rparr>)"
      using n l(1) True by (simp add: gc_collect_def EF_GC_EMPTY_SEC_THRESHOLD_def)
    moreover have "store K (e'\<lparr>gc_request := False\<rparr>) ss'"
      using l(2) store_cong [of "e'\<lparr>gc_request := False\<rparr>" e'] by (simp add: collected_def)
    ultimately show ?thesis using l(2) True by (auto simp: collected_def collecting_def)
  next
    case False
    then have "gc_collect e = Some (e\<lparr>gc_request := False\<rparr>)" using n by (simp add: gc_collect_def EF_GC_EMPTY_SEC_THRESHOLD_def)
    moreover have "store K (e\<lparr>gc_request := False\<rparr>) ss" using s store_cong [of "e\<lparr>gc_request := False\<rparr>" e] by simp
    ultimately show ?thesis using False c t em by (auto simp: collecting_def)
  qed
qed

end
