(* ===== verification/Ef_Value.thy ===== *)
theory Ef_Value
  imports Ef_Collect
begin

text \<open>
  What the application relies on: on a healthy store setting, reading and deleting a value act on an abstract map of
  names to values, garbage collections included, and setting a value fails only when the store is nearly full.
\<close>

section \<open>Tidiness after a change\<close>

lemma dirtied_idem [simp]: "dirtied ((dirtied s)\<lparr>a_envs := es\<rparr>) = dirtied (s\<lparr>a_envs := es\<rparr>)"
  by (simp add: dirtied_def)

lemma created_dirtied: "created (dirtied s) x = dirtied (created s x)"
  by (simp add: created_def dirtied_def full_after_def used_def)

lemma used_same_size: "used (s\<lparr>a_envs := pre @ (y, st') # post\<rparr>) = used (s\<lparr>a_envs := pre @ (y, st) # post\<rparr>)"
  by (simp add: used_def)

lemma created_envs:
  assumes "a_envs s = pre @ (y, st) # post"
  shows "created (s\<lparr>a_envs := pre @ (y, st') # post\<rparr>) x = (created s x)\<lparr>a_envs := pre @ (y, st') # post @ [(x, ENV_WRITE)]\<rparr>"
proof -
  have "used (s\<lparr>a_envs := pre @ (y, st') # post\<rparr>) = used s" using assms by (simp add: used_def)
  then show ?thesis by (simp add: created_def full_after_def)
qed

lemma set_at_eq:
  assumes p: "placed ss i pre y ENV_WRITE" and j: "j < length ss"
  defines "ss1 \<equiv> with_status ss i (length pre) ENV_PRE_DELETE"
  shows "with_status (ss1[j := created (ss1 ! j) x]) i (length pre) ENV_DELETED =
    with_status (ss[j := created (ss ! j) x]) i (length pre) ENV_DELETED"
proof -
  obtain post where q: "a_envs (ss ! i) = pre @ (y, ENV_WRITE) # post" and i: "i < length ss" using p by (auto simp: placed_def)
  have ss1: "ss1 = ss[i := dirtied ((ss ! i)\<lparr>a_envs := pre @ (y, ENV_PRE_DELETE) # post\<rparr>)]"
    unfolding ss1_def by (rule with_status_split [OF q])
  show ?thesis
  proof (cases "i = j")
    case False
    then have "ss1 ! j = ss ! j" by (simp add: ss1)
    with False i q show ?thesis by (simp add: with_status_def ss1 list_update_swap [of i j])
  next
    case True
    have "created (ss1 ! j) x = dirtied ((created (ss ! i) x)\<lparr>a_envs := pre @ (y, ENV_PRE_DELETE) # post @ [(x, ENV_WRITE)]\<rparr>)"
      using i True created_envs [OF q] by (simp add: ss1 created_dirtied)
    with True i q show ?thesis by (simp add: with_status_def ss1)
  qed
qed

lemma tidy_deleted:
  assumes t: "tidy ss" and p: "placed ss i pre y ENV_WRITE"
  shows "tidy (with_status ss i (length pre) ENV_DELETED)"
proof -
  obtain post where q: "a_envs (ss ! i) = pre @ (y, ENV_WRITE) # post" and i: "i < length ss" using p by (auto simp: placed_def)
  let ?s = "dirtied ((ss ! i)\<lparr>a_envs := pre @ (y, ENV_DELETED) # post\<rparr>)"
  have "tidy_sec ?s" if "i < 4"
  proof -
    have ti: "tidy_sec (ss ! i)" using t that by (simp add: tidy_def)
    have "used ?s = used (ss ! i)" using q by (simp add: used_def)
    moreover have "a_dirty ?s = SECTOR_DIRTY_TRUE" using ti by (auto simp: tidy_sec_def dirtied_def)
    moreover have "\<exists>p \<in> set (a_envs ?s). snd p = ENV_DELETED" by simp
    moreover have "\<forall>p \<in> set (a_envs ?s). 28 \<le> env_size (fst p) \<and> (snd p = ENV_WRITE \<or> snd p = ENV_DELETED)"
      using ti q by (auto simp: tidy_sec_def)
    moreover have "a_store ?s = a_store (ss ! i)" by simp
    ultimately show ?thesis using ti unfolding tidy_sec_def by metis
  qed
  with t i show ?thesis by (auto simp: tidy_def with_status_split [OF q] nth_list_update)
qed

lemma tidy_set_at:
  assumes t: "tidy ss" and j: "j < 4" "length ss = 4" and x: "28 \<le> env_size x" "env_size x < 4096 - used (ss ! j)"
    and s: "set_at ss j x ss'"
  shows "tidy ss'"
proof -
  have t1: "tidy (ss[j := created (ss ! j) x])"
    using t j x by (auto simp: tidy_def nth_list_update intro!: tidy_created)
  from s consider "ss' = ss[j := created (ss ! j) x]"
    | i pre y where "placed ss i pre y ENV_WRITE" "ss' = with_status (ss[j := created (ss ! j) x]) i (length pre) ENV_DELETED"
    using set_at_eq j unfolding set_at_def Let_def by metis
  then show ?thesis
  proof cases
    case 2
    with tidy_deleted [OF t1 placed_created] show ?thesis by simp
  qed (use t1 in simp)
qed

lemma has_empty_count: "length ss = 4 \<Longrightarrow> has_empty ss \<longleftrightarrow> 0 < count_store SECTOR_STORE_EMPTY ss"
  by (simp add: has_empty_def count_store_def filter_empty_conv all_set_conv_all_nth)

lemma count_two:
  assumes "1 < count_store st ss"
  shows "\<exists>k < length ss. k \<noteq> j \<and> a_store (ss ! k) = st"
proof (rule ccontr)
  assume "\<not> ?thesis"
  then have "{k. k < length ss \<and> a_store (ss ! k) = st} \<subseteq> {j}" by auto
  then have "card {k. k < length ss \<and> a_store (ss ! k) = st} \<le> 1" using card_mono [of "{j}"] by fastforce
  with assms show False by (simp add: count_store_def length_filter_conv_card)
qed

lemma alloc_keeps_empty:
  assumes al: "alloc_spec False n ss = Some j" and len: "length ss = 4" and em: "has_empty ss"
    and m: "map a_store ss' = stores_after ss j b"
  shows "has_empty ss'"
proof -
  have "length ss' = 4" using arg_cong [OF m, of length] len by (simp add: stores_after_def)
  then have st: "a_store (ss' ! k) = a_store (ss ! k)" if "k < 4" "k \<noteq> j" for k
    using arg_cong [OF m, of "\<lambda>l. l ! k"] that len by (simp add: stores_after_def)
  have "\<exists>k < 4. k \<noteq> j \<and> a_store (ss ! k) = SECTOR_STORE_EMPTY"
  proof (cases "a_store (ss ! j) = SECTOR_STORE_EMPTY")
    case True
    then have "1 < count_store SECTOR_STORE_EMPTY ss"
      using al by (auto simp: alloc_spec_def find_upt_Some fits_def split: option.splits if_splits)
    with count_two [of SECTOR_STORE_EMPTY ss j] len show ?thesis by simp
  next
    case False
    with em show ?thesis by (auto simp: has_empty_def)
  qed
  with st show ?thesis unfolding has_empty_def by metis
qed

section \<open>When a value does not fit\<close>

text \<open>The bytes the entries of a map take.\<close>

definition stored_size :: "(byte list \<Rightarrow> byte list option) \<Rightarrow> nat" where
  "stored_size m = (\<Sum>k \<in> dom m. env_size (k, the (m k)))"

lemma stored_size_lives:
  assumes d: "distinct (map fst (lives ss))"
  shows "stored_size (kv ss) = sum_list (map env_size (lives ss))"
proof -
  have "env_size (k, the (kv ss k)) = env_size x" if "x \<in> set (lives ss)" "k = fst x" for k x
    using live_kv [OF d that(1)] that(2) by (cases x) simp
  moreover have "dom (kv ss) = fst ` set (lives ss)" by (simp add: kv_def dom_map_of_conv_image_fst)
  ultimately have "stored_size (kv ss) = (\<Sum>x \<in> set (lives ss). env_size x)"
    using d by (simp add: stored_size_def sum.reindex distinct_map)
  also have "\<dots> = sum_list (map env_size (lives ss))"
    using d by (simp add: sum_list_distinct_conv_sum_set distinct_map)
  finally show ?thesis .
qed

lemma live_size_lives: "sum_list (map env_size (sec_lives s)) = live_size (a_envs s)"
proof -
  have "sum_list (map env_size (map fst (filter (\<lambda>p. snd p = ENV_WRITE) es))) = live_size es" for es :: "(entry \<times> env_status) list"
    by (induction es) auto
  then show ?thesis by (simp add: sec_lives_def)
qed

lemma lives_size: "sum_list (map env_size (lives ss)) = sum_list (map (\<lambda>s. live_size (a_envs s)) ss)"
  by (induction ss) (simp_all add: lives_concat live_size_lives)

lemma live_size_clean: "\<forall>p \<in> set es. snd p = ENV_WRITE \<Longrightarrow> live_size es = chain_size es"
  by (induction es) auto

text \<open>A clean sector that does not take an entry of \<open>n\<close> bytes is nearly full of live entries.\<close>

lemma sector_full:
  assumes t: "tidy_sec s" and sh: "shape s" and d: "a_dirty s = SECTOR_DIRTY_FALSE" and nf: "\<not> fits False n SECTOR_STORE_USING s"
    and ne: "a_store s \<noteq> SECTOR_STORE_EMPTY"
  shows "4080 \<le> live_size (a_envs s) + max n 56"
proof -
  have l: "live_size (a_envs s) = used s - 16"
    using live_size_clean [of "a_envs s"] t d by (auto simp: tidy_sec_def used_def)
  have u: "16 \<le> used s" by (simp add: used_def)
  have "a_store s = SECTOR_STORE_USING \<or> a_store s = SECTOR_STORE_FULL"
    using sh ne by (cases "a_store s") (auto simp: shape_def)
  then show ?thesis
  proof
    assume "a_store s = SECTOR_STORE_USING"
    with nf d have "4096 - used s \<le> n" by (auto simp: fits_def)
    with l u show ?thesis by linarith
  next
    assume "a_store s = SECTOR_STORE_FULL"
    with t have "4096 - used s < 56" by (simp add: tidy_sec_def)
    with l u show ?thesis by linarith
  qed
qed

lemma sum_part:
  fixes f :: "'a \<Rightarrow> nat"
  assumes "\<forall>s \<in> set ss. P s \<longrightarrow> b \<le> f s + c"
  shows "b * length (filter P ss) \<le> sum_list (map f ss) + c * length (filter P ss)"
  using assms by (induction ss) auto

lemma store_full:
  assumes s: "store K e ss" and t: "tidy ss" and c: "\<forall>k < 4. a_dirty (ss ! k) = SECTOR_DIRTY_FALSE"
    and one: "count_store SECTOR_STORE_EMPTY ss \<le> 1" and al: "alloc_spec False n ss = None"
  shows "12240 \<le> stored_size (kv ss) + 3 * max n 56"
proof -
  have r: "rep e ss" and d: "distinct (map fst (lives ss))" using s by (simp_all add: store_def)
  have len: "length ss = 4" by (rule repD(2) [OF r])
  have "List.find (\<lambda>i. fits False n SECTOR_STORE_USING (ss ! i)) [0..<4] = None"
    using al by (simp add: alloc_spec_def split: option.splits)
  then have nf: "\<not> fits False n SECTOR_STORE_USING (ss ! k)" if "k < 4" for k using that by (simp add: find_upt_None)
  have full: "4080 \<le> live_size (a_envs (ss ! k)) + max n 56" if "k < 4" "a_store (ss ! k) \<noteq> SECTOR_STORE_EMPTY" for k
    using sector_full [OF _ repD(5) [OF r that(1)] _ nf [OF that(1)] that(2)] t c that(1) by (simp add: tidy_def)
  then have each: "\<forall>s \<in> set ss. a_store s \<noteq> SECTOR_STORE_EMPTY \<longrightarrow> 4080 \<le> live_size (a_envs s) + max n 56"
    using len by (auto simp: in_set_conv_nth)
  let ?k = "length (filter (\<lambda>s. a_store s \<noteq> SECTOR_STORE_EMPTY) ss)"
  have "4080 * ?k \<le> sum_list (map (\<lambda>s. live_size (a_envs s)) ss) + max n 56 * ?k" by (rule sum_part [OF each])
  moreover have "?k = 3 \<or> ?k = 4"
    using one len sum_length_filter_compl [of "\<lambda>s. a_store s = SECTOR_STORE_EMPTY" ss] by (auto simp: count_store_def)
  ultimately have "12240 \<le> sum_list (map (\<lambda>s. live_size (a_envs s)) ss) + 3 * max n 56"
    by (cases "max n 56 \<le> 4080") (elim disjE; simp)+
  then show ?thesis using stored_size_lives [OF d] lives_size [of ss] by simp
qed

section \<open>Allocation with a collection\<close>

text \<open>Without a request to collect, a failed allocation means that one sector at most is empty.\<close>

lemma alloc_none:
  assumes t: "tidy ss" and sh: "\<forall>k < 4. shape (ss ! k)" and len: "length ss = 4" and n: "n < 4080" and al: "alloc_spec False n ss = None"
  shows "count_store SECTOR_STORE_EMPTY ss \<le> 1"
proof (rule ccontr)
  assume "\<not> ?thesis"
  then have two: "1 < count_store SECTOR_STORE_EMPTY ss" by simp
  then have nf: "List.find (\<lambda>i. fits False n SECTOR_STORE_EMPTY (ss ! i)) [0..<4] = None"
    using al by (simp add: alloc_spec_def split: option.splits)
  from count_two [OF two, of 4] len obtain k where k: "k < 4" "a_store (ss ! k) = SECTOR_STORE_EMPTY" by auto
  have "a_envs (ss ! k) = []" using sh k by (simp add: shape_def)
  then have "fits False n SECTOR_STORE_EMPTY (ss ! k)" using t k n by (auto simp: fits_def used_def tidy_def tidy_sec_def)
  with nf k(1) show False by (simp add: find_upt_None)
qed

lemma store_alloc:
  assumes "store K e ss" "rep (e\<lparr>sector_cache_table := t\<rparr>) ss"
  shows "store K (e\<lparr>sector_cache_table := t, gc_request := g\<rparr>) ss"
proof -
  have "rep (e\<lparr>sector_cache_table := t, gc_request := g\<rparr>) ss = rep (e\<lparr>sector_cache_table := t\<rparr>) ss" by (rule rep_cong) simp_all
  with assms show ?thesis by (simp add: store_def env_cache_rep_def)
qed

text \<open>The flags and the store that setting and allocating keep.\<close>

definition working :: "byte list set \<Rightarrow> ef_st \<Rightarrow> asec list \<Rightarrow> bool" where
  "working K e ss \<longleftrightarrow> store K e ss \<and> tidy ss \<and> has_empty ss \<and> \<not> in_recovery_check e \<and> \<not> last_is_complete_del e"

lemma new_env_spec:
  assumes w: "working K e ss" and g: "\<not> gc_request e" and n: "n < 4080"
  shows "\<exists>a sm e1 ss1. new_env sm0 (of_nat n) e = Some (a, sm, e1) \<and> working K e1 ss1 \<and> kv ss1 = kv ss \<and>
    init_ok e1 = init_ok e \<and> alloc_result ss1 (alloc_spec False n ss1) sm a \<and>
    (alloc_spec False n ss1 \<noteq> None \<longrightarrow> \<not> gc_request e1) \<and>
    (alloc_spec False n ss1 = None \<longrightarrow> 12240 \<le> stored_size (kv ss) + 3 * max n 56)"
proof -
  have s: "store K e ss" and t: "tidy ss" and em: "has_empty ss" using w by (simp_all add: working_def)
  have r: "rep e ss" using s by (simp add: store_def)
  have n32: "n < 4294967296" using n by simp
  from alloc_env_spec [OF r n32, of sm0] g obtain a sm u gc where
    a: "alloc_env sm0 (of_nat n) e = Some (a, sm, e\<lparr>sector_cache_table := u, gc_request := gc\<rparr>)"
      "alloc_result ss (alloc_spec False n ss) sm a" "rep (e\<lparr>sector_cache_table := u\<rparr>) ss"
      "gc = (alloc_spec False n ss = None \<and> count_store SECTOR_STORE_EMPTY ss = 1)" by auto
  let ?e = "e\<lparr>sector_cache_table := u, gc_request := gc\<rparr>"
  have s1: "store K ?e ss" by (rule store_alloc [OF s a(3)])
  show ?thesis
  proof (cases "alloc_spec False n ss")
    case (Some j)
    then have "j < 4" "a \<noteq> FAILED_ADDR" using a(2) free_not_failed [OF r] by (auto simp: alloc_result_def)
    then have "new_env sm0 (of_nat n) e = Some (a, sm, ?e)" using a(1) by (simp add: new_env_def)
    moreover have "working K ?e ss" using w s1 by (simp add: working_def)
    ultimately show ?thesis using Some a(2,4) by (intro exI [of _ a] exI [of _ sm] exI [of _ ?e] exI [of _ ss]) simp
  next
    case None
    have one: "count_store SECTOR_STORE_EMPTY ss = 1"
      using alloc_none [OF t _ repD(2) [OF r] n None] repD(5) [OF r] em has_empty_count [OF repD(2) [OF r]] by fastforce
    then have gc: "gc" and fa: "a = FAILED_ADDR" using None a(2,4) by (simp_all add: alloc_result_def)
    have "collecting ?e" using gc w by (simp add: collecting_def working_def)
    from gc_collect_spec [OF s1 this t em] one obtain e2 ss2 where
      c: "gc_collect ?e = Some e2" "store K e2 ss2" "kv ss2 = kv ss" "\<not> gc_request e2" "\<not> in_recovery_check e2"
        "init_ok e2 = init_ok e" "last_is_complete_del e2 \<longrightarrow> last_is_complete_del e" "tidy ss2" "has_empty ss2"
        "\<forall>k < 4. a_dirty (ss2 ! k) = SECTOR_DIRTY_FALSE" by auto
    have r2: "rep e2 ss2" using c(2) by (simp add: store_def)
    from alloc_env_spec [OF r2 n32, of sm] c(4) obtain b sm2 v gc2 where
      b: "alloc_env sm (of_nat n) e2 = Some (b, sm2, e2\<lparr>sector_cache_table := v, gc_request := gc2\<rparr>)"
        "alloc_result ss2 (alloc_spec False n ss2) sm2 b" "rep (e2\<lparr>sector_cache_table := v\<rparr>) ss2"
        "gc2 = (alloc_spec False n ss2 = None \<and> count_store SECTOR_STORE_EMPTY ss2 = 1)" by auto
    let ?e2 = "e2\<lparr>sector_cache_table := v, gc_request := gc2\<rparr>"
    have "new_env sm0 (of_nat n) e = Some (b, sm2, ?e2)" using a(1) b(1) c(1) fa gc by (simp add: new_env_def)
    moreover have "working K ?e2 ss2" using w c store_alloc [OF c(2) b(3)] by (simp add: working_def)
    moreover have "12240 \<le> stored_size (kv ss) + 3 * max n 56" if "alloc_spec False n ss2 = None"
    proof -
      have "count_store SECTOR_STORE_EMPTY ss2 \<le> 1"
        using repD(5) [OF r2] by (intro alloc_none [OF c(8) _ repD(2) [OF r2] n that]) simp
      from store_full [OF c(2,8,10) this that] c(3) show ?thesis by simp
    qed
    ultimately show ?thesis using b(2,4) c(3,6)
      by (intro exI [of _ b] exI [of _ sm2] exI [of _ ?e2] exI [of _ ss2]) auto
  qed
qed

section \<open>The calls of the application\<close>

text \<open>A store with the map \<open>m\<close>, and one that is not about to collect.\<close>

definition holds :: "byte list set \<Rightarrow> ef_st \<Rightarrow> (byte list \<Rightarrow> byte list option) \<Rightarrow> bool" where
  "holds K e m \<longleftrightarrow> (\<exists>ss. working K e ss \<and> kv ss = m) \<and> init_ok e"

definition healthy :: "byte list set \<Rightarrow> ef_st \<Rightarrow> (byte list \<Rightarrow> byte list option) \<Rightarrow> bool" where
  "healthy K e m \<longleftrightarrow> holds K e m \<and> \<not> gc_request e"

lemma healthy_holds: "healthy K e m \<Longrightarrow> holds K e m"
  by (simp add: healthy_def)

lemma new_env_by_kv_size:
  "length key + length val < 4056 \<Longrightarrow> new_env_by_kv sm (length key) (length val) e = new_env sm (of_nat (env_size (key, val))) e"
  by (simp add: new_env_by_kv_def env_size_def ENV_HDR_DATA_SIZE_def)

lemma finish_set:
  assumes w: "working K e ss" and i: "init_ok e"
  shows "\<exists>e'. do { e \<leftarrow> (if gc_request e then gc_collect e else Some e); Some (EF_NO_ERR, e) } = Some (EF_NO_ERR, e') \<and>
    healthy K e' (kv ss)"
proof (cases "gc_request e")
  case True
  with w have c: "collecting e" by (simp add: working_def collecting_def)
  from gc_collect_spec [OF _ c, of K ss] w obtain e' ss' where
    g: "gc_collect e = Some e'" "store K e' ss'" "kv ss' = kv ss" "\<not> gc_request e'" "\<not> in_recovery_check e'"
      "init_ok e' = init_ok e" "last_is_complete_del e' \<longrightarrow> last_is_complete_del e" "tidy ss'" "has_empty ss'"
    unfolding working_def by blast
  then have "working K e' ss'" using w by (simp add: working_def)
  with g i have "healthy K e' (kv ss)" by (auto simp: healthy_def holds_def)
  with g(1) True show ?thesis by simp
next
  case False
  with w i show ?thesis by (auto simp: healthy_def holds_def)
qed

lemma set_value_lemma:
  assumes h: "healthy K e m" and k: "key \<in> K" and small: "4 \<le> length key + length val" "length key + length val < 4056"
  shows "\<exists>r e'. flash_set_env_blob key (Some val) e = Some (r, e') \<and>
    (r = EF_NO_ERR \<and> healthy K e' (m(key \<mapsto> val)) \<or>
     r = EF_ENV_FULL \<and> holds K e' m \<and> 12240 \<le> stored_size m + 3 * max (env_size (key, val)) 56)"
proof -
  let ?x = "(key, val)"
  from h obtain ss where w: "working K e ss" "kv ss = m" and i: "init_ok e" and g: "\<not> gc_request e"
    by (auto simp: healthy_def holds_def)
  have n: "env_size ?x < 4080" "28 \<le> env_size ?x" using small by (simp_all add: env_size_def)
  from new_env_spec [OF w(1) g n(1), of blank_sector] obtain a sm e1 ss1 where
    a: "new_env_by_kv blank_sector (length key) (length val) e = Some (a, sm, e1)" "working K e1 ss1" "kv ss1 = m"
      "init_ok e1" "alloc_result ss1 (alloc_spec False (env_size ?x) ss1) sm a"
      "alloc_spec False (env_size ?x) ss1 \<noteq> None \<longrightarrow> \<not> gc_request e1"
      "alloc_spec False (env_size ?x) ss1 = None \<longrightarrow> 12240 \<le> stored_size m + 3 * max (env_size ?x) 56"
    using w(2) i new_env_by_kv_size [OF small(2)] by auto
  have s: "store K e1 ss1" and t: "tidy ss1" and em: "has_empty ss1" using a(2) by (simp_all add: working_def)
  have r: "rep e1 ss1" using s by (simp add: store_def)
  have call: "flash_set_env_blob key (Some val) e = set_env key (Some val) e" using i by (simp add: flash_set_env_blob_def)
  show ?thesis
  proof (cases "alloc_spec False (env_size ?x) ss1")
    case None
    then have "flash_set_env_blob key (Some val) e = Some (EF_ENV_FULL, e1)"
      using a(1,5) by (simp add: call set_env_def alloc_result_def)
    moreover have "holds K e1 m" using a(2-4) by (auto simp: holds_def)
    ultimately show ?thesis using None a(7) by simp
  next
    case (Some j)
    note js = alloc_sector [OF Some]
    have af: "a \<noteq> FAILED_ADDR" and d: "describes j (ss1 ! j) sm"
      using a(5) Some free_not_failed [OF r js(1)] by (simp_all add: alloc_result_def describes_full)
    have ok: "entry_fits ?x" using s k n by (simp add: entry_fits_def store_def names_ok_def)
    from set_env_in_place [OF a(1) af s k js(1,3,2) ok d] obtain e2 ss2 where
      p: "set_env key (Some val) e = do { e \<leftarrow> (if gc_request e2 then gc_collect e2 else Some e2); Some (EF_NO_ERR, e) }"
        "store K e2 ss2" "kv ss2 = m(key \<mapsto> val)" "map a_store ss2 = stores_after ss1 j (env_size ?x)" "set_at ss1 j ?x ss2"
        "last_is_complete_del e2 \<longrightarrow> last_is_complete_del e1" "init_ok e2 = init_ok e1" "in_recovery_check e2 = in_recovery_check e1"
      using a(3) by blast
    have "working K e2 ss2" unfolding working_def
      using p a(2) tidy_set_at [OF t js(1) repD(2) [OF r] n(2) js(2) p(5)] alloc_keeps_empty [OF Some repD(2) [OF r] em p(4)]
      by (simp add: working_def)
    from finish_set [OF this] p(1,3,7) a(4) show ?thesis by (auto simp: call)
  qed
qed

lemma get_value_lemma:
  assumes h: "holds K e m" and k: "key \<in> K"
  shows "\<exists>e'. flash_get_env_blob key buf_len env e = Some (case m key of
      Some v \<Rightarrow> (min buf_len (length v), take buf_len v, Some (of_nat (length v)), e')
    | None \<Rightarrow> (0, [], None, e')) \<and> holds K e' m \<and> chip e' = chip e \<and> gc_request e' = gc_request e"
proof -
  from h obtain ss where w: "working K e ss" "kv ss = m" and i: "init_ok e" by (auto simp: holds_def)
  have "store K e ss" using w(1) by (simp add: working_def)
  from get_env_returns [OF this k, of buf_len env] w(2) obtain e' t where
    g: "get_env key buf_len env e = Some (case m key of
      Some v \<Rightarrow> (min buf_len (length v), take buf_len v, Some (of_nat (length v)), e')
    | None \<Rightarrow> (0, [], None, e'))" "store K e' ss" "e' = e\<lparr>env_cache_table := t\<rparr>" by blast
  have "holds K e' m" using w i g(2,3) by (auto simp: holds_def working_def)
  with g i show ?thesis by (intro exI [of _ e']) (simp add: flash_get_env_blob_def)
qed

lemma delete_value_lemma:
  assumes h: "holds K e m" and k: "key \<in> K"
  shows "\<exists>e'. flash_del_env key e = Some (if m key = None then EF_ENV_NAME_ERR else EF_NO_ERR, e') \<and>
    holds K e' (m(key := None)) \<and> gc_request e' = gc_request e"
proof -
  from h obtain ss where w: "working K e ss" "kv ss = m" and i: "init_ok e" by (auto simp: holds_def)
  have s: "store K e ss" "\<not> last_is_complete_del e" and len: "length ss = 4"
    using w(1) by (simp_all add: working_def store_def rep_def)
  from del_env_removes [OF s(1) k s(2)] w(2) obtain e' ss' where
    d: "del_env key True e = Some (if m key = None then EF_ENV_NAME_ERR else EF_NO_ERR, e')" "store K e' ss'"
      "kv ss' = m(key := None)" "gc_request e' = gc_request e" "init_ok e' = init_ok e"
      "in_recovery_check e' = in_recovery_check e" "\<not> last_is_complete_del e'"
      "ss' = ss \<or> (\<exists>i pre x. placed ss i pre x ENV_WRITE \<and> ss' = with_status ss i (length pre) ENV_DELETED)"
    by blast
  have t: "tidy ss'" using d(8) tidy_deleted w(1) by (auto simp: working_def)
  have "map a_store ss' = map a_store ss" using d(8) by auto
  moreover have "length ss' = 4" using d(2) by (simp add: store_def rep_def)
  ultimately have "a_store (ss' ! k) = a_store (ss ! k)" if "k < 4" for k using that len by (metis nth_map)
  then have "has_empty ss'" using w(1) unfolding working_def has_empty_def by metis
  with t w(1) d i have "holds K e' (m(key := None))" by (auto simp: holds_def working_def)
  with d(1,4) i show ?thesis by (simp add: flash_del_env_def)
qed

end
