(* ===== verification/Ef_Load.thy ===== *)
theory Ef_Load
  imports Ef_Value
begin

text \<open>
  Start-up: a store that was left in order is loaded as it is, so every value survives a restart, and a chip without
  a store gets the default set.
\<close>

section \<open>Iterations that find nothing to do\<close>

lemma sector_loop_idle:
  assumes r: "rep e ss" and cb: "\<And>i sm. i < 4 \<Longrightarrow> cb (meta_of sm i (ss ! i)) x e = Some (False, x, e)"
  shows "\<lbrakk>sectors_at i sm; i \<le> 4\<rbrakk> \<Longrightarrow> \<exists>sm'. sector_loop SECTOR_STORE_UNUSED cb False sm x e = Some (sm', x, e)"
proof (induction "4 - i" arbitrary: i sm)
  case 0
  then show ?case by (subst sector_loop.simps) (simp add: sectors_at_def)
next
  case (Suc d)
  then have i: "i < 4" and d: "d = 4 - Suc i" and le: "Suc i \<le> 4" by simp_all
  have na: "get_next_sector_addr sm = sec i" "sec i \<noteq> FAILED_ADDR" using Suc.prems i by (simp_all add: sectors_at_def)
  from Suc.hyps(1) [OF d sectors_at_next [OF i, of sm "ss ! i"] le] show ?case
    by (subst sector_loop.simps) (simp add: na read_sector_hdr [OF r i] cb [OF i])
qed

lemma sector_iterator_idle:
  assumes "rep e ss" "\<And>i sm. i < 4 \<Longrightarrow> cb (meta_of sm i (ss ! i)) x e = Some (False, x, e)"
  shows "\<exists>sm'. sector_iterator sm SECTOR_STORE_UNUSED x cb False e = Some (sm', x, e)"
  unfolding sector_iterator_def
  by (rule sector_loop_idle [where cb = cb and x = x and i = 0 and ss = ss]) (use assms in \<open>simp_all add: sectors_at_first\<close>)

lemma env_walk_idle:
  assumes r: "rep e ss" and i: "i < 4" and sm: "s_addr sm = sec i" "s_store sm \<noteq> SECTOR_STORE_EMPTY"
    and cb: "\<And>es y st env. (y, st) \<in> set (a_envs (ss ! i)) \<Longrightarrow> cb (node_of env (pos i es) y st) x e = Some (False, x, e)"
  shows "\<lbrakk>a_envs (ss ! i) = es @ es'; es @ es' \<noteq> []; walk_at i es env\<rbrakk> \<Longrightarrow>
    \<exists>env'. env_walk cb sm env x e = Some (False, env', x, e)"
proof (induction es' arbitrary: es env)
  case Nil
  with walk_done [OF r i sm] show ?case by (simp add: env_walk.simps)
next
  case (Cons q es')
  obtain y st where q: "q = (y, st)" by (cases q)
  note step = walk_step [OF r i sm Cons.prems(1) [unfolded q] Cons.prems(3)]
  have "a_envs (ss ! i) = (es @ [(y, st)]) @ es'" "(es @ [(y, st)]) @ es' \<noteq> []" using Cons.prems(1) q by simp_all
  from Cons.IH [OF this walk_node, of env] obtain env' where
    "env_walk cb sm (node_of env (pos i es) y st) x e = Some (False, env', x, e)" by blast
  moreover have "cb (node_of env (pos i es) y st) x e = Some (False, x, e)" using Cons.prems(1) q by (intro cb) simp
  ultimately show ?case by (subst env_walk.simps) (simp add: step)
qed

lemma env_sectors_idle:
  assumes r: "rep e ss"
    and cb: "\<And>i es y st env. \<lbrakk>i < 4; (y, st) \<in> set (a_envs (ss ! i))\<rbrakk> \<Longrightarrow> cb (node_of env (pos i es) y st) x e = Some (False, x, e)"
  shows "\<lbrakk>sectors_at i sm; i \<le> 4\<rbrakk> \<Longrightarrow> \<exists>env'. env_sectors cb sm env x e = Some (env', x, e)"
proof (induction "4 - i" arbitrary: i sm env)
  case 0
  then show ?case by (subst env_sectors.simps) (simp add: sectors_at_def)
next
  case (Suc d)
  then have i: "i < 4" and d: "d = 4 - Suc i" and le: "Suc i \<le> 4" by simp_all
  have na: "get_next_sector_addr sm = sec i" "sec i \<noteq> FAILED_ADDR" using Suc.prems i by (simp_all add: sectors_at_def)
  let ?m = "meta_of sm i (ss ! i)"
  have m: "s_addr ?m = sec i" "s_store ?m = a_store (ss ! i)" by (simp_all add: meta_of_def)
  note IH = Suc.hyps(1) [OF d sectors_at_next [OF i, of sm "ss ! i"] le]
  show ?case
  proof (cases "a_store (ss ! i) = SECTOR_STORE_USING \<or> a_store (ss ! i) = SECTOR_STORE_FULL")
    case True
    then have "[] @ a_envs (ss ! i) \<noteq> []" "s_store ?m \<noteq> SECTOR_STORE_EMPTY"
      using repD(5) [OF r i] m by (auto simp: shape_def)
    then have "\<exists>env'. env_walk cb ?m (env\<lparr>n_start := FAILED_ADDR\<rparr>) x e = Some (False, env', x, e)"
      by (intro env_walk_idle [where cb = cb and x = x and es = "[]" and es' = "a_envs (ss ! i)", OF r i m(1)])
        (use cb i in \<open>simp_all add: walk_first\<close>)
    then obtain env' where "env_walk cb ?m (env\<lparr>n_start := FAILED_ADDR\<rparr>) x e = Some (False, env', x, e)" by blast
    with IH [of env'] True show ?thesis
      by (subst env_sectors.simps) (simp add: na read_sector_hdr [OF r i] m)
  next
    case False
    with IH [of env] show ?thesis by (subst env_sectors.simps) (simp add: na read_sector_hdr [OF r i] m)
  qed
qed

section \<open>Loading a store that is in order\<close>

lemma meta_of_simps: "check_ok (meta_of sm i s)" "s_dirty (meta_of sm i s) = a_dirty s"
  by (simp_all add: meta_of_def)

lemma finish_load:
  assumes r: "rep e ss" and t: "tidy ss" and g: "\<not> gc_request e"
  shows "\<exists>sm'. sector_iterator sm SECTOR_STORE_UNUSED () check_and_recovery_gc_cb False e = Some (sm', (), e)"
    "recovery_loop env e = Some e"
proof -
  show "\<exists>sm'. sector_iterator sm SECTOR_STORE_UNUSED () check_and_recovery_gc_cb False e = Some (sm', (), e)"
    using t by (intro sector_iterator_idle [OF r]) (auto simp: check_and_recovery_gc_cb_def meta_of_simps tidy_def tidy_sec_def)
  have "check_and_recovery_env_cb (node_of env (pos i es) y st) () e = Some (False, (), e)"
    if "i < 4" "(y, st) \<in> set (a_envs (ss ! i))" for i es y st env
  proof -
    have "st = ENV_WRITE \<or> st = ENV_DELETED" using t that unfolding tidy_def tidy_sec_def by (metis snd_conv)
    then show ?thesis by (auto simp: check_and_recovery_env_cb_def node_of_def)
  qed
  then have "\<exists>env'. env_sectors check_and_recovery_env_cb blank_sector env () e = Some (env', (), e)"
    by (intro env_sectors_idle [where cb = check_and_recovery_env_cb and x = "()" and i = 0, OF r])
      (simp_all add: sectors_at_first blank_sector_def)
  then obtain env' where "env_iterator check_and_recovery_env_cb env () e = Some (env', (), e)"
    by (auto simp: env_iterator_def)
  then show "recovery_loop env e = Some e" using g by (subst recovery_loop.simps) simp
qed

lemma load_spec:
  assumes r: "rep e ss" and t: "tidy ss" and g: "\<not> gc_request e"
  shows "ef_load_env e = Some (EF_NO_ERR, e\<lparr>in_recovery_check := False\<rparr>)"
proof -
  let ?e = "e\<lparr>in_recovery_check := True\<rparr>"
  have r1: "rep ?e ss" using r by simp
  obtain sm1 where 1: "sector_iterator blank_sector SECTOR_STORE_UNUSED 0 check_sec_hdr_cb False ?e = Some (sm1, 0, ?e)"
    using sector_iterator_idle [OF r1, of check_sec_hdr_cb 0 blank_sector] by (auto simp: check_sec_hdr_cb_def meta_of_simps)
  have g1: "\<not> gc_request ?e" using g by simp
  from finish_load(1) [OF r1 t g1, of sm1] obtain sm2 where
    2: "sector_iterator sm1 SECTOR_STORE_UNUSED () check_and_recovery_gc_cb False ?e = Some (sm2, (), ?e)" by blast
  show ?thesis using 1 2 finish_load(2) [OF r1 t g1, of blank_node] by (simp add: ef_load_env_def)
qed

section \<open>A chip without a store\<close>

text \<open>No sector has the magic word.\<close>

definition no_magic :: "(nat \<Rightarrow> byte) \<Rightarrow> nat \<Rightarrow> bool" where
  "no_magic m j \<longleftrightarrow> le32 (bytes_at m (4096 * j) 16) 4 \<noteq> SECTOR_MAGIC_WORD"

lemma read_no_magic:
  assumes i: "i < 4" and m: "no_magic (chip e) i"
  shows "\<exists>w. read_sector_meta_data (sec i) sm False e =
    Some (EF_ENV_INIT_FAILED, sm\<lparr>s_addr := sec i, s_magic := w, check_ok := False, s_combined := SECTOR_NOT_COMBINED\<rparr>, e)"
proof -
  have "ef_port_read e (sec i) 16 = bytes_at (chip e) (4096 * i) 16" using i by (simp add: ef_port_read_in)
  then show ?thesis using m i
    by (intro exI [of _ "le32 (bytes_at (chip e) (4096 * i) 16) 4"]) (simp add: read_sector_meta_data_def no_magic_def)
qed

lemma sectors_at_bad:
  "i < 4 \<Longrightarrow> sectors_at (Suc i) (sm\<lparr>s_addr := sec i, s_magic := w, check_ok := False, s_combined := SECTOR_NOT_COMBINED\<rparr>)"
  by (simp add: sectors_at_def next_sector [of _ i])

lemma no_caches_format:
  assumes c: "no_caches e" and i: "i < 4"
  shows "no_caches ((update_sector_cache (sec i) (sec i + SECTOR_SIZE) e)\<lparr>ops := n, chip := m\<rparr>)"
proof -
  have ok: "sector_cache_ok (sector_cache_table e)" "\<forall>j < 4. get_sector_from_cache e (sec j) = None"
    using c by (simp_all add: no_caches_def)
  obtain t where t: "update_sector_cache (sec i) (sec i + SECTOR_SIZE) e = e\<lparr>sector_cache_table := t\<rparr>"
    using update_sector_cache_eq by blast
  from sector_cache_none [OF ok i] c show ?thesis by (simp add: no_caches_def t get_sector_from_cache_def)
qed

lemma check_loop_blank:
  "\<lbrakk>sound e; no_caches e; \<forall>j. i \<le> j \<and> j < 4 \<longrightarrow> no_magic (chip e) j; sectors_at i sm; i \<le> 4\<rbrakk> \<Longrightarrow>
    \<exists>sm' n m t. sector_loop SECTOR_STORE_UNUSED check_sec_hdr_cb False sm c e =
      Some (sm', c + (4 - i), e\<lparr>ops := n, chip := m, sector_cache_table := t\<rparr>) \<and>
    no_caches (e\<lparr>ops := n, chip := m, sector_cache_table := t\<rparr>)"
proof (induction "4 - i" arbitrary: i sm c e)
  case 0
  then have "sector_loop SECTOR_STORE_UNUSED check_sec_hdr_cb False sm c e = Some (sm, c, e)"
    by (subst sector_loop.simps) (simp add: sectors_at_def)
  with 0 show ?case
    by (intro exI [of _ sm] exI [of _ "ops e"] exI [of _ "chip e"] exI [of _ "sector_cache_table e"]) simp
next
  case (Suc d)
  have i: "i < 4" and d: "d = 4 - Suc i" and le: "Suc i \<le> 4" using Suc.hyps(2) by simp_all
  have na: "get_next_sector_addr sm = sec i" "sec i \<noteq> FAILED_ADDR" using Suc.prems i by (simp_all add: sectors_at_def)
  from read_no_magic [OF i, of e sm] Suc.prems(3) i obtain w where
    rd: "read_sector_meta_data (sec i) sm False e =
      Some (EF_ENV_INIT_FAILED, sm\<lparr>s_addr := sec i, s_magic := w, check_ok := False, s_combined := SECTOR_NOT_COMBINED\<rparr>, e)" by auto
  let ?sm = "sm\<lparr>s_addr := sec i, s_magic := w, check_ok := False, s_combined := SECTOR_NOT_COMBINED\<rparr>"
  from format_sector_spec [OF Suc.prems(1) i] obtain n m where
    f: "format_sector (sec i) SECTOR_NOT_COMBINED e =
      Some (EF_NO_ERR, (update_sector_cache (sec i) (sec i + SECTOR_SIZE) e)\<lparr>ops := n, chip := m\<rparr>)"
    "\<And>y. y < 4096 * i \<or> 4096 * i + 4096 \<le> y \<Longrightarrow> m y = chip e y" by blast
  let ?e = "(update_sector_cache (sec i) (sec i + SECTOR_SIZE) e)\<lparr>ops := n, chip := m\<rparr>"
  have cb: "check_sec_hdr_cb ?sm c e = Some (False, c + 1, ?e)" using f(1) by (simp add: check_sec_hdr_cb_def)
  have "bytes_at (chip ?e) (4096 * j) 16 = bytes_at (chip e) (4096 * j) 16" if "Suc i \<le> j" "j < 4" for j
    using f(2) that by (auto simp: bytes_at_def)
  then have nm: "\<forall>j. Suc i \<le> j \<and> j < 4 \<longrightarrow> no_magic (chip ?e) j" using Suc.prems(3) by (simp add: no_magic_def)
  have snd: "sound ?e" using Suc.prems(1) by (simp add: sound_def update_sector_cache_def)
  from Suc.hyps(1) [OF d snd no_caches_format [OF Suc.prems(2) i] nm sectors_at_bad [OF i, where sm = sm and w = w] le, of "c + 1"]
  obtain sm' n' m' t' where
    l: "sector_loop SECTOR_STORE_UNUSED check_sec_hdr_cb False ?sm (c + 1) ?e =
      Some (sm', c + 1 + (4 - Suc i), ?e\<lparr>ops := n', chip := m', sector_cache_table := t'\<rparr>)"
      "no_caches (?e\<lparr>ops := n', chip := m', sector_cache_table := t'\<rparr>)" by blast
  have eq: "?e\<lparr>ops := n', chip := m', sector_cache_table := t'\<rparr> = e\<lparr>ops := n', chip := m', sector_cache_table := t'\<rparr>"
    by (simp add: update_sector_cache_def)
  have "sector_loop SECTOR_STORE_UNUSED check_sec_hdr_cb False sm c e
      = sector_loop SECTOR_STORE_UNUSED check_sec_hdr_cb False ?sm (c + 1) ?e"
    using cb by (subst sector_loop.simps) (simp add: na rd Let_def)
  moreover have "c + 1 + (4 - Suc i) = c + (4 - i)" using i by simp
  ultimately have "sector_loop SECTOR_STORE_UNUSED check_sec_hdr_cb False sm c e =
      Some (sm', c + (4 - i), e\<lparr>ops := n', chip := m', sector_cache_table := t'\<rparr>)"
    using l(1) unfolding eq by metis
  with l(2) eq show ?case by metis
qed

section \<open>Switching the unit on\<close>

text \<open>The unit as it is switched on over a chip: nothing cached, the store not yet loaded.\<close>

definition cold_unit :: "(nat \<Rightarrow> byte) \<Rightarrow> ef_st" where
  "cold_unit m = (raw_unit m)\<lparr>init_ok := False\<rparr>"

lemma cold_unit_simps [simp]: "chip (cold_unit m) = m" "sound (cold_unit m)" "no_caches (cold_unit m)" "\<not> gc_request (cold_unit m)"
  "\<not> in_recovery_check (cold_unit m)" "\<not> last_is_complete_del (cold_unit m)" "\<not> init_ok (cold_unit m)"
proof -
  have "get_sector_from_cache (cold_unit m) a = get_sector_from_cache (raw_unit m) a" for a
    by (simp add: get_sector_from_cache_def cold_unit_def)
  then show "no_caches (cold_unit m)" using raw_unit_caches [of m] by (simp add: no_caches_def cold_unit_def)
qed (simp_all add: cold_unit_def raw_unit_def sound_def)

lemma init_tables: "e\<lparr>sector_cache_table := map (\<lambda>n. n\<lparr>sec_addr := FAILED_ADDR\<rparr>) (sector_cache_table e),
    env_cache_table := map (\<lambda>n. n\<lparr>node_addr := FAILED_ADDR\<rparr>) (env_cache_table e)\<rparr> = cold_unit m"
  if "e = cold_unit m"
  by (simp add: that cold_unit_def raw_unit_def)

lemma cold_unit_store:
  assumes s: "store K e ss"
  shows "store K (cold_unit (chip e)) ss"
proof -
  have r: "rep e ss" using s by (simp add: store_def)
  have c: "no_caches (cold_unit (chip e))" by simp
  have "rep (cold_unit (chip e)) ss" using r c by (auto simp: rep_def sector_cache_rep_def no_caches_def sec_def)
  moreover have "env_cache_rep (cold_unit (chip e)) ss" using c by (simp add: env_cache_rep_def no_caches_def)
  ultimately show ?thesis using s by (simp add: store_def)
qed

lemma restart_lemma:
  assumes h: "holds K e m"
  shows "\<exists>e'. ef_env_init (cold_unit (chip e)) = Some (EF_NO_ERR, e') \<and> healthy K e' m \<and> chip e' = chip e"
proof -
  from h obtain ss where w: "working K e ss" "kv ss = m" by (auto simp: holds_def)
  let ?p = "cold_unit (chip e)"
  have s: "store K ?p ss" using w(1) cold_unit_store by (simp add: working_def)
  then have r: "rep ?p ss" by (simp add: store_def)
  have t: "tidy ss" using w(1) by (simp add: working_def)
  have "ef_load_env ?p = Some (EF_NO_ERR, ?p\<lparr>in_recovery_check := False\<rparr>)" by (rule load_spec [OF r t]) simp
  moreover have same: "?p\<lparr>in_recovery_check := False\<rparr> = ?p" by (simp add: cold_unit_def raw_unit_def)
  ultimately have i: "ef_env_init ?p = Some (EF_NO_ERR, ?p\<lparr>init_ok := True\<rparr>)" by (simp add: ef_env_init_def init_tables)
  have "store K (?p\<lparr>init_ok := True\<rparr>) ss" using s store_cong [of "?p\<lparr>init_ok := True\<rparr>" ?p] by simp
  then have "healthy K (?p\<lparr>init_ok := True\<rparr>) m" using w by (auto simp: healthy_def holds_def working_def)
  with i show ?thesis by (intro exI [of _ "?p\<lparr>init_ok := True\<rparr>"]) simp
qed

lemma default_working:
  assumes "sound e" "no_caches e" "\<not> gc_request e" "names_ok K" "boot_times_key \<in> K" "\<not> last_is_complete_del e"
  shows "\<exists>e' ss. flash_env_set_default e = Some (EF_NO_ERR, e') \<and> store K e' ss \<and> tidy ss \<and> has_empty ss \<and>
    kv ss = [boot_times_key \<mapsto> [0x30]] \<and> \<not> gc_request e' \<and> \<not> last_is_complete_del e' \<and> init_ok e' = init_ok e \<and>
    in_recovery_check e' = in_recovery_check e"
proof -
  let ?x = "(boot_times_key, [0x30 :: byte])"
  let ?ss = "(replicate 4 empty_sec)[0 := created empty_sec ?x]"
  have "env_size ?x = 35" by (simp add: env_size_def boot_times_key_def)
  then have "tidy_sec (created empty_sec ?x)" by (intro tidy_created) simp_all
  then have "tidy ?ss" by (auto simp: tidy_def nth_list_update)
  moreover have "has_empty ?ss" unfolding has_empty_def by (intro exI [of _ 1]) simp
  ultimately show ?thesis using default_set_store [OF assms(1-5)] assms(6) by blast
qed

lemma first_start_lemma:
  assumes m: "\<forall>j < 4. no_magic m j" and K: "names_ok K" "boot_times_key \<in> K"
  shows "\<exists>e'. ef_env_init (cold_unit m) = Some (EF_NO_ERR, e') \<and> healthy K e' [boot_times_key \<mapsto> [0x30]]"
proof -
  let ?p = "(cold_unit m)\<lparr>in_recovery_check := True\<rparr>"
  have "sound ?p" by (simp add: cold_unit_def raw_unit_def sound_def)
  moreover have c: "no_caches ?p" using cold_unit_simps(3) [of m] unfolding no_caches_def get_sector_from_cache_def by simp
  moreover have "\<forall>j. 0 \<le> j \<and> j < 4 \<longrightarrow> no_magic (chip ?p) j" using m by simp
  ultimately obtain sm1 n q t where
    1: "sector_iterator blank_sector SECTOR_STORE_UNUSED 0 check_sec_hdr_cb False ?p =
      Some (sm1, 4, ?p\<lparr>ops := n, chip := q, sector_cache_table := t\<rparr>)"
      "no_caches (?p\<lparr>ops := n, chip := q, sector_cache_table := t\<rparr>)"
    using check_loop_blank [of ?p 0 "blank_sector\<lparr>s_addr := FAILED_ADDR\<rparr>" 0] by (auto simp: sector_iterator_def sectors_at_first)
  let ?e = "?p\<lparr>ops := n, chip := q, sector_cache_table := t\<rparr>"
  have "sound ?e" "\<not> gc_request ?e" "\<not> last_is_complete_del ?e" by (simp_all add: cold_unit_def raw_unit_def sound_def)
  from default_working [OF this(1) 1(2) this(2) K this(3)] obtain e' ss where
    2: "flash_env_set_default ?e = Some (EF_NO_ERR, e')" "store K e' ss" "tidy ss" "has_empty ss"
      "kv ss = [boot_times_key \<mapsto> [0x30]]" "\<not> gc_request e'" "\<not> last_is_complete_del e'" by blast
  have r: "rep e' ss" using 2(2) by (simp add: store_def)
  from finish_load(1) [OF r 2(3,6), of sm1] obtain sm2 where
    3: "sector_iterator sm1 SECTOR_STORE_UNUSED () check_and_recovery_gc_cb False e' = Some (sm2, (), e')" by blast
  have "ef_load_env (cold_unit m) = Some (EF_NO_ERR, e'\<lparr>in_recovery_check := False\<rparr>)"
    using 1(1) 2(1) 3 finish_load(2) [OF r 2(3,6), of blank_node] by (simp add: ef_load_env_def)
  then have i: "ef_env_init (cold_unit m) = Some (EF_NO_ERR, e'\<lparr>in_recovery_check := False, init_ok := True\<rparr>)"
    by (simp add: ef_env_init_def init_tables)
  let ?f = "e'\<lparr>in_recovery_check := False, init_ok := True\<rparr>"
  have "store K ?f ss" using 2(2) store_cong [of ?f e'] by simp
  then have "healthy K ?f [boot_times_key \<mapsto> [0x30]]" using 2 by (auto simp: healthy_def holds_def working_def)
  with i show ?thesis by blast
qed

end
