(* ===== verification/Ef_Recover.thy ===== *)
theory Ef_Recover
  imports Ef_Load
begin

text \<open>
  A loss of power in the middle of a change: when the old entry was marked and the new one not yet begun, the next
  start moves the old entry and the value is the old one.
\<close>

section \<open>An iteration with one thing to do\<close>

lemma env_walk_prefix:
  assumes r: "rep e ss" and i: "i < 4" and sm: "s_addr sm = sec i" "s_store sm \<noteq> SECTOR_STORE_EMPTY"
  shows "\<lbrakk>a_envs (ss ! i) = es @ es' @ rest; walk_at i es env;
      \<And>es y st env. (y, st) \<in> set es' \<Longrightarrow> cb (node_of env (pos i es) y st) x e = Some (False, x, e)\<rbrakk> \<Longrightarrow>
    \<exists>env'. env_walk cb sm env x e = env_walk cb sm env' x e \<and> walk_at i (es @ es') env'"
proof (induction es' arbitrary: es env)
  case (Cons q es')
  obtain y st where q: "q = (y, st)" by (cases q)
  have p: "a_envs (ss ! i) = es @ (y, st) # es' @ rest" using Cons.prems(1) q by simp
  note step = walk_step [OF r i sm p Cons.prems(2)]
  have "a_envs (ss ! i) = (es @ [(y, st)]) @ es' @ rest" using p by simp
  from Cons.IH [OF this walk_node Cons.prems(3)] obtain env' where
    n: "env_walk cb sm (node_of env (pos i es) y st) x e = env_walk cb sm env' x e" "walk_at i (es @ q # es') env'"
    using q by auto
  have "cb (node_of env (pos i es) y st) x e = Some (False, x, e)" using q by (intro Cons.prems(3)) simp
  then have "env_walk cb sm env x e = env_walk cb sm (node_of env (pos i es) y st) x e"
    by (subst env_walk.simps) (simp add: step)
  with n show ?case by auto
qed auto

lemma env_sectors_prefix:
  assumes r: "rep e ss" and i: "i < 4"
    and cb: "\<And>k es y st env. \<lbrakk>k < i; (y, st) \<in> set (a_envs (ss ! k))\<rbrakk> \<Longrightarrow> cb (node_of env (pos k es) y st) x e = Some (False, x, e)"
  shows "\<lbrakk>sectors_at k sm; k \<le> i\<rbrakk> \<Longrightarrow> \<exists>sm' env'. env_sectors cb sm env x e = env_sectors cb sm' env' x e \<and> sectors_at i sm'"
proof (induction "i - k" arbitrary: k sm env)
  case (Suc d)
  then have k: "k < i" "k < 4" and d: "d = i - Suc k" and le: "Suc k \<le> i" using i by simp_all
  have na: "get_next_sector_addr sm = sec k" "sec k \<noteq> FAILED_ADDR" using Suc.prems k by (simp_all add: sectors_at_def)
  let ?m = "meta_of sm k (ss ! k)"
  have m: "s_addr ?m = sec k" "s_store ?m = a_store (ss ! k)" by (simp_all add: meta_of_def)
  have "\<exists>env'. env_sectors cb sm env x e = env_sectors cb ?m env' x e"
  proof (cases "a_store (ss ! k) = SECTOR_STORE_USING \<or> a_store (ss ! k) = SECTOR_STORE_FULL")
    case True
    then have "a_envs (ss ! k) \<noteq> []" "s_store ?m \<noteq> SECTOR_STORE_EMPTY" using repD(5) [OF r k(2)] m by (auto simp: shape_def)
    then have "\<exists>env'. env_walk cb ?m (env\<lparr>n_start := FAILED_ADDR\<rparr>) x e = Some (False, env', x, e)"
      by (intro env_walk_idle [where cb = cb and x = x and es = "[]" and es' = "a_envs (ss ! k)", OF r k(2) m(1)])
        (use cb k in \<open>simp_all add: walk_first\<close>)
    then obtain env' where "env_walk cb ?m (env\<lparr>n_start := FAILED_ADDR\<rparr>) x e = Some (False, env', x, e)" by blast
    then have "env_sectors cb sm env x e = env_sectors cb ?m env' x e"
      using True by (subst env_sectors.simps) (simp add: na read_sector_hdr [OF r k(2)] m)
    then show ?thesis by blast
  next
    case False
    then have "env_sectors cb sm env x e = env_sectors cb ?m env x e"
      by (subst env_sectors.simps) (simp add: na read_sector_hdr [OF r k(2)] m)
    then show ?thesis by blast
  qed
  with Suc.hyps(1) [OF d sectors_at_next [OF k(2), of sm "ss ! k"] le] show ?case by metis
qed auto

lemma env_sectors_hit:
  assumes r: "rep e ss" and i: "i < 4" and q: "a_envs (ss ! i) = pre @ (y, st) # post"
    and idle: "\<And>k es z st env. \<lbrakk>k < i; (z, st) \<in> set (a_envs (ss ! k))\<rbrakk> \<Longrightarrow> cb (node_of env (pos k es) z st) x e = Some (False, x, e)"
      "\<And>es z st env. (z, st) \<in> set pre \<Longrightarrow> cb (node_of env (pos i es) z st) x e = Some (False, x, e)"
    and hit: "\<And>env. cb (node_of env (pos i pre) y st) x e = Some (False, x, e')"
    and r': "rep e' ss'" and q': "a_envs (ss' ! i) = pre @ (y, st') # post'"
    and idle': "\<And>k es z st env. \<lbrakk>k < 4; (z, st) \<in> set (a_envs (ss' ! k))\<rbrakk> \<Longrightarrow> cb (node_of env (pos k es) z st) x e' = Some (False, x, e')"
  shows "\<exists>env'. env_iterator cb env x e = Some (env', x, e')"
proof -
  have "sectors_at 0 blank_sector" by (simp add: sectors_at_first blank_sector_def)
  from env_sectors_prefix [where cb = cb and x = x, OF r i idle(1) this, of env] obtain sm env1 where
    1: "env_sectors cb blank_sector env x e = env_sectors cb sm env1 x e" "sectors_at i sm" by auto
  have na: "get_next_sector_addr sm = sec i" "sec i \<noteq> FAILED_ADDR" using 1(2) i by (simp_all add: sectors_at_def)
  let ?m = "meta_of sm i (ss ! i)"
  have m: "s_addr ?m = sec i" "s_store ?m = a_store (ss ! i)" by (simp_all add: meta_of_def)
  have st: "a_store (ss ! i) = SECTOR_STORE_USING \<or> a_store (ss ! i) = SECTOR_STORE_FULL" "s_store ?m \<noteq> SECTOR_STORE_EMPTY"
    using repD(5) [OF r i] q m by (cases "a_store (ss ! i)"; simp add: shape_def)+
  have w: "walk_at i [] (env1\<lparr>n_start := FAILED_ADDR\<rparr>)" by (simp add: walk_first)
  have q0: "a_envs (ss ! i) = [] @ pre @ (y, st) # post" using q by simp
  from env_walk_prefix [where cb = cb and x = x, OF r i m(1) st(2) q0 w] idle(2) obtain env2 where
    2: "env_walk cb ?m (env1\<lparr>n_start := FAILED_ADDR\<rparr>) x e = env_walk cb ?m env2 x e" "walk_at i pre env2" by auto
  note step = walk_step [OF r i m(1) st(2) q 2(2)]
  have 3: "env_walk cb ?m env2 x e = env_walk cb ?m (node_of env2 (pos i pre) y st) x e'"
    using hit by (subst env_walk.simps) (simp add: step)
  have wn: "walk_at i (pre @ [(y, st')]) (node_of env2 (pos i pre) y st)" by (simp add: walk_at_def node_of_def)
  have "\<exists>env'. env_walk cb ?m (node_of env2 (pos i pre) y st) x e' = Some (False, env', x, e')"
    by (rule env_walk_idle [where cb = cb and x = x and es = "pre @ [(y, st')]" and es' = post', OF r' i m(1) st(2)])
      (use idle' i q' wn in simp_all)
  then obtain env3 where 4: "env_walk cb ?m (node_of env2 (pos i pre) y st) x e' = Some (False, env3, x, e')" by blast
  have 5: "env_sectors cb sm env1 x e = env_sectors cb ?m env3 x e'"
    using st(1) 2(1) 3 4 by (subst env_sectors.simps) (simp add: na read_sector_hdr [OF r i] m)
  have le: "Suc i \<le> 4" using i by simp
  from env_sectors_idle [where cb = cb and x = x and i = "Suc i", OF r' idle' sectors_at_next [OF i] le] obtain env4 where
    "env_sectors cb ?m env3 x e' = Some (env4, x, e')" by blast
  with 1(1) 5 show ?thesis by (simp add: env_iterator_def)
qed

section \<open>The store while an entry is marked\<close>

text \<open>The entry \<open>y\<close> behind \<open>pre\<close> in sector \<open>i\<close> is marked, the sector may not yet be dirty.\<close>

definition marked :: "asec list \<Rightarrow> nat \<Rightarrow> (entry \<times> env_status) list \<Rightarrow> entry \<Rightarrow> asec list \<Rightarrow> bool" where
  "marked ss i pre y ss' \<longleftrightarrow> (\<exists>post. a_envs (ss ! i) = pre @ (y, ENV_WRITE) # post \<and> i < length ss \<and>
     (\<exists>s \<in> {(ss ! i)\<lparr>a_envs := pre @ (y, ENV_PRE_DELETE) # post\<rparr>, dirtied ((ss ! i)\<lparr>a_envs := pre @ (y, ENV_PRE_DELETE) # post\<rparr>)}.
       ss' = ss[i := s]))"

lemma markedD:
  assumes "marked ss i pre y ss'"
  shows "placed ss i pre y ENV_WRITE" "placed ss' i pre y ENV_PRE_DELETE" "map a_store ss' = map a_store ss"
    "used (ss' ! k) = used (ss ! k)" "fits False n st (ss' ! k) = fits False n st (ss ! k)"
    "lives ss' = lives (with_status ss i (length pre) ENV_PRE_DELETE)"
    "k \<noteq> i \<Longrightarrow> ss' ! k = ss ! k" "length ss' = length ss" "a_dirty (ss' ! k) = SECTOR_DIRTY_GC \<Longrightarrow> a_dirty (ss ! k) = SECTOR_DIRTY_GC"
    "j < length ss \<Longrightarrow> with_status (ss'[j := created (ss' ! j) x]) i (length pre) ENV_DELETED =
      with_status (ss[j := created (ss ! j) x]) i (length pre) ENV_DELETED"
proof -
  obtain post s where q: "a_envs (ss ! i) = pre @ (y, ENV_WRITE) # post" and i: "i < length ss" and ss': "ss' = ss[i := s]"
    and s: "s = (ss ! i)\<lparr>a_envs := pre @ (y, ENV_PRE_DELETE) # post\<rparr> \<or> s = dirtied ((ss ! i)\<lparr>a_envs := pre @ (y, ENV_PRE_DELETE) # post\<rparr>)"
    using assms unfolding marked_def by blast
  have se: "a_envs s = pre @ (y, ENV_PRE_DELETE) # post" "a_store s = a_store (ss ! i)" "used s = used (ss ! i)"
    using s q by (auto simp: used_def)
  have sd: "a_dirty s = SECTOR_DIRTY_FALSE \<or> a_dirty s = SECTOR_DIRTY_TRUE \<longleftrightarrow>
      a_dirty (ss ! i) = SECTOR_DIRTY_FALSE \<or> a_dirty (ss ! i) = SECTOR_DIRTY_TRUE"
    using s by (cases "a_dirty (ss ! i)") (auto simp: dirtied_def)
  show "placed ss i pre y ENV_WRITE" using q i by (simp add: placed_def)
  show "placed ss' i pre y ENV_PRE_DELETE" using i se by (simp add: placed_def ss')
  show st: "map a_store ss' = map a_store ss"
    unfolding ss' map_update se(2) using i by (metis list_update_id map_update)
  show "used (ss' ! k) = used (ss ! k)" using i se by (cases "k = i") (simp_all add: ss')
  show "fits False n st (ss' ! k) = fits False n st (ss ! k)"
    using i se sd by (cases "k = i") (simp_all add: ss' fits_def)
  show "lives ss' = lives (with_status ss i (length pre) ENV_PRE_DELETE)"
    by (rule lives_same_envs) (use i se in \<open>simp add: ss' with_status_split [OF q] map_update\<close>)
  show "ss' ! k = ss ! k" if "k \<noteq> i" using that by (simp add: ss')
  show "length ss' = length ss" by (simp add: ss')
  show "a_dirty (ss ! k) = SECTOR_DIRTY_GC" if "a_dirty (ss' ! k) = SECTOR_DIRTY_GC"
    using that i s by (cases "k = i") (auto simp: ss' dirtied_def split: if_splits)
  assume j: "j < length ss"
  show "with_status (ss'[j := created (ss' ! j) x]) i (length pre) ENV_DELETED =
      with_status (ss[j := created (ss ! j) x]) i (length pre) ENV_DELETED"
  proof (cases "i = j")
    case False
    then have "ss' ! j = ss ! j" by (simp add: ss')
    moreover have "dirtied (s\<lparr>a_envs := es\<rparr>) = dirtied ((ss ! i)\<lparr>a_envs := es\<rparr>)" for es
      using s by auto
    ultimately show ?thesis using False i se q by (simp add: with_status_def ss' list_update_swap [of i j])
  next
    case True
    have "dirtied ((created s x)\<lparr>a_envs := es\<rparr>) = dirtied ((created (ss ! i) x)\<lparr>a_envs := es\<rparr>)" for es
      using s by (auto simp: created_dirtied created_envs [OF q])
    with True i q se show ?thesis by (simp add: with_status_def ss')
  qed
qed

lemma count_store_same: "map a_store ss' = map a_store ss \<Longrightarrow> count_store st ss' = count_store st ss"
  by (simp add: count_store_map)

lemma alloc_smaller:
  assumes al: "alloc_spec False n ss = Some j" and b: "b \<le> n" and st: "map a_store ss' = map a_store ss"
    and f: "\<And>k st. fits False b st (ss' ! k) = fits False b st (ss ! k)"
  shows "\<exists>j'. alloc_spec False b ss' = Some j'"
proof -
  have m: "List.find (\<lambda>i. fits False b st (ss' ! i)) [0..<4] \<noteq> None"
    if "List.find (\<lambda>i. fits False n st (ss ! i)) [0..<4] \<noteq> None" for st
    using that b by (auto simp: find_upt_None f) (auto simp: fits_def)
  show ?thesis using al m [of SECTOR_STORE_USING] m [of SECTOR_STORE_EMPTY] count_store_same [OF st, of SECTOR_STORE_EMPTY]
    by (auto simp: alloc_spec_def split: option.splits if_splits)
qed

section \<open>The next start\<close>

lemma recover_marked:
  assumes r0: "rep e0 ss" and K: "names_ok K" "fst ` set (lives ss) \<subseteq> K" and d: "distinct (map fst (lives ss))"
    and t: "tidy ss" and em: "has_empty ss" and mk: "marked ss i pre y ss'" and nul: "0 \<notin> set (fst y)"
    and r: "rep e ss'" and al: "alloc_spec False (env_size y) ss' = Some j"
  shows "\<exists>e'. ef_env_init (cold_unit (chip e)) = Some (EF_NO_ERR, e') \<and> healthy K e' (kv ss)"
proof -
  note mD = markedD [OF mk]
  have len: "length ss = 4" by (rule repD(2) [OF r0])
  have i: "i < 4" using mD(1) len by (simp add: placed_def)
  let ?p = "(cold_unit (chip e))\<lparr>in_recovery_check := True\<rparr>"
  have c: "no_caches (cold_unit (chip e))" by simp
  have rc: "rep (cold_unit (chip e)) ss'" using r c by (auto simp: rep_def sector_cache_rep_def no_caches_def sec_def)
  then have rp: "rep ?p ss'" by simp
  have yd: "28 \<le> env_size y"
    using t mD(1) i by (fastforce simp: tidy_def tidy_sec_def placed_def)
  have idle: "check_and_recovery_env_cb (node_of env (pos k es) z st) () e = Some (False, (), e)"
    if "st = ENV_WRITE \<or> st = ENV_DELETED" for e env k es z st
    using that by (auto simp: check_and_recovery_env_cb_def node_of_def)
  have tidy_st: "st = ENV_WRITE \<or> st = ENV_DELETED" if "tidy us" "k < 4" "(z, st) \<in> set (a_envs (us ! k))" for us k z st
    using that unfolding tidy_def tidy_sec_def by (metis snd_conv)
  obtain post where q: "a_envs (ss' ! i) = pre @ (y, ENV_PRE_DELETE) # post" using mD(2) by (auto simp: placed_def)
  obtain post0 where q0: "a_envs (ss ! i) = pre @ (y, ENV_WRITE) # post0" using mD(1) by (auto simp: placed_def)
  have li: "lives ss' = lives (with_status ss i (length pre) ENV_PRE_DELETE)" by (rule mD(6))
  note del = kv_delete [OF d mD(1), of ENV_PRE_DELETE, simplified, folded li]
  have kv': "kv ss' = (kv ss)(fst y := None)" using del(1) li by (simp add: kv_def)
  let ?ss3 = "with_status (ss'[j := created (ss' ! j) y]) i (length pre) ENV_DELETED"
  have "\<exists>e'. move_env (node_of env (pos i pre) y ENV_PRE_DELETE) ?p = Some (EF_NO_ERR, e') \<and> store K e' ?ss3 \<and>
      kv ?ss3 = kv ss \<and> \<not> gc_request e' \<and> \<not> last_is_complete_del e'" for env
  proof -
    have ct: "cache_true (\<lambda>h. h \<noteq> name_hash (fst y)) ?p ss'"
      using c by (simp add: cache_true_def no_caches_def)
    have yk: "fst y \<in> K" using K(2) placed_live [OF mD(1)] by auto
    have nk: "fst y \<notin> fst ` set (lives ss')" using kv' by (simp add: kv_None [symmetric])
    have K1: "fst ` set (lives ss') \<subseteq> K" using del(3) K(2) by auto
    have al': "alloc_spec (gc_request ?p) (env_size y) ss' = Some j" using al by simp
    from move_marked [OF rp ct K(1) K1 del(2) yk nk mD(2) refl al', of env] nul obtain e' where
      m: "move_env (node_of env (pos i pre) y ENV_PRE_DELETE) ?p = Some (EF_NO_ERR, e')" "store K e' ?ss3"
        "kv ?ss3 = (kv ss')(fst y \<mapsto> snd y)" "gc_request e' = gc_request ?p" "\<not> last_is_complete_del e'" by blast
    have "kv ?ss3 = kv ss" using m(3) kv' live_kv [OF d placed_live [OF mD(1)]] by auto
    with m show ?thesis by (intro exI [of _ e']) simp
  qed
  note moves = this
  from moves [of blank_node] obtain e' where m0: "store K e' ?ss3" "kv ?ss3 = kv ss" "\<not> gc_request e'" "\<not> last_is_complete_del e'"
    "move_env (node_of blank_node (pos i pre) y ENV_PRE_DELETE) ?p = Some (EF_NO_ERR, e')" by blast
  have hit: "check_and_recovery_env_cb (node_of env (pos i pre) y ENV_PRE_DELETE) () ?p = Some (False, (), e')" for env
  proof -
    let ?n = "node_of blank_node (pos i pre) y ENV_PRE_DELETE"
    have "n_crc_ok ?n" "n_status ?n = ENV_PRE_DELETE" by (simp_all add: node_of_def)
    then have "check_and_recovery_env_cb ?n () ?p = Some (False, (), e')" using m0(5) by (simp add: check_and_recovery_env_cb_def)
    then show ?thesis by (simp only: node_of_any [of env "pos i pre" y ENV_PRE_DELETE blank_node])
  qed
  have r3: "rep e' ?ss3" using m0(1) by (simp add: store_def)
  note js = alloc_sector [OF al]
  have jl: "j < length ss" using js(1) len by simp
  have "set_at ss j y ?ss3" unfolding set_at_def Let_def mD(10) [OF jl]
    using set_at_eq [OF mD(1) jl, of y, symmetric] mD(1) by blast
  from tidy_set_at [OF t js(1) len yd _ this] js(2) have t3: "tidy ?ss3" by (simp add: mD(4))
  have "map a_store ?ss3 = stores_after ss' j (env_size y)" by (simp add: stores_created)
  moreover have "has_empty ss'" using em has_empty_count len mD(8) count_store_same [OF mD(3)] by simp
  ultimately have em3: "has_empty ?ss3" using alloc_keeps_empty [OF al] mD(8) len by simp
  have q3: "\<exists>post'. a_envs (?ss3 ! i) = pre @ (y, ENV_DELETED) # post'"
  proof -
    have "placed (ss'[j := created (ss' ! j) y]) i pre y ENV_PRE_DELETE" by (rule placed_created [OF mD(2)])
    from placed_with_status [OF this, of ENV_DELETED] show ?thesis by (auto simp: placed_def)
  qed
  then obtain post' where q3: "a_envs (?ss3 ! i) = pre @ (y, ENV_DELETED) # post'" by blast
  have "\<exists>env'. env_iterator check_and_recovery_env_cb blank_node () ?p = Some (env', (), e')"
  proof (rule env_sectors_hit [where cb = check_and_recovery_env_cb and x = "()", OF rp i q _ _ hit r3 q3])
    fix k es z st env assume "k < i" "(z, st) \<in> set (a_envs (ss' ! k))"
    then show "check_and_recovery_env_cb (node_of env (pos k es) z st) () ?p = Some (False, (), ?p)"
      using tidy_st [OF t, of k z st] mD(7) [of k] i by (intro idle) simp
  next
    fix es z st env assume "(z, st) \<in> set pre"
    then show "check_and_recovery_env_cb (node_of env (pos i es) z st) () ?p = Some (False, (), ?p)"
      using tidy_st [OF t i, of z st] q0 by (intro idle) simp
  next
    fix k es z st env assume "k < 4" "(z, st) \<in> set (a_envs (?ss3 ! k))"
    then show "check_and_recovery_env_cb (node_of env (pos k es) z st) () e' = Some (False, (), e')"
      by (intro idle tidy_st [OF t3])
  qed
  then have rec: "recovery_loop blank_node ?p = Some e'" using m0(3) by (subst recovery_loop.simps) auto
  obtain sm1 where 1: "sector_iterator blank_sector SECTOR_STORE_UNUSED 0 check_sec_hdr_cb False ?p = Some (sm1, 0, ?p)"
    using sector_iterator_idle [OF rp, of check_sec_hdr_cb 0 blank_sector] by (auto simp: check_sec_hdr_cb_def meta_of_simps)
  have ng: "a_dirty (ss' ! k) \<noteq> SECTOR_DIRTY_GC" if "k < 4" for k
    using mD(9) t that by (auto simp: tidy_def tidy_sec_def)
  obtain sm2 where 2: "sector_iterator sm1 SECTOR_STORE_UNUSED () check_and_recovery_gc_cb False ?p = Some (sm2, (), ?p)"
    using sector_iterator_idle [OF rp, of check_and_recovery_gc_cb "()" sm1] ng by (auto simp: check_and_recovery_gc_cb_def meta_of_simps)
  let ?f = "e'\<lparr>in_recovery_check := False, init_ok := True\<rparr>"
  have "ef_load_env (cold_unit (chip e)) = Some (EF_NO_ERR, e'\<lparr>in_recovery_check := False\<rparr>)"
    using 1 2 rec by (simp add: ef_load_env_def)
  then have init: "ef_env_init (cold_unit (chip e)) = Some (EF_NO_ERR, ?f)" by (simp add: ef_env_init_def init_tables)
  have "store K ?f ?ss3" using m0(1) store_cong [of ?f e'] by simp
  then have "healthy K ?f (kv ss)" using m0 t3 em3 by (auto simp: healthy_def holds_def working_def)
  with init show ?thesis by blast
qed

section \<open>A change that has only begun\<close>

text \<open>The mark on the old entry: with the status of its sector (the whole first half of the deletion) or before it.\<close>

lemma mark_spec:
  assumes r: "rep e ss" and p: "placed ss i pre x ENV_WRITE" and start: "n_start env = pos i pre"
  shows "\<exists>e' ss'. (if whole then del_old_env (Some key) env False e else del_status (Some key) env False e) = Some (EF_NO_ERR, e') \<and>
    marked ss i pre x ss' \<and> rep e' ss'"
proof -
  obtain post where q: "a_envs (ss ! i) = pre @ (x, ENV_WRITE) # post" and il: "i < length ss" using p by (auto simp: placed_def)
  have i: "i < 4" using placed_entry(1) [OF r p] .
  let ?s = "(ss ! i)\<lparr>a_envs := pre @ (x, ENV_PRE_DELETE) # post\<rparr>"
  show ?thesis
  proof (cases whole)
    case True
    from del_old_env_spec [OF r p start, of ENV_PRE_DELETE False "Some key"] obtain n m where
      d: "del_old_env (Some key) env False e = Some (EF_NO_ERR, (forget (Some key) env False e)\<lparr>ops := n, chip := m, last_is_complete_del := True\<rparr>)"
        "rep ((forget (Some key) env False e)\<lparr>ops := n, chip := m, last_is_complete_del := True\<rparr>) (with_status ss i (length pre) ENV_PRE_DELETE)"
      by auto
    have "marked ss i pre x (with_status ss i (length pre) ENV_PRE_DELETE)"
      unfolding marked_def with_status_split [OF q] using q il by blast
    with d True show ?thesis by auto
  next
    case False
    from write_env_status [OF r i q, of ENV_PRE_DELETE] obtain e1 where
      w: "write_status (pos i pre) ENV_STATUS_NUM (env_no ENV_PRE_DELETE) e = Some (EF_NO_ERR, e1)" "rep e1 (ss[i := ?s])"
      by auto
    have "del_status (Some key) env False e = Some (EF_NO_ERR, e1\<lparr>last_is_complete_del := True\<rparr>)"
      using w(1) by (simp add: del_status_def start)
    moreover have "marked ss i pre x (ss[i := ?s])" unfolding marked_def using q il by blast
    moreover have "rep (e1\<lparr>last_is_complete_del := True\<rparr>) (ss[i := ?s])" using w(2) by simp
    ultimately show ?thesis using False by auto
  qed
qed

text \<open>
  Setting a name that has a value, up to the mark on its old entry: where the new entry will go is chosen (\<open>e1\<close>), the
  old one found (\<open>e2\<close>), marked (\<open>e3\<close>), and its sector marked dirty (\<open>e4\<close>).
\<close>

lemma begun_lemma:
  assumes h: "healthy K e m" and k: "key \<in> K" "0 \<notin> set key" and v: "m key = Some v" "length v \<le> length val"
    and small: "4 \<le> length key + length val" "length key + length val < 4056"
    and room: "stored_size m + 3 * max (env_size (key, val)) 56 < 12240"
  shows "\<exists>a sm e1 env e2 e3 e4. new_env_by_kv blank_sector (length key) (length val) e = Some (a, sm, e1) \<and> a \<noteq> FAILED_ADDR \<and>
    find_env key blank_node e1 = Some (True, env, e2) \<and>
    del_status (Some key) env False e2 = Some (EF_NO_ERR, e3) \<and> del_old_env (Some key) env False e2 = Some (EF_NO_ERR, e4) \<and>
    (\<forall>c \<in> {chip e1, chip e2, chip e3, chip e4}. \<exists>e'. ef_env_init (cold_unit c) = Some (EF_NO_ERR, e') \<and> healthy K e' m)"
proof -
  let ?n = "env_size (key, val)"
  from h obtain ss where w: "working K e ss" "kv ss = m" and i: "init_ok e" and g: "\<not> gc_request e"
    by (auto simp: healthy_def holds_def)
  have n: "?n < 4080" using small by (simp add: env_size_def)
  from new_env_spec [OF w(1) g n, of blank_sector] obtain a sm e1 ss1 where
    a: "new_env_by_kv blank_sector (length key) (length val) e = Some (a, sm, e1)" "working K e1 ss1" "kv ss1 = m"
      "alloc_result ss1 (alloc_spec False ?n ss1) sm a" "alloc_spec False ?n ss1 = None \<longrightarrow> 12240 \<le> stored_size m + 3 * max ?n 56"
      "init_ok e1"
    using w(2) i new_env_by_kv_size [OF small(2)] by auto
  have s: "store K e1 ss1" and t: "tidy ss1" and em: "has_empty ss1" using a(2) by (simp_all add: working_def)
  have r: "rep e1 ss1" and d: "distinct (map fst (lives ss1))" and K: "names_ok K" "fst ` set (lives ss1) \<subseteq> K"
    using s by (simp_all add: store_def)
  obtain j where al: "alloc_spec False ?n ss1 = Some j" using a(5) room by auto
  note js = alloc_sector [OF al]
  have af: "a \<noteq> FAILED_ADDR" using a(4) al free_not_failed [OF r js(1)] by (simp add: alloc_result_def)
  from find_env_spec [OF s k(1), of blank_node] obtain ok env e2 u
    where f: "find_env key blank_node e1 = Some (ok, env, e2)" "store K e2 ss1" "e2 = e1\<lparr>env_cache_table := u\<rparr>" "finds ss1 key ok env"
    by blast
  have ok using f(4) v(1) a(3) by (cases ok) (simp_all add: finds_def)
  with f(4) have "\<exists>i pre x. placed ss1 i pre x ENV_WRITE \<and> fst x = key \<and> env = node_of blank_node (pos i pre) x ENV_WRITE"
    by (simp only: finds_def if_True)
  then obtain i pre x where p: "placed ss1 i pre x ENV_WRITE" "fst x = key" "env = node_of blank_node (pos i pre) x ENV_WRITE"
    by blast
  have r2: "rep e2 ss1" using f(2) by (simp add: store_def)
  have start: "n_start env = pos i pre" by (simp add: p(3) node_of_def)
  have "snd x = v" using live_kv [OF d placed_live [OF p(1)]] p(2) a(3) v(1) by simp
  then have small_x: "env_size x \<le> ?n" using p(2) v(2) by (simp add: env_size_def)
  have nul: "0 \<notin> set (fst x)" using k(2) p(2) by simp
  have restored: "\<exists>e'. ef_env_init (cold_unit (chip e3)) = Some (EF_NO_ERR, e') \<and> healthy K e' m"
    if mk: "marked ss1 i pre x ss3" "rep e3 ss3" for e3 ss3
  proof -
    from alloc_smaller [OF al small_x markedD(3) [OF mk(1)] markedD(5) [OF mk(1)]] obtain j' where
      "alloc_spec False (env_size x) ss3 = Some j'" by blast
    from recover_marked [OF r K d t em mk(1) nul mk(2) this] a(3) show ?thesis by simp
  qed
  from mark_spec [OF r2 p(1) start, of False key] obtain e3 where
    3: "del_status (Some key) env False e2 = Some (EF_NO_ERR, e3)"
      "\<exists>e'. ef_env_init (cold_unit (chip e3)) = Some (EF_NO_ERR, e') \<and> healthy K e' m"
    using restored by auto
  from mark_spec [OF r2 p(1) start, of True key] obtain e4 where
    4: "del_old_env (Some key) env False e2 = Some (EF_NO_ERR, e4)"
      "\<exists>e'. ef_env_init (cold_unit (chip e4)) = Some (EF_NO_ERR, e') \<and> healthy K e' m"
    using restored by auto
  have "holds K e1 m" using a(2,3,6) by (auto simp: holds_def)
  from restart_lemma [OF this] have 1: "\<exists>e'. ef_env_init (cold_unit (chip e1)) = Some (EF_NO_ERR, e') \<and> healthy K e' m" by blast
  have "chip e2 = chip e1" by (simp add: f(3))
  with 1 3(2) 4(2) have "\<forall>c \<in> {chip e1, chip e2, chip e3, chip e4}. \<exists>e'. ef_env_init (cold_unit c) = Some (EF_NO_ERR, e') \<and> healthy K e' m"
    by simp
  moreover have "find_env key blank_node e1 = Some (True, env, e2)" using f(1) \<open>ok\<close> by simp
  ultimately show ?thesis using a(1) af 3(1) 4(1) by (intro exI conjI) assumption+
qed

end
