(* ===== verification/Ef_Promise.thy ===== *)
theory Ef_Promise
  imports Ef_Recover Device_Table
begin

text \<open>
  The store as the firmware uses it: for the names of the firmware any sequence of calls, restarts and factory
  resets acts on a map of names to values, which is the contract \<open>Kv_Store\<close> gives to the application.
\<close>

section \<open>The names of the firmware\<close>

definition firmware_keys :: "byte list list" where
  "firmware_keys = map (map of_char)
     ([''boot_times'', ''slot'', ''valve_lock''] @ map (\<lambda>i. index_key (int i)) [0..<MAX_SLAVER_DEVICE])"

lemma firmware_hashes: "distinct (map name_hash firmware_keys)"
  by code_simp

lemma firmware_key_length: "\<forall>k \<in> set firmware_keys. 4 \<le> length k \<and> length k \<le> 10"
  by code_simp

lemma firmware_key_chars: "\<forall>k \<in> set firmware_keys. 0 \<notin> set k"
  by code_simp

lemma firmware_count: "length firmware_keys = 15" "boot_times_key \<in> set firmware_keys"
  by code_simp+

lemma firmware_names_ok: "names_ok (set firmware_keys)"
  using firmware_hashes firmware_key_length by (fastforce simp: names_ok_def distinct_map)

section \<open>The default set on any store\<close>

lemma format_loop_rep:
  "\<lbrakk>rep e ss; i \<le> 4; \<forall>j < i. ss ! j = empty_sec\<rbrakk> \<Longrightarrow>
    \<exists>n m t. format_loop (map sec [i..<4]) e = Some (EF_NO_ERR, e\<lparr>ops := n, chip := m, sector_cache_table := t\<rparr>) \<and>
    rep (e\<lparr>ops := n, chip := m, sector_cache_table := t\<rparr>) (replicate 4 empty_sec)"
proof (induction "4 - i" arbitrary: i e ss)
  case 0
  then have "ss = replicate 4 empty_sec" using repD(2) by (auto intro: nth_equalityI)
  with 0 show ?case
    by (intro exI [of _ "ops e"] exI [of _ "chip e"] exI [of _ "sector_cache_table e"]) simp
next
  case (Suc d)
  then have i: "i < 4" and d: "d = 4 - Suc i" and le: "Suc i \<le> 4" by simp_all
  from format_store [OF Suc.prems(1) i] obtain n m t where
    f: "format_sector (sec i) SECTOR_NOT_COMBINED e = Some (EF_NO_ERR, e\<lparr>ops := n, chip := m, sector_cache_table := t\<rparr>)"
      "rep (e\<lparr>ops := n, chip := m, sector_cache_table := t\<rparr>) (ss[i := empty_sec])" by blast
  have "\<forall>j < Suc i. ss[i := empty_sec] ! j = empty_sec"
    using Suc.prems(3) repD(2) [OF Suc.prems(1)] i by (auto simp: less_Suc_eq)
  from Suc.hyps(1) [OF d f(2) le this] obtain n' m' t' where
    l: "format_loop (map sec [Suc i..<4]) (e\<lparr>ops := n, chip := m, sector_cache_table := t\<rparr>) =
        Some (EF_NO_ERR, e\<lparr>ops := n', chip := m', sector_cache_table := t'\<rparr>)"
      "rep (e\<lparr>ops := n', chip := m', sector_cache_table := t'\<rparr>) (replicate 4 empty_sec)" by auto
  have "map sec [i..<4] = sec i # map sec [Suc i..<4]" using i by (simp add: upt_conv_Cons)
  with f(1) l show ?case by (intro exI [of _ n'] exI [of _ m'] exI [of _ t']) simp
qed

text \<open>The store of the default set.\<close>

definition default_sectors :: "asec list" where
  "default_sectors = (replicate 4 empty_sec)[0 := created empty_sec (boot_times_key, [0x30])]"

lemma create_default:
  assumes r: "rep e (replicate 4 empty_sec)" and g: "\<not> gc_request e"
  shows "\<exists>sm e'. create_env_blob (blank_sector\<lparr>s_empty := FAILED_ADDR\<rparr>) boot_times_key [0x30] e = Some (EF_NO_ERR, sm, e') \<and>
    rep e' default_sectors"
proof -
  let ?es = "replicate 4 empty_sec" let ?x = "(boot_times_key, [0x30 :: byte])"
  let ?sm = "blank_sector\<lparr>s_empty := FAILED_ADDR\<rparr>"
  have len: "length boot_times_key = 10" by (simp add: boot_times_key_def)
  have sz: "env_size ?x = 35" using len by (simp add: env_size_def)
  have "\<exists>a sm t gc. alloc_env ?sm (of_nat 35) e = Some (a, sm, e\<lparr>sector_cache_table := t, gc_request := gc\<rparr>) \<and>
    alloc_result ?es (Some 0) sm a \<and> rep (e\<lparr>sector_cache_table := t\<rparr>) ?es \<and> \<not> gc"
    using alloc_env_spec [OF r, of 35 ?sm] alloc_first [of 35] g by auto
  then obtain a sm t where al: "alloc_env ?sm (of_nat 35) e = Some (a, sm, e\<lparr>sector_cache_table := t, gc_request := False\<rparr>)"
    "a = sec 0 + of_nat 16" "sm = meta_full 0 empty_sec" "rep (e\<lparr>sector_cache_table := t\<rparr>) ?es"
    by (auto simp: alloc_result_def)
  let ?e = "e\<lparr>sector_cache_table := t, gc_request := False\<rparr>"
  have r1: "rep ?e ?es" using al(4) by simp
  have af: "a \<noteq> FAILED_ADDR" using free_not_failed [OF r1, of 0] al(2) by simp
  have "new_env ?sm (of_nat 35) e = Some (a, sm, ?e)" using al(1) by (simp add: new_env_def af)
  then have cr: "create_env_blob ?sm boot_times_key [0x30] e = create_env_blob sm boot_times_key [0x30] ?e"
    by (intro create_via_new_env [where a = a])
      (use af al(2,3) len in \<open>simp_all add: ENV_HDR_DATA_SIZE_def EF_ENV_NAME_MAX_def SECTOR_SIZE_def SECTOR_HDR_DATA_SIZE_def\<close>)
  have "\<exists>e'. create_env_blob sm boot_times_key [0x30] ?e = Some (EF_NO_ERR, sm, e') \<and> rep e' default_sectors"
    using create_env_blob_spec [OF r1, of 0 boot_times_key "[0x30]" sm] sz len al(3)
    by (auto simp: entry_fits_def describes_full default_sectors_def Let_def)
  then show ?thesis by (auto simp: cr)
qed

lemma default_rep:
  assumes r: "rep e ss" and g: "\<not> gc_request e"
  shows "\<exists>e'. flash_env_set_default e = Some (EF_NO_ERR, e') \<and> rep e' default_sectors"
proof -
  from format_loop_rep [OF r, of 0] obtain n m t where
    f: "format_loop sectors e = Some (EF_NO_ERR, e\<lparr>ops := n, chip := m, sector_cache_table := t\<rparr>)"
      "rep (e\<lparr>ops := n, chip := m, sector_cache_table := t\<rparr>) (replicate 4 empty_sec)"
    unfolding sectors_map by auto
  from create_default [OF f(2)] g obtain sm e' where
    "create_env_blob (blank_sector\<lparr>s_empty := FAILED_ADDR\<rparr>) boot_times_key [0x30]
      (e\<lparr>ops := n, chip := m, sector_cache_table := t\<rparr>) = Some (EF_NO_ERR, sm, e')" "rep e' default_sectors" by auto
  moreover have def: "default_env_set = [(boot_times_key, [0x30])]" by (simp add: default_env_set_def of_char_def)
  ultimately show ?thesis using f(1) by (intro exI [of _ e']) (simp add: flash_env_set_default_def def)
qed

lemma default_sectors_store:
  assumes r: "rep e default_sectors" and K: "names_ok K" "boot_times_key \<in> K"
  shows "holds K ((cold_unit (chip e))\<lparr>init_ok := True\<rparr>) [boot_times_key \<mapsto> [0x30]]"
proof -
  let ?p = "cold_unit (chip e)" let ?x = "(boot_times_key, [0x30 :: byte])"
  have c: "no_caches ?p" by simp
  have "rep ?p default_sectors" using r c by (auto simp: rep_def sector_cache_rep_def no_caches_def sec_def)
  moreover have "env_cache_rep ?p default_sectors" using c by (simp add: env_cache_rep_def no_caches_def)
  moreover have l: "lives default_sectors = [?x]" by (simp add: lives_def default_sectors_def numeral_eq_Suc)
  ultimately have "store K ?p default_sectors" using K by (simp add: store_def)
  then have "store K (?p\<lparr>init_ok := True\<rparr>) default_sectors" using store_cong [of "?p\<lparr>init_ok := True\<rparr>" ?p] by simp
  moreover have "env_size ?x = 35" by (simp add: env_size_def boot_times_key_def)
  then have "tidy_sec (created empty_sec ?x)" by (intro tidy_created) simp_all
  then have "tidy default_sectors" by (auto simp: tidy_def default_sectors_def nth_list_update)
  moreover have "has_empty default_sectors" unfolding has_empty_def default_sectors_def by (intro exI [of _ 1]) simp
  moreover have "kv default_sectors = [boot_times_key \<mapsto> [0x30]]" by (simp add: kv_def l)
  ultimately show ?thesis by (auto simp: holds_def working_def)
qed

section \<open>Calls in a row\<close>

datatype store_call =
  Set_Blob "byte list" "byte list"
| Get_Blob "byte list" nat
| Del_Env "byte list"
| Restart
| Factory_Reset

datatype store_answer = Code EfErrCode | Blob nat "byte list" "u32 option"

text \<open>A call on the store; a restart keeps the chip only, a factory reset writes the default set before it.\<close>

fun do_call :: "store_call \<Rightarrow> ef_st \<Rightarrow> (store_answer \<times> ef_st) option" where
  "do_call (Set_Blob key val) e = do { (r, e) \<leftarrow> flash_set_env_blob key (Some val) e; Some (Code r, e) }"
| "do_call (Get_Blob key n) e = do { (l, bs, saved, e) \<leftarrow> flash_get_env_blob key n blank_node e; Some (Blob l bs saved, e) }"
| "do_call (Del_Env key) e = do { (r, e) \<leftarrow> flash_del_env key e; Some (Code r, e) }"
| "do_call Restart e = do { (r, e) \<leftarrow> ef_env_init (cold_unit (chip e)); Some (Code r, e) }"
| "do_call Factory_Reset e =
     do { (_, e) \<leftarrow> flash_env_set_default e; (r, e) \<leftarrow> ef_env_init (cold_unit (chip e)); Some (Code r, e) }"

text \<open>The same call on a map.\<close>

fun map_call :: "store_call \<Rightarrow> (byte list \<Rightarrow> byte list option) \<Rightarrow> store_answer \<times> (byte list \<Rightarrow> byte list option)" where
  "map_call (Set_Blob key val) m = (Code EF_NO_ERR, m(key \<mapsto> val))"
| "map_call (Get_Blob key n) m =
     (case m key of Some v \<Rightarrow> Blob (min n (length v)) (take n v) (Some (of_nat (length v))) | None \<Rightarrow> Blob 0 [] None, m)"
| "map_call (Del_Env key) m = (Code (if m key = None then EF_ENV_NAME_ERR else EF_NO_ERR), m(key := None))"
| "map_call Restart m = (Code EF_NO_ERR, m)"
| "map_call Factory_Reset m = (Code EF_NO_ERR, [boot_times_key \<mapsto> [0x30]])"

text \<open>The calls of the firmware: its names, and values of at most 64 bytes.\<close>

fun firmware_call :: "store_call \<Rightarrow> bool" where
  "firmware_call (Set_Blob key val) \<longleftrightarrow> key \<in> set firmware_keys \<and> length val \<le> 64"
| "firmware_call (Get_Blob key n) \<longleftrightarrow> key \<in> set firmware_keys"
| "firmware_call (Del_Env key) \<longleftrightarrow> key \<in> set firmware_keys"
| "firmware_call Restart \<longleftrightarrow> True"
| "firmware_call Factory_Reset \<longleftrightarrow> True"

definition firmware_map :: "(byte list \<Rightarrow> byte list option) \<Rightarrow> bool" where
  "firmware_map m \<longleftrightarrow> dom m \<subseteq> set firmware_keys \<and> (\<forall>v \<in> ran m. length v \<le> 64)"

lemma firmware_map_size: "firmware_map m \<Longrightarrow> stored_size m \<le> 1470"
proof -
  assume m: "firmware_map m"
  have "env_size (k, the (m k)) \<le> 98" if "k \<in> dom m" for k
  proof -
    from that obtain v where "m k = Some v" by blast
    with m have "length v \<le> 64" "k \<in> set firmware_keys" by (auto simp: firmware_map_def intro: ranI)
    with firmware_key_length \<open>m k = Some v\<close> show ?thesis by (fastforce simp: env_size_def)
  qed
  then have "stored_size m \<le> card (dom m) * 98" 
    unfolding stored_size_def using sum_bounded_above [of "dom m" "\<lambda>k. env_size (k, the (m k))" 98] by simp
  also have "card (dom m) \<le> 15"
    using m card_mono [of "set firmware_keys" "dom m"] card_length [of firmware_keys] firmware_count(1)
    by (simp add: firmware_map_def)
  finally show ?thesis by simp
qed

text \<open>A service that follows a specification step by step, and what it does over a list of calls.\<close>

fun run_calls :: "('c \<Rightarrow> 's \<Rightarrow> ('a \<times> 's) option) \<Rightarrow> 'c list \<Rightarrow> 's \<Rightarrow> ('a list \<times> 's) option" where
  "run_calls f [] s = Some ([], s)"
| "run_calls f (c # cs) s = do { (a, s) \<leftarrow> f c s; (as, s) \<leftarrow> run_calls f cs s; Some (a # as, s) }"

fun run_spec :: "('c \<Rightarrow> 'm \<Rightarrow> 'a \<times> 'm) \<Rightarrow> 'c list \<Rightarrow> 'm \<Rightarrow> 'a list \<times> 'm" where
  "run_spec g [] m = ([], m)"
| "run_spec g (c # cs) m = (let (a, m) = g c m; (as, m) = run_spec g cs m in (a # as, m))"

locale served =
  fixes f :: "'c \<Rightarrow> 's \<Rightarrow> ('a \<times> 's) option" and g :: "'c \<Rightarrow> 'm \<Rightarrow> 'a \<times> 'm" and stands :: "'s \<Rightarrow> 'm \<Rightarrow> bool" and legal :: "'c \<Rightarrow> bool"
  assumes serve: "\<lbrakk>stands s m; legal c\<rbrakk> \<Longrightarrow> \<exists>s'. f c s = Some (fst (g c m), s') \<and> stands s' (snd (g c m))"
begin

lemma serves:
  "\<lbrakk>stands s m; \<forall>c \<in> set cs. legal c\<rbrakk> \<Longrightarrow>
    \<exists>s'. run_calls f cs s = Some (fst (run_spec g cs m), s') \<and> stands s' (snd (run_spec g cs m))"
proof (induction cs arbitrary: s m)
  case (Cons c cs)
  from serve [OF Cons.prems(1)] Cons.prems(2) obtain s1 where 1: "f c s = Some (fst (g c m), s1)" "stands s1 (snd (g c m))" by auto
  from Cons.IH [OF 1(2)] Cons.prems(2) obtain s2 where
    "run_calls f cs s1 = Some (fst (run_spec g cs (snd (g c m))), s2)" "stands s2 (snd (run_spec g cs (snd (g c m))))" by auto
  with 1(1) show ?case by (simp add: case_prod_unfold Let_def)
qed simp

end

definition firmware_store :: "ef_st \<Rightarrow> (byte list \<Rightarrow> byte list option) \<Rightarrow> bool" where
  "firmware_store e m \<longleftrightarrow> healthy (set firmware_keys) e m \<and> firmware_map m"

lemma default_map_ok: "firmware_map [boot_times_key \<mapsto> [0x30]]"
  using firmware_count by (simp add: firmware_map_def)

lemma serve_call:
  assumes s: "firmware_store e m" and c: "firmware_call c"
  shows "\<exists>e'. do_call c e = Some (fst (map_call c m), e') \<and> firmware_store e' (snd (map_call c m))"
proof -
  let ?K = "set firmware_keys"
  have h: "healthy ?K e m" and m: "firmware_map m" using s by (simp_all add: firmware_store_def)
  have hs: "holds ?K e m" by (rule healthy_holds [OF h])
  show ?thesis
  proof (cases c)
    case (Set_Blob key val)
    with c have k: "key \<in> ?K" "length val \<le> 64" by simp_all
    then have kl: "4 \<le> length key" "length key \<le> 10" using firmware_key_length by simp_all
    then have small: "4 \<le> length key + length val" "length key + length val < 4056" using k by simp_all
    have "\<not> 12240 \<le> stored_size m + 3 * max (env_size (key, val)) 56"
      using firmware_map_size [OF m] kl k(2) by (simp add: env_size_def max_def)
    with set_value_lemma [OF h k(1) small] obtain e' where
      "flash_set_env_blob key (Some val) e = Some (EF_NO_ERR, e')" "healthy ?K e' (m(key \<mapsto> val))" by blast
    moreover have "firmware_map (m(key \<mapsto> val))" using m k by (auto simp: firmware_map_def ran_def)
    ultimately show ?thesis by (simp add: Set_Blob firmware_store_def)
  next
    case (Get_Blob key n)
    with c have "key \<in> ?K" by simp
    from get_value_lemma [OF hs this, of n blank_node] h m show ?thesis
      by (auto simp: Get_Blob firmware_store_def healthy_def split: option.splits)
  next
    case (Del_Env key)
    with c have "key \<in> ?K" by simp
    from delete_value_lemma [OF hs this] obtain e' where
      "flash_del_env key e = Some (if m key = None then EF_ENV_NAME_ERR else EF_NO_ERR, e')"
      "holds ?K e' (m(key := None))" "gc_request e' = gc_request e" by blast
    moreover have "firmware_map (m(key := None))" using m by (auto simp: firmware_map_def ran_def)
    ultimately show ?thesis using h by (simp add: Del_Env firmware_store_def healthy_def)
  next
    case Restart
    from restart_lemma [OF hs] m show ?thesis by (auto simp: Restart firmware_store_def)
  next
    case Factory_Reset
    from h obtain ss where "rep e ss" "\<not> gc_request e"
      by (auto simp: healthy_def holds_def working_def store_def)
    from default_rep [OF this] obtain e1 where
      1: "flash_env_set_default e = Some (EF_NO_ERR, e1)" "rep e1 default_sectors" by blast
    from restart_lemma [OF default_sectors_store [OF 1(2) firmware_names_ok firmware_count(2)]] obtain e2 where
      "ef_env_init (cold_unit (chip e1)) = Some (EF_NO_ERR, e2)" "healthy ?K e2 [boot_times_key \<mapsto> [0x30]]" by auto
    with 1(1) show ?thesis by (auto simp: Factory_Reset firmware_store_def default_map_ok)
  qed
qed

interpretation ef_store: served do_call map_call firmware_store firmware_call
  by unfold_locales (rule serve_call)

section \<open>The contract of the application\<close>

text \<open>
  The application's store holds texts and device structures; \<open>f\<close> gives the bytes of a structure in memory. A
  store of the application stands for the bytes of its values under the bytes of its names.
\<close>

fun blob_bytes :: "('d \<Rightarrow> byte list) \<Rightarrow> 'd blob \<Rightarrow> byte list" where
  "blob_bytes f (BText t) = map of_char t"
| "blob_bytes f (BDev d) = f d"

definition text_of :: "byte list \<Rightarrow> string" where
  "text_of bs = map (\<lambda>b. char_of (unat b)) bs"

lemma text_of_bytes: "text_of (map of_char t) = t" "map of_char (text_of bs) = (bs :: byte list)"
proof -
  have 1: "unat (of_char c :: byte) = of_char c" for c
  proof -
    have "(of_char c :: byte) = of_nat (of_char c)" by (simp add: of_nat_of_char)
    moreover have "(of_char c :: nat) < 256" using of_char_of [of "of_char c :: nat"] by simp
    ultimately show ?thesis by (simp add: unat_of_nat take_bit_eq_mod)
  qed
  then show "text_of (map of_char t) = t" by (simp add: text_of_def comp_def)
  have "(of_char (char_of (unat b)) :: byte) = b" for b
  proof -
    have "unat b < 2 ^ LENGTH(8)" by (rule unsigned_less)
    then have "unat (of_char (char_of (unat b)) :: byte) = unat b" by (simp add: 1)
    then show ?thesis by (simp add: word_unat_eq_iff)
  qed
  then show "map of_char (text_of bs) = bs" by (simp add: text_of_def comp_def)
qed

lemma text_of_iff: "text_of k = t \<longleftrightarrow> k = map of_char t"
  using text_of_bytes by metis

definition bytes_env :: "('d \<Rightarrow> byte list) \<Rightarrow> 'd env \<Rightarrow> byte list \<Rightarrow> byte list option" where
  "bytes_env f env key = map_option (blob_bytes f) (env (text_of key))"

definition on_chip :: "('d \<Rightarrow> byte list) \<Rightarrow> ef_st \<Rightarrow> 'd env \<Rightarrow> bool" where
  "on_chip f e env \<longleftrightarrow> firmware_store e (bytes_env f env)"

definition firmware_name :: "string \<Rightarrow> bool" where
  "firmware_name key \<longleftrightarrow> key = ''slot'' \<or> key = ''valve_lock'' \<or> (\<exists>i < MAX_SLAVER_DEVICE. key = index_key (int i))"

lemma firmware_name_key: "firmware_name key \<Longrightarrow> map of_char key \<in> set firmware_keys"
  by (auto simp: firmware_name_def firmware_keys_def)

lemma bytes_env_set: "bytes_env f (ef_set_env_blob key v env) = (bytes_env f env)(map of_char key \<mapsto> blob_bytes f v)"
  by (rule ext) (simp add: bytes_env_def ef_set_env_blob_def text_of_iff)

lemma bytes_env_get: "bytes_env f env (map of_char key) = map_option (blob_bytes f) (ef_get_env_blob env key)"
  by (simp add: bytes_env_def ef_get_env_blob_def text_of_bytes)

lemma bytes_env_default: "bytes_env f ef_env_set_default = [boot_times_key \<mapsto> [0x30]]"
  by (rule ext) (simp add: bytes_env_def ef_env_set_default_def text_of_iff boot_times_key_def of_char_def)

section \<open>What the store promises\<close>

text \<open>
  C8. Over any number of calls, restarts and factory resets the store of the firmware returns what a map of
  names to values returns, every call returns and no call to set a value fails, garbage collections included.
\<close>

theorem store_serves_firmware:
  assumes "firmware_store e m" and "\<forall>c \<in> set cs. firmware_call c"
  shows "\<exists>e'. run_calls do_call cs e = Some (fst (run_spec map_call cs m), e') \<and> firmware_store e' (snd (run_spec map_call cs m))"
  by (rule ef_store.serves [OF assms])

lemma first_start_firmware:
  assumes "\<forall>j < 4. no_magic m j"
  shows "\<exists>e. ef_env_init (cold_unit m) = Some (EF_NO_ERR, e) \<and> firmware_store e [boot_times_key \<mapsto> [0x30]]"
  using first_start_lemma [OF assms firmware_names_ok firmware_count(2)] default_map_ok by (auto simp: firmware_store_def)

lemma zero_chip: "\<forall>j < 4. no_magic (\<lambda>_. 0) j"
  by (simp add: no_magic_def bytes_at_def le32_def SECTOR_MAGIC_WORD_def upt_conv_Cons del: upt_Suc)

text \<open>A small run: set, restart, read, delete, read.\<close>

definition sample_calls :: "store_call list" where
  "sample_calls = (let slot_key = map of_char ''slot''
     in [Set_Blob slot_key [0x31], Restart, Get_Blob slot_key 32, Del_Env slot_key, Get_Blob slot_key 32])"

lemma sample_calls_ok: "\<forall>c \<in> set sample_calls. firmware_call c"
  by (simp add: sample_calls_def Let_def firmware_keys_def)

lemma store_serves_firmware_witness:
  "\<exists>e e'. firmware_store e [boot_times_key \<mapsto> [0x30]] \<and>
    run_calls do_call sample_calls e = Some ([Code EF_NO_ERR, Code EF_NO_ERR, Blob 1 [0x31] (Some 1), Code EF_NO_ERR, Blob 0 [] None], e')"
proof -
  obtain e where e: "firmware_store e [boot_times_key \<mapsto> [0x30]]" using first_start_firmware [OF zero_chip] by blast
  have k: "map of_char ''slot'' \<noteq> boot_times_key" by (simp add: boot_times_key_def)
  have "fst (run_spec map_call sample_calls [boot_times_key \<mapsto> [0x30]]) =
      [Code EF_NO_ERR, Code EF_NO_ERR, Blob 1 [0x31] (Some 1), Code EF_NO_ERR, Blob 0 [] None]"
    using k by (simp add: sample_calls_def Let_def)
  with store_serves_firmware [OF e sample_calls_ok] e show ?thesis by metis
qed

text \<open>
  C9. The contract of the application's store holds on the chip: writing, reading, restarting and resetting to the
  default set act on the bytes as \<open>ef_set_env_blob\<close>, \<open>ef_get_env_blob\<close> and \<open>ef_env_set_default\<close> act on the values.
\<close>

theorem contract_on_chip:
  assumes s: "on_chip f e env" and k: "firmware_name key" and v: "length (blob_bytes f v) \<le> 64"
  shows "(\<exists>e'. flash_set_env_blob (map of_char key) (Some (blob_bytes f v)) e = Some (EF_NO_ERR, e') \<and>
       on_chip f e' (ef_set_env_blob key v env)) \<and>
    (\<exists>e'. flash_get_env_blob (map of_char key) n blank_node e = Some (case ef_get_env_blob env key of
          Some b \<Rightarrow> (min n (length (blob_bytes f b)), take n (blob_bytes f b), Some (of_nat (length (blob_bytes f b))), e')
        | None \<Rightarrow> (0, [], None, e')) \<and> on_chip f e' env) \<and>
    (\<exists>e'. ef_env_init (cold_unit (chip e)) = Some (EF_NO_ERR, e') \<and> on_chip f e' env) \<and>
    (\<exists>e1 e'. flash_env_set_default e = Some (EF_NO_ERR, e1) \<and> ef_env_init (cold_unit (chip e1)) = Some (EF_NO_ERR, e') \<and>
       on_chip f e' ef_env_set_default)"
proof (intro conjI)
  let ?m = "bytes_env f env" and ?k = "map of_char key"
  have st: "firmware_store e ?m" using s by (simp add: on_chip_def)
  have key: "?k \<in> set firmware_keys" by (rule firmware_name_key [OF k])
  show "\<exists>e'. flash_set_env_blob ?k (Some (blob_bytes f v)) e = Some (EF_NO_ERR, e') \<and> on_chip f e' (ef_set_env_blob key v env)"
    using serve_call [OF st, of "Set_Blob ?k (blob_bytes f v)"] key v
    by (auto simp: on_chip_def bytes_env_set split: Option.bind_splits)
  show "\<exists>e'. flash_get_env_blob ?k n blank_node e = Some (case ef_get_env_blob env key of
          Some b \<Rightarrow> (min n (length (blob_bytes f b)), take n (blob_bytes f b), Some (of_nat (length (blob_bytes f b))), e')
        | None \<Rightarrow> (0, [], None, e')) \<and> on_chip f e' env"
    using serve_call [OF st, of "Get_Blob ?k n"] key
    by (auto simp: on_chip_def bytes_env_get split: Option.bind_splits option.splits)
  show "\<exists>e'. ef_env_init (cold_unit (chip e)) = Some (EF_NO_ERR, e') \<and> on_chip f e' env"
    using serve_call [OF st, of Restart] by (auto simp: on_chip_def split: Option.bind_splits)
  from st obtain ss where "rep e ss" "\<not> gc_request e"
    by (auto simp: firmware_store_def healthy_def holds_def working_def store_def)
  from default_rep [OF this] obtain e1 where "flash_env_set_default e = Some (EF_NO_ERR, e1)" by blast
  then show "\<exists>e1 e'. flash_env_set_default e = Some (EF_NO_ERR, e1) \<and> ef_env_init (cold_unit (chip e1)) = Some (EF_NO_ERR, e') \<and>
       on_chip f e' ef_env_set_default"
    using serve_call [OF st, of Factory_Reset] by (auto simp: on_chip_def bytes_env_default split: Option.bind_splits)
qed

lemma contract_on_chip_witness:
  "\<exists>e e'. on_chip (\<lambda>_ :: unit. []) e ef_env_set_default \<and>
    flash_set_env_blob (map of_char ''slot'') (Some (blob_bytes (\<lambda>_ :: unit. []) (encode_number 5))) e = Some (EF_NO_ERR, e') \<and>
    on_chip (\<lambda>_ :: unit. []) e' (flash_set_key ''slot'' 5 ef_env_set_default)"
proof -
  let ?f = "\<lambda>_ :: unit. [] :: byte list"
  obtain e where "firmware_store e [boot_times_key \<mapsto> [0x30]]" using first_start_firmware [OF zero_chip] by blast
  then have e: "on_chip ?f e ef_env_set_default" by (simp add: on_chip_def bytes_env_default)
  have k: "firmware_name ''slot''" by (simp add: firmware_name_def)
  have v: "length (blob_bytes ?f (encode_number 5)) \<le> 64" by code_simp
  from contract_on_chip [OF e k v] e show ?thesis unfolding flash_set_key_def by blast
qed

text \<open>
  C30. On a store in order a value is set or the store says that it is full and keeps every value it had; and it says so
  only when the entries of its values fill the three sectors in use but for three times the size of the new entry.
\<close>

theorem set_outcome:
  assumes h: "healthy K e m" and k: "key \<in> K" and small: "4 \<le> length key + length val" "length key + length val < 4056"
  shows "\<exists>r e'. flash_set_env_blob key (Some val) e = Some (r, e') \<and>
    (r = EF_NO_ERR \<and> healthy K e' (m(key \<mapsto> val)) \<or>
     r = EF_ENV_FULL \<and> holds K e' m \<and> 12240 \<le> stored_size m + 3 * max (env_size (key, val)) 56)"
  by (rule set_value_lemma [OF assms])

lemma set_outcome_witness:
  "\<exists>e e'. flash_set_env_blob boot_times_key (Some [0x31]) e = Some (EF_NO_ERR, e') \<and>
    healthy (set firmware_keys) e' [boot_times_key \<mapsto> [0x31]]"
proof -
  obtain e where "firmware_store e [boot_times_key \<mapsto> [0x30]]" using first_start_firmware [OF zero_chip] by blast
  then have h: "healthy (set firmware_keys) e [boot_times_key \<mapsto> [0x30]]" by (simp add: firmware_store_def)
  have l: "length boot_times_key = 10" by (simp add: boot_times_key_def)
  have "\<not> 12240 \<le> stored_size [boot_times_key \<mapsto> [0x30]] + 3 * max (env_size (boot_times_key, [0x31])) 56"
    by (simp add: stored_size_def env_size_def l)
  with set_outcome [OF h firmware_count(2), of "[0x31]"] l show ?thesis by auto
qed

text \<open>
  C31. A garbage collection returns, with the same value under every name; when one sector at most is empty, no sector
  is dirty afterwards.
\<close>

theorem collection_keeps_values:
  assumes w: "working K e ss" and g: "gc_request e"
  shows "\<exists>e' ss'. gc_collect e = Some e' \<and> working K e' ss' \<and> kv ss' = kv ss \<and> \<not> gc_request e' \<and>
    (count_store SECTOR_STORE_EMPTY ss \<le> 1 \<longrightarrow> (\<forall>k < 4. a_dirty (ss' ! k) = SECTOR_DIRTY_FALSE))"
proof -
  have c: "collecting e" using w g by (simp add: working_def collecting_def)
  from gc_collect_spec [OF _ c, of K ss] w obtain e' ss' where
    "gc_collect e = Some e'" "store K e' ss'" "kv ss' = kv ss" "\<not> gc_request e'" "\<not> in_recovery_check e'"
      "last_is_complete_del e' \<longrightarrow> last_is_complete_del e" "tidy ss'" "has_empty ss'"
      "if count_store SECTOR_STORE_EMPTY ss \<le> 1 then \<forall>k < 4. a_dirty (ss' ! k) = SECTOR_DIRTY_FALSE else ss' = ss"
    unfolding working_def by blast
  with w show ?thesis by (intro exI [of _ e'] exI [of _ ss']) (auto simp: working_def)
qed

lemma collection_keeps_values_witness:
  "\<exists>e ss e' ss'. gc_collect e = Some e' \<and> working (set firmware_keys) e ss \<and> gc_request e \<and>
    kv ss' = [boot_times_key \<mapsto> [0x30]] \<and> working (set firmware_keys) e' ss'"
proof -
  let ?K = "set firmware_keys"
  obtain e where "firmware_store e [boot_times_key \<mapsto> [0x30]]" using first_start_firmware [OF zero_chip] by blast
  then obtain ss where w: "working ?K e ss" "kv ss = [boot_times_key \<mapsto> [0x30]]"
    by (auto simp: firmware_store_def healthy_def holds_def)
  let ?e = "e\<lparr>gc_request := True\<rparr>"
  have "store ?K ?e ss" using w(1) store_cong [of ?e e] by (simp add: working_def)
  then have w1: "working ?K ?e ss" using w(1) by (simp add: working_def)
  have g: "gc_request ?e" by simp
  from collection_keeps_values [OF w1 g] w(2) w1 g show ?thesis by metis
qed

text \<open>
  Whatever the chip holds, as long as no sector has the magic word, the first start formats it, writes the default
  set and leaves a store in order.
\<close>

theorem first_start_default:
  assumes "\<forall>j < 4. no_magic m j"
  shows "\<exists>e. ef_env_init (cold_unit m) = Some (EF_NO_ERR, e) \<and> healthy (set firmware_keys) e [boot_times_key \<mapsto> [0x30]]"
  by (rule first_start_lemma [OF assms firmware_names_ok firmware_count(2)])

lemma first_start_default_witness:
  "\<exists>e. ef_env_init (cold_unit (\<lambda>_. 0)) = Some (EF_NO_ERR, e) \<and> healthy (set firmware_keys) e [boot_times_key \<mapsto> [0x30]]"
  by (rule first_start_default [OF zero_chip])

text \<open>
  C32. A restart between two calls loads the values the store held, without changing the chip, also when a collection
  was due.
\<close>

theorem values_survive_restart:
  assumes "holds K e m"
  shows "\<exists>e'. ef_env_init (cold_unit (chip e)) = Some (EF_NO_ERR, e') \<and> healthy K e' m \<and> chip e' = chip e"
  by (rule restart_lemma [OF assms])

lemma values_survive_restart_witness:
  "\<exists>e e'. holds (set firmware_keys) e [boot_times_key \<mapsto> [0x30]] \<and> ef_env_init (cold_unit (chip e)) = Some (EF_NO_ERR, e') \<and>
    chip e' = chip e"
proof -
  obtain e where "firmware_store e [boot_times_key \<mapsto> [0x30]]" using first_start_firmware [OF zero_chip] by blast
  then have h: "holds (set firmware_keys) e [boot_times_key \<mapsto> [0x30]]" by (simp add: firmware_store_def healthy_holds)
  from values_survive_restart [OF h] h show ?thesis by blast
qed

text \<open>
  C29. A loss of power before the new entry of a change is begun loses nothing. Setting a name of the firmware that has a
  value, to one no shorter and of at most 64 bytes, goes through these steps: choosing the place (a garbage collection
  included), finding the old entry, marking it, marking its sector dirty; then \<open>set_env\<close> creates the new entry, deletes the
  old one and collects garbage when asked to. From the chip as each of the first four steps leaves it the next start
  restores the old value, and every other name keeps its own. A loss of power inside the garbage collection or inside
  \<open>create_env_blob\<close> is not covered: after the latter the name may read as absent at the next start, because the recovery
  (\<open>check_and_recovery_env_cb\<close>) stops at the unfinished entry.
\<close>

theorem interrupted_change_restored:
  assumes s: "firmware_store e m" and k: "key \<in> set firmware_keys"
    and v: "m key = Some old" "length old \<le> length new" "length new \<le> 64"
  shows "\<exists>a sm e1 env e2 e3 e4.
    new_env_by_kv blank_sector (length key) (length new) e = Some (a, sm, e1) \<and> a \<noteq> FAILED_ADDR \<and>
    find_env key blank_node e1 = Some (True, env, e2) \<and>
    del_status (Some key) env False e2 = Some (EF_NO_ERR, e3) \<and>
    del_old_env (Some key) env False e2 = Some (EF_NO_ERR, e4) \<and>
    set_env key (Some new) e =
      do { (result, sector, e) \<leftarrow> create_env_blob sm key new e4;
           (result, e) \<leftarrow> (if result = EF_NO_ERR then del_old_env (Some key) env True e else Some (result, e));
           e \<leftarrow> (if gc_request e then gc_collect e else Some e);
           Some (result, e) } \<and>
    (\<forall>c \<in> {chip e1, chip e2, chip e3, chip e4}. \<exists>e'. ef_env_init (cold_unit c) = Some (EF_NO_ERR, e') \<and> firmware_store e' m)"
proof -
  have h: "healthy (set firmware_keys) e m" and m: "firmware_map m" using s by (simp_all add: firmware_store_def)
  have kl: "4 \<le> length key" "length key \<le> 10" using k firmware_key_length by simp_all
  have nul: "0 \<notin> set key" using k firmware_key_chars by simp
  have room: "stored_size m + 3 * max (env_size (key, new)) 56 < 12240"
    using firmware_map_size [OF m] kl v(3) by (simp add: env_size_def max_def)
  from begun_lemma [OF h k nul v(1,2) _ _ room] kl v(3) obtain a sm e1 env e2 e3 e4 where
    b: "new_env_by_kv blank_sector (length key) (length new) e = Some (a, sm, e1)" "a \<noteq> FAILED_ADDR"
      "find_env key blank_node e1 = Some (True, env, e2)" "del_status (Some key) env False e2 = Some (EF_NO_ERR, e3)"
      "del_old_env (Some key) env False e2 = Some (EF_NO_ERR, e4)"
      "\<forall>c \<in> {chip e1, chip e2, chip e3, chip e4}. \<exists>e'. ef_env_init (cold_unit c) = Some (EF_NO_ERR, e') \<and> healthy (set firmware_keys) e' m"
    by auto
  moreover from b(6) m have "\<forall>c \<in> {chip e1, chip e2, chip e3, chip e4}.
      \<exists>e'. ef_env_init (cold_unit c) = Some (EF_NO_ERR, e') \<and> firmware_store e' m"
    by (auto simp: firmware_store_def)
  ultimately show ?thesis by (intro exI conjI) (assumption | simp add: set_env_def)+
qed

lemma interrupted_change_restored_witness:
  "\<exists>e a sm e1 env e2 e3 e'. firmware_store e [boot_times_key \<mapsto> [0x30]] \<and>
    new_env_by_kv blank_sector (length boot_times_key) 1 e = Some (a, sm, e1) \<and>
    find_env boot_times_key blank_node e1 = Some (True, env, e2) \<and>
    del_status (Some boot_times_key) env False e2 = Some (EF_NO_ERR, e3) \<and>
    ef_env_init (cold_unit (chip e3)) = Some (EF_NO_ERR, e') \<and> firmware_store e' [boot_times_key \<mapsto> [0x30]]"
proof -
  obtain e where e: "firmware_store e [boot_times_key \<mapsto> [0x30]]" using first_start_firmware [OF zero_chip] by blast
  from interrupted_change_restored [OF e firmware_count(2), of "[0x30]" "[0x31]"] e show ?thesis by auto
qed

end
